(* ===== verification/Prelude.thy ===== *)
theory Prelude
  imports Complex_Main "HOL-Library.AList" "HOL-Library.List_Lexorder" "HOL-Library.Char_ord"
    "HOL-Library.Multiset"
begin

section \<open>The JavaScript the program is written in\<close>

text \<open>
  What every component theory shares: optional values and truthiness, strings and
  \<open>trim\<close>, numbers, the insertion-ordered \<open>Map\<close>, the stable \<open>sort\<close> of an array, thrown
  errors as values, and the lemmas about them that carry the component proofs.

  Strings are lists of code units below 256 (\<^typ>\<open>char\<close>): the relational operators of
  the language compare strings by code unit, which is the list order of
  HOL-Library.List_Lexorder over HOL-Library.Char_ord. \<open>undefined\<close> and \<open>null\<close>
  are both \<^term>\<open>None\<close>: the code reads its optional fields through \<open>??\<close>, \<open>?.\<close> and
  truth tests only, which do not tell them apart.
\<close>

named_theorems js_defs \<open>definitions of the JavaScript operations, for evaluation\<close>

subsection \<open>Errors\<close>

datatype js_error = RangeError | ErrorMsg string

type_synonym ('s, 'a) js_op = "'s \<Rightarrow> (js_error + 'a) \<times> 's"

text \<open>A loop that computes one value per element; the first throw ends it.\<close>

fun js_traverse :: "('a \<Rightarrow> js_error + 'b) \<Rightarrow> 'a list \<Rightarrow> js_error + 'b list" where
  "js_traverse f [] = Inr []"
| "js_traverse f (x # xs) =
     (case f x of Inl e \<Rightarrow> Inl e
      | Inr y \<Rightarrow> (case js_traverse f xs of Inl e \<Rightarrow> Inl e | Inr ys \<Rightarrow> Inr (y # ys)))"

lemma js_traverse_map:
  "(\<And>x. x \<in> set xs \<Longrightarrow> f x = Inr (g x)) \<Longrightarrow> js_traverse f xs = Inr (List.map g xs)"
  by (induction xs) auto

lemma js_traverse_Inr:
  "js_traverse f xs = Inr ys \<Longrightarrow> list_all2 (\<lambda>x y. f x = Inr y) xs ys"
  by (induction xs arbitrary: ys) (auto split: sum.splits)

subsection \<open>Optional values and truthiness\<close>

definition or_else :: "'a option \<Rightarrow> 'a \<Rightarrow> 'a" where
  "or_else x d = (case x of None \<Rightarrow> d | Some v \<Rightarrow> v)"

definition or_opt :: "'a option \<Rightarrow> 'a option \<Rightarrow> 'a option" where
  "or_opt x y = (case x of None \<Rightarrow> y | Some v \<Rightarrow> Some v)"

fun truthy :: "string option \<Rightarrow> bool" where
  "truthy None = False"
| "truthy (Some s) = (s \<noteq> [])"

definition to_truthy :: "string \<Rightarrow> string option" where
  "to_truthy s = (if s = [] then None else Some s)"

lemma or_else_simps [simp]: "or_else None d = d" "or_else (Some v) d = v"
  by (simp_all add: or_else_def)

lemma or_opt_simps [simp]: "or_opt None y = y" "or_opt (Some v) y = Some v" "or_opt x None = x"
  by (auto simp: or_opt_def split: option.splits)

lemma truthy_iff: "truthy x \<longleftrightarrow> (\<exists>s. x = Some s \<and> s \<noteq> [])"
  by (cases x) auto

lemma to_truthy_simps [simp]: "to_truthy [] = None" "to_truthy (c # s) = Some (c # s)"
  by (simp_all add: to_truthy_def)

lemma to_truthy_eq_Some [simp]: "to_truthy s = Some t \<longleftrightarrow> s = t \<and> s \<noteq> []"
  by (auto simp: to_truthy_def)

lemma to_truthy_eq_None [simp]: "to_truthy s = None \<longleftrightarrow> s = []"
  by (auto simp: to_truthy_def)

subsection \<open>Strings\<close>

text \<open>The white space and line terminators of \<open>String.prototype.trim\<close> below U+0100.\<close>

definition js_space :: "char \<Rightarrow> bool" where
  "js_space c \<longleftrightarrow> of_char c \<in> {9, 10, 11, 12, 13, 32, 160 :: nat}"

definition js_trim :: "string \<Rightarrow> string" where
  "js_trim s = rev (dropWhile js_space (rev (dropWhile js_space s)))"

definition trim_opt :: "string option \<Rightarrow> string option" where
  "trim_opt x = (case x of None \<Rightarrow> None | Some s \<Rightarrow> to_truthy (js_trim s))"

lemma length_dropWhile_less [termination_simp]: "length (dropWhile P xs) < Suc (length xs)"
  by (simp add: le_imp_less_Suc length_dropWhile_le)

lemma js_trim_Nil [simp]: "js_trim [] = []"
  by (simp add: js_trim_def)

lemma trim_opt_None [simp]: "trim_opt None = None"
  by (simp add: trim_opt_def)

lemma hd_dropWhile_rev_dropWhile:
  assumes "xs \<noteq> []" and "\<not> P (hd xs)"
  shows "rev (dropWhile P (rev xs)) \<noteq> []" and "hd (rev (dropWhile P (rev xs))) = hd xs"
proof -
  from assms obtain y ys where xs: "xs = y # ys" and y: "\<not> P y" by (cases xs) auto
  have "dropWhile P (rev ys @ [y]) = dropWhile P (rev ys) @ [y]"
    using y by (induction "rev ys") (simp_all add: dropWhile_append)
  then show "rev (dropWhile P (rev xs)) \<noteq> []" and "hd (rev (dropWhile P (rev xs))) = hd xs"
    by (simp_all add: xs)
qed

lemma js_trim_idem [simp]: "js_trim (js_trim s) = js_trim s"
proof -
  let ?l = "dropWhile js_space s"
  let ?t = "rev (dropWhile js_space (rev ?l))"
  have *: "dropWhile js_space ?t = ?t"
  proof (cases "?l = []")
    case False
    then have "\<not> js_space (hd ?l)" by (rule hd_dropWhile)
    with False have "?t \<noteq> []" and "hd ?t = hd ?l"
      by (rule hd_dropWhile_rev_dropWhile)+
    with \<open>\<not> js_space (hd ?l)\<close> show ?thesis by (cases ?t) auto
  qed (simp only: dropWhile.simps rev.simps)
  show ?thesis by (simp add: js_trim_def * del: dropWhile_eq_self_iff)
qed

lemma js_trim_ends:
  assumes "js_trim s = c # cs"
  shows "\<not> js_space c" and "\<not> js_space (last (c # cs))"
proof -
  let ?l = "dropWhile js_space s"
  let ?r = "dropWhile js_space (rev ?l)"
  from assms have r: "rev ?r = c # cs" by (simp add: js_trim_def)
  then have "?r \<noteq> []" by auto
  then have "\<not> js_space (hd ?r)" by (rule hd_dropWhile)
  moreover have "hd ?r = last (c # cs)"
    using r by (metis hd_rev last_rev rev_rev_ident)
  ultimately show "\<not> js_space (last (c # cs))" by simp
  have "?l \<noteq> []"
  proof
    assume "?l = []"
    with r show False by simp
  qed
  then have "\<not> js_space (hd ?l)" by (rule hd_dropWhile)
  moreover from \<open>?l \<noteq> []\<close> this have "hd (rev ?r) = hd ?l"
    by (rule hd_dropWhile_rev_dropWhile)
  ultimately show "\<not> js_space c" using r by simp
qed

text \<open>\<open>toLowerCase\<close> on the letters of ASCII and Latin-1.\<close>

definition lower_char :: "char \<Rightarrow> char" where
  "lower_char c =
     (let n = of_char c :: nat
      in if 65 \<le> n \<and> n \<le> 90 \<or> 192 \<le> n \<and> n \<le> 222 \<and> n \<noteq> 215 then char_of (n + 32) else c)"

definition to_lower :: "string \<Rightarrow> string" where
  "to_lower s = List.map lower_char s"

definition starts_with :: "string \<Rightarrow> string \<Rightarrow> bool" where
  "starts_with p s \<longleftrightarrow> take (length p) s = p"

text \<open>\<open>s.includes(p)\<close>\<close>

fun js_includes :: "string \<Rightarrow> string \<Rightarrow> bool" where
  "js_includes p [] = (p = [])"
| "js_includes p (c # s) = (starts_with p (c # s) \<or> js_includes p s)"

text \<open>\<open>s.replace(/\<close>\<^verbatim>\<open>\s+\<close>\<open>/g, " ")\<close>: every run of white space becomes one blank.\<close>

fun squash_spaces :: "string \<Rightarrow> string" where
  "squash_spaces [] = []"
| "squash_spaces (c # s) =
     (if js_space c then CHR '' '' # squash_spaces (dropWhile js_space s) else c # squash_spaces s)"

lemma starts_with_append: "starts_with p s \<longleftrightarrow> (\<exists>r. s = p @ r)"
proof
  assume "starts_with p s"
  then have "s = p @ drop (length p) s" unfolding starts_with_def by (metis append_take_drop_id)
  then show "\<exists>r. s = p @ r" ..
qed (auto simp: starts_with_def)

lemma js_includes_iff: "js_includes p s \<longleftrightarrow> (\<exists>l r. s = l @ p @ r)"
proof (induction s)
  case (Cons c s)
  show ?case unfolding js_includes.simps Cons.IH starts_with_append
    by (metis append_Cons append_Nil list.exhaust list.inject)
qed simp

text \<open>An integer in a template literal: its decimal digits, with a sign.\<close>

fun nat_digits :: "nat \<Rightarrow> nat list" where
  "nat_digits n = (if n < 10 then [n] else nat_digits (n div 10) @ [n mod 10])"

declare nat_digits.simps [simp del]

definition digit_string :: "nat \<Rightarrow> string" where
  "digit_string n = List.map (\<lambda>d. char_of (48 + d)) (nat_digits n)"

definition int_string :: "int \<Rightarrow> string" where
  "int_string i = (if i < 0 then ''-'' @ digit_string (nat (- i)) else digit_string (nat i))"

lemma nat_digits_bound: "\<forall>d \<in> set (nat_digits n). d < 10"
proof (induction n rule: nat_digits.induct)
  case (1 n)
  then show ?case by (subst nat_digits.simps) auto
qed

lemma nat_digits_value: "foldl (\<lambda>a d. 10 * a + d) 0 (nat_digits n) = n"
proof (induction n rule: nat_digits.induct)
  case (1 n)
  then show ?case by (subst nat_digits.simps) auto
qed

lemma of_char_digit_char: "d < 10 \<Longrightarrow> of_char (char_of (48 + d) :: char) = (48 + d :: nat)"
  by (simp add: of_char_of take_bit_eq_mod)

lemma digit_string_chars:
  assumes "c \<in> set (digit_string n)" shows "48 \<le> (of_char c :: nat) \<and> (of_char c :: nat) < 58"
  using assms nat_digits_bound[of n] by (auto simp: digit_string_def of_char_digit_char)

lemma digit_string_neq_Nil: "digit_string n \<noteq> []"
  unfolding digit_string_def by (subst nat_digits.simps) simp

lemma digit_string_inj: "digit_string m = digit_string n \<Longrightarrow> m = n"
proof -
  assume eq: "digit_string m = digit_string n"
  have "List.map (\<lambda>c. of_char c - 48) (digit_string k) = nat_digits k" for k
    using nat_digits_bound[of k]
    by (auto simp: digit_string_def of_char_digit_char intro!: map_idI)
  then have "nat_digits m = nat_digits n" using eq by metis
  then show "m = n" using nat_digits_value by metis
qed

lemma int_string_no_colon [simp]: "CHR '':'' \<notin> set (int_string i)"
  using digit_string_chars[of "CHR '':''" "nat (- i)"] digit_string_chars[of "CHR '':''" "nat i"]
  by (auto simp: int_string_def)

lemma int_string_inj: "int_string i = int_string j \<longleftrightarrow> i = j"
proof -
  have sign: "digit_string m \<noteq> CHR ''-'' # s" for m s
    using digit_string_chars[of "CHR ''-''" m] by auto
  have "int_string i = int_string j \<Longrightarrow> i = j"
    using sign sign[symmetric] digit_string_inj by (fastforce simp: int_string_def split: if_splits)
  then show ?thesis by blast
qed

subsection \<open>Numbers\<close>

text \<open>
  A number read from outside (an environment variable, an option of a caller) may be
  anything a JavaScript number is; finite doubles are rationals. Rounding of the double
  operations is not modelled: the code divides and multiplies small integers only.
\<close>

datatype js_num = NaN | PosInf | NegInf | Num rat

fun is_finite :: "js_num \<Rightarrow> bool" where
  "is_finite (Num _) = True"
| "is_finite _ = False"

fun js_le :: "js_num \<Rightarrow> js_num \<Rightarrow> bool" where
  "js_le NaN _ = False"
| "js_le _ NaN = False"
| "js_le NegInf _ = True"
| "js_le _ PosInf = True"
| "js_le (Num a) (Num b) = (a \<le> b)"
| "js_le _ _ = False"

definition int_num :: "int \<Rightarrow> js_num" where
  "int_num n = Num (of_int n)"

text \<open>\<open>Math.max(lo, Math.min(Math.floor(x), hi))\<close> on a finite number.\<close>

definition clamp_floor :: "int \<Rightarrow> int \<Rightarrow> rat \<Rightarrow> int" where
  "clamp_floor lo hi x = max lo (min \<lfloor>x\<rfloor> hi)"

lemma clamp_floor_bounds: "lo \<le> hi \<Longrightarrow> lo \<le> clamp_floor lo hi x \<and> clamp_floor lo hi x \<le> hi"
  by (auto simp: clamp_floor_def)

lemma clamp_floor_of_int [simp]: "clamp_floor lo hi (of_int n) = max lo (min n hi)"
  by (simp add: clamp_floor_def)

subsection \<open>Maps\<close>

text \<open>
  A \<open>Map\<close> iterates in insertion order, which the code observes (\<open>values()\<close>,
  \<open>find\<close>): it is an association list with distinct keys. \<open>set\<close> is \<^const>\<open>AList.update\<close>
  (in place for a known key, appended for a new one), \<open>get\<close> is \<^const>\<open>map_of\<close>,
  \<open>delete\<close> is \<^const>\<open>AList.delete\<close>. A loop that mutates the stored objects is
  \<open>map_vals\<close>.
\<close>

type_synonym ('k, 'v) js_map = "('k \<times> 'v) list"

abbreviation js_set :: "'k \<Rightarrow> 'v \<Rightarrow> ('k, 'v) js_map \<Rightarrow> ('k, 'v) js_map" where
  "js_set k v m \<equiv> AList.update k v m"

abbreviation js_values :: "('k, 'v) js_map \<Rightarrow> 'v list" where
  "js_values m \<equiv> List.map snd m"

abbreviation js_keys :: "('k, 'v) js_map \<Rightarrow> 'k list" where
  "js_keys m \<equiv> List.map fst m"

definition map_vals :: "('v \<Rightarrow> 'v) \<Rightarrow> ('k, 'v) js_map \<Rightarrow> ('k, 'v) js_map" where
  "map_vals f m = List.map (\<lambda>(k, v). (k, f v)) m"

definition delete_where :: "('k \<Rightarrow> 'v \<Rightarrow> bool) \<Rightarrow> ('k, 'v) js_map \<Rightarrow> ('k, 'v) js_map" where
  "delete_where P m = List.filter (\<lambda>(k, v). \<not> P k v) m"

definition js_map_of_list :: "('k \<times> 'v) list \<Rightarrow> ('k, 'v) js_map" where
  "js_map_of_list ps = fold (\<lambda>(k, v) m. js_set k v m) ps []"

lemma map_of_js_set [simp]: "map_of (js_set k v m) = (map_of m)(k \<mapsto> v)"
  by (simp add: update_conv')

lemma map_of_js_delete [simp]: "map_of (AList.delete k m) = (map_of m)(k := None)"
  by (simp add: delete_conv')

lemma js_keys_delete: "js_keys (AList.delete k m) = List.filter (\<lambda>x. x \<noteq> k) (js_keys m)"
  by (induction m) (auto simp: AList.delete_eq)

lemma distinct_js_delete [simp]: "distinct (js_keys m) \<Longrightarrow> distinct (js_keys (AList.delete k m))"
  by (simp add: js_keys_delete)

lemma distinct_js_set [simp]: "distinct (js_keys m) \<Longrightarrow> distinct (js_keys (js_set k v m))"
  by (rule distinct_update)

lemma map_of_map_vals [simp]: "map_of (map_vals f m) k = map_option f (map_of m k)"
  by (induction m) (auto simp: map_vals_def)

lemma js_keys_map_vals [simp]: "js_keys (map_vals f m) = js_keys m"
  by (simp add: map_vals_def comp_def case_prod_unfold)

lemma set_map_vals [simp]: "set (map_vals f m) = (\<lambda>(k, v). (k, f v)) ` set m"
  by (simp add: map_vals_def)

lemma distinct_delete_where [simp]:
  "distinct (js_keys m) \<Longrightarrow> distinct (js_keys (delete_where P m))"
  by (simp add: delete_where_def distinct_map_filter)

lemma map_of_delete_where [simp]:
  assumes "distinct (js_keys m)"
  shows "map_of (delete_where P m) k =
    (case map_of m k of None \<Rightarrow> None | Some v \<Rightarrow> if P k v then None else Some v)"
  using assms
  by (induction m) (auto simp: delete_where_def map_of_eq_None_iff split: option.splits)

lemma set_delete_where [simp]: "set (delete_where P m) = {(k, v) \<in> set m. \<not> P k v}"
  by (auto simp: delete_where_def)

lemma filter_delete_values:
  "List.filter P (js_values (delete_where (\<lambda>_. Q) m)) = List.filter (\<lambda>v. P v \<and> \<not> Q v) (js_values m)"
  by (induction m) (auto simp: delete_where_def)

lemma set_js_set:
  "distinct (js_keys m) \<Longrightarrow> set (js_set k v m) = {(j, u) \<in> set m. j \<noteq> k} \<union> {(k, v)}"
  by (induction m) (auto simp: image_iff)

lemma ran_map_of: "distinct (js_keys m) \<Longrightarrow> set (js_values m) = ran (map_of m)"
  by (simp add: ran_distinct)

lemma mem_js_values:
  "distinct (js_keys m) \<Longrightarrow> u \<in> set (js_values m) \<longleftrightarrow> (\<exists>k. map_of m k = Some u)"
  by (force simp: image_iff)

subsection \<open>Groups\<close>

text \<open>A \<open>Map\<close> from the key of an element to the elements with that key, filled in order.\<close>

definition js_group :: "('a \<Rightarrow> 'k) \<Rightarrow> 'a list \<Rightarrow> ('k, 'a list) js_map" where
  "js_group key xs = fold (\<lambda>x m. js_set (key x) (or_else (map_of m (key x)) [] @ [x]) m) xs []"

lemma js_group_snoc:
  "js_group key (xs @ [x]) = js_set (key x) (or_else (map_of (js_group key xs) (key x)) [] @ [x]) (js_group key xs)"
  by (simp add: js_group_def)

lemma distinct_js_group [simp]: "distinct (js_keys (js_group key xs))"
  by (induction xs rule: rev_induct) (simp_all add: js_group_snoc, simp add: js_group_def)

lemma map_of_js_group:
  "map_of (js_group key xs) k =
     (if List.filter (\<lambda>x. key x = k) xs = [] then None else Some (List.filter (\<lambda>x. key x = k) xs))"
proof (induction xs rule: rev_induct)
  case Nil
  then show ?case by (simp add: js_group_def)
next
  case (snoc x xs)
  then show ?case by (auto simp: js_group_snoc)
qed

lemma js_group_keys: "set (js_keys (js_group key xs)) = key ` set xs"
proof -
  have "k \<in> set (js_keys (js_group key xs)) \<longleftrightarrow> k \<in> key ` set xs" for k
  proof -
    have "k \<in> set (js_keys (js_group key xs)) \<longleftrightarrow> map_of (js_group key xs) k \<noteq> None"
      by (metis map_of_eq_None_iff set_map)
    also have "\<dots> \<longleftrightarrow> List.filter (\<lambda>x. key x = k) xs \<noteq> []"
      unfolding map_of_js_group by (simp only: option.distinct split: if_split) blast
    also have "\<dots> \<longleftrightarrow> k \<in> key ` set xs" by (auto simp: filter_empty_conv)
    finally show ?thesis .
  qed
  then show ?thesis by blast
qed

subsection \<open>Sorting\<close>

text \<open>
  \<open>Array.prototype.sort\<close> with a comparator is stable: equal elements keep their order.
  Inserting the elements one by one, each after the elements that do not compare greater,
  is the reference. For a consistent comparator every stable sort has this result.
\<close>

fun sort_insert :: "('a \<Rightarrow> 'a \<Rightarrow> int) \<Rightarrow> 'a \<Rightarrow> 'a list \<Rightarrow> 'a list" where
  "sort_insert cmp x [] = [x]"
| "sort_insert cmp x (y # ys) =
     (if cmp x y < 0 then x # y # ys else y # sort_insert cmp x ys)"

definition js_sort :: "('a \<Rightarrow> 'a \<Rightarrow> int) \<Rightarrow> 'a list \<Rightarrow> 'a list" where
  "js_sort cmp xs = fold (sort_insert cmp) xs []"

lemma mset_sort_insert [simp]: "mset (sort_insert cmp x ys) = add_mset x (mset ys)"
  by (induction ys) auto

lemma mset_js_sort [simp]: "mset (js_sort cmp xs) = mset xs"
proof -
  have "mset (fold (sort_insert cmp) xs acc) = mset xs + mset acc" for acc
    by (induction xs arbitrary: acc) auto
  then show ?thesis by (simp add: js_sort_def)
qed

lemma set_js_sort [simp]: "set (js_sort cmp xs) = set xs"
  by (metis mset_js_sort set_mset_mset)

lemma length_js_sort [simp]: "length (js_sort cmp xs) = length xs"
  by (metis mset_js_sort size_mset)

lemma distinct_js_sort [simp]: "distinct (js_sort cmp xs) = distinct xs"
  by (rule mset_eq_imp_distinct_iff) simp

lemma js_sort_Nil [simp]: "js_sort cmp [] = []"
  by (simp add: js_sort_def)

text \<open>Sorting with any comparison that agrees with a total order on the list puts its least element first.\<close>

lemma sort_insert_least:
  assumes "\<And>x y. x \<in> set (a # xs) \<Longrightarrow> y \<in> set (a # xs) \<Longrightarrow> x \<noteq> y \<Longrightarrow> cmp x y < 0 \<longleftrightarrow> lt x y"
    and "\<And>x y z. lt x y \<Longrightarrow> lt y z \<Longrightarrow> lt x z" and "a \<notin> set xs" and "distinct xs"
    and "\<And>x y. x \<in> set (a # xs) \<Longrightarrow> y \<in> set (a # xs) \<Longrightarrow> x \<noteq> y \<Longrightarrow> lt x y \<or> lt y x"
    and "sorted_wrt lt xs"
  shows "sorted_wrt lt (sort_insert cmp a xs)"
  using assms(1,3,4,5,6)
proof (induction xs)
  case (Cons x xs)
  have "set (sort_insert cmp a xs) = insert a (set xs)"
    by (metis mset_sort_insert set_mset_add_mset_insert set_mset_mset)
  moreover have "lt x y" if "y \<in> set xs" for y using Cons.prems(5) that by simp
  moreover have ax: "cmp a x < 0 \<longleftrightarrow> lt a x" using Cons.prems(1)[of a x] Cons.prems(2) by auto
  moreover have "\<not> lt a x \<Longrightarrow> lt x a" using Cons.prems(4)[of a x] Cons.prems(2) by auto
  moreover have "sorted_wrt lt (sort_insert cmp a xs)"
    using Cons.prems by (intro Cons.IH) auto
  ultimately show ?case using Cons.prems(5) assms(2) by auto
qed simp

lemma js_sort_by_order:
  assumes "\<And>x y. x \<in> set xs \<Longrightarrow> y \<in> set xs \<Longrightarrow> x \<noteq> y \<Longrightarrow> cmp x y < 0 \<longleftrightarrow> lt x y"
    and "\<And>x y z. lt x y \<Longrightarrow> lt y z \<Longrightarrow> lt x z" and "distinct xs"
    and "\<And>x y. x \<in> set xs \<Longrightarrow> y \<in> set xs \<Longrightarrow> x \<noteq> y \<Longrightarrow> lt x y \<or> lt y x"
  shows "sorted_wrt lt (js_sort cmp xs)"
proof -
  have fold_set: "set (fold (sort_insert cmp) ys zs) = set ys \<union> set zs" for ys zs
  proof (induction ys arbitrary: zs)
    case (Cons y ys)
    have "set (sort_insert cmp y zs) = insert y (set zs)"
      by (metis mset_sort_insert set_mset_add_mset_insert set_mset_mset)
    with Cons show ?case by simp
  qed simp
  have "sorted_wrt lt (fold (sort_insert cmp) ys zs)"
    if "sorted_wrt lt zs" "distinct (ys @ zs)" "set ys \<union> set zs \<subseteq> set xs" for ys zs
    using that
  proof (induction ys arbitrary: zs)
    case (Cons y ys)
    have s: "set (sort_insert cmp y zs) = insert y (set zs)"
      by (metis mset_sort_insert set_mset_add_mset_insert set_mset_mset)
    have d: "distinct (sort_insert cmp y zs)"
      by (rule mset_eq_imp_distinct_iff[THEN iffD2, of _ "y # zs"]) (use Cons.prems(2) in auto)
    have "sorted_wrt lt (sort_insert cmp y zs)"
    proof (rule sort_insert_least[OF _ assms(2)])
      have sub: "set (y # zs) \<subseteq> set xs" using Cons.prems(3) by auto
      fix u v assume uv: "u \<in> set (y # zs)" "v \<in> set (y # zs)" "u \<noteq> v"
      show "cmp u v < 0 \<longleftrightarrow> lt u v" by (rule assms(1)[OF subsetD[OF sub uv(1)] subsetD[OF sub uv(2)] uv(3)])
      show "lt u v \<or> lt v u" by (rule assms(4)[OF subsetD[OF sub uv(1)] subsetD[OF sub uv(2)] uv(3)])
    qed (use Cons.prems in simp_all)
    then have "sorted_wrt lt (fold (sort_insert cmp) ys (sort_insert cmp y zs))"
      by (rule Cons.IH) (use Cons.prems s d in auto)
    then show ?case by simp
  qed simp
  from this[of "[]" xs] assms(3) show ?thesis by (simp add: js_sort_def)
qed

lemma js_sort_sorted:
  assumes "sorted_wrt (\<lambda>x y. \<not> cmp y x < 0) xs"
  shows "js_sort cmp xs = xs"
proof -
  have snoc: "\<forall>y \<in> set ys. \<not> cmp x y < 0 \<Longrightarrow> sort_insert cmp x ys = ys @ [x]" for x ys
    by (induction ys) auto
  have "fold (sort_insert cmp) xs ys = ys @ xs" if "sorted_wrt (\<lambda>x y. \<not> cmp y x < 0) (ys @ xs)" for ys
    using that
  proof (induction xs arbitrary: ys)
    case (Cons x xs)
    have "sort_insert cmp x ys = ys @ [x]" using Cons.prems by (intro snoc) (auto simp: sorted_wrt_append)
    with Cons.IH[of "ys @ [x]"] Cons.prems show ?case by simp
  qed simp
  from this[of "[]"] assms show ?thesis by (simp add: js_sort_def)
qed

text \<open>The interface of a comparator: the sign is antisymmetric and the order transitive.\<close>

locale comparator =
  fixes cmp :: "'a \<Rightarrow> 'a \<Rightarrow> int"
  assumes cmp_swap: "cmp x y < 0 \<longleftrightarrow> 0 < cmp y x"
    and cmp_trans: "cmp x y \<le> 0 \<Longrightarrow> cmp y z \<le> 0 \<Longrightarrow> cmp x z \<le> 0"
begin

lemma cmp_total: "cmp x y \<le> 0 \<or> cmp y x \<le> 0"
  using cmp_swap[of x y] by linarith

lemma cmp_refl: "cmp x x = 0"
  using cmp_swap[of x x] by linarith

lemma sorted_sort_insert:
  assumes "sorted_wrt (\<lambda>x y. cmp x y \<le> 0) ys"
  shows "sorted_wrt (\<lambda>x y. cmp x y \<le> 0) (sort_insert cmp x ys)"
  using assms
proof (induction ys)
  case (Cons y ys)
  have set_ins: "set (sort_insert cmp x ys) = insert x (set ys)"
    by (metis mset_sort_insert set_mset_add_mset_insert set_mset_mset)
  show ?case
  proof (cases "cmp x y < 0")
    case True
    with Cons.prems show ?thesis by (auto intro: cmp_trans[of x y])
  next
    case False
    then have "cmp y x \<le> 0" using cmp_swap[of x y] by (simp add: not_less cmp_swap)
    with False Cons show ?thesis by (auto simp: set_ins)
  qed
qed simp

lemma sorted_js_sort: "sorted_wrt (\<lambda>x y. cmp x y \<le> 0) (js_sort cmp xs)"
proof -
  have "sorted_wrt (\<lambda>x y. cmp x y \<le> 0) acc \<Longrightarrow>
    sorted_wrt (\<lambda>x y. cmp x y \<le> 0) (fold (sort_insert cmp) xs acc)" for acc
    by (induction xs arbitrary: acc) (auto intro: sorted_sort_insert)
  then show ?thesis by (simp add: js_sort_def)
qed

lemma js_sort_take_least:
  assumes "x \<in> set (take n (js_sort cmp xs))" and "y \<in> set (drop n (js_sort cmp xs))"
  shows "cmp x y \<le> 0"
  using sorted_js_sort[of xs] assms
  by (metis append_take_drop_id sorted_wrt_append)

end

text \<open>
  \<open>String.prototype.localeCompare\<close> is the collation of the host (its locale data is not
  in the repository): a parameter \<open>lc\<close> of the definitions that sort by it. What the code
  relies on is that it is a comparator.
\<close>

locale collation = comparator lc for lc :: "string \<Rightarrow> string \<Rightarrow> int"

definition code_unit_compare :: "string \<Rightarrow> string \<Rightarrow> int" where
  "code_unit_compare a b = (if a < b then -1 else if a = b then 0 else 1)"

interpretation code_units: collation code_unit_compare
  by unfold_locales (auto simp: code_unit_compare_def split: if_splits)

text \<open>\<open>f(a, b) || g(a, b)\<close>: the first comparison that is not zero.\<close>

definition cmp_then :: "int \<Rightarrow> int \<Rightarrow> int" where
  "cmp_then a b = (if a \<noteq> 0 then a else b)"

lemma comparator_then:
  assumes "comparator f" and "comparator g"
  shows "comparator (\<lambda>x y. cmp_then (f x y) (g x y))"
proof -
  have f: "f x y < 0 \<longleftrightarrow> 0 < f y x" "f x y \<le> 0 \<Longrightarrow> f y z \<le> 0 \<Longrightarrow> f x z \<le> 0" for x y z
    using assms(1) by (auto simp: comparator_def)
  have g: "g x y < 0 \<longleftrightarrow> 0 < g y x" "g x y \<le> 0 \<Longrightarrow> g y z \<le> 0 \<Longrightarrow> g x z \<le> 0" for x y z
    using assms(2) by (auto simp: comparator_def)
  show ?thesis
  proof
    fix x y z
    show "cmp_then (f x y) (g x y) < 0 \<longleftrightarrow> 0 < cmp_then (f y x) (g y x)"
      using f(1)[of x y] f(1)[of y x] g(1)[of x y] by (auto simp: cmp_then_def)
    assume xy: "cmp_then (f x y) (g x y) \<le> 0" and yz: "cmp_then (f y z) (g y z) \<le> 0"
    have fxy: "f x y \<le> 0" and fyz: "f y z \<le> 0"
      using xy yz by (auto simp: cmp_then_def split: if_splits)
    then have fxz: "f x z \<le> 0" by (rule f(2))
    show "cmp_then (f x z) (g x z) \<le> 0"
    proof (cases "f x z = 0")
      case True
      then have zx: "f z x \<le> 0" using f(1)[of x z] by simp
      have "f y x \<le> 0" using f(2)[OF fyz zx] .
      then have "f x y = 0" using fxy f(1)[of x y] by simp
      moreover have "f z y \<le> 0" using f(2)[OF zx fxy] .
      then have "f y z = 0" using fyz f(1)[of y z] by simp
      ultimately have "g x y \<le> 0" "g y z \<le> 0" using xy yz by (auto simp: cmp_then_def)
      then show ?thesis using True g(2) by (auto simp: cmp_then_def)
    next
      case False
      with fxz show ?thesis by (simp add: cmp_then_def)
    qed
  qed
qed

lemma comparator_on: "comparator f \<Longrightarrow> comparator (\<lambda>x y. f (h x) (h y))"
  by (simp add: comparator_def)

lemma comparator_swap: "comparator f \<Longrightarrow> comparator (\<lambda>x y. f y x)"
  unfolding comparator_def by blast

lemma comparator_int: "comparator (\<lambda>x y. f x - (f y :: int))"
  by unfold_locales auto

lemmas comparator_intros = comparator_then comparator_on comparator_swap comparator_int

end
