(* ===== verification/JsDate.thy ===== *)
theory JsDate
  imports Prelude
begin

section \<open>Instants, calendars and ISO stamps\<close>

text \<open>
  The program keeps every time as the string \<open>Date.prototype.toISOString\<close> writes and
  compares these strings with \<open><\<close>, \<open>>\<close> and \<open>localeCompare\<close>; it goes through
  \<open>Date.parse\<close> only to add milliseconds. This theory models the three library operations
  (the civil calendar of the ECMAScript \<open>Day\<close>/\<open>YearFromTime\<close>/\<open>MakeDay\<close>
  algorithms, \<open>toISOString\<close>, and \<open>Date.parse\<close> on the strings \<open>toISOString\<close> writes)
  and proves what the code relies on: parsing undoes printing, and for the years 0 to 9999
  the order of the strings is the order of the instants. \<open>Date.parse\<close> of any other
  string (shorter ISO forms, the formats an implementation may add) is \<^term>\<open>None\<close> (NaN)
  here: the program stores no such stamp.
\<close>

subsection \<open>The civil calendar\<close>

definition leap :: "int \<Rightarrow> bool" where
  "leap y \<longleftrightarrow> y mod 4 = 0 \<and> (y mod 100 \<noteq> 0 \<or> y mod 400 = 0)"

definition leap_day :: "int \<Rightarrow> int" where
  "leap_day y = (if leap y then 1 else 0)"

definition day_from_year :: "int \<Rightarrow> int" where
  "day_from_year y =
     365 * (y - 1970) + (y - 1969) div 4 - (y - 1901) div 100 + (y - 1601) div 400"

definition year_from_day :: "int \<Rightarrow> int" where
  "year_from_day d =
     (let y = 1970 + (d * 400) div 146097
      in if day_from_year (y + 1) \<le> d then y + 1 else if day_from_year y \<le> d then y else y - 1)"

text \<open>Months are numbered from 0; \<open>l\<close> is 1 in a leap year, 0 otherwise.\<close>

definition month_start :: "int \<Rightarrow> int \<Rightarrow> int" where
  "month_start l m =
     (if m \<le> 0 then 0 else if m = 1 then 31 else if m = 2 then 59 + l else if m = 3 then 90 + l
      else if m = 4 then 120 + l else if m = 5 then 151 + l else if m = 6 then 181 + l
      else if m = 7 then 212 + l else if m = 8 then 243 + l else if m = 9 then 273 + l
      else if m = 10 then 304 + l else if m = 11 then 334 + l else 365 + l)"

definition month_from_yday :: "int \<Rightarrow> int \<Rightarrow> int" where
  "month_from_yday l n =
     (if n < 31 then 0 else if n < 59 + l then 1 else if n < 90 + l then 2 else if n < 120 + l then 3
      else if n < 151 + l then 4 else if n < 181 + l then 5 else if n < 212 + l then 6
      else if n < 243 + l then 7 else if n < 273 + l then 8 else if n < 304 + l then 9
      else if n < 334 + l then 10 else 11)"

definition civil_from_day :: "int \<Rightarrow> int \<times> int \<times> int" where
  "civil_from_day d =
     (let y = year_from_day d; n = d - day_from_year y; m = month_from_yday (leap_day y) n
      in (y, m, n - month_start (leap_day y) m + 1))"

text \<open>\<open>MakeDay\<close>: the month may lie outside 0 to 11 and the day of the month outside the month.\<close>

definition make_day :: "int \<Rightarrow> int \<Rightarrow> int \<Rightarrow> int" where
  "make_day y m dt =
     (let y' = y + m div 12
      in day_from_year y' + month_start (leap_day y') (m mod 12) + dt - 1)"

lemma leap_day_bounds: "0 \<le> leap_day y \<and> leap_day y \<le> 1"
  by (simp add: leap_day_def)

lemma div_bounds: "0 < c \<Longrightarrow> c * (x div c) \<le> x \<and> x < c * (x div c) + c" for x c :: int
  by (metis add.commute add_strict_right_mono mult_div_mod_eq pos_mod_bound pos_mod_sign
      le_add_same_cancel2)

lemma div_Suc: "0 < c \<Longrightarrow> (x + 1) div c = x div c + (if (x + 1) mod c = 0 then 1 else 0)"
  for x c :: int
proof -
  assume c: "0 < c"
  have "x + 1 = c * (x div c) + (x mod c + 1)" by (simp add: mult.commute)
  then have div: "(x + 1) div c = x div c + (x mod c + 1) div c" and
    mod: "(x + 1) mod c = (x mod c + 1) mod c"
    using c by (metis add.commute div_mult_self2 order_less_irrefl, metis mod_add_left_eq)
  have "x mod c + 1 \<le> c" and "0 < x mod c + 1" using c pos_mod_bound[OF c, of x] pos_mod_sign[OF c, of x] by auto
  moreover have "x mod c + 1 \<noteq> 0" using \<open>0 < x mod c + 1\<close> by simp
  ultimately have "(x mod c + 1) div c = (if (x mod c + 1) mod c = 0 then 1 else 0)"
    using c by (cases "x mod c + 1 = c") (auto simp: div_pos_pos_trivial mod_pos_pos_trivial)
  with div mod show ?thesis by simp
qed

lemma day_from_year_Suc: "day_from_year (y + 1) = day_from_year y + 365 + leap_day y"
proof -
  have m: "(y - 1968) mod 4 = y mod 4" "(y - 1900) mod 100 = y mod 100" "(y - 1600) mod 400 = y mod 400"
    using mod_mult_self1[of y "-492" 4] mod_mult_self1[of y "-19" 100] mod_mult_self1[of y "-4" 400]
    by simp_all
  have e: "y + 1 - 1969 = (y - 1969) + 1" "y + 1 - 1901 = (y - 1901) + 1" "y + 1 - 1601 = (y - 1601) + 1"
    "(y - 1969) + 1 = y - 1968" "(y - 1901) + 1 = y - 1900" "(y - 1601) + 1 = y - 1600"
    by presburger+
  have 4: "(y + 1 - 1969) div 4 = (y - 1969) div 4 + (if y mod 4 = 0 then 1 else 0)"
    unfolding e(1) by (subst div_Suc) (simp_all only: e(4) m zero_less_numeral)
  have 100: "(y + 1 - 1901) div 100 = (y - 1901) div 100 + (if y mod 100 = 0 then 1 else 0)"
    unfolding e(2) by (subst div_Suc) (simp_all only: e(5) m zero_less_numeral)
  have 400: "(y + 1 - 1601) div 400 = (y - 1601) div 400 + (if y mod 400 = 0 then 1 else 0)"
    unfolding e(3) by (subst div_Suc) (simp_all only: e(6) m zero_less_numeral)
  have sub: "y mod 400 = 0 \<longrightarrow> y mod 100 = 0" "y mod 100 = 0 \<longrightarrow> y mod 4 = 0"
    unfolding mod_eq_0_iff_dvd using dvd_trans[of 100 400 y] dvd_trans[of 4 100 y] by simp_all
  have gen: "365 * (y + 1 - 1970) + (a + (if A then 1 else 0)) - (b + (if B then 1 else 0))
      + (c + (if C then 1 else 0))
    = 365 * (y - 1970) + a - b + c + 365 + (if A \<and> (\<not> B \<or> C) then 1 else 0)"
    if "C \<longrightarrow> B" "B \<longrightarrow> A" for A B C and a b c :: int
    using that by (cases A; cases B; cases C) simp_all
  show ?thesis
    unfolding day_from_year_def 4 100 400 leap_day_def leap_def 
    by (rule gen[of "y mod 400 = 0" "y mod 100 = 0" "y mod 4 = 0", OF sub])
qed

lemma day_from_year_less_Suc: "day_from_year y < day_from_year (y + 1)"
  using leap_day_bounds[of y] by (simp add: day_from_year_Suc)

lemma day_from_year_strict: "y < z \<Longrightarrow> day_from_year y < day_from_year z"
proof (induction "nat (z - y)" arbitrary: z)
  case (Suc k)
  show ?case
  proof (cases "y = z - 1")
    case True
    then show ?thesis using day_from_year_less_Suc[of y] by simp
  next
    case False
    with Suc have "day_from_year y < day_from_year (z - 1)" by simp
    then show ?thesis using day_from_year_less_Suc[of "z - 1"] by simp
  qed
qed simp

lemma day_from_year_mono: "y \<le> z \<Longrightarrow> day_from_year y \<le> day_from_year z"
  using day_from_year_strict[of y z] by (cases "y = z") simp_all

lemma day_from_year_bounds:
  "400 * day_from_year y \<le> 146097 * (y - 1970) + 1200"
  "146097 * (y - 1970) - 800 \<le> 400 * day_from_year y"
  using div_bounds[of 4 "y - 1969"] div_bounds[of 100 "y - 1901"] div_bounds[of 400 "y - 1601"]
  unfolding day_from_year_def by simp_all

lemma year_from_day_correct:
  "day_from_year (year_from_day d) \<le> d \<and> d < day_from_year (year_from_day d + 1)"
proof -
  define y where "y = 1970 + (d * 400) div 146097"
  have lo: "146097 * (y - 1970) \<le> 400 * d" and hi: "400 * d < 146097 * (y - 1970) + 146097"
    using div_bounds[of 146097 "d * 400"] unfolding y_def by simp_all
  have "day_from_year (y - 1) \<le> d"
    using day_from_year_bounds(1)[of "y - 1"] lo by (simp add: algebra_simps)
  moreover have "d < day_from_year (y + 1 + 1)"
    using day_from_year_bounds(2)[of "y + 1 + 1"] hi by (simp add: algebra_simps)
  ultimately show ?thesis
    by (auto simp: year_from_day_def Let_def simp flip: y_def)
qed

lemma year_from_day_unique:
  assumes "day_from_year y \<le> d" and "d < day_from_year (y + 1)"
  shows "year_from_day d = y"
proof (rule ccontr)
  assume "year_from_day d \<noteq> y"
  then consider "year_from_day d + 1 \<le> y" | "y + 1 \<le> year_from_day d" by linarith
  then show False
  proof cases
    case 1
    then have "day_from_year (year_from_day d + 1) \<le> day_from_year y"
      by (rule day_from_year_mono)
    with assms year_from_day_correct[of d] show False by linarith
  next
    case 2
    then have "day_from_year (y + 1) \<le> day_from_year (year_from_day d)"
      by (rule day_from_year_mono)
    with assms year_from_day_correct[of d] show False by linarith
  qed
qed

lemma year_from_day_mono: "d \<le> e \<Longrightarrow> year_from_day d \<le> year_from_day e"
proof (rule ccontr)
  assume "d \<le> e" and "\<not> year_from_day d \<le> year_from_day e"
  then have "day_from_year (year_from_day e + 1) \<le> day_from_year (year_from_day d)"
    by (intro day_from_year_mono) simp
  with \<open>d \<le> e\<close> year_from_day_correct[of d] year_from_day_correct[of e] show False by linarith
qed

lemma yday_bounds:
  "0 \<le> d - day_from_year (year_from_day d)"
  "d - day_from_year (year_from_day d) < 365 + leap_day (year_from_day d)"
  using year_from_day_correct[of d] by (simp_all add: day_from_year_Suc)

lemma month_from_yday:
  assumes "0 \<le> n" and "n < 365 + l" and "0 \<le> l" and "l \<le> 1"
  shows "0 \<le> month_from_yday l n" and "month_from_yday l n \<le> 11"
    and "month_start l (month_from_yday l n) \<le> n"
    and "n < month_start l (month_from_yday l n + 1)"
  using assms by (simp_all add: month_from_yday_def month_start_def)

lemma month_from_yday_mono: "n \<le> n' \<Longrightarrow> 0 \<le> l \<Longrightarrow> l \<le> 1 \<Longrightarrow>
  month_from_yday l n \<le> month_from_yday l n'"
  by (simp add: month_from_yday_def)

lemma month_length: "0 \<le> m \<Longrightarrow> m \<le> 11 \<Longrightarrow> 0 \<le> l \<Longrightarrow> l \<le> 1 \<Longrightarrow>
  month_start l (m + 1) - month_start l m \<le> 31"
  by (simp add: month_start_def)

lemma civil_from_day:
  assumes "civil_from_day d = (y, m, dt)"
  shows "y = year_from_day d" and "0 \<le> m" and "m \<le> 11" and "1 \<le> dt" and "dt \<le> 31"
    and "dt \<le> month_start (leap_day y) (m + 1) - month_start (leap_day y) m"
    and "make_day y m dt = d"
proof -
  let ?n = "d - day_from_year (year_from_day d)"
  show y: "y = year_from_day d" and "1 \<le> dt"
    and dt: "dt \<le> month_start (leap_day y) (m + 1) - month_start (leap_day y) m"
    using assms month_from_yday[OF yday_bounds[of d]] leap_day_bounds
    by (auto simp: civil_from_day_def Let_def)
  show m: "0 \<le> m" "m \<le> 11"
    using assms month_from_yday(1,2)[OF yday_bounds[of d]] leap_day_bounds
    by (auto simp: civil_from_day_def Let_def)
  show "dt \<le> 31" using month_length[OF m, of "leap_day y"] leap_day_bounds[of y] dt by linarith
  have "m div 12 = 0" and "m mod 12 = m" using m by simp_all
  then show "make_day y m dt = d"
    using assms by (auto simp: make_day_def civil_from_day_def Let_def)
qed

definition civil_less :: "int \<times> int \<times> int \<Rightarrow> int \<times> int \<times> int \<Rightarrow> bool" where
  "civil_less a b = (case a of (y, m, d) \<Rightarrow> case b of (y', m', d') \<Rightarrow>
     y < y' \<or> y = y' \<and> (m < m' \<or> m = m' \<and> d < d'))"

lemma civil_less_mono:
  assumes "d < e" shows "civil_less (civil_from_day d) (civil_from_day e)"
proof -
  have "year_from_day d < year_from_day e \<or> year_from_day d = year_from_day e"
    using year_from_day_mono[of d e] assms by linarith
  moreover have "month_from_yday (leap_day y) (d - day_from_year y)
      \<le> month_from_yday (leap_day y) (e - day_from_year y)" for y
    by (rule month_from_yday_mono) (use assms leap_day_bounds[of y] in auto)
  ultimately show ?thesis
    using assms by (fastforce simp: civil_less_def civil_from_day_def Let_def order_le_less)
qed

lemma civil_less_iff: "civil_less (civil_from_day d) (civil_from_day e) \<longleftrightarrow> d < e"
proof
  assume less: "civil_less (civil_from_day d) (civil_from_day e)"
  show "d < e"
  proof (rule ccontr)
    assume "\<not> d < e"
    then consider "e < d" | "d = e" by linarith
    then show False
      by cases (use less civil_less_mono[of e d] in
        \<open>auto simp: civil_less_def split: prod.splits\<close>)
  qed
qed (rule civil_less_mono)


subsection \<open>Fixed-width decimals\<close>

definition digit :: "nat \<Rightarrow> char" where
  "digit n = char_of (48 + n mod 10)"

definition digit_value :: "char \<Rightarrow> nat option" where
  "digit_value c =
     (let n = of_char c :: nat in if 48 \<le> n \<and> n \<le> 57 then Some (n - 48) else None)"

fun decimal :: "nat \<Rightarrow> nat \<Rightarrow> string" where
  "decimal 0 n = []"
| "decimal (Suc w) n = decimal w (n div 10) @ [digit n]"

fun read_decimal :: "nat \<Rightarrow> string \<Rightarrow> nat option" where
  "read_decimal acc [] = Some acc"
| "read_decimal acc (c # cs) =
     (case digit_value c of None \<Rightarrow> None | Some d \<Rightarrow> read_decimal (10 * acc + d) cs)"

lemma of_char_digit: "of_char (digit n) = 48 + n mod 10"
proof -
  have "n mod 10 < 10" by simp
  then have "48 + n mod 10 < (256 :: nat)" by linarith
  then show ?thesis by (simp add: digit_def of_char_of take_bit_eq_mod)
qed

lemma digit_value_digit [simp]: "digit_value (digit n) = Some (n mod 10)"
proof -
  have "n mod 10 < 10" by simp
  then show ?thesis by (simp add: digit_value_def of_char_digit Let_def)
qed

lemma digit_less_iff: "digit m < digit n \<longleftrightarrow> m mod 10 < n mod 10"
  by (simp add: less_char_def of_char_digit)

lemma digit_eq_iff: "digit m = digit n \<longleftrightarrow> m mod 10 = n mod 10"
proof
  assume "digit m = digit n"
  then have "digit_value (digit m) = digit_value (digit n)" by (rule arg_cong)
  then show "m mod 10 = n mod 10" by simp
qed (simp add: digit_def)

lemma digit_neq_sign: "digit n \<noteq> CHR ''-''" "digit n \<noteq> CHR ''+''"
proof -
  have "digit_value (CHR ''-'') = None" "digit_value (CHR ''+'') = None"
    by (simp_all add: digit_value_def)
  then show "digit n \<noteq> CHR ''-''" "digit n \<noteq> CHR ''+''"
    by (metis digit_value_digit option.distinct(1))+
qed

lemma length_decimal [simp]: "length (decimal w n) = w"
  by (induction w arbitrary: n) auto

lemma read_decimal_append:
  "read_decimal acc (xs @ ys) =
     (case read_decimal acc xs of None \<Rightarrow> None | Some a \<Rightarrow> read_decimal a ys)"
  by (induction acc xs rule: read_decimal.induct) (auto split: option.splits)

lemma read_decimal_decimal: "n < 10 ^ w \<Longrightarrow> read_decimal 0 (decimal w n) = Some n"
proof (induction w arbitrary: n)
  case (Suc w)
  then have "n div 10 < 10 ^ w" by (simp add: less_mult_imp_div_less mult.commute)
  with Suc.IH show ?case by (simp add: read_decimal_append)
qed simp

lemma append_less_iff:
  "length xs = length ys \<Longrightarrow> xs @ us < ys @ vs \<longleftrightarrow> xs < ys \<or> xs = ys \<and> us < vs"
  for xs ys us vs :: "'a::linorder list"
  by (induction xs ys rule: list_induct2) auto

lemma decimal_inj: "m < 10 ^ w \<Longrightarrow> n < 10 ^ w \<Longrightarrow> decimal w m = decimal w n \<longleftrightarrow> m = n"
  by (metis option.inject read_decimal_decimal)

lemma div_less_iff: "m < n \<longleftrightarrow> m div c < n div c \<or> m div c = n div c \<and> m mod c < n mod c"
  for m n c :: nat
proof
  assume "m < n"
  then have "m div c \<le> n div c" by (simp add: div_le_mono)
  moreover have "m div c = n div c \<Longrightarrow> m mod c < n mod c"
    using \<open>m < n\<close> by (metis add_less_cancel_left mult_div_mod_eq)
  ultimately show "m div c < n div c \<or> m div c = n div c \<and> m mod c < n mod c" by linarith
next
  assume "m div c < n div c \<or> m div c = n div c \<and> m mod c < n mod c"
  then show "m < n"
    by (metis add_less_cancel_left div_le_mono leD leI mult_div_mod_eq)
qed

lemma decimal_less_iff:
  "m < 10 ^ w \<Longrightarrow> n < 10 ^ w \<Longrightarrow> decimal w m < decimal w n \<longleftrightarrow> m < n"
proof (induction w arbitrary: m n)
  case (Suc w)
  then have b: "m div 10 < 10 ^ w" "n div 10 < 10 ^ w"
    by (simp_all add: less_mult_imp_div_less mult.commute)
  have "decimal (Suc w) m < decimal (Suc w) n \<longleftrightarrow>
      m div 10 < n div 10 \<or> m div 10 = n div 10 \<and> m mod 10 < n mod 10"
    using Suc.IH[OF b] decimal_inj[OF b] by (simp add: append_less_iff digit_less_iff)
  then show ?case using div_less_iff[of m n 10] by simp
qed simp


subsection \<open>\<open>toISOString\<close> and \<open>Date.parse\<close>\<close>

definition ms_per_day :: int where "ms_per_day = 86400000"

definition max_time :: int where "max_time = 8640000000000000"

definition year_string :: "int \<Rightarrow> string" where
  "year_string y =
     (if 0 \<le> y \<and> y \<le> 9999 then decimal 4 (nat y)
      else (if y < 0 then CHR ''-'' else CHR ''+'') # decimal 6 (nat \<bar>y\<bar>))"

definition time_string :: "nat \<Rightarrow> string" where
  "time_string n =
     decimal 2 (n div 3600000) @ '':'' @ decimal 2 (n div 60000 mod 60) @ '':''
     @ decimal 2 (n div 1000 mod 60) @ ''.'' @ decimal 3 (n mod 1000) @ ''Z''"

definition iso_string :: "int \<Rightarrow> string" where
  "iso_string t =
     (case civil_from_day (t div ms_per_day) of (y, m, d) \<Rightarrow>
        year_string y @ ''-'' @ decimal 2 (nat (m + 1)) @ ''-'' @ decimal 2 (nat d) @ ''T''
        @ time_string (nat (t mod ms_per_day)))"

text \<open>\<open>toISOString\<close> throws a \<open>RangeError\<close> outside the range of a \<open>Date\<close>.\<close>

definition to_iso :: "int \<Rightarrow> js_error + string" where
  "to_iso t = (if \<bar>t\<bar> \<le> max_time then Inr (iso_string t) else Inl RangeError)"

definition read_field :: "nat \<Rightarrow> nat \<Rightarrow> string \<Rightarrow> nat option" where
  "read_field i w s = read_decimal 0 (take w (drop i s))"

definition read_year :: "string \<Rightarrow> (int \<times> string) option" where
  "read_year s =
     (if s \<noteq> [] \<and> (hd s = CHR ''-'' \<or> hd s = CHR ''+'')
      then (case read_field 1 6 s of
              None \<Rightarrow> None
            | Some y \<Rightarrow>
                if hd s = CHR ''+'' then Some (int y, drop 7 s)
                else if y = 0 then None else Some (- int y, drop 7 s))
      else (case read_field 0 4 s of None \<Rightarrow> None | Some y \<Rightarrow> Some (int y, drop 4 s)))"

definition date_parse :: "string \<Rightarrow> int option" where
  "date_parse s =
     (case read_year s of
        None \<Rightarrow> None
      | Some (y, r) \<Rightarrow>
          if length r = 20 \<and> r ! 0 = CHR ''-'' \<and> r ! 3 = CHR ''-'' \<and> r ! 6 = CHR ''T''
             \<and> r ! 9 = CHR '':'' \<and> r ! 12 = CHR '':'' \<and> r ! 15 = CHR ''.'' \<and> r ! 19 = CHR ''Z''
          then (case (read_field 1 2 r, read_field 4 2 r, read_field 7 2 r, read_field 10 2 r,
                      read_field 13 2 r, read_field 16 3 r) of
                  (Some mo, Some d, Some h, Some mi, Some sec, Some ms) \<Rightarrow>
                    let m = int mo - 1; l = leap_day y;
                        t = make_day y m (int d) * ms_per_day
                            + int (((h * 60 + mi) * 60 + sec) * 1000 + ms)
                    in if 1 \<le> mo \<and> mo \<le> 12 \<and> 1 \<le> d
                          \<and> int d \<le> month_start l (m + 1) - month_start l m
                          \<and> (h \<le> 23 \<or> h = 24 \<and> mi = 0 \<and> sec = 0 \<and> ms = 0)
                          \<and> mi \<le> 59 \<and> sec \<le> 59 \<and> \<bar>t\<bar> \<le> max_time
                       then Some t else None
                | _ \<Rightarrow> None)
          else None)"

lemma length_time_string [simp]: "length (time_string n) = 13"
  by (simp add: time_string_def)

lemma drop_decimal [simp]: "drop w (decimal w n @ xs) = xs" "take w (decimal w n @ xs) = decimal w n"
  by simp_all

lemma hd_decimal_Suc: "hd (decimal (Suc w) n) = digit (n div 10 ^ w)"
proof (induction w arbitrary: n)
  case (Suc w)
  have "decimal (Suc w) (n div 10) \<noteq> []" by (metis length_decimal list.size(3) nat.distinct(1))
  then have "hd (decimal (Suc (Suc w)) n) = hd (decimal (Suc w) (n div 10))"
    by (subst decimal.simps(2)) (rule hd_append2)
  with Suc.IH[of "n div 10"] show ?case by (simp only: power_Suc div_mult2_eq)
qed simp

lemma hd_decimal: "0 < w \<Longrightarrow> \<exists>m. hd (decimal w n) = digit m"
  using hd_decimal_Suc by (cases w) blast+

lemma read_year_year_string:
  assumes "\<bar>y\<bar> < 1000000"
  shows "read_year (year_string y @ r) = Some (y, r)"
proof (cases "0 \<le> y \<and> y \<le> 9999")
  case True
  have "decimal 4 (nat y) \<noteq> []" by (metis length_decimal list.size(3) zero_neq_numeral)
  moreover obtain m where "hd (decimal 4 (nat y)) = digit m" using hd_decimal[of 4 "nat y"] by auto
  moreover have "read_decimal 0 (decimal 4 (nat y)) = Some (nat y)"
    by (rule read_decimal_decimal) (use True in auto)
  ultimately show ?thesis
    using True by (simp add: read_year_def year_string_def digit_neq_sign read_field_def)
next
  case False
  moreover have "read_decimal 0 (decimal 6 (nat \<bar>y\<bar>)) = Some (nat \<bar>y\<bar>)"
    by (rule read_decimal_decimal) (use assms in auto)
  ultimately show ?thesis
    by (auto simp: read_year_def year_string_def read_field_def)
qed

lemma year_bound:
  assumes "\<bar>t\<bar> \<le> max_time" shows "\<bar>year_from_day (t div ms_per_day)\<bar> < 1000000"
proof -
  let ?d = "t div ms_per_day" let ?y = "year_from_day ?d"
  have "-100000000 \<le> ?d" "?d \<le> 100000000"
    using assms div_bounds[of 86400000 t] by (auto simp: max_time_def ms_per_day_def)
  moreover have "400 * day_from_year ?y \<le> 400 * ?d" "400 * ?d < 400 * day_from_year (?y + 1)"
    using year_from_day_correct[of ?d] by auto
  ultimately show ?thesis
    using day_from_year_bounds(2)[of ?y] day_from_year_bounds(1)[of "?y + 1"] by (auto simp: abs_if)
qed


lemma decimal_2: "decimal 2 n = [digit (n div 10), digit n]"
  and decimal_3: "decimal 3 n = [digit (n div 100), digit (n div 10), digit n]"
  by (simp_all add: numeral_2_eq_2 numeral_3_eq_3 flip: div_mult2_eq)

lemma read_2: "n < 100 \<Longrightarrow> read_decimal 0 [digit (n div 10), digit n] = Some n"
  and read_3: "n < 1000 \<Longrightarrow> read_decimal 0 [digit (n div 100), digit (n div 10), digit n] = Some n"
  using read_decimal_decimal[of n 2] read_decimal_decimal[of n 3]
  by (simp_all only: decimal_2 decimal_3) simp_all

lemma time_of_day: "((n div 3600000 * 60 + n div 60000 mod 60) * 60 + n div 1000 mod 60) * 1000
    + n mod 1000 = n" for n :: nat
proof -
  have a: "n div 60000 = n div 1000 div 60" and b: "n div 3600000 = n div 1000 div 60 div 60"
    by (simp_all flip: div_mult2_eq)
  show ?thesis unfolding a b by (simp only: div_mult_mod_eq)
qed

lemma time_fields:
  fixes n :: nat
  assumes "n < 86400000"
  shows "n div 3600000 \<le> 23" "n div 60000 mod 60 \<le> 59" "n div 1000 mod 60 \<le> 59" "n mod 1000 < 1000"
proof -
  show "n div 3600000 \<le> 23" using div_le_mono[of n 86399999 3600000] assms by simp
  have "n div 60000 mod 60 < 60" "n div 1000 mod 60 < 60" by simp_all
  then show "n div 60000 mod 60 \<le> 59" "n div 1000 mod 60 \<le> 59" by linarith+
qed simp

lemma date_parse_iso_string:
  assumes t: "\<bar>t\<bar> \<le> max_time"
  shows "date_parse (iso_string t) = Some t"
proof -
  obtain y m d where c: "civil_from_day (t div ms_per_day) = (y, m, d)" by (metis prod_cases3)
  note civ = civil_from_day[OF c]
  define n where "n = nat (t mod ms_per_day)"
  have n: "int n = t mod ms_per_day" "n < 86400000"
    by (simp_all add: n_def ms_per_day_def nat_less_iff)
  note tf = time_fields[OF n(2)]
  let ?r = "''-'' @ decimal 2 (nat (m + 1)) @ ''-'' @ decimal 2 (nat d) @ ''T'' @ time_string n"
  have iso: "iso_string t = year_string y @ ?r"
    by (simp add: iso_string_def c n_def)
  have ry: "read_year (year_string y @ ?r) = Some (y, ?r)"
    using read_year_year_string year_bound[OF t] civ(1) by blast
  have f: "read_field 1 2 ?r = Some (nat (m + 1))" "read_field 4 2 ?r = Some (nat d)"
    "read_field 7 2 ?r = Some (n div 3600000)" "read_field 10 2 ?r = Some (n div 60000 mod 60)"
    "read_field 13 2 ?r = Some (n div 1000 mod 60)" "read_field 16 3 ?r = Some (n mod 1000)"
    using civ tf by (simp_all add: read_field_def time_string_def decimal_2 decimal_3 read_2 read_3
        del: read_decimal.simps)
  have shape: "length ?r = 20" "?r ! 0 = CHR ''-''" "?r ! 3 = CHR ''-''" "?r ! 6 = CHR ''T''"
    "?r ! 9 = CHR '':''" "?r ! 12 = CHR '':''" "?r ! 15 = CHR ''.''" "?r ! 19 = CHR ''Z''"
    by (simp_all add: time_string_def decimal_2 decimal_3 nth_append)
  have sum: "make_day y m d * ms_per_day + int n = t"
    using civ(7) n(1) by (simp add: div_mult_mod_eq)
  have md: "int (nat (m + 1)) - 1 = m" "int (nat d) = d" using civ by simp_all
  have ok: "1 \<le> nat (m + 1) \<and> nat (m + 1) \<le> 12 \<and> 1 \<le> nat d
      \<and> d \<le> month_start (leap_day y) (m + 1) - month_start (leap_day y) m
      \<and> (n div 3600000 \<le> 23 \<or> n div 3600000 = 24 \<and> n div 60000 mod 60 = 0
         \<and> n div 1000 mod 60 = 0 \<and> n mod 1000 = 0)
      \<and> n div 60000 mod 60 \<le> 59 \<and> n div 1000 mod 60 \<le> 59 \<and> \<bar>t\<bar> \<le> max_time"
    using civ(2,3,4,6) tf t by auto
  show ?thesis
    by (simp only: iso date_parse_def ry option.case prod.case f shape simp_thms if_True Let_def
        md time_of_day sum ok)
qed

lemma date_parse_to_iso: "to_iso t = Inr s \<Longrightarrow> date_parse s = Some t"
  by (auto simp: to_iso_def date_parse_iso_string split: if_splits)

subsection \<open>The order of the stamps\<close>

text \<open>The stamps of the years 0 to 9999: fixed width, so the string order is the time order.\<close>

definition four_digit_time :: "int \<Rightarrow> bool" where
  "four_digit_time t \<longleftrightarrow> - 62167219200000 \<le> t \<and> t \<le> 253402300799999"

lemma four_digit_year:
  assumes "four_digit_time t"
  shows "0 \<le> year_from_day (t div ms_per_day)" "year_from_day (t div ms_per_day) \<le> 9999"
proof -
  let ?d = "t div ms_per_day"
  have d: "-719528 \<le> ?d" "?d \<le> 2932896"
    using assms div_bounds[of 86400000 t] by (auto simp: four_digit_time_def ms_per_day_def)
  have "year_from_day (-719528) = 0" "year_from_day 2932896 = 9999"
    by (rule year_from_day_unique; simp add: day_from_year_def)+
  then show "0 \<le> year_from_day ?d" "year_from_day ?d \<le> 9999"
    using year_from_day_mono[OF d(1)] year_from_day_mono[OF d(2)] by auto
qed

lemma append_same_less [simp]: "xs @ ys < xs @ zs \<longleftrightarrow> ys < zs" for xs ys zs :: "'a::linorder list"
  by (induction xs) auto

lemma div_eq_iff: "m = n \<longleftrightarrow> m div c = n div c \<and> m mod c = n mod c" for m n c :: nat
  by (metis mult_div_mod_eq)

lemma mult_60: "n div 60000 = n div 1000 div 60" "n div 3600000 = n div 1000 div 60 div 60" for n :: nat
  by (simp_all flip: div_mult2_eq)

lemma time_string_less_iff:
  assumes a: "a < 86400000" and b: "b < 86400000"
  shows "time_string a < time_string b \<longleftrightarrow> a < b"
proof -
  note fa = time_fields[OF a] and fb = time_fields[OF b]
  have lt100: "x \<le> 59 \<Longrightarrow> x < 10 ^ 2" "x \<le> 23 \<Longrightarrow> x < 10 ^ 2" "x < 1000 \<Longrightarrow> x < 10 ^ 3" for x :: nat
    by simp_all
  have d2: "decimal 2 x < decimal 2 y \<longleftrightarrow> x < y" "decimal 2 x = decimal 2 y \<longleftrightarrow> x = y"
    if "x < 10 ^ 2" "y < 10 ^ 2" for x y
    using decimal_less_iff[OF that] decimal_inj[OF that] by simp_all
  have d3: "decimal 3 x < decimal 3 y \<longleftrightarrow> x < y" "decimal 3 x = decimal 3 y \<longleftrightarrow> x = y"
    if "x < 10 ^ 3" "y < 10 ^ 3" for x y
    using decimal_less_iff[OF that] decimal_inj[OF that] by simp_all
  have "time_string a < time_string b \<longleftrightarrow>
      a div 3600000 < b div 3600000 \<or> a div 3600000 = b div 3600000 \<and>
     (a div 60000 mod 60 < b div 60000 mod 60 \<or> a div 60000 mod 60 = b div 60000 mod 60 \<and>
     (a div 1000 mod 60 < b div 1000 mod 60 \<or> a div 1000 mod 60 = b div 1000 mod 60 \<and>
      a mod 1000 < b mod 1000))"
    unfolding time_string_def
    by (simp add: append_less_iff d2 d3 lt100 fa fb
        d2[OF lt100(2)[OF fa(1)] lt100(2)[OF fb(1)]])
  also have "\<dots> \<longleftrightarrow> a < b"
    unfolding mult_60
    using div_less_iff[of a b 1000] div_less_iff[of "a div 1000" "b div 1000" 60]
      div_less_iff[of "a div 1000 div 60" "b div 1000 div 60" 60]
      div_eq_iff[of "a div 1000" "b div 1000" 60]
      div_eq_iff[of "a div 1000 div 60" "b div 1000 div 60" 60]
    by argo
  finally show ?thesis .
qed


text \<open>The date part, then the time part, of two stamps with four-digit years.\<close>

lemma date_part_less_iff:
  assumes a: "civil_from_day i = (y, m, d)" "0 \<le> y" "y \<le> 9999"
    and b: "civil_from_day j = (y', m', d')" "0 \<le> y'" "y' \<le> 9999"
    and len: "length s = 13" "length s' = 13"
  shows "year_string y @ ''-'' @ decimal 2 (nat (m + 1)) @ ''-'' @ decimal 2 (nat d) @ ''T'' @ s
       < year_string y' @ ''-'' @ decimal 2 (nat (m' + 1)) @ ''-'' @ decimal 2 (nat d') @ ''T'' @ s'
     \<longleftrightarrow> i < j \<or> i = j \<and> s < s'"
proof -
  note ca = civil_from_day[OF a(1)] and cb = civil_from_day[OF b(1)]
  have ranges: "nat y < 10 ^ 4" "nat y' < 10 ^ 4" "nat (m + 1) < 10 ^ 2" "nat (m' + 1) < 10 ^ 2"
    "nat d < 10 ^ 2" "nat d' < 10 ^ 2"
    using a b ca cb by simp_all
  note lt = decimal_less_iff[OF ranges(1,2)] decimal_less_iff[OF ranges(3,4)] decimal_less_iff[OF ranges(5,6)]
  note eq = decimal_inj[OF ranges(1,2)] decimal_inj[OF ranges(3,4)] decimal_inj[OF ranges(5,6)]
  have ij: "i = j \<longleftrightarrow> y = y' \<and> m = m' \<and> d = d'"
    using ca(7) cb(7) by (metis a(1) b(1) prod.inject)
  have lessij: "civil_less (y, m, d) (y', m', d') \<longleftrightarrow> i < j"
    using civil_less_iff[of i j] a(1) b(1) by simp
  have nats: "nat y < nat y' \<longleftrightarrow> y < y'" "nat y = nat y' \<longleftrightarrow> y = y'"
    "nat (m + 1) < nat (m' + 1) \<longleftrightarrow> m < m'" "nat (m + 1) = nat (m' + 1) \<longleftrightarrow> m = m'"
    "nat d < nat d' \<longleftrightarrow> d < d'" "nat d = nat d' \<longleftrightarrow> d = d'"
    using a(2) b(2) ca(2,4) cb(2,4) by linarith+
  have ys: "year_string y = decimal 4 (nat y)" "year_string y' = decimal 4 (nat y')"
    using a(2,3) b(2,3) by (simp_all add: year_string_def)
  show ?thesis
    unfolding ys lessij[symmetric] ij civil_less_def prod.case
    by (simp only: append_less_iff length_decimal append_same_less lt eq nats) blast
qed

lemma div_less_iff_int: "m < n \<longleftrightarrow> m div c < n div c \<or> m div c = n div c \<and> m mod c < n mod c"
  if "0 < c" for m n c :: int
proof -
  have "m < n \<Longrightarrow> m div c < n div c \<or> m div c = n div c" "m div c < n div c \<Longrightarrow> m < n"
    using zdiv_mono1[of m n c] zdiv_mono1[of n m c] that by linarith+
  moreover have "m div c = n div c \<Longrightarrow> m mod c < n mod c \<longleftrightarrow> m < n"
    by (metis add_less_cancel_left mult_div_mod_eq)
  ultimately show ?thesis by blast
qed

lemma iso_string_less_iff:
  assumes t: "four_digit_time t" and u: "four_digit_time u"
  shows "iso_string t < iso_string u \<longleftrightarrow> t < u"
proof -
  obtain y m d where c: "civil_from_day (t div ms_per_day) = (y, m, d)" by (metis prod_cases3)
  obtain y' m' d' where c': "civil_from_day (u div ms_per_day) = (y', m', d')" by (metis prod_cases3)
  let ?n = "nat (t mod ms_per_day)" and ?n' = "nat (u mod ms_per_day)"
  have n: "?n < 86400000" "?n' < 86400000" by (simp_all add: ms_per_day_def nat_less_iff)
  have n_less: "?n < ?n' \<longleftrightarrow> t mod ms_per_day < u mod ms_per_day"
    by (rule nat_less_eq_zless) (simp add: ms_per_day_def)
  have "iso_string t < iso_string u \<longleftrightarrow>
      t div ms_per_day < u div ms_per_day \<or> t div ms_per_day = u div ms_per_day \<and> ?n < ?n'"
    using date_part_less_iff[OF c _ _ c', of "time_string ?n" "time_string ?n'"]
      four_digit_year[OF t] four_digit_year[OF u] civil_from_day(1)[OF c] civil_from_day(1)[OF c']
      time_string_less_iff[OF n]
    by (simp add: iso_string_def c c')
  also have "\<dots> \<longleftrightarrow> t < u"
    unfolding n_less using div_less_iff_int[of ms_per_day t u] by (simp add: ms_per_day_def)
  finally show ?thesis .
qed

lemma iso_string_le_iff:
  "four_digit_time t \<Longrightarrow> four_digit_time u \<Longrightarrow> iso_string t \<le> iso_string u \<longleftrightarrow> t \<le> u"
  by (simp add: iso_string_less_iff flip: not_less)

lemma four_digit_max_time: "four_digit_time t \<Longrightarrow> \<bar>t\<bar> \<le> max_time"
  by (auto simp: four_digit_time_def max_time_def)

lemma iso_string_inj:
  "\<bar>t\<bar> \<le> max_time \<Longrightarrow> \<bar>u\<bar> \<le> max_time \<Longrightarrow> iso_string t = iso_string u \<longleftrightarrow> t = u"
  by (metis date_parse_iso_string option.inject)

text \<open>
  A stamp is a string the program may store: \<open>toISOString\<close> of a four-digit year.
\<close>

definition is_stamp :: "string \<Rightarrow> bool" where
  "is_stamp s \<longleftrightarrow> (\<exists>t. four_digit_time t \<and> s = iso_string t)"

text \<open>\<open>new Date(Date.parse(now) + ms).toISOString()\<close>: NaN and out-of-range throw.\<close>

definition add_ms :: "string \<Rightarrow> int \<Rightarrow> js_error + string" where
  "add_ms now ms = (case date_parse now of None \<Rightarrow> Inl RangeError | Some t \<Rightarrow> to_iso (t + ms))"

lemma add_ms_iso_string:
  "\<bar>t\<bar> \<le> max_time \<Longrightarrow> \<bar>t + ms\<bar> \<le> max_time \<Longrightarrow> add_ms (iso_string t) ms = Inr (iso_string (t + ms))"
  by (simp add: add_ms_def date_parse_iso_string to_iso_def)

lemma add_ms_later:
  assumes "four_digit_time t" "four_digit_time (t + ms)" "0 < ms"
  shows "\<exists>s. add_ms (iso_string t) ms = Inr s \<and> iso_string t < s"
  using assms by (simp add: add_ms_iso_string four_digit_max_time iso_string_less_iff)

end
