(* ===== verification/SyncContracts.thy ===== *)
theory SyncContracts
  imports JsDate
begin

section \<open>The data of the synchronisation\<close>

text \<open>
  The types of \<open>packages/domain/src/sync-contracts.ts\<close>, \<open>sync-work.ts\<close> and
  \<open>packages/connector-contract/src/sync.ts\<close>: interfaces are records (with a prefix per
  record, since fields are global names), string unions are datatypes. An optional field is
  an \<open>option\<close>; an optional boolean the code only compares with \<open>true\<close> is a \<open>bool\<close>.
  Stamps, keys and cursors are strings. A caught error is kept only as the fact that there
  is one: the code tests it and never looks inside.
\<close>

subsection \<open>Lanes and phases\<close>

datatype sync_lane = LaneInteractive | LaneLive | LaneCatalog | LaneHistory | LaneMedia

datatype sync_phase = PhaseUnseeded | PhaseLive | PhaseHistory | PhaseSteady

datatype cursor_kind = KindLive | KindHistory | KindScroll

datatype history_policy = Backfill | Incremental

definition SYNC_LANES :: "sync_lane list" where
  "SYNC_LANES = [LaneInteractive, LaneLive, LaneCatalog, LaneHistory, LaneMedia]"

definition SYNC_CATALOG_STREAM :: string where
  "SYNC_CATALOG_STREAM = ''__catalog__''"

definition CATALOG_RESCAN_MS :: int where "CATALOG_RESCAN_MS = 5 * 60000"

definition UNSEEN_SEED_PER_TICK :: nat where "UNSEEN_SEED_PER_TICK = 16"

lemma set_SYNC_LANES [simp]: "set SYNC_LANES = UNIV"
  using sync_lane.exhaust by (auto simp: SYNC_LANES_def)

lemma distinct_SYNC_LANES [simp]: "distinct SYNC_LANES"
  by (simp add: SYNC_LANES_def)

lemma SYNC_CATALOG_STREAM_neq_Nil [simp]: "SYNC_CATALOG_STREAM \<noteq> []"
  by (simp add: SYNC_CATALOG_STREAM_def)

subsection \<open>What a connector reports\<close>

record sync_poll_hint =
  live_seeded :: "bool option"
  history_pending :: "bool option"

record sync_catalog_member =
  cm_installation_id :: string
  cm_stream_key :: string
  cm_thread_id :: "string option"
  cm_label :: "string option"
  cm_kind :: "string option"
  cm_generation :: int
  cm_discovered_at :: string
  cm_last_seen_at :: string

record sync_directory_member =
  dm_stream_key :: string
  dm_thread_id :: "string option"
  dm_label :: "string option"
  dm_kind :: "string option"

record sync_directory_page =
  dp_members :: "sync_directory_member list"
  dp_next_cursor :: "string option"
  dp_complete :: bool
  dp_replaces :: bool

subsection \<open>Catalog and stream state\<close>

record sync_catalog_snapshot =
  sn_installation_id :: string
  sn_cursor :: "string option"
  sn_complete :: bool
  sn_generation :: int
  sn_updated_at :: string

record sync_catalog_view =
  cv_members :: "sync_catalog_member list"
  cv_catalog :: "sync_catalog_snapshot option"

record sync_stream_state =
  ss_installation_id :: string
  ss_stream_key :: string
  ss_phase :: sync_phase
  ss_live_cursor :: "string option"
  ss_history_cursor :: "string option"
  ss_media_pending :: bool
  ss_idle_until :: "string option"
  ss_generation :: int
  ss_updated_at :: string

record sync_work_item =
  wi_lane :: sync_lane
  wi_stream_key :: string
  wi_thread_id :: "string option"
  wi_older :: bool
  wi_media :: bool
  wi_pages :: int

record sync_lane_limits =
  lim_interactive :: int
  lim_live :: int
  lim_catalog :: int
  lim_history :: int
  lim_media :: int

record apply_sync_catalog_page_input =
  ap_installation_id :: string
  ap_members :: "sync_directory_member list"
  ap_now :: string
  ap_next_cursor :: "string option"
  ap_complete :: bool
  ap_replaces :: bool

record sync_page_outcome =
  po_installation_id :: string
  po_stream_key :: string
  po_thread_id :: "string option"
  po_older :: bool
  po_media :: bool
  po_accepted_count :: int
  po_quarantined_count :: int
  po_has_more :: bool
  po_next_live_cursor :: "string option"
  po_next_history_cursor :: "string option"
  po_media_pending :: "bool option"
  po_idle_ms :: "int option"
  po_poll_hint :: "sync_poll_hint option"
  po_cursor_kind :: "cursor_kind option"
  po_history_policy :: "history_policy option"
  po_error :: bool
  po_now :: string

record sync_phase_head =
  ph_stream_key :: string
  ph_phase :: sync_phase
  ph_media_pending :: bool
  ph_generation :: int
  ph_idle_until :: "string option"

record sync_catalog_head =
  ch_member_count :: nat
  ch_has_cursor :: bool
  ch_complete :: bool
  ch_generation :: int
  ch_updated_at :: "string option"

subsection \<open>Runs and work rows\<close>

datatype sync_run_mode = QuickStart | Continuous | Archive

datatype sync_run_status =
  RunQueued | RunRunning | RunPaused | RunSucceeded | RunFailed | RunCancelled

record run_window =
  rw_timezone :: "string option"
  rw_start_hour :: js_num
  rw_end_hour :: js_num

record sync_run_options =
  ro_max_pages :: "js_num option"
  ro_stream_keys :: "string list option"
  ro_archive_from :: "string option"
  ro_archive_to :: "string option"
  ro_run_window :: "run_window option"

definition no_run_options :: sync_run_options where
  "no_run_options = \<lparr>ro_max_pages = None, ro_stream_keys = None, ro_archive_from = None,
     ro_archive_to = None, ro_run_window = None\<rparr>"

record sync_run =
  sr_id :: string
  sr_org_id :: string
  sr_installation_id :: string
  sr_mode :: sync_run_mode
  sr_status :: sync_run_status
  sr_options :: sync_run_options
  sr_total_work :: int
  sr_completed_work :: int
  sr_failed_work :: int
  sr_accepted_count :: int
  sr_started_at :: "string option"
  sr_finished_at :: "string option"
  sr_last_error :: "string option"
  sr_created_at :: string
  sr_updated_at :: string

record new_sync_run =
  nr_id :: string
  nr_org_id :: string
  nr_installation_id :: string
  nr_mode :: sync_run_mode
  nr_options :: "sync_run_options option"
  nr_now :: string

record list_sync_runs_query =
  lq_org_id :: string
  lq_installation_id :: "string option"
  lq_limit :: "int option"

datatype sync_run_command = CommandPause | CommandResume | CommandCancel

record command_sync_run =
  cr_id :: string
  cr_org_id :: string
  cr_command :: sync_run_command
  cr_now :: string

record delete_sync_run =
  dr_id :: string
  dr_org_id :: string

datatype sync_work_status =
  WorkPending | WorkRunning | WorkSucceeded | WorkFailed | WorkCancelled

record sync_work_record =
  wr_id :: string
  wr_run_id :: "string option"
  wr_installation_id :: string
  wr_stream_key :: string
  wr_lane :: sync_lane
  wr_priority :: int
  wr_next_due_at :: string
  wr_status :: sync_work_status
  wr_attempts :: int
  wr_generation :: int
  wr_lease_owner :: "string option"
  wr_lease_expires_at :: "string option"
  wr_last_error :: "string option"
  wr_created_at :: string
  wr_updated_at :: string

record enqueue_sync_work =
  eq_id :: string
  eq_run_id :: "string option"
  eq_installation_id :: string
  eq_stream_key :: string
  eq_lane :: sync_lane
  eq_priority :: "int option"
  eq_next_due_at :: string
  eq_generation :: int
  eq_now :: string

record claim_sync_work =
  cl_owner :: string
  cl_now :: string
  cl_lease_ms :: int
  cl_limit :: int
  cl_work_id :: "string option"
  cl_installation_id :: "string option"
  cl_lanes :: "sync_lane list option"
  cl_unassigned :: bool

record renew_sync_work =
  rn_id :: string
  rn_owner :: string
  rn_now :: string
  rn_lease_ms :: int

datatype sync_work_outcome = OutSucceeded | OutRetry | OutFailed | OutCancelled

record settle_sync_work =
  sx_id :: string
  sx_owner :: string
  sx_now :: string
  sx_outcome :: sync_work_outcome
  sx_accepted_count :: "int option"
  sx_next_due_at :: "string option"
  sx_error_code :: "string option"

record unassigned_query =
  uq_installation_id :: "string option"
  uq_lanes :: "sync_lane list option"

record sync_work_identity =
  id_stream_key :: string
  id_lane :: sync_lane
  id_generation :: int

record sync_work_gap =
  gap_stream_key :: string
  gap_phase :: sync_phase
  gap_media_pending :: bool
  gap_idle_until :: "string option"
  gap_generation :: int
  gap_missing_lane :: sync_lane
  gap_thread_id :: "string option"

record wake_unassigned =
  wk_installation_id :: string
  wk_stream_keys :: "string list"
  wk_now :: string

subsection \<open>Operations on runs and work\<close>

text \<open>\<open>!work.run_id\<close>: no run, or the empty string.\<close>

definition isUnassignedSyncWork :: "sync_work_record \<Rightarrow> bool" where
  "isUnassignedSyncWork w \<longleftrightarrow>
     \<not> truthy (wr_run_id w) \<and> (wr_status w = WorkPending \<or> wr_status w = WorkRunning)"

definition syncRunIsClaimable :: "sync_run_status \<Rightarrow> bool" where
  "syncRunIsClaimable s \<longleftrightarrow> s = RunQueued \<or> s = RunRunning"

fun syncWorkPriority :: "sync_lane \<Rightarrow> int" where
  "syncWorkPriority LaneInteractive = 600"
| "syncWorkPriority LaneLive = 500"
| "syncWorkPriority LaneCatalog = 400"
| "syncWorkPriority LaneHistory = 200"
| "syncWorkPriority LaneMedia = 100"

fun is_integer_between :: "int \<Rightarrow> int option \<Rightarrow> js_num \<Rightarrow> bool" where
  "is_integer_between lo hi (Num q) =
     (q = of_int \<lfloor>q\<rfloor> \<and> lo \<le> \<lfloor>q\<rfloor> \<and> (case hi of None \<Rightarrow> True | Some h \<Rightarrow> \<lfloor>q\<rfloor> \<le> h))"
| "is_integer_between lo hi _ = False"

definition validateSyncRunOptions :: "sync_run_options \<Rightarrow> js_error + unit" where
  "validateSyncRunOptions os =
     (if (case ro_max_pages os of None \<Rightarrow> False | Some p \<Rightarrow> \<not> is_integer_between 1 None p)
      then Inl (ErrorMsg ''sync run max_pages must be a positive integer'')
      else if (case ro_stream_keys os of None \<Rightarrow> False | Some ks \<Rightarrow> list_ex (\<lambda>k. js_trim k = []) ks)
      then Inl (ErrorMsg ''sync run stream_keys must contain non-empty strings'')
      else if (case ro_run_window os of None \<Rightarrow> False | Some w \<Rightarrow>
                 \<not> is_integer_between 0 (Some 23) (rw_start_hour w)
                 \<or> \<not> is_integer_between 0 (Some 23) (rw_end_hour w))
      then Inl (ErrorMsg ''sync run window hours must be between 0 and 23'')
      else Inr ())"

lemma syncWorkPriority_inj: "syncWorkPriority a = syncWorkPriority b \<longleftrightarrow> a = b"
  by (cases a; cases b) simp_all

lemma validate_no_run_options [simp]: "validateSyncRunOptions no_run_options = Inr ()"
  by (simp add: validateSyncRunOptions_def no_run_options_def)

end
