(* ===== verification/SyncCursor.thy ===== *)
theory SyncCursor
  imports SyncContracts
begin

section \<open>Cursor commits and the history policy\<close>

text \<open>
  \<open>packages/domain/src/sync-cursor-commit.ts\<close> (which cursor a page writes, whether the
  lane goes on) and \<open>sync-history.ts\<close> (the policy of an installation and the lanes a
  phase owes).
\<close>

definition cursorKindFromPoll :: "bool \<Rightarrow> string option \<Rightarrow> cursor_kind" where
  "cursorKindFromPoll older before =
     (if trim_opt before \<noteq> None then KindScroll else if older then KindHistory else KindLive)"

record cursor_write =
  cw_live :: bool
  cw_history :: bool
  cw_lease :: bool

definition cursorWriteFor :: "cursor_kind \<Rightarrow> bool \<Rightarrow> cursor_write" where
  "cursorWriteFor kind seedHistory =
     (if kind = KindScroll then \<lparr>cw_live = False, cw_history = False, cw_lease = False\<rparr>
      else if kind = KindHistory then \<lparr>cw_live = False, cw_history = True, cw_lease = True\<rparr>
      else \<lparr>cw_live = True, cw_history = seedHistory, cw_lease = True\<rparr>)"

definition sameLaneContinues :: "cursor_kind \<Rightarrow> bool \<Rightarrow> bool \<Rightarrow> bool" where
  "sameLaneContinues kind hasMore historyPending =
     (if kind = KindScroll then False
      else if kind = KindHistory then hasMore
      else if historyPending then False
      else hasMore)"

definition shouldSeedHistoryCursor ::
  "history_policy \<Rightarrow> sync_phase option \<Rightarrow> string option \<Rightarrow> bool \<Rightarrow> bool" where
  "shouldSeedHistoryCursor policy phase historyCursor historyPending =
     (if policy \<noteq> Backfill \<or> \<not> historyPending then False
      else if trim_opt historyCursor \<noteq> None then False
      else phase = None \<or> phase = Some PhaseUnseeded)"

definition pollCursorValue ::
  "cursor_kind \<Rightarrow> string option \<Rightarrow> string option \<Rightarrow> string option \<Rightarrow> string option" where
  "pollCursorValue kind liveCursor historyCursor leaseCursor =
     (if kind = KindHistory then or_opt (trim_opt historyCursor) (trim_opt leaseCursor)
      else or_opt (trim_opt liveCursor) (trim_opt leaseCursor))"

subsection \<open>The policy of an installation\<close>

definition DEFAULT_HISTORY_POLICY :: history_policy where
  "DEFAULT_HISTORY_POLICY = Backfill"

text \<open>
  The \<open>config\<close> of an installation is a JSON object; the code reads one key of it.
  \<^term>\<open>None\<close> stands for a key that is absent or not a string.
\<close>

type_synonym config = "string \<Rightarrow> string option"

definition historyPolicyFromConfig :: "config option \<Rightarrow> history_policy" where
  "historyPolicyFromConfig conf =
     (case conf of None \<Rightarrow> DEFAULT_HISTORY_POLICY
      | Some c \<Rightarrow> (case c ''history_policy'' of None \<Rightarrow> DEFAULT_HISTORY_POLICY
          | Some raw \<Rightarrow>
              let value = to_lower (js_trim raw)
              in if value = ''backfill'' then Backfill
                 else if value = ''incremental'' then Incremental
                 else DEFAULT_HISTORY_POLICY))"

definition steadySyncClaimLanes :: "sync_lane list" where
  "steadySyncClaimLanes = [LaneInteractive, LaneLive, LaneMedia]"

definition historySyncClaimLanes :: "sync_lane list" where
  "historySyncClaimLanes = [LaneHistory]"

definition shouldRunHistoryTick :: "bool \<Rightarrow> bool \<Rightarrow> bool \<Rightarrow> bool" where
  "shouldRunHistoryTick backgroundReleased deferHistory throttleHistory \<longleftrightarrow>
     backgroundReleased \<and> \<not> deferHistory \<and> \<not> throttleHistory"

text \<open>The duty of a phase: \<open>"history"\<close> or \<open>"live"\<close>, as the lane it is worked in.\<close>

definition messageDuty :: "sync_phase option \<Rightarrow> history_policy \<Rightarrow> sync_lane" where
  "messageDuty phase policy =
     (if policy = Backfill \<and> phase = Some PhaseHistory then LaneHistory else LaneLive)"

definition owedSyncLanes :: "sync_phase \<Rightarrow> bool \<Rightarrow> history_policy \<Rightarrow> sync_lane list" where
  "owedSyncLanes phase mediaPending policy =
     (if messageDuty (Some phase) policy = LaneHistory then [LaneHistory] else [LaneLive])
     @ (if mediaPending then [LaneMedia] else [])"

definition releaseHistoryPhase :: "sync_stream_state \<Rightarrow> history_policy \<Rightarrow> sync_stream_state" where
  "releaseHistoryPhase s policy =
     (if policy = Incremental \<and> ss_phase s = PhaseHistory then s\<lparr>ss_phase := PhaseLive\<rparr> else s)"

subsection \<open>Facts the other components use\<close>

lemma messageDuty_simps [simp]:
  "messageDuty (Some PhaseHistory) Backfill = LaneHistory"
  "messageDuty p Incremental = LaneLive"
  "p \<noteq> Some PhaseHistory \<Longrightarrow> messageDuty p policy = LaneLive"
  by (auto simp: messageDuty_def)

lemma owedSyncLanes_set:
  "l \<in> set (owedSyncLanes p m policy) \<longleftrightarrow>
     l = messageDuty (Some p) policy \<or> m \<and> l = LaneMedia"
  by (auto simp: owedSyncLanes_def messageDuty_def)

lemma distinct_owedSyncLanes [simp]: "distinct (owedSyncLanes p m policy)"
  by (auto simp: owedSyncLanes_def)

lemma releaseHistoryPhase_frame [simp]:
  "ss_installation_id (releaseHistoryPhase s pol) = ss_installation_id s"
  "ss_stream_key (releaseHistoryPhase s pol) = ss_stream_key s"
  "ss_generation (releaseHistoryPhase s pol) = ss_generation s"
  "ss_updated_at (releaseHistoryPhase s pol) = ss_updated_at s"
  "ss_media_pending (releaseHistoryPhase s pol) = ss_media_pending s"
  by (simp_all add: releaseHistoryPhase_def)

lemma cursorWriteFor_simps [simp]:
  "cw_live (cursorWriteFor k b) = (k = KindLive)"
  "cw_history (cursorWriteFor k b) = (k = KindHistory \<or> k = KindLive \<and> b)"
  "cw_lease (cursorWriteFor k b) = (k \<noteq> KindScroll)"
  by (cases k; simp add: cursorWriteFor_def)+

lemma sameLaneContinues_simps [simp]:
  "sameLaneContinues KindScroll m h = False"
  "sameLaneContinues KindHistory m h = m"
  "sameLaneContinues KindLive m h = (m \<and> \<not> h)"
  by (auto simp: sameLaneContinues_def)

end
