(* ===== verification/SyncPhase.thy ===== *)
theory SyncPhase
  imports SyncCursor
begin

section \<open>The phase of a stream\<close>

text \<open>
  \<open>packages/domain/src/sync-phase.ts\<close> (deriving the next phase of a stream from a page),
  \<open>sync-outcome.ts\<close> (the outcome of a poll), \<open>sync-lifecycle.ts\<close> and
  \<open>sync-gate.ts\<close>. A stream starts unseeded, walks its history (policy backfill), then stays
  on its live tail, live or steady.
\<close>

subsection \<open>sync-phase.ts\<close>

definition streamCursorUnseeded :: "string option \<Rightarrow> bool" where
  "streamCursorUnseeded v \<longleftrightarrow> trim_opt v = None"

text \<open>\<open>idleUntil && now && idleUntil > now\<close>.\<close>

fun idle_ahead :: "string option \<Rightarrow> string option \<Rightarrow> bool" where
  "idle_ahead (Some i) (Some n) = (i \<noteq> [] \<and> n \<noteq> [] \<and> n < i)"
| "idle_ahead _ _ = False"

definition deriveSyncPhaseFromHint ::
  "sync_poll_hint \<Rightarrow> string option \<Rightarrow> string option \<Rightarrow> sync_phase option
   \<Rightarrow> history_policy option \<Rightarrow> cursor_kind option \<Rightarrow> sync_phase" where
  "deriveSyncPhaseFromHint hint idleUntil now fallback pol kind =
     (let policy = or_else pol Backfill
      in if kind = Some KindScroll \<and> fallback \<noteq> None \<and> fallback \<noteq> Some PhaseUnseeded then the fallback
         else if policy = Incremental then
           (if live_seeded hint = Some False \<and> fallback \<noteq> Some PhaseLive \<and> fallback \<noteq> Some PhaseSteady
            then PhaseUnseeded
            else if idle_ahead idleUntil now then PhaseSteady
            else PhaseLive)
         else if kind = Some KindLive \<and> fallback = Some PhaseHistory then PhaseHistory
         else if fallback = Some PhaseLive \<or> fallback = Some PhaseSteady then
           (if live_seeded hint = Some False then the fallback
            else if idle_ahead idleUntil now then PhaseSteady
            else if fallback = Some PhaseSteady then PhaseSteady else PhaseLive)
         else if live_seeded hint = Some False then PhaseUnseeded
         else if history_pending hint = Some True then PhaseHistory
         else if idle_ahead idleUntil now then PhaseSteady
         else PhaseLive)"

record derive_input =
  di_live_cursor :: "string option"
  di_history_cursor :: "string option"
  di_idle_until :: "string option"
  di_poll_hint :: "sync_poll_hint option"
  di_now :: "string option"
  di_fallback_phase :: "sync_phase option"
  di_cursor_kind :: "cursor_kind option"
  di_history_policy :: "history_policy option"

definition deriveSyncPhase :: "derive_input \<Rightarrow> sync_phase" where
  "deriveSyncPhase i =
     (case di_poll_hint i of
        Some hint \<Rightarrow> deriveSyncPhaseFromHint hint (di_idle_until i) (di_now i)
          (di_fallback_phase i) (di_history_policy i) (di_cursor_kind i)
      | None \<Rightarrow>
          if streamCursorUnseeded (di_live_cursor i) then PhaseUnseeded
          else case di_fallback_phase i of
                 Some f \<Rightarrow>
                   if f \<noteq> PhaseUnseeded \<and> f \<noteq> PhaseHistory \<and> idle_ahead (di_idle_until i) (di_now i)
                   then PhaseSteady else f
               | None \<Rightarrow> PhaseUnseeded)"

definition syncStateFromCursor ::
  "string \<Rightarrow> string \<Rightarrow> string option \<Rightarrow> string \<Rightarrow> int option \<Rightarrow> sync_stream_state" where
  "syncStateFromCursor inst key cursor now generation =
     (let live = trim_opt cursor
      in \<lparr>ss_installation_id = inst, ss_stream_key = key,
          ss_phase = deriveSyncPhase \<lparr>di_live_cursor = live, di_history_cursor = live,
            di_idle_until = None, di_poll_hint = None, di_now = Some now,
            di_fallback_phase = None, di_cursor_kind = None, di_history_policy = None\<rparr>,
          ss_live_cursor = live, ss_history_cursor = live, ss_media_pending = False,
          ss_idle_until = None, ss_generation = or_else generation 1, ss_updated_at = now\<rparr>)"

definition outcome_kind :: "sync_page_outcome \<Rightarrow> cursor_kind" where
  "outcome_kind o1 =
     or_else (po_cursor_kind o1) (if po_older o1 then KindHistory else KindLive)"

definition outcome_history_pending :: "sync_page_outcome \<Rightarrow> bool" where
  "outcome_history_pending o1 =
     (case po_poll_hint o1 of None \<Rightarrow> False | Some h \<Rightarrow> history_pending h = Some True)"

text \<open>The idle time after the page: a positive \<open>idle_ms\<close> when the lane stops here.\<close>

definition advance_idle_until ::
  "sync_stream_state option \<Rightarrow> sync_page_outcome \<Rightarrow> js_error + string option" where
  "advance_idle_until cur o1 =
     (let continues = sameLaneContinues (outcome_kind o1) (po_has_more o1) (outcome_history_pending o1)
      in if \<not> po_error o1 \<and> \<not> continues \<and> (case po_idle_ms o1 of None \<Rightarrow> False | Some ms \<Rightarrow> 0 < ms)
         then map_sum id Some (add_ms (po_now o1) (the (po_idle_ms o1)))
         else if continues \<or> po_error o1 then Inr None
         else Inr (case cur of None \<Rightarrow> None | Some s \<Rightarrow> ss_idle_until s))"

definition advanceSyncState ::
  "sync_stream_state option \<Rightarrow> sync_page_outcome \<Rightarrow> js_error + sync_stream_state" where
  "advanceSyncState cur o1 =
     (let live = or_opt (po_next_live_cursor o1) (Option.bind cur ss_live_cursor);
          history = or_opt (po_next_history_cursor o1) (Option.bind cur ss_history_cursor);
          mediaPending = or_else (po_media_pending o1)
            (case cur of None \<Rightarrow> False | Some s \<Rightarrow> ss_media_pending s)
      in case advance_idle_until cur o1 of
           Inl e \<Rightarrow> Inl e
         | Inr idleUntil \<Rightarrow>
             Inr \<lparr>ss_installation_id = po_installation_id o1, ss_stream_key = po_stream_key o1,
               ss_phase =
                 (if po_error o1 then (case cur of None \<Rightarrow> PhaseLive | Some s \<Rightarrow> ss_phase s)
                  else deriveSyncPhase \<lparr>di_live_cursor = live, di_history_cursor = history,
                    di_idle_until = idleUntil, di_poll_hint = po_poll_hint o1,
                    di_now = Some (po_now o1), di_fallback_phase = map_option ss_phase cur,
                    di_cursor_kind = po_cursor_kind o1, di_history_policy = po_history_policy o1\<rparr>),
               ss_live_cursor = live, ss_history_cursor = history, ss_media_pending = mediaPending,
               ss_idle_until = idleUntil,
               ss_generation = (case cur of None \<Rightarrow> 1 | Some s \<Rightarrow> ss_generation s),
               ss_updated_at = po_now o1\<rparr>)"

definition syncStateIsDue :: "sync_stream_state option \<Rightarrow> string \<Rightarrow> bool \<Rightarrow> bool" where
  "syncStateIsDue st now preferred =
     (case st of
        None \<Rightarrow> True
      | Some s \<Rightarrow>
          preferred \<or> ss_phase s = PhaseUnseeded \<or> ss_phase s = PhaseHistory
          \<or> (case ss_idle_until s of None \<Rightarrow> True | Some i \<Rightarrow> i = [] \<or> i \<le> now))"

definition shouldKeepSyncCatchingUp :: "bool \<Rightarrow> bool \<Rightarrow> bool" where
  "shouldKeepSyncCatchingUp hasMore err = (if err then True else if hasMore then True else False)"


subsection \<open>sync-outcome.ts\<close>

datatype record_status = RecAccepted | RecDuplicate | RecQuarantined | RecRetryable

text \<open>
  What a poll run returns: a run that did not poll (no lease, no quota, wrong mode) has none
  of the page fields; a page has all of them, possibly \<open>undefined\<close>.
\<close>

datatype poll_run =
    PollSkipped
  | PollPage (pg_records: "record_status list") (pg_next_cursor: "string option")
      (pg_has_more: "bool option") (pg_media_pending: "bool option")
      (pg_poll_hint: "sync_poll_hint option")

record poll_run_item =
  pi_stream_key :: string
  pi_thread_id :: "string option"
  pi_older :: bool
  pi_media :: bool
  pi_idle_ms :: "int option"
  pi_poll_hint :: "sync_poll_hint option"
  pi_cursor_kind :: "cursor_kind option"
  pi_history_policy :: "history_policy option"
  pi_phase :: "sync_phase option"
  pi_history_cursor :: "string option"

record poll_run_summary =
  ps_pages :: "poll_run list"
  ps_error :: bool

fun summarizePollRuns :: "poll_run list \<Rightarrow> int \<times> int" where
  "summarizePollRuns [] = (0, 0)"
| "summarizePollRuns (PollSkipped # ps) = summarizePollRuns ps"
| "summarizePollRuns (PollPage rs c m d h # ps) =
     (case summarizePollRuns ps of (acc, quar) \<Rightarrow>
        (int (count_list rs RecAccepted) + acc, int (count_list rs RecQuarantined) + quar))"

definition last_page :: "(poll_run \<Rightarrow> bool) \<Rightarrow> poll_run list \<Rightarrow> poll_run option" where
  "last_page P ps = List.find P (rev ps)"

definition syncPageOutcomeFromPollRuns ::
  "string \<Rightarrow> poll_run_item \<Rightarrow> poll_run_summary \<Rightarrow> string \<Rightarrow> sync_page_outcome" where
  "syncPageOutcomeFromPollRuns inst item runs now =
     (let summary = summarizePollRuns (ps_pages runs);
          last = last_page (\<lambda>p. p \<noteq> PollSkipped) (ps_pages runs);
          nextCursor = Option.bind last pg_next_cursor;
          mediaPage = last_page (\<lambda>p. p \<noteq> PollSkipped) (ps_pages runs);
          hintPage = last_page (\<lambda>p. p \<noteq> PollSkipped \<and> pg_poll_hint p \<noteq> None) (ps_pages runs);
          pollHint = (case hintPage of Some p \<Rightarrow> pg_poll_hint p | None \<Rightarrow> pi_poll_hint item);
          historyPending = (case pollHint of None \<Rightarrow> False | Some h \<Rightarrow> history_pending h = Some True);
          rawHasMore = list_ex (\<lambda>p. p \<noteq> PollSkipped \<and> pg_has_more p = Some True) (ps_pages runs);
          kind = or_else (pi_cursor_kind item) (if pi_older item then KindHistory else KindLive);
          policy = or_else (pi_history_policy item) Backfill;
          write = cursorWriteFor kind (kind = KindLive \<and>
            shouldSeedHistoryCursor policy (pi_phase item) (pi_history_cursor item) historyPending)
      in \<lparr>po_installation_id = inst, po_stream_key = pi_stream_key item,
          po_thread_id = pi_thread_id item, po_older = pi_older item, po_media = pi_media item,
          po_accepted_count = fst summary, po_quarantined_count = snd summary,
          po_has_more = sameLaneContinues kind rawHasMore historyPending,
          po_next_live_cursor = (if cw_live write then nextCursor else None),
          po_next_history_cursor = (if cw_history write then nextCursor else None),
          po_media_pending = Option.bind mediaPage pg_media_pending,
          po_idle_ms = pi_idle_ms item, po_poll_hint = pollHint,
          po_cursor_kind = Some kind, po_history_policy = Some policy,
          po_error = ps_error runs, po_now = now\<rparr>)"

text \<open>
  The stored state the poll started from is the \<open>prior\<close> of \<open>syncOutcomeForPoll\<close>; the
  other arguments are those of its input record.
\<close>

definition syncOutcomeForPoll ::
  "string \<Rightarrow> string \<times> string option \<Rightarrow> sync_stream_state option \<Rightarrow> history_policy option
   \<Rightarrow> bool \<Rightarrow> string option \<Rightarrow> bool \<Rightarrow> int option \<Rightarrow> poll_run_summary \<Rightarrow> string
   \<Rightarrow> sync_page_outcome" where
  "syncOutcomeForPoll inst stream prior policy older before media idleMs runs now =
     syncPageOutcomeFromPollRuns inst
       \<lparr>pi_stream_key = fst stream, pi_thread_id = snd stream, pi_older = older, pi_media = media,
        pi_idle_ms = idleMs, pi_poll_hint = None,
        pi_cursor_kind = Some (cursorKindFromPoll older before),
        pi_history_policy = Some (or_else policy Backfill),
        pi_phase = map_option ss_phase prior,
        pi_history_cursor = Option.bind prior ss_history_cursor\<rparr> runs now"

subsection \<open>sync-lifecycle.ts and sync-gate.ts\<close>

datatype lifecycle_mode = Bootstrap | Steady

definition syncLifecycleMode :: "sync_phase option \<Rightarrow> lifecycle_mode" where
  "syncLifecycleMode phase =
     (if phase = None \<or> phase = Some PhaseUnseeded \<or> phase = Some PhaseHistory then Bootstrap
      else Steady)"

definition isBootstrapPhase :: "sync_phase option \<Rightarrow> bool" where
  "isBootstrapPhase phase \<longleftrightarrow> syncLifecycleMode phase = Bootstrap"

definition isSteadyPhase :: "sync_phase option \<Rightarrow> bool" where
  "isSteadyPhase phase \<longleftrightarrow> syncLifecycleMode phase = Steady"

definition isSyncComplete :: "sync_phase option \<Rightarrow> bool" where
  "isSyncComplete phase \<longleftrightarrow> isSteadyPhase phase"

type_synonym states_map = "(string, sync_stream_state) js_map"

definition phase_of :: "states_map \<Rightarrow> sync_catalog_member \<Rightarrow> sync_phase option" where
  "phase_of states m = map_option ss_phase (map_of states (cm_stream_key m))"

definition media_pending_of :: "states_map \<Rightarrow> sync_catalog_member \<Rightarrow> bool" where
  "media_pending_of states m =
     (case map_of states (cm_stream_key m) of None \<Rightarrow> False | Some s \<Rightarrow> ss_media_pending s)"

record lifecycle_progress =
  lp_discovered :: nat
  lp_bootstrap_pending :: nat
  lp_steady :: nat
  lp_unseeded :: nat
  lp_history_backfill :: nat
  lp_media_pending :: nat

fun summarizeSyncLifecycle :: "sync_catalog_member list \<Rightarrow> states_map \<Rightarrow> lifecycle_progress" where
  "summarizeSyncLifecycle [] states =
     \<lparr>lp_discovered = 0, lp_bootstrap_pending = 0, lp_steady = 0, lp_unseeded = 0,
      lp_history_backfill = 0, lp_media_pending = 0\<rparr>"
| "summarizeSyncLifecycle (m # ms) states =
     (let p = summarizeSyncLifecycle ms states;
          phase = phase_of states m;
          p1 = (if phase = None \<or> phase = Some PhaseUnseeded
                then p\<lparr>lp_bootstrap_pending := Suc (lp_bootstrap_pending p),
                       lp_unseeded := Suc (lp_unseeded p)\<rparr>
                else if phase = Some PhaseHistory
                then p\<lparr>lp_bootstrap_pending := Suc (lp_bootstrap_pending p),
                       lp_history_backfill := Suc (lp_history_backfill p)\<rparr>
                else p\<lparr>lp_steady := Suc (lp_steady p)\<rparr>);
          p2 = (if media_pending_of states m
                then p1\<lparr>lp_media_pending := Suc (lp_media_pending p1)\<rparr> else p1)
      in p2\<lparr>lp_discovered := Suc (lp_discovered p)\<rparr>)"

definition partitionMembersByLifecycle ::
  "sync_catalog_member list \<Rightarrow> states_map \<Rightarrow> sync_catalog_member list \<times> sync_catalog_member list" where
  "partitionMembersByLifecycle members states =
     partition (\<lambda>m. isBootstrapPhase (phase_of states m)) members"

definition shouldDeferWorkForSync :: "bool \<Rightarrow> sync_phase option \<Rightarrow> bool" where
  "shouldDeferWorkForSync requiresFullSync phase =
     (if \<not> requiresFullSync then False else if phase = None then False else \<not> isSyncComplete phase)"

definition syncPhaseForThread ::
  "string \<Rightarrow> sync_catalog_member list \<Rightarrow> states_map \<Rightarrow> sync_phase option" where
  "syncPhaseForThread threadId members states =
     (case List.find (\<lambda>m. cm_thread_id m = Some threadId) members of
        None \<Rightarrow> None | Some m \<Rightarrow> phase_of states m)"


subsection \<open>How a page moves the state\<close>

fun phase_rank :: "sync_phase \<Rightarrow> nat" where
  "phase_rank PhaseUnseeded = 0"
| "phase_rank PhaseHistory = 1"
| "phase_rank PhaseLive = 2"
| "phase_rank PhaseSteady = 2"

abbreviation caught_up :: "sync_phase \<Rightarrow> bool" where
  "caught_up p \<equiv> p = PhaseLive \<or> p = PhaseSteady"

text \<open>Applying the outcomes of successive pages, as \<open>rememberResult\<close> does.\<close>

fun advance_all :: "sync_stream_state option \<Rightarrow> sync_page_outcome list
    \<Rightarrow> js_error + sync_stream_state option" where
  "advance_all cur [] = Inr cur"
| "advance_all cur (p # ps) =
     (case advanceSyncState cur p of Inl e \<Rightarrow> Inl e | Inr s \<Rightarrow> advance_all (Some s) ps)"

text \<open>
  The pages that take the seed of a stream back, and no others: a page that did not fail, of
  a stream past the unseeded phase, that either carries no hint and leaves a blank live cursor,
  or whose hint says the live tail was never seeded while the stream is still in its history.
  The latter is ignored on a thread scroll and, under a backfill policy, on a live poll.
\<close>

definition seed_lost :: "sync_stream_state \<Rightarrow> sync_page_outcome \<Rightarrow> bool" where
  "seed_lost c o1 \<longleftrightarrow> \<not> po_error o1 \<and>
     (case po_poll_hint o1 of
        None \<Rightarrow> ss_phase c \<noteq> PhaseUnseeded
          \<and> streamCursorUnseeded (or_opt (po_next_live_cursor o1) (ss_live_cursor c))
      | Some h \<Rightarrow> live_seeded h = Some False \<and> ss_phase c = PhaseHistory
          \<and> po_cursor_kind o1 \<noteq> Some KindScroll
          \<and> (po_history_policy o1 = Some Incremental \<or> po_cursor_kind o1 \<noteq> Some KindLive))"

text \<open>The pages of a run of \<open>advance_all\<close>, each with the state before and after it.\<close>

fun page_steps :: "sync_stream_state \<Rightarrow> sync_page_outcome list
    \<Rightarrow> (sync_stream_state \<times> sync_page_outcome \<times> sync_stream_state) list" where
  "page_steps c [] = []"
| "page_steps c (p # ps) =
     (case advanceSyncState (Some c) p of
        Inl e \<Rightarrow> [] | Inr d \<Rightarrow> (c, p, d) # page_steps d ps)"

lemma advance_fields:
  assumes "advanceSyncState cur o1 = Inr s"
  shows "ss_live_cursor s = or_opt (po_next_live_cursor o1) (Option.bind cur ss_live_cursor)"
    and "ss_history_cursor s = or_opt (po_next_history_cursor o1) (Option.bind cur ss_history_cursor)"
    and "advance_idle_until cur o1 = Inr (ss_idle_until s)"
    and "ss_generation s = (case cur of None \<Rightarrow> 1 | Some c \<Rightarrow> ss_generation c)"
    and "ss_installation_id s = po_installation_id o1" and "ss_stream_key s = po_stream_key o1"
    and "ss_updated_at s = po_now o1"
  using assms by (auto simp: advanceSyncState_def Let_def split: sum.splits)

lemma advance_phase:
  assumes "advanceSyncState cur o1 = Inr s"
  shows "ss_phase s =
    (if po_error o1 then (case cur of None \<Rightarrow> PhaseLive | Some c \<Rightarrow> ss_phase c)
     else case po_poll_hint o1 of
       Some h \<Rightarrow> deriveSyncPhaseFromHint h (ss_idle_until s) (Some (po_now o1))
                 (map_option ss_phase cur) (po_history_policy o1) (po_cursor_kind o1)
     | None \<Rightarrow> if streamCursorUnseeded (ss_live_cursor s) then PhaseUnseeded
         else case cur of None \<Rightarrow> PhaseUnseeded | Some c \<Rightarrow>
           if ss_phase c \<noteq> PhaseUnseeded \<and> ss_phase c \<noteq> PhaseHistory
              \<and> idle_ahead (ss_idle_until s) (Some (po_now o1))
           then PhaseSteady else ss_phase c)"
  using assms
  by (auto simp: advanceSyncState_def Let_def deriveSyncPhase_def split: sum.splits option.splits)

lemma from_hint_caught_up:
  "caught_up f \<Longrightarrow> caught_up (deriveSyncPhaseFromHint h i n (Some f) pol kind)"
  by (auto simp: deriveSyncPhaseFromHint_def Let_def)

lemma from_hint_falls:
  "phase_rank (deriveSyncPhaseFromHint h i n (Some f) pol kind) < phase_rank f
     \<longleftrightarrow> live_seeded h = Some False \<and> f = PhaseHistory \<and> kind \<noteq> Some KindScroll
        \<and> (pol = Some Incremental \<or> kind \<noteq> Some KindLive)"
  by (cases f; cases pol; cases "the pol")
    (auto simp: deriveSyncPhaseFromHint_def Let_def or_else_def)

lemma advance_falls:
  assumes adv: "advanceSyncState (Some c) o1 = Inr d"
  shows "phase_rank (ss_phase d) < phase_rank (ss_phase c) \<longleftrightarrow> seed_lost c o1"
proof (cases "po_error o1")
  case False
  show ?thesis
  proof (cases "po_poll_hint o1")
    case None
    with False advance_phase[OF adv] advance_fields(1)[OF adv] show ?thesis
      by (cases "ss_phase c") (auto simp: seed_lost_def)
  next
    case (Some h)
    with False advance_phase[OF adv] show ?thesis by (simp add: seed_lost_def from_hint_falls)
  qed
qed (use advance_phase[OF adv] in \<open>simp add: seed_lost_def\<close>)

lemma fall_is_to_unseeded:
  assumes "advanceSyncState (Some c) o1 = Inr d" and "seed_lost c o1"
  shows "ss_phase d = PhaseUnseeded"
proof -
  from assms advance_falls have "phase_rank (ss_phase d) < phase_rank (ss_phase c)" by blast
  moreover have "caught_up (ss_phase c) \<Longrightarrow> caught_up (ss_phase d) \<or> ss_phase d = PhaseUnseeded"
    using advance_phase[OF assms(1)] assms(2)
    by (auto simp: seed_lost_def advance_fields(1)[OF assms(1)] split: option.splits)
  ultimately show ?thesis by (cases "ss_phase c"; cases "ss_phase d") auto
qed

lemma page_steps_run:
  "advance_all (Some c) ps = Inr (Some s) \<Longrightarrow>
     length (page_steps c ps) = length ps
     \<and> (\<forall>(b, p, d) \<in> set (page_steps c ps). advanceSyncState (Some b) p = Inr d)
     \<and> ((\<forall>(b, p, d) \<in> set (page_steps c ps). \<not> seed_lost b p)
         \<longrightarrow> phase_rank (ss_phase c) \<le> phase_rank (ss_phase s))"
proof (induction ps arbitrary: c)
  case (Cons p ps)
  from Cons.prems obtain d where d: "advanceSyncState (Some c) p = Inr d"
    and rest: "advance_all (Some d) ps = Inr (Some s)" by (auto split: sum.splits)
  have "\<not> seed_lost c p \<Longrightarrow> phase_rank (ss_phase c) \<le> phase_rank (ss_phase d)"
    using advance_falls[OF d] by simp
  with d Cons.IH[OF rest] show ?case by (auto intro: order_trans)
qed simp

text \<open>C38. Over any sequence of pages, the phase of a stream falls back (from the live tail or
  from its history) exactly at the pages that take its seed back (\<open>seed_lost\<close>: no hint and a
  blank live cursor, or, in the history phase, a hint that the live tail was never seeded on a
  page that is no scroll nor, unless the policy is incremental, a live poll), and then to unseeded; a run without such a page only moves forward, from unseeded through history
  to the live tail, whatever the policy, the kind of call, the idle times or the failures.\<close>

theorem phase_falls_only_without_seed:
  assumes run: "advance_all (Some c) ps = Inr (Some s)"
  shows "length (page_steps c ps) = length ps
     \<and> (\<forall>(b, p, d) \<in> set (page_steps c ps).
          (phase_rank (ss_phase d) < phase_rank (ss_phase b) \<longleftrightarrow> seed_lost b p)
          \<and> (seed_lost b p \<longrightarrow> ss_phase d = PhaseUnseeded))
     \<and> ((\<forall>(b, p, d) \<in> set (page_steps c ps). \<not> seed_lost b p)
         \<longrightarrow> phase_rank (ss_phase c) \<le> phase_rank (ss_phase s))"
  using page_steps_run[OF run] advance_falls fall_is_to_unseeded by fastforce

definition sample_state :: "sync_phase \<Rightarrow> sync_stream_state" where
  "sample_state p = \<lparr>ss_installation_id = ''i'', ss_stream_key = ''s'', ss_phase = p,
     ss_live_cursor = Some ''c1'', ss_history_cursor = None, ss_media_pending = False,
     ss_idle_until = None, ss_generation = 1, ss_updated_at = iso_string 0\<rparr>"

definition sample_outcome :: "cursor_kind \<Rightarrow> sync_poll_hint option \<Rightarrow> int option \<Rightarrow> sync_page_outcome" where
  "sample_outcome k h idle = \<lparr>po_installation_id = ''i'', po_stream_key = ''s'', po_thread_id = None,
     po_older = False, po_media = False, po_accepted_count = 0, po_quarantined_count = 0,
     po_has_more = False, po_next_live_cursor = None, po_next_history_cursor = None,
     po_media_pending = None, po_idle_ms = idle, po_poll_hint = h, po_cursor_kind = Some k,
     po_history_policy = Some Backfill, po_error = False, po_now = iso_string 0\<rparr>"

lemmas sample_defs = sample_state_def sample_outcome_def

text \<open>
  A stream in its history sees a live poll that says the tail was never seeded (ignored), then
  its history page says it was, and that nothing is left (live); the same history page saying
  that it was not sends it back to unseeded.
\<close>

definition sample_seeded :: "bool option \<Rightarrow> sync_poll_hint option" where
  "sample_seeded b = Some \<lparr>live_seeded = b, history_pending = Some False\<rparr>"

lemmas sample_advance_defs = sample_defs sample_seeded_def advanceSyncState_def
  advance_idle_until_def outcome_kind_def deriveSyncPhase_def deriveSyncPhaseFromHint_def Let_def
  outcome_history_pending_def

theorem phase_falls_only_without_seed_witness:
  "\<exists>s t. advance_all (Some (sample_state PhaseHistory))
        [sample_outcome KindLive (sample_seeded (Some False)) None,
         sample_outcome KindHistory (sample_seeded (Some True)) None] = Inr (Some s)
     \<and> 1 \<le> phase_rank (ss_phase s)
     \<and> advance_all (Some (sample_state PhaseHistory))
        [sample_outcome KindHistory (sample_seeded (Some False)) None] = Inr (Some t)
     \<and> ss_phase t = PhaseUnseeded"
proof -
  let ?c = "sample_state PhaseHistory"
  let ?ps = "[sample_outcome KindLive (sample_seeded (Some False)) None,
              sample_outcome KindHistory (sample_seeded (Some True)) None]"
  let ?qs = "[sample_outcome KindHistory (sample_seeded (Some False)) None]"
  have up: "advance_all (Some ?c) ?ps = Inr (Some (?c\<lparr>ss_phase := PhaseLive\<rparr>))"
    by (simp add: sample_advance_defs)
  have down: "advance_all (Some ?c) ?qs = Inr (Some (?c\<lparr>ss_phase := PhaseUnseeded\<rparr>))"
    by (simp add: sample_advance_defs)
  have "\<forall>(b, p, d) \<in> set (page_steps ?c ?ps). \<not> seed_lost b p"
    by (simp add: sample_advance_defs seed_lost_def)
  with phase_falls_only_without_seed[OF up]
  have "1 \<le> phase_rank PhaseLive" by (simp add: sample_defs)
  moreover have "page_steps ?c ?qs = [(?c, hd ?qs, ?c\<lparr>ss_phase := PhaseUnseeded\<rparr>)]"
    and "seed_lost ?c (hd ?qs)" by (simp_all add: sample_advance_defs seed_lost_def)
  with phase_falls_only_without_seed[OF down] have "ss_phase (?c\<lparr>ss_phase := PhaseUnseeded\<rparr>) = PhaseUnseeded"
    by auto
  ultimately show ?thesis using up down by auto
qed

text \<open>A stream that caught up stays on its live tail (live or steady) after any page that
  carries a hint, even one that says the stream was never seeded, and after any failed page.\<close>

lemma caught_up_stays:
  assumes "advanceSyncState (Some c) o1 = Inr s" and "caught_up (ss_phase c)"
    and "po_poll_hint o1 \<noteq> None \<or> po_error o1"
  shows "caught_up (ss_phase s)"
  using advance_phase[OF assms(1)] assms(2,3) from_hint_caught_up by (auto split: option.splits)

lemma caught_up_stays_witness:
  "caught_up PhaseSteady"
proof -
  let ?o = "sample_outcome KindLive (Some \<lparr>live_seeded = Some False, history_pending = Some True\<rparr>) None"
  let ?c = "sample_state PhaseSteady"
  have "advanceSyncState (Some ?c) ?o = Inr ?c"
    by (simp add: sample_defs advanceSyncState_def advance_idle_until_def outcome_kind_def
        deriveSyncPhase_def deriveSyncPhaseFromHint_def Let_def outcome_history_pending_def)
  from caught_up_stays[OF this] show ?thesis by (simp add: sample_defs)
qed


subsection \<open>Which cursor a poll writes\<close>

abbreviation polled :: "string \<Rightarrow> string \<times> string option \<Rightarrow> sync_stream_state option
    \<Rightarrow> history_policy option \<Rightarrow> bool \<Rightarrow> string option \<Rightarrow> bool \<Rightarrow> int option
    \<Rightarrow> poll_run_summary \<Rightarrow> string \<Rightarrow> js_error + sync_stream_state" where
  "polled inst stream cur pol older before media idle runs now \<equiv>
     advanceSyncState cur (syncOutcomeForPoll inst stream cur pol older before media idle runs now)"

definition returned_cursor :: "poll_run_summary \<Rightarrow> string option" where
  "returned_cursor runs = Option.bind (last_page (\<lambda>p. p \<noteq> PollSkipped) (ps_pages runs)) pg_next_cursor"

lemma outcome_fields [simp]:
  "po_cursor_kind (syncOutcomeForPoll inst st cur pol older before media idle runs now)
     = Some (cursorKindFromPoll older before)"
  "po_history_policy (syncOutcomeForPoll inst st cur pol older before media idle runs now)
     = Some (or_else pol Backfill)"
  "po_error (syncOutcomeForPoll inst st cur pol older before media idle runs now) = ps_error runs"
  "po_now (syncOutcomeForPoll inst st cur pol older before media idle runs now) = now"
  "po_idle_ms (syncOutcomeForPoll inst st cur pol older before media idle runs now) = idle"
  by (simp_all add: syncOutcomeForPoll_def syncPageOutcomeFromPollRuns_def Let_def)

lemma outcome_live_cursor:
  "po_next_live_cursor (syncOutcomeForPoll inst st cur pol older before media idle runs now)
     = (if cursorKindFromPoll older before = KindLive then returned_cursor runs else None)"
  by (simp add: syncOutcomeForPoll_def syncPageOutcomeFromPollRuns_def Let_def returned_cursor_def)

lemma outcome_history_cursor:
  "po_next_history_cursor (syncOutcomeForPoll inst st cur pol older before media idle runs now)
     = (if cursorKindFromPoll older before = KindHistory
           \<or> cursorKindFromPoll older before = KindLive
             \<and> shouldSeedHistoryCursor (or_else pol Backfill) (map_option ss_phase cur)
                 (Option.bind cur ss_history_cursor)
                 (outcome_history_pending
                   (syncOutcomeForPoll inst st cur pol older before media idle runs now))
        then returned_cursor runs else None)"
  by (simp add: syncOutcomeForPoll_def syncPageOutcomeFromPollRuns_def Let_def returned_cursor_def
      outcome_history_pending_def split: if_splits)

text \<open>Each call writes its own cursor only. A history page leaves the live cursor and takes
  the returned cursor as the new history cursor. A live page takes the returned cursor as the
  new live cursor and leaves the history cursor of a stream that is past its first seed, or
  that already has one. A scroll page leaves both. A page that returns no cursor keeps the
  stored ones.\<close>

lemma poll_writes_own_cursor:
  assumes "polled inst st cur pol older before media idle runs now = Inr s"
  shows "case cursorKindFromPoll older before of
      KindHistory \<Rightarrow>
        ss_live_cursor s = Option.bind cur ss_live_cursor
        \<and> ss_history_cursor s = or_opt (returned_cursor runs) (Option.bind cur ss_history_cursor)
    | KindLive \<Rightarrow>
        ss_live_cursor s = or_opt (returned_cursor runs) (Option.bind cur ss_live_cursor)
        \<and> ((\<exists>c. cur = Some c \<and> (ss_phase c \<noteq> PhaseUnseeded \<or> trim_opt (ss_history_cursor c) \<noteq> None))
            \<longrightarrow> ss_history_cursor s = Option.bind cur ss_history_cursor)
    | KindScroll \<Rightarrow>
        ss_live_cursor s = Option.bind cur ss_live_cursor
        \<and> ss_history_cursor s = Option.bind cur ss_history_cursor"
  using advance_fields(1,2)[OF assms]
  by (auto simp: outcome_live_cursor outcome_history_cursor shouldSeedHistoryCursor_def
      split: cursor_kind.split)

definition sample_runs :: "string option \<Rightarrow> sync_poll_hint option \<Rightarrow> poll_run_summary" where
  "sample_runs c h = \<lparr>ps_pages = [PollPage [RecAccepted] c (Some False) None h], ps_error = False\<rparr>"

definition seeded_hint :: "bool \<Rightarrow> sync_poll_hint" where
  "seeded_hint pending = \<lparr>live_seeded = Some True, history_pending = Some pending\<rparr>"

lemmas poll_eval = sample_defs sample_runs_def seeded_hint_def syncOutcomeForPoll_def
  syncPageOutcomeFromPollRuns_def last_page_def cursorKindFromPoll_def trim_opt_def
  shouldSeedHistoryCursor_def advanceSyncState_def advance_idle_until_def outcome_kind_def
  deriveSyncPhase_def deriveSyncPhaseFromHint_def outcome_history_pending_def js_trim_def js_space_def
  streamCursorUnseeded_def cursorWriteFor_def

lemma poll_writes_own_cursor_witness:
  "\<exists>s. polled ''i'' (''s'', None) (Some (sample_state PhaseHistory)) None True None False None
         (sample_runs (Some ''c2'') (Some (seeded_hint True))) (iso_string 0) = Inr s
     \<and> ss_live_cursor s = Some ''c1'' \<and> ss_history_cursor s = Some ''c2''"
proof -
  let ?s = "sample_state PhaseHistory"
  have run: "polled ''i'' (''s'', None) (Some ?s) None True None False None
      (sample_runs (Some ''c2'') (Some (seeded_hint True))) (iso_string 0)
      = Inr (?s\<lparr>ss_history_cursor := Some ''c2''\<rparr>)"
    by (simp add: poll_eval)
  have "cursorKindFromPoll True None = KindHistory" by (simp add: cursorKindFromPoll_def)
  with poll_writes_own_cursor[OF run] run show ?thesis
    by (simp add: sample_runs_def returned_cursor_def last_page_def sample_state_def)
qed


subsection \<open>Scrolling\<close>

text \<open>Scrolling an already seeded stream (a page before some message) that did not fail
  and carries a hint moves neither its phase nor its cursors nor its generation.\<close>

lemma scroll_keeps_seeded_stream:
  assumes "polled inst st (Some c) pol older before media idle runs now = Inr s"
    and "trim_opt before \<noteq> None" and "ss_phase c \<noteq> PhaseUnseeded"
    and "po_poll_hint (syncOutcomeForPoll inst st (Some c) pol older before media idle runs now) \<noteq> None"
  shows "ss_phase s = ss_phase c \<and> ss_live_cursor s = ss_live_cursor c
    \<and> ss_history_cursor s = ss_history_cursor c \<and> ss_generation s = ss_generation c"
proof -
  have k: "cursorKindFromPoll older before = KindScroll"
    using assms(2) by (simp add: cursorKindFromPoll_def)
  have "ss_phase s = ss_phase c"
    using advance_phase[OF assms(1)] assms(3,4) k
    by (auto simp: deriveSyncPhaseFromHint_def Let_def split: option.splits)
  then show ?thesis
    using advance_fields(1,2,4)[OF assms(1)] k by (simp add: outcome_live_cursor outcome_history_cursor)
qed

lemma scroll_keeps_seeded_stream_witness:
  "\<exists>s. polled ''i'' (''s'', None) (Some (sample_state PhaseHistory)) None False (Some ''m9'') False None
         (sample_runs (Some ''c2'') (Some (seeded_hint False))) (iso_string 0) = Inr s
     \<and> ss_phase s = PhaseHistory"
proof -
  let ?c = "sample_state PhaseHistory"
  let ?p = "polled ''i'' (''s'', None) (Some ?c) None False (Some ''m9'') False None
      (sample_runs (Some ''c2'') (Some (seeded_hint False))) (iso_string 0)"
  have run: "?p = Inr ?c" by (simp add: poll_eval)
  have "trim_opt (Some ''m9'') \<noteq> None" by (simp add: trim_opt_def js_trim_def js_space_def)
  from scroll_keeps_seeded_stream[OF run this] run show ?thesis by (simp add: poll_eval)
qed

text \<open>The comment of \<open>cursor_kind\<close> says that scrolling does not move the phase. An
  unseeded stream is the exception: scrolling it moves it out of bootstrap to the live tail
  while no live cursor was ever stored; by the caught-up property its history is then never
  walked.\<close>

lemma scroll_moves_unseeded_stream:
  "\<exists>s. polled ''i'' (''s'', None) None None False (Some ''m9'') False None
         (sample_runs (Some ''c2'') (Some (seeded_hint False))) (iso_string 0) = Inr s
     \<and> ss_phase s = PhaseLive \<and> ss_live_cursor s = None \<and> isSyncComplete (Some (ss_phase s))"
  by (simp add: poll_eval isSyncComplete_def isSteadyPhase_def syncLifecycleMode_def)

subsection \<open>Idle times\<close>

text \<open>The page stops the lane and asks for a positive idle time.\<close>

definition idle_page :: "sync_page_outcome \<Rightarrow> int \<Rightarrow> bool" where
  "idle_page o1 ms \<longleftrightarrow> \<not> po_error o1 \<and> po_idle_ms o1 = Some ms \<and> 0 < ms
     \<and> \<not> sameLaneContinues (outcome_kind o1) (po_has_more o1) (outcome_history_pending o1)"

lemma iso_string_neq_Nil [simp]: "iso_string t \<noteq> []"
  by (simp add: iso_string_def split: prod.splits)

text \<open>After a page that stops the lane with an idle time, a stream on its live tail is due
  exactly when the idle time has passed: the stamps are compared as strings, and the result is
  that of comparing the instants. Opening the thread makes it due at once.\<close>

lemma idle_window_exact:
  assumes "idle_page o1 ms" and "po_now o1 = iso_string t"
    and "four_digit_time (t + ms)" and "four_digit_time t" and "four_digit_time u"
    and "advanceSyncState cur o1 = Inr s" and "caught_up (ss_phase s)"
  shows "(syncStateIsDue (Some s) (iso_string u) False \<longleftrightarrow> t + ms \<le> u)
    \<and> syncStateIsDue (Some s) (iso_string u) True"
proof -
  have "ss_idle_until s = Some (iso_string (t + ms))"
    using advance_fields(3)[OF assms(6)] assms(1-4)
    by (simp add: idle_page_def advance_idle_until_def add_ms_iso_string four_digit_max_time)
  then show ?thesis
    using assms(3,5,7) by (auto simp: syncStateIsDue_def iso_string_le_iff)
qed

lemma four_digit_times [simp]: "four_digit_time 0" "four_digit_time 15000" "four_digit_time 14999"
  by (simp_all add: four_digit_time_def)

lemma idle_window_exact_witness:
  "\<exists>s. advanceSyncState (Some (sample_state PhaseLive))
          (sample_outcome KindLive (Some (seeded_hint False)) (Some 15000)) = Inr s
     \<and> \<not> syncStateIsDue (Some s) (iso_string 14999) False"
proof -
  let ?c = "sample_state PhaseLive"
  let ?o = "sample_outcome KindLive (Some (seeded_hint False)) (Some 15000)"
  let ?s = "?c\<lparr>ss_phase := PhaseSteady, ss_idle_until := Some (iso_string 15000)\<rparr>"
  have now: "po_now ?o = iso_string 0" by (simp add: sample_outcome_def)
  have page: "idle_page ?o 15000"
    by (simp add: idle_page_def sample_outcome_def outcome_kind_def outcome_history_pending_def seeded_hint_def)
  have add: "add_ms (iso_string 0) 15000 = Inr (iso_string 15000)"
    using add_ms_iso_string[of 0 15000] by (simp add: max_time_def)
  have "iso_string 0 < iso_string 15000" by (simp add: iso_string_less_iff)
  then have run: "advanceSyncState (Some ?c) ?o = Inr ?s"
    by (simp add: poll_eval Let_def add)
  have "caught_up (ss_phase ?s)" by simp
  from idle_window_exact[OF page now _ _ _ run this, of 14999] run show ?thesis by simp
qed

subsection \<open>Progress counts\<close>

text \<open>The lifecycle summary is a partition: every discovered stream is counted once as
  bootstrap-pending or steady, the pending ones are the unseeded plus those in history, and
  the counts are the lengths of the two halves the tick planner works on.\<close>

lemma lifecycle_summary_partitions:
  "let p = summarizeSyncLifecycle members states; (bs, ss) = partitionMembersByLifecycle members states
   in lp_discovered p = length members
    \<and> lp_bootstrap_pending p = length bs \<and> lp_steady p = length ss
    \<and> lp_bootstrap_pending p + lp_steady p = lp_discovered p
    \<and> lp_unseeded p + lp_history_backfill p = lp_bootstrap_pending p
    \<and> lp_media_pending p = length (List.filter (media_pending_of states) members)"
proof -
  have "lp_discovered (summarizeSyncLifecycle members states) = length members
    \<and> lp_bootstrap_pending (summarizeSyncLifecycle members states)
       = length (List.filter (\<lambda>m. isBootstrapPhase (phase_of states m)) members)
    \<and> lp_steady (summarizeSyncLifecycle members states)
       = length (List.filter (Not \<circ> (\<lambda>m. isBootstrapPhase (phase_of states m))) members)
    \<and> lp_unseeded (summarizeSyncLifecycle members states)
       + lp_history_backfill (summarizeSyncLifecycle members states)
       = lp_bootstrap_pending (summarizeSyncLifecycle members states)
    \<and> lp_media_pending (summarizeSyncLifecycle members states)
       = length (List.filter (media_pending_of states) members)"
    by (induction members)
      (auto simp: Let_def isBootstrapPhase_def syncLifecycleMode_def comp_def)
  then show ?thesis
    using sum_length_filter_compl[of "\<lambda>m. isBootstrapPhase (phase_of states m)" members]
    by (simp add: Let_def partitionMembersByLifecycle_def comp_def)
qed

end
