(* ===== verification/SyncCatalog.thy ===== *)
theory SyncCatalog
  imports SyncPhase
begin

section \<open>The stream catalog of an installation\<close>

text \<open>
  \<open>packages/domain/src/sync-catalog.ts\<close>: applying the pages of a connector's directory to
  the catalog. Generations number the censuses; a member carries the generation of the last
  census that listed it, and the page that completes a census drops the others.
\<close>

definition emptySyncCatalog :: "string \<Rightarrow> sync_catalog_view" where
  "emptySyncCatalog inst = \<lparr>cv_members = [], cv_catalog = None\<rparr>"

text \<open>One incoming member: the body of the second loop of \<open>applySyncCatalogMembers\<close>.\<close>

definition upsert_member ::
  "string \<Rightarrow> int \<Rightarrow> string \<Rightarrow> sync_directory_member
   \<Rightarrow> (string, sync_catalog_member) js_map \<Rightarrow> (string, sync_catalog_member) js_map" where
  "upsert_member inst generation now incoming byKey =
     (let streamKey = js_trim (dm_stream_key incoming)
      in if streamKey = [] then byKey
         else let prev = map_of byKey streamKey
              in js_set streamKey
                \<lparr>cm_installation_id = inst, cm_stream_key = streamKey,
                 cm_thread_id = or_opt (dm_thread_id incoming) (Option.bind prev cm_thread_id),
                 cm_label = or_opt (dm_label incoming) (Option.bind prev cm_label),
                 cm_kind = or_opt (dm_kind incoming) (Option.bind prev cm_kind),
                 cm_generation = generation,
                 cm_discovered_at = (case prev of None \<Rightarrow> now | Some p \<Rightarrow> cm_discovered_at p),
                 cm_last_seen_at = now\<rparr> byKey)"

definition page_generation :: "sync_catalog_view \<Rightarrow> apply_sync_catalog_page_input \<Rightarrow> int" where
  "page_generation current input =
     (let starting = ap_replaces input
            \<or> (\<not> truthy (Option.bind (cv_catalog current) sn_cursor) \<and> \<not> ap_complete input)
      in if starting then (case cv_catalog current of None \<Rightarrow> 0 | Some c \<Rightarrow> sn_generation c) + 1
         else (case cv_catalog current of None \<Rightarrow> 1 | Some c \<Rightarrow> sn_generation c))"

definition applySyncCatalogMembers ::
  "sync_catalog_view \<Rightarrow> apply_sync_catalog_page_input \<Rightarrow> sync_catalog_view" where
  "applySyncCatalogMembers current input =
     (let generation = page_generation current input;
          byKey = js_map_of_list (List.map (\<lambda>m. (cm_stream_key m, m)) (cv_members current));
          byKey' = fold (upsert_member (ap_installation_id input) generation (ap_now input))
                     (ap_members input) byKey;
          members = js_values byKey';
          members' = (if ap_complete input
                      then List.filter (\<lambda>m. cm_generation m = generation) members else members)
      in \<lparr>cv_members = members',
          cv_catalog = Some \<lparr>sn_installation_id = ap_installation_id input,
            sn_cursor = (if ap_complete input \<or> \<not> truthy (ap_next_cursor input) then None
                         else ap_next_cursor input),
            sn_complete = ap_complete input, sn_generation = generation,
            sn_updated_at = ap_now input\<rparr>\<rparr>)"

fun keys_left :: "string list \<Rightarrow> string list \<Rightarrow> sync_catalog_member list \<Rightarrow> string list" where
  "keys_left kept seen [] = []"
| "keys_left kept seen (m # ms) =
     (let key = cm_stream_key m
      in if key = [] \<or> key = SYNC_CATALOG_STREAM \<or> key \<in> set kept \<or> key \<in> set seen
         then keys_left kept seen ms
         else key # keys_left kept (key # seen) ms)"

definition catalogStreamKeysLeft :: "sync_catalog_view \<Rightarrow> sync_catalog_view \<Rightarrow> string list" where
  "catalogStreamKeysLeft current next =
     keys_left (List.map cm_stream_key (cv_members next)) [] (cv_members current)"

definition merge_directory_member ::
  "sync_directory_member \<Rightarrow> (string, sync_directory_member) js_map
   \<Rightarrow> (string, sync_directory_member) js_map" where
  "merge_directory_member member byKey =
     (let streamKey = js_trim (dm_stream_key member)
      in if streamKey = [] then byKey
         else let prev = map_of byKey streamKey
              in js_set streamKey
                \<lparr>dm_stream_key = streamKey,
                 dm_thread_id = or_opt (dm_thread_id member) (Option.bind prev dm_thread_id),
                 dm_label = or_opt (dm_label member) (Option.bind prev dm_label),
                 dm_kind = or_opt (dm_kind member) (Option.bind prev dm_kind)\<rparr> byKey)"

definition mergeDirectoryMembers ::
  "sync_directory_member list \<Rightarrow> sync_directory_member list \<Rightarrow> sync_directory_member list" where
  "mergeDirectoryMembers known extra = js_values (fold merge_directory_member (known @ extra) [])"

definition catalogMemberOf ::
  "string \<Rightarrow> sync_directory_member \<Rightarrow> string \<Rightarrow> int \<Rightarrow> sync_catalog_member" where
  "catalogMemberOf inst member now generation =
     \<lparr>cm_installation_id = inst, cm_stream_key = dm_stream_key member,
      cm_thread_id = dm_thread_id member, cm_label = dm_label member, cm_kind = dm_kind member,
      cm_generation = generation, cm_discovered_at = now, cm_last_seen_at = now\<rparr>"

subsection \<open>Lookups after the upserts\<close>

definition listed :: "sync_directory_member list \<Rightarrow> string set" where
  "listed ds = {js_trim (dm_stream_key d) | d. d \<in> set ds} - {[]}"

lemma listed_simps [simp]:
  "listed [] = {}"
  "listed (d # ds) = (if js_trim (dm_stream_key d) = [] then listed ds
     else insert (js_trim (dm_stream_key d)) (listed ds))"
  by (auto simp: listed_def)

text \<open>A catalog map files every member under its own key.\<close>

definition keyed :: "(string, sync_catalog_member) js_map \<Rightarrow> bool" where
  "keyed m \<longleftrightarrow> distinct (js_keys m) \<and> (\<forall>(k, u) \<in> set m. cm_stream_key u = k)"

lemma keyed_map_of: "keyed m \<Longrightarrow> map_of m k = Some u \<Longrightarrow> cm_stream_key u = k"
  by (auto simp: keyed_def dest: map_of_SomeD)

lemma keyed_values: "keyed m \<Longrightarrow> List.map cm_stream_key (js_values m) = js_keys m"
  by (auto simp: keyed_def)

lemma keyed_set: "keyed m \<Longrightarrow> cm_stream_key u = k \<Longrightarrow> keyed (js_set k u m)"
  by (auto simp: keyed_def set_js_set)

lemma js_map_of_list_snoc: "js_map_of_list (ps @ [(k, v)]) = js_set k v (js_map_of_list ps)"
  by (simp add: js_map_of_list_def)

lemma js_set_new: "k \<notin> fst ` set m \<Longrightarrow> js_set k v m = m @ [(k, v)]"
  by (induction m) auto

lemma js_map_of_list_distinct:
  "distinct (List.map fst ps) \<Longrightarrow> js_map_of_list ps = ps"
proof (induction ps rule: rev_induct)
  case (snoc p ps)
  then show ?case by (cases p) (simp add: js_map_of_list_snoc js_set_new)
qed (simp add: js_map_of_list_def)

lemma upsert_member_lookup:
  "map_of (upsert_member inst g now d m) k =
     (if k = js_trim (dm_stream_key d) \<and> k \<noteq> []
      then Some \<lparr>cm_installation_id = inst, cm_stream_key = k,
                 cm_thread_id = or_opt (dm_thread_id d) (Option.bind (map_of m k) cm_thread_id),
                 cm_label = or_opt (dm_label d) (Option.bind (map_of m k) cm_label),
                 cm_kind = or_opt (dm_kind d) (Option.bind (map_of m k) cm_kind),
                 cm_generation = g,
                 cm_discovered_at = (case map_of m k of None \<Rightarrow> now | Some p \<Rightarrow> cm_discovered_at p),
                 cm_last_seen_at = now\<rparr>
      else map_of m k)"
  by (auto simp: upsert_member_def Let_def)

lemma keyed_upsert: "keyed m \<Longrightarrow> keyed (upsert_member inst g now d m)"
  by (auto simp: upsert_member_def Let_def intro: keyed_set)

lemma keyed_upserts: "keyed m \<Longrightarrow> keyed (fold (upsert_member inst g now) ds m)"
  by (induction ds arbitrary: m) (auto intro: keyed_upsert)

lemma upserts_lookup_listed:
  "k \<in> listed ds \<Longrightarrow>
     \<exists>u. map_of (fold (upsert_member inst g now) ds m) k = Some u \<and> cm_generation u = g
       \<and> cm_installation_id u = inst \<and> cm_last_seen_at u = now
       \<and> (\<forall>p. map_of m k = Some p \<longrightarrow> cm_discovered_at u = cm_discovered_at p)"
proof (induction ds arbitrary: m)
  case (Cons d ds)
  let ?m = "upsert_member inst g now d m"
  show ?case
  proof (cases "k \<in> listed ds")
    case True
    have "\<exists>q. map_of ?m k = Some q \<and> cm_discovered_at q = cm_discovered_at p"
      if "map_of m k = Some p" for p
      using that by (auto simp: upsert_member_lookup)
    with Cons.IH[OF True, of ?m] show ?thesis by fastforce
  next
    case False
    with Cons.prems have k: "k = js_trim (dm_stream_key d)" "k \<noteq> []" by (auto split: if_splits)
    have "map_of (fold (upsert_member inst g now) ds m') k = map_of m' k" for m'
      using False by (induction ds arbitrary: m') (auto simp: upsert_member_lookup split: if_splits)
    with k show ?thesis by (simp add: upsert_member_lookup)
  qed
qed simp

lemma upserts_lookup_unlisted:
  "k \<notin> listed ds \<Longrightarrow> map_of (fold (upsert_member inst g now) ds m) k = map_of m k"
  by (induction ds arbitrary: m) (auto simp: upsert_member_lookup split: if_splits)


subsection \<open>The catalog invariant\<close>

text \<open>
  Keys are trimmed, non-empty and distinct; no member is younger than the catalog; a
  finished catalog has no cursor and holds the members of its own generation only.
\<close>

definition wf_catalog :: "string \<Rightarrow> sync_catalog_view \<Rightarrow> bool" where
  "wf_catalog inst v \<longleftrightarrow>
     distinct (List.map cm_stream_key (cv_members v))
     \<and> (\<forall>m \<in> set (cv_members v). cm_stream_key m \<noteq> [] \<and> js_trim (cm_stream_key m) = cm_stream_key m
          \<and> cm_installation_id m = inst)
     \<and> (case cv_catalog v of
          None \<Rightarrow> cv_members v = []
        | Some c \<Rightarrow> (\<forall>m \<in> set (cv_members v). cm_generation m \<le> sn_generation c
              \<and> (sn_complete c \<longrightarrow> cm_generation m = sn_generation c))
            \<and> (sn_complete c \<longrightarrow> sn_cursor c = None))"

definition catalog_map :: "sync_catalog_view \<Rightarrow> (string, sync_catalog_member) js_map" where
  "catalog_map v = js_map_of_list (List.map (\<lambda>m. (cm_stream_key m, m)) (cv_members v))"

lemma wf_catalog_map:
  assumes "wf_catalog inst v"
  shows "catalog_map v = List.map (\<lambda>m. (cm_stream_key m, m)) (cv_members v)" and "keyed (catalog_map v)"
proof -
  show eq: "catalog_map v = List.map (\<lambda>m. (cm_stream_key m, m)) (cv_members v)"
    using assms unfolding catalog_map_def wf_catalog_def
    by (intro js_map_of_list_distinct) (simp add: comp_def)
  show "keyed (catalog_map v)"
    using assms by (auto simp: eq keyed_def wf_catalog_def comp_def)
qed

lemma apply_members:
  "cv_members (applySyncCatalogMembers v i) =
     (let ms = js_values (fold (upsert_member (ap_installation_id i) (page_generation v i) (ap_now i))
                 (ap_members i) (catalog_map v))
      in if ap_complete i then List.filter (\<lambda>m. cm_generation m = page_generation v i) ms else ms)"
  by (simp add: applySyncCatalogMembers_def catalog_map_def Let_def)

lemma page_generation_ge:
  assumes "wf_catalog inst v" and "m \<in> set (cv_members v)"
  shows "cm_generation m \<le> page_generation v i"
  using assms by (auto simp: wf_catalog_def page_generation_def Let_def split: option.splits; force)

text \<open>The members after a page: the listed ones, refreshed, and the others as they were.\<close>

lemma apply_member_iff:
  assumes wf: "wf_catalog inst v"
  shows "u \<in> set (js_values (fold (upsert_member (ap_installation_id i) g (ap_now i))
            (ap_members i) (catalog_map v))) \<longleftrightarrow>
      map_of (fold (upsert_member (ap_installation_id i) g (ap_now i)) (ap_members i) (catalog_map v))
        (cm_stream_key u) = Some u"
    (is "_ \<in> set (js_values ?m) \<longleftrightarrow> _")
proof -
  have k: "keyed ?m" using wf_catalog_map(2)[OF wf] by (rule keyed_upserts)
  then have "distinct (js_keys ?m)" by (simp add: keyed_def)
  then have "u \<in> set (js_values ?m) \<longleftrightarrow> (\<exists>k. map_of ?m k = Some u)"
    by (rule mem_js_values)
  then show ?thesis using keyed_map_of[OF k] by blast
qed

lemma apply_member_cases:
  assumes wf: "wf_catalog inst v" and inst: "ap_installation_id i = inst"
    and u: "u \<in> set (js_values (fold (upsert_member (ap_installation_id i) g (ap_now i))
            (ap_members i) (catalog_map v)))"
  shows "cm_stream_key u \<in> listed (ap_members i) \<and> cm_generation u = g \<and> cm_installation_id u = inst
    \<or> cm_stream_key u \<notin> listed (ap_members i) \<and> u \<in> set (cv_members v)"
proof -
  note m = u[unfolded apply_member_iff[OF wf]]
  show ?thesis
  proof (cases "cm_stream_key u \<in> listed (ap_members i)")
    case True
    from upserts_lookup_listed[OF this, of inst g "ap_now i" "catalog_map v"] m inst True show ?thesis by auto
  next
    case False
    with m have "map_of (catalog_map v) (cm_stream_key u) = Some u"
      by (simp add: upserts_lookup_unlisted)
    with False wf_catalog_map(1)[OF wf] show ?thesis by (auto dest!: map_of_SomeD)
  qed
qed

lemma listed_trimmed: "k \<in> listed ds \<Longrightarrow> k \<noteq> [] \<and> js_trim k = k"
  by (auto simp: listed_def)

lemma applied_page_wf:
  assumes "wf_catalog inst v" and "ap_installation_id i = inst"
  shows "wf_catalog inst (applySyncCatalogMembers v i)"
proof -
  let ?m = "fold (upsert_member (ap_installation_id i) (page_generation v i) (ap_now i))
                 (ap_members i) (catalog_map v)"
  let ?v = "applySyncCatalogMembers v i"
  have k: "keyed ?m" using wf_catalog_map(2)[OF assms(1)] by (rule keyed_upserts)
  then have "distinct (List.map cm_stream_key (js_values ?m))"
    unfolding keyed_values[OF k] using k by (simp add: keyed_def)
  then have dist: "distinct (List.map cm_stream_key (cv_members ?v))"
    by (simp add: apply_members Let_def distinct_map_filter del: List.map_map)
  have old: "\<forall>m \<in> set (cv_members v). cm_stream_key m \<noteq> [] \<and> js_trim (cm_stream_key m) = cm_stream_key m
      \<and> cm_installation_id m = inst"
    using assms(1) by (simp add: wf_catalog_def)
  have new: "cm_stream_key u \<noteq> [] \<and> js_trim (cm_stream_key u) = cm_stream_key u
      \<and> cm_installation_id u = inst \<and> cm_generation u \<le> page_generation v i"
    if "u \<in> set (js_values ?m)" for u
    using apply_member_cases[OF assms that] old listed_trimmed page_generation_ge[OF assms(1), of u i]
    by auto
  have "set (cv_members ?v) \<subseteq> set (js_values ?m)"
    by (auto simp: apply_members Let_def)
  then have mem: "\<forall>u \<in> set (cv_members ?v). cm_stream_key u \<noteq> [] \<and> js_trim (cm_stream_key u) = cm_stream_key u
      \<and> cm_installation_id u = inst \<and> cm_generation u \<le> page_generation v i"
    using new by blast
  have gen: "ap_complete i \<Longrightarrow> \<forall>u \<in> set (cv_members ?v). cm_generation u = page_generation v i"
    by (simp add: apply_members Let_def)
  have cat: "cv_catalog ?v = Some \<lparr>sn_installation_id = ap_installation_id i,
      sn_cursor = (if ap_complete i \<or> \<not> truthy (ap_next_cursor i) then None else ap_next_cursor i),
      sn_complete = ap_complete i, sn_generation = page_generation v i, sn_updated_at = ap_now i\<rparr>"
    by (simp add: applySyncCatalogMembers_def Let_def)
  show ?thesis unfolding wf_catalog_def cat using dist mem gen by simp
qed

text \<open>C37. Every directory page keeps the catalog well formed: whatever a connector lists
  (blank keys, repeated members, pages out of any protocol), the keys stay trimmed, non-empty
  and distinct, and a page that completes a census leaves exactly one generation and no cursor.\<close>

theorem apply_page_wf:
  assumes "wf_catalog inst v" and "ap_installation_id i = inst"
  shows "wf_catalog inst (applySyncCatalogMembers v i)"
  using assms by (rule applied_page_wf)

lemma wf_emptySyncCatalog [simp]: "wf_catalog inst (emptySyncCatalog inst)"
  by (simp add: wf_catalog_def emptySyncCatalog_def)


subsection \<open>A census\<close>

text \<open>The keys the current generation has listed.\<close>

definition generation_keys :: "sync_catalog_view \<Rightarrow> int \<Rightarrow> string set" where
  "generation_keys v g = {cm_stream_key m | m. m \<in> set (cv_members v) \<and> cm_generation m = g}"

lemma apply_generation_keys:
  assumes wf: "wf_catalog inst v" and inst: "ap_installation_id i = inst"
    and g: "g = page_generation v i"
  shows "generation_keys (applySyncCatalogMembers v i) g = generation_keys v g \<union> listed (ap_members i)"
proof
  let ?m = "fold (upsert_member (ap_installation_id i) g (ap_now i)) (ap_members i) (catalog_map v)"
  have mem: "u \<in> set (cv_members (applySyncCatalogMembers v i)) \<and> cm_generation u = g
      \<longleftrightarrow> u \<in> set (js_values ?m) \<and> cm_generation u = g" for u
    by (simp add: apply_members Let_def g)
  show "generation_keys (applySyncCatalogMembers v i) g \<subseteq> generation_keys v g \<union> listed (ap_members i)"
    using apply_member_cases[OF wf inst] mem unfolding generation_keys_def by blast
  show "generation_keys v g \<union> listed (ap_members i) \<subseteq> generation_keys (applySyncCatalogMembers v i) g"
  proof
    fix k
    assume k: "k \<in> generation_keys v g \<union> listed (ap_members i)"
    have "\<exists>u. map_of ?m k = Some u \<and> cm_generation u = g"
    proof (cases "k \<in> listed (ap_members i)")
      case True
      from upserts_lookup_listed[OF True, of "ap_installation_id i" g "ap_now i" "catalog_map v"]
      show ?thesis by blast
    next
      case False
      with k obtain u where u: "u \<in> set (cv_members v)" "cm_stream_key u = k" "cm_generation u = g"
        by (auto simp: generation_keys_def)
      then have "(k, u) \<in> set (catalog_map v)" by (auto simp: wf_catalog_map(1)[OF wf])
      then have "map_of (catalog_map v) k = Some u"
        using wf_catalog_map(2)[OF wf] by (simp add: keyed_def)
      with False u show ?thesis by (simp add: upserts_lookup_unlisted)
    qed
    then obtain u where u: "map_of ?m k = Some u" "cm_generation u = g" by blast
    then have "cm_stream_key u = k"
      using keyed_map_of[OF keyed_upserts[OF wf_catalog_map(2)[OF wf]]] by blast
    with u apply_member_iff[OF wf, of u i g] mem show "k \<in> generation_keys (applySyncCatalogMembers v i) g"
      unfolding generation_keys_def by blast
  qed
qed

fun apply_pages :: "sync_catalog_view \<Rightarrow> apply_sync_catalog_page_input list \<Rightarrow> sync_catalog_view" where
  "apply_pages v [] = v"
| "apply_pages v (i # is) = apply_pages (applySyncCatalogMembers v i) is"

text \<open>An unfinished page of a walk: it names where to continue and is not a full snapshot.\<close>

definition walk_page :: "string \<Rightarrow> apply_sync_catalog_page_input \<Rightarrow> bool" where
  "walk_page inst i \<longleftrightarrow> ap_installation_id i = inst \<and> \<not> ap_replaces i \<and> \<not> ap_complete i
     \<and> truthy (ap_next_cursor i)"

definition last_walk_page :: "string \<Rightarrow> apply_sync_catalog_page_input \<Rightarrow> bool" where
  "last_walk_page inst i \<longleftrightarrow> ap_installation_id i = inst \<and> \<not> ap_replaces i \<and> ap_complete i"

definition walking :: "sync_catalog_view \<Rightarrow> int \<Rightarrow> bool" where
  "walking v g \<longleftrightarrow> (\<exists>c. cv_catalog v = Some c \<and> truthy (sn_cursor c) \<and> sn_generation c = g)"

lemma walking_generation:
  "walking v g \<Longrightarrow> \<not> ap_replaces i \<Longrightarrow> page_generation v i = g"
  by (auto simp: walking_def page_generation_def)

lemma apply_walking:
  assumes "walk_page inst i"
  shows "walking (applySyncCatalogMembers v i) (page_generation v i)"
  using assms by (auto simp: walking_def walk_page_def applySyncCatalogMembers_def Let_def)

lemma walk_pages:
  "walking v g \<Longrightarrow> wf_catalog inst v \<Longrightarrow> \<forall>i \<in> set is. walk_page inst i \<Longrightarrow>
     walking (apply_pages v is) g \<and> wf_catalog inst (apply_pages v is)
     \<and> generation_keys (apply_pages v is) g = generation_keys v g \<union> (\<Union>i \<in> set is. listed (ap_members i))"
proof (induction "is" arbitrary: v)
  case (Cons i "is")
  then have i: "walk_page inst i" by simp
  then have g: "page_generation v i = g" and inst: "ap_installation_id i = inst"
    using walking_generation Cons.prems(1) by (auto simp: walk_page_def)
  from Cons.IH[OF apply_walking[OF i, of v, unfolded g] applied_page_wf[OF Cons.prems(2) inst]]
  show ?case using Cons.prems(3) apply_generation_keys[OF Cons.prems(2) inst g[symmetric]] by auto
qed simp

lemma apply_pages_append: "apply_pages v (is @ js) = apply_pages (apply_pages v is) js"
  by (induction "is" arbitrary: v) auto

lemma walked_census:
  assumes wf: "wf_catalog inst v"
    and idle: "\<not> truthy (Option.bind (cv_catalog v) sn_cursor)"
    and pages: "walk_page inst start" "\<forall>i \<in> set mid. walk_page inst i" "last_walk_page inst fin"
  shows "cm_stream_key ` set (cv_members (apply_pages v (start # mid @ [fin])))
       = (\<Union>i \<in> set (start # mid @ [fin]). listed (ap_members i))"
proof -
  define g where "g = page_generation v start"
  have inst: "ap_installation_id start = inst" "ap_installation_id fin = inst"
    using pages by (simp_all add: walk_page_def last_walk_page_def)
  have "generation_keys v g = {}"
    using wf idle pages(1)
    by (auto simp: generation_keys_def g_def page_generation_def walk_page_def wf_catalog_def
        split: option.splits)
  then have k1: "generation_keys (applySyncCatalogMembers v start) g = listed (ap_members start)"
    using apply_generation_keys[OF wf inst(1) g_def] by simp
  let ?v1 = "applySyncCatalogMembers v start"
  let ?v2 = "apply_pages ?v1 mid"
  have w2: "walking ?v2 g" "wf_catalog inst ?v2"
    "generation_keys ?v2 g = listed (ap_members start) \<union> (\<Union>i \<in> set mid. listed (ap_members i))"
    using walk_pages[OF apply_walking[OF pages(1), of v, folded g_def] applied_page_wf[OF wf inst(1)] pages(2)] k1
    by auto
  have g3: "g = page_generation ?v2 fin"
    using walking_generation[OF w2(1)] pages(3) by (simp add: last_walk_page_def)
  have "\<forall>u \<in> set (cv_members (applySyncCatalogMembers ?v2 fin)). cm_generation u = g"
    using pages(3) g3 by (simp add: apply_members Let_def last_walk_page_def)
  then have "cm_stream_key ` set (cv_members (applySyncCatalogMembers ?v2 fin))
      = generation_keys (applySyncCatalogMembers ?v2 fin) g"
    by (auto simp: generation_keys_def)
  also have "\<dots> = generation_keys ?v2 g \<union> listed (ap_members fin)"
    by (rule apply_generation_keys[OF w2(2) inst(2) g3])
  finally show ?thesis by (auto simp: w2(3) apply_pages_append)
qed

text \<open>C36. A census is exact: starting from an idle catalog, a first unfinished page, any number
  of further pages and a completing page leave exactly the streams the pages listed, all of the
  new generation; streams no page listed are gone, whatever the catalog held before.\<close>

theorem census_exact:
  assumes "wf_catalog inst v" and "\<not> truthy (Option.bind (cv_catalog v) sn_cursor)"
    and "walk_page inst start" and "\<forall>i \<in> set mid. walk_page inst i" and "last_walk_page inst fin"
  shows "cm_stream_key ` set (cv_members (apply_pages v (start # mid @ [fin])))
       = (\<Union>i \<in> set (start # mid @ [fin]). listed (ap_members i))"
  using assms by (rule walked_census)

definition sample_page :: "string list \<Rightarrow> string option \<Rightarrow> bool \<Rightarrow> apply_sync_catalog_page_input" where
  "sample_page ks c done = \<lparr>ap_installation_id = ''i'',
     ap_members = List.map (\<lambda>k. \<lparr>dm_stream_key = k, dm_thread_id = None, dm_label = None, dm_kind = None\<rparr>) ks,
     ap_now = iso_string 0, ap_next_cursor = c, ap_complete = done, ap_replaces = False\<rparr>"

definition sample_catalog :: sync_catalog_view where
  "sample_catalog = \<lparr>cv_members = [\<lparr>cm_installation_id = ''i'', cm_stream_key = ''old'',
     cm_thread_id = None, cm_label = None, cm_kind = None, cm_generation = 1,
     cm_discovered_at = iso_string 0, cm_last_seen_at = iso_string 0\<rparr>],
     cv_catalog = Some \<lparr>sn_installation_id = ''i'', sn_cursor = None, sn_complete = True,
       sn_generation = 1, sn_updated_at = iso_string 0\<rparr>\<rparr>"

theorem apply_page_wf_witness:
  "wf_catalog ''i'' (applySyncCatalogMembers sample_catalog (sample_page [''a'', '' a''] None True))"
  by (rule apply_page_wf) (simp_all add: sample_catalog_def sample_page_def wf_catalog_def js_trim_def js_space_def)

theorem census_exact_witness:
  "cm_stream_key ` set (cv_members (apply_pages sample_catalog
      (sample_page [''a''] (Some ''p2'') False # [] @ [sample_page [''b'', '' ''] None True]))) = {''a'', ''b''}"
proof -
  have wf: "wf_catalog ''i'' sample_catalog"
    by (simp add: wf_catalog_def sample_catalog_def js_trim_def js_space_def)
  have idle: "\<not> truthy (Option.bind (cv_catalog sample_catalog) sn_cursor)"
    by (simp add: sample_catalog_def)
  have w: "walk_page ''i'' (sample_page [''a''] (Some ''p2'') False)" "\<forall>i \<in> set []. walk_page ''i'' i"
    "last_walk_page ''i'' (sample_page [''b'', '' ''] None True)"
    by (simp_all add: walk_page_def last_walk_page_def sample_page_def)
  show ?thesis
    unfolding census_exact[OF wf idle w] by (auto simp: sample_page_def js_trim_def js_space_def)
qed

text \<open>A page that does not complete the census never drops a stream: every known key is
  still there afterwards with its discovery stamp, every listed key is there and was seen at
  the page's time.\<close>

lemma unfinished_page_keeps_members:
  assumes wf: "wf_catalog inst v" and inst: "ap_installation_id i = inst" and "\<not> ap_complete i"
  shows "(\<forall>m \<in> set (cv_members v). \<exists>u \<in> set (cv_members (applySyncCatalogMembers v i)).
            cm_stream_key u = cm_stream_key m \<and> cm_discovered_at u = cm_discovered_at m)
    \<and> (\<forall>k \<in> listed (ap_members i). \<exists>u \<in> set (cv_members (applySyncCatalogMembers v i)).
            cm_stream_key u = k \<and> cm_last_seen_at u = ap_now i)"
proof -
  let ?m = "fold (upsert_member (ap_installation_id i) (page_generation v i) (ap_now i))
                 (ap_members i) (catalog_map v)"
  have ms: "cv_members (applySyncCatalogMembers v i) = js_values ?m"
    using assms(3) by (simp add: apply_members Let_def)
  have in_values: "map_of ?m k = Some u \<Longrightarrow> u \<in> set (js_values ?m) \<and> cm_stream_key u = k" for k u
    using apply_member_iff[OF wf, of u i] keyed_map_of[OF keyed_upserts[OF wf_catalog_map(2)[OF wf]]]
    by blast
  have "\<exists>u. map_of ?m k = Some u \<and> cm_last_seen_at u = ap_now i" if "k \<in> listed (ap_members i)" for k
    using upserts_lookup_listed[OF that] by blast
  moreover have "\<exists>u. map_of ?m (cm_stream_key m) = Some u \<and> cm_discovered_at u = cm_discovered_at m"
    if m: "m \<in> set (cv_members v)" for m
  proof -
    from m have "map_of (catalog_map v) (cm_stream_key m) = Some m"
      using wf_catalog_map[OF wf] by (simp add: keyed_def)
    then show ?thesis
      using upserts_lookup_listed[of "cm_stream_key m" "ap_members i"]
        upserts_lookup_unlisted[of "cm_stream_key m" "ap_members i"]
      by (cases "cm_stream_key m \<in> listed (ap_members i)") (metis, simp)
  qed
  ultimately show ?thesis unfolding ms using in_values by blast
qed

lemma unfinished_page_keeps_members_witness:
  "\<exists>u \<in> set (cv_members (applySyncCatalogMembers sample_catalog (sample_page [''a''] (Some ''p2'') False))).
     cm_stream_key u = ''old''"
proof -
  have wf: "wf_catalog ''i'' sample_catalog"
    by (simp add: wf_catalog_def sample_catalog_def js_trim_def js_space_def)
  have i: "ap_installation_id (sample_page [''a''] (Some ''p2'') False) = ''i''"
    "\<not> ap_complete (sample_page [''a''] (Some ''p2'') False)"
    by (simp_all add: sample_page_def)
  from unfinished_page_keeps_members[OF wf i] show ?thesis by (auto simp: sample_catalog_def)
qed

subsection \<open>Streams that left\<close>

lemma keys_left:
  "set (keys_left kept seen ms) =
     {cm_stream_key m | m. m \<in> set ms} - {[], SYNC_CATALOG_STREAM} - set kept - set seen
   \<and> distinct (keys_left kept seen ms)"
  by (induction ms arbitrary: seen) (auto simp: Let_def)

lemma set_catalogStreamKeysLeft:
  "set (catalogStreamKeysLeft v w) =
     cm_stream_key ` set (cv_members v) - {[], SYNC_CATALOG_STREAM} - cm_stream_key ` set (cv_members w)"
  using keys_left by (auto simp: catalogStreamKeysLeft_def)

lemma distinct_catalogStreamKeysLeft [simp]: "distinct (catalogStreamKeysLeft v w)"
  using keys_left by (simp add: catalogStreamKeysLeft_def)

end
