(* ===== verification/SyncIdle.thy ===== *)
theory SyncIdle
  imports SyncCatalog
begin

section \<open>Idle times and due stamps\<close>

text \<open>
  \<open>packages/domain/src/sync-idle.ts\<close>: how long a stream rests after a poll (its heat), and
  the stamp its next work row is due at. Idle times are whole milliseconds; a connector's hint
  and the values of environment variables may be any number (\<open>js_num\<close>; the environment is
  given with \<open>Number\<close> already applied to each variable).
\<close>

definition DEFAULT_ACTIVE_STREAM_IDLE_MS :: int where "DEFAULT_ACTIVE_STREAM_IDLE_MS = 15000"
definition DEFAULT_INACTIVE_STREAM_IDLE_MS :: int where "DEFAULT_INACTIVE_STREAM_IDLE_MS = 180000"
definition DEFAULT_HOT_STREAM_IDLE_MS :: int where "DEFAULT_HOT_STREAM_IDLE_MS = 60000"
definition DEFAULT_COLD_STREAM_IDLE_MS :: int where "DEFAULT_COLD_STREAM_IDLE_MS = 3600000"
definition MIN_COLD_STREAM_IDLE_MS :: int where "MIN_COLD_STREAM_IDLE_MS = 1800000"
definition MAX_COLD_STREAM_IDLE_MS :: int where "MAX_COLD_STREAM_IDLE_MS = 14400000"

lemmas idle_consts = DEFAULT_ACTIVE_STREAM_IDLE_MS_def DEFAULT_INACTIVE_STREAM_IDLE_MS_def
  DEFAULT_HOT_STREAM_IDLE_MS_def DEFAULT_COLD_STREAM_IDLE_MS_def MIN_COLD_STREAM_IDLE_MS_def
  MAX_COLD_STREAM_IDLE_MS_def

datatype due_work_heat = HeatInteractive | HeatHot | HeatCold

fun positiveIdleMs :: "js_num option \<Rightarrow> int option" where
  "positiveIdleMs (Some (Num q)) = (if 1 \<le> q then Some \<lfloor>q\<rfloor> else None)"
| "positiveIdleMs _ = None"

definition pacedStreamIdleMs ::
  "bool \<Rightarrow> js_num option \<Rightarrow> int option \<Rightarrow> int option \<Rightarrow> int" where
  "pacedStreamIdleMs active hintMs activeIdleMs inactiveIdleMs =
     (let activeFloor = max 1000 (or_else activeIdleMs DEFAULT_ACTIVE_STREAM_IDLE_MS);
          inactiveFloor = max activeFloor (or_else inactiveIdleMs DEFAULT_INACTIVE_STREAM_IDLE_MS);
          hint = positiveIdleMs hintMs
      in if active then (case hint of Some h \<Rightarrow> max activeFloor h | None \<Rightarrow> activeFloor)
         else let fromHint = (case hint of Some h \<Rightarrow> h * 4 | None \<Rightarrow> inactiveFloor)
              in max inactiveFloor fromHint)"

definition streamIsPreferredThread :: "string option \<Rightarrow> string option \<Rightarrow> bool" where
  "streamIsPreferredThread preferredThreadId threadId =
     (let preferred = or_else (trim_opt preferredThreadId) []; thread = or_else (trim_opt threadId) []
      in preferred \<noteq> [] \<and> thread \<noteq> [] \<and> preferred = thread)"

definition classifyDueWorkHeat :: "bool \<Rightarrow> int option \<Rightarrow> bool \<Rightarrow> due_work_heat" where
  "classifyDueWorkHeat preferred acceptedCount eager =
     (if preferred then HeatInteractive
      else if 0 < or_else acceptedCount 0 \<or> eager then HeatHot
      else HeatCold)"

definition dueWorkIdleMs ::
  "due_work_heat \<Rightarrow> js_num option \<Rightarrow> int option \<Rightarrow> int option \<Rightarrow> int option \<Rightarrow> int" where
  "dueWorkIdleMs heat hintMs activeIdleMs hotIdleMs coldIdleMs =
     (let hint = positiveIdleMs hintMs
      in case heat of
           HeatInteractive \<Rightarrow>
             pacedStreamIdleMs True (map_option int_num hint) activeIdleMs
               (Some (or_else hotIdleMs DEFAULT_HOT_STREAM_IDLE_MS))
         | HeatHot \<Rightarrow>
             let flr = max 1000 (or_else hotIdleMs DEFAULT_HOT_STREAM_IDLE_MS)
             in (case hint of Some h \<Rightarrow> max flr h | None \<Rightarrow> flr)
         | HeatCold \<Rightarrow>
             let flr = max MIN_COLD_STREAM_IDLE_MS (or_else coldIdleMs DEFAULT_COLD_STREAM_IDLE_MS);
                 fromHint = (case hint of Some h \<Rightarrow> h * 4 | None \<Rightarrow> flr)
             in max flr fromHint)"

definition addIdleMs :: "string \<Rightarrow> js_num \<Rightarrow> js_error + string" where
  "addIdleMs now idleMs =
     (case (date_parse now, idleMs) of
        (Some parsed, Num q) \<Rightarrow> if q \<le> 0 then Inr now else to_iso (parsed + \<lfloor>q\<rfloor>)
      | _ \<Rightarrow> Inr now)"

definition nextDueAtForDueWork ::
  "string \<Rightarrow> string option \<Rightarrow> due_work_heat \<Rightarrow> int option \<Rightarrow> js_error + string" where
  "nextDueAtForDueWork now idleUntil heat coldIdleMs =
     (if heat = HeatInteractive \<or> heat = HeatHot then Inr now
      else case idleUntil of
             Some i \<Rightarrow> if i \<noteq> [] \<and> now < i then Inr i
               else addIdleMs now (int_num (or_else coldIdleMs DEFAULT_COLD_STREAM_IDLE_MS))
           | None \<Rightarrow> addIdleMs now (int_num (or_else coldIdleMs DEFAULT_COLD_STREAM_IDLE_MS)))"

definition nextDueAfterPoll ::
  "string \<Rightarrow> string option \<Rightarrow> int option \<Rightarrow> due_work_heat \<Rightarrow> int option \<Rightarrow> js_error + string" where
  "nextDueAfterPoll now idleUntil idleMs heat coldIdleMs =
     (case idleUntil of
        Some i \<Rightarrow> if i \<noteq> [] \<and> now < i then Inr i
          else if idleMs = None \<and> heat = HeatCold then nextDueAtForDueWork now None HeatCold coldIdleMs
          else Inr now
      | None \<Rightarrow>
          if idleMs = None \<and> heat = HeatCold then nextDueAtForDueWork now None HeatCold coldIdleMs
          else Inr now)"

definition coldIdleMsForCatalogSize :: "js_num \<Rightarrow> int \<Rightarrow> int \<Rightarrow> int" where
  "coldIdleMsForCatalogSize catalogSize baseIdleMs maxIdleMs =
     (let base = max MIN_COLD_STREAM_IDLE_MS (min baseIdleMs maxIdleMs)
      in if \<not> is_finite catalogSize \<or> js_le catalogSize (int_num 256) then base
         else if js_le catalogSize (int_num 1024) then min maxIdleMs (base * 3 div 2)
         else if js_le catalogSize (int_num 4096) then min maxIdleMs (base * 2)
         else maxIdleMs)"

definition clampIdleEnv :: "js_num option \<Rightarrow> int \<Rightarrow> int \<Rightarrow> int \<Rightarrow> int" where
  "clampIdleEnv raw fallback lo hi =
     (case or_else raw (int_num fallback) of
        Num q \<Rightarrow> if q \<le> 0 then fallback else clamp_floor lo hi q
      | _ \<Rightarrow> fallback)"

record idle_tiers =
  it_active :: int
  it_inactive :: int
  it_hot :: int
  it_cold :: int

definition streamIdleTiersFromEnv :: "(string \<Rightarrow> js_num option) \<Rightarrow> idle_tiers" where
  "streamIdleTiersFromEnv env =
     \<lparr>it_active = clampIdleEnv (env ''REGENIC_ACTIVE_STREAM_IDLE_MS'') DEFAULT_ACTIVE_STREAM_IDLE_MS 5000 60000,
      it_inactive = clampIdleEnv (env ''REGENIC_INACTIVE_STREAM_IDLE_MS'') DEFAULT_INACTIVE_STREAM_IDLE_MS 30000 600000,
      it_hot = clampIdleEnv (env ''REGENIC_HOT_STREAM_IDLE_MS'') DEFAULT_HOT_STREAM_IDLE_MS 15000 180000,
      it_cold = clampIdleEnv (env ''REGENIC_COLD_STREAM_IDLE_MS'') DEFAULT_COLD_STREAM_IDLE_MS
        MIN_COLD_STREAM_IDLE_MS MAX_COLD_STREAM_IDLE_MS\<rparr>"

subsection \<open>Bounds and orders\<close>

lemma positiveIdleMs_pos: "positiveIdleMs h = Some n \<Longrightarrow> 1 \<le> n"
  by (cases h rule: positiveIdleMs.cases) (auto split: if_splits simp: le_floor_iff)

lemma paced_bounds:
  "1000 \<le> pacedStreamIdleMs active hint a i"
  "pacedStreamIdleMs True hint a i \<le> pacedStreamIdleMs False hint a i"
  using positiveIdleMs_pos[of hint]
  by (auto simp: pacedStreamIdleMs_def Let_def split: option.splits)

lemma cold_idle_bounds:
  assumes "MIN_COLD_STREAM_IDLE_MS \<le> hi"
  shows "MIN_COLD_STREAM_IDLE_MS \<le> coldIdleMsForCatalogSize n base hi"
    and "coldIdleMsForCatalogSize n base hi \<le> hi"
  using assms by (auto simp: coldIdleMsForCatalogSize_def Let_def MIN_COLD_STREAM_IDLE_MS_def)

lemma cold_idle_mono:
  assumes "MIN_COLD_STREAM_IDLE_MS \<le> hi" and "m \<le> n"
  shows "coldIdleMsForCatalogSize (int_num m) base hi \<le> coldIdleMsForCatalogSize (int_num n) base hi"
  using assms by (auto simp: coldIdleMsForCatalogSize_def Let_def MIN_COLD_STREAM_IDLE_MS_def int_num_def)

text \<open>Adding an idle time to a stamp, as the other components use it.\<close>

lemma addIdleMs_stamp:
  assumes "four_digit_time t" and "four_digit_time (t + ms)" and "0 < ms"
  shows "addIdleMs (iso_string t) (int_num ms) = Inr (iso_string (t + ms))"
  using assms four_digit_max_time[of t] four_digit_max_time[of "t + ms"]
  by (simp add: addIdleMs_def date_parse_iso_string int_num_def to_iso_def)

text \<open>The due stamp of a work row is never in the past: whatever the heat, the stored idle
  stamp and the cold idle, it compares, as a string, at or after the time of planning; an
  interactive or hot row is due at once, and a cold row with a positive cold idle strictly
  later.\<close>

lemma due_stamp_never_past:
  assumes "four_digit_time t" and "four_digit_time (t + or_else cold DEFAULT_COLD_STREAM_IDLE_MS)"
    and "0 < or_else cold DEFAULT_COLD_STREAM_IDLE_MS"
  shows "\<exists>s. nextDueAtForDueWork (iso_string t) idle heat cold = Inr s \<and> iso_string t \<le> s
    \<and> (heat \<noteq> HeatCold \<longrightarrow> s = iso_string t) \<and> (heat = HeatCold \<longrightarrow> iso_string t < s)"
proof -
  let ?ms = "or_else cold DEFAULT_COLD_STREAM_IDLE_MS"
  have add: "addIdleMs (iso_string t) (int_num ?ms) = Inr (iso_string (t + ?ms))"
    using assms by (rule addIdleMs_stamp)
  have less: "iso_string t < iso_string (t + ?ms)"
    using assms by (simp add: iso_string_less_iff)
  show ?thesis
    using add less
    by (cases heat) (auto simp: nextDueAtForDueWork_def split: option.splits)
qed

lemma due_stamp_never_past_witness:
  "\<exists>s. nextDueAtForDueWork (iso_string 0) None HeatCold None = Inr s \<and> iso_string 0 < s"
  using due_stamp_never_past[of 0 None None HeatCold]
  by (auto simp: four_digit_time_def DEFAULT_COLD_STREAM_IDLE_MS_def)

end
