(* ===== verification/SyncWorkPlanner.thy ===== *)
theory SyncWorkPlanner
  imports SyncIdle
begin

section \<open>Planning durable work rows\<close>

text \<open>
  \<open>packages/domain/src/sync-work-planner.ts\<close>: which work rows a phase write adds or drops
  (\<open>syncWorkEnsurePlan\<close>), the repair of missing rows, the rows a catalog refresh plans for
  each member (\<open>planDueSyncWork\<close>), and the streams a user's run wakes. Sorting by
  \<open>localeCompare\<close> takes the collation \<open>lc\<close> of the host as a parameter.
\<close>

datatype due_work_plane = PlaneSteady | PlaneBootstrap

type_synonym heads_map = "(string, sync_phase_head) js_map"

record open_sync_work_lane =
  ol_lane :: sync_lane
  ol_status :: sync_work_status
  ol_run_id :: "string option"

definition open_status :: "sync_work_status \<Rightarrow> bool" where
  "open_status s \<longleftrightarrow> s = WorkPending \<or> s = WorkRunning"

definition laneBlocksEnqueue :: "open_sync_work_lane list \<Rightarrow> sync_lane \<Rightarrow> bool" where
  "laneBlocksEnqueue existing lane =
     list_ex (\<lambda>item.
       if lane = LaneLive \<and> ol_lane item = LaneInteractive then open_status (ol_status item)
       else if ol_lane item \<noteq> lane then False
       else truthy (ol_run_id item) \<or> open_status (ol_status item)) existing"

definition pending_unassigned :: "open_sync_work_lane list \<Rightarrow> sync_lane \<Rightarrow> bool" where
  "pending_unassigned existing lane =
     list_ex (\<lambda>item. \<not> truthy (ol_run_id item) \<and> ol_lane item = lane
       \<and> ol_status item = WorkPending) existing"

record ensure_plan =
  ep_enqueue :: "sync_lane list"
  ep_cancel :: "sync_lane list"

definition syncWorkEnsurePlan ::
  "sync_phase \<Rightarrow> bool \<Rightarrow> open_sync_work_lane list \<Rightarrow> history_policy option \<Rightarrow> bool option
   \<Rightarrow> ensure_plan" where
  "syncWorkEnsurePlan phase mediaPending existing policy preferred =
     (let owed = owedSyncLanes phase mediaPending (or_else policy DEFAULT_HISTORY_POLICY);
          pending = pending_unassigned existing;
          cancel0 = (if preferred = Some False \<and> pending LaneInteractive then [LaneInteractive] else []);
          blocking = (if preferred = Some False
                      then List.filter (\<lambda>item. ol_lane item \<noteq> LaneInteractive) existing else existing);
          enqueue = List.filter (\<lambda>lane. \<not> laneBlocksEnqueue blocking lane) owed;
          cancel1 = cancel0 @ (if LaneHistory \<notin> set owed \<and> pending LaneHistory then [LaneHistory] else []);
          cancel2 = (if LaneLive \<notin> set owed
                     then cancel1 @ (if pending LaneLive then [LaneLive] else [])
                          @ (if pending LaneInteractive \<and> LaneInteractive \<notin> set cancel1
                             then [LaneInteractive] else [])
                     else cancel1);
          cancel3 = cancel2 @ (if LaneMedia \<notin> set owed \<and> pending LaneMedia then [LaneMedia] else [])
      in \<lparr>ep_enqueue = enqueue, ep_cancel = cancel3\<rparr>)"

definition shouldReleaseInteractiveWork :: "sync_lane \<Rightarrow> string option \<Rightarrow> string option \<Rightarrow> bool" where
  "shouldReleaseInteractiveWork lane threadId preferredThreadId \<longleftrightarrow>
     lane = LaneInteractive \<and> \<not> streamIsPreferredThread preferredThreadId threadId"

fun lane_string :: "sync_lane \<Rightarrow> string" where
  "lane_string LaneInteractive = ''interactive''"
| "lane_string LaneLive = ''live''"
| "lane_string LaneCatalog = ''catalog''"
| "lane_string LaneHistory = ''history''"
| "lane_string LaneMedia = ''media''"

definition dueSyncWorkId :: "string \<Rightarrow> string \<Rightarrow> sync_lane \<Rightarrow> int \<Rightarrow> string" where
  "dueSyncWorkId inst key lane generation =
     ''due:'' @ inst @ '':'' @ lane_string lane @ '':'' @ int_string generation @ '':'' @ key"

definition due_row ::
  "string \<Rightarrow> string \<Rightarrow> sync_lane \<Rightarrow> int \<Rightarrow> string \<Rightarrow> string \<Rightarrow> enqueue_sync_work" where
  "due_row inst key lane generation due now =
     \<lparr>eq_id = dueSyncWorkId inst key lane generation, eq_run_id = None, eq_installation_id = inst,
      eq_stream_key = key, eq_lane = lane, eq_priority = Some (syncWorkPriority lane),
      eq_next_due_at = due, eq_generation = generation, eq_now = now\<rparr>"

definition liveWorkAfterInteractiveRelease ::
  "string \<Rightarrow> string \<Rightarrow> int \<Rightarrow> string \<Rightarrow> int option \<Rightarrow> js_error + enqueue_sync_work" where
  "liveWorkAfterInteractiveRelease inst key generation now coldIdleMs =
     map_sum id (\<lambda>due. due_row inst key LaneLive generation due now)
       (nextDueAtForDueWork now None HeatCold coldIdleMs)"

definition syncGapRepairIsEager :: "sync_work_gap \<Rightarrow> bool" where
  "syncGapRepairIsEager gap =
     (if gap_phase gap = PhaseHistory
         \<and> (gap_missing_lane gap = LaneLive \<or> gap_missing_lane gap = LaneInteractive) then False
      else if gap_missing_lane gap = LaneHistory \<or> gap_missing_lane gap = LaneMedia then True
      else gap_phase gap = PhaseUnseeded \<or> gap_media_pending gap)"

text \<open>The \<open>continue\<close> guards of the loop of \<open>planSyncWorkGaps\<close>, then its row.\<close>

definition gap_skipped :: "history_policy \<Rightarrow> string option \<Rightarrow> sync_work_gap \<Rightarrow> bool" where
  "gap_skipped policy preferred gap \<longleftrightarrow>
     policy = Backfill \<and> gap_phase gap = PhaseHistory
       \<and> (gap_missing_lane gap = LaneLive \<or> gap_missing_lane gap = LaneInteractive)
     \<or> policy = Incremental \<and> gap_missing_lane gap = LaneHistory
     \<or> (preferred \<noteq> None \<and> gap_thread_id gap = preferred) \<and> gap_missing_lane gap = LaneMedia"

definition gap_row ::
  "string \<Rightarrow> string \<Rightarrow> int option \<Rightarrow> string option \<Rightarrow> sync_work_gap \<Rightarrow> js_error + enqueue_sync_work" where
  "gap_row inst now coldIdleMs preferred gap =
     (let focused = preferred \<noteq> None \<and> gap_thread_id gap = preferred;
          lane = (if focused \<and> gap_missing_lane gap = LaneLive then LaneInteractive
                  else gap_missing_lane gap);
          heat = classifyDueWorkHeat (focused \<and> lane = LaneInteractive) None (syncGapRepairIsEager gap)
      in map_sum id (\<lambda>due. due_row inst (gap_stream_key gap) lane (gap_generation gap) due now)
           (nextDueAtForDueWork now (gap_idle_until gap) heat coldIdleMs))"

definition planSyncWorkGaps ::
  "string \<Rightarrow> sync_work_gap list \<Rightarrow> string \<Rightarrow> int option \<Rightarrow> string option \<Rightarrow> history_policy option
   \<Rightarrow> js_error + enqueue_sync_work list" where
  "planSyncWorkGaps inst gaps now coldIdleMs preferredThreadId policy =
     (let preferred = trim_opt preferredThreadId; pol = or_else policy DEFAULT_HISTORY_POLICY
      in js_traverse (gap_row inst now coldIdleMs preferred)
           (List.filter (\<lambda>gap. \<not> gap_skipped pol preferred gap) gaps))"

definition catalogDueWork ::
  "string \<Rightarrow> string \<Rightarrow> int option \<Rightarrow> string option \<Rightarrow> enqueue_sync_work" where
  "catalogDueWork inst now generation nextDueAt =
     due_row inst SYNC_CATALOG_STREAM LaneCatalog (or_else generation 1) (or_else nextDueAt now) now"

definition is_stream :: "string \<Rightarrow> bool" where
  "is_stream key \<longleftrightarrow> key \<noteq> [] \<and> key \<noteq> SYNC_CATALOG_STREAM"

definition needsCatalogDueWork :: "sync_catalog_view \<Rightarrow> nat option \<Rightarrow> bool" where
  "needsCatalogDueWork view memberCount =
     (let count = or_else memberCount
            (length (List.filter (\<lambda>m. is_stream (cm_stream_key m)) (cv_members view)))
      in count = 0 \<or> cv_catalog view = None \<or> (\<exists>c. cv_catalog view = Some c \<and> \<not> sn_complete c))"

definition dueWorkCoverageLanes :: "due_work_plane \<Rightarrow> sync_lane list" where
  "dueWorkCoverageLanes plane =
     (if plane = PlaneBootstrap then [LaneHistory] else [LaneInteractive, LaneLive, LaneMedia])"

definition syncWorkCoverageKey :: "string \<Rightarrow> int \<Rightarrow> string" where
  "syncWorkCoverageKey key generation = int_string generation @ '':'' @ key"

text \<open>\<open>member.generation || 1\<close>\<close>

definition generation_or_1 :: "int \<Rightarrow> int" where
  "generation_or_1 g = (if g = 0 then 1 else g)"

definition member_coverage_key :: "sync_catalog_member \<Rightarrow> string" where
  "member_coverage_key m = syncWorkCoverageKey (cm_stream_key m) (generation_or_1 (cm_generation m))"

definition identity_coverage_key :: "sync_work_identity \<Rightarrow> string" where
  "identity_coverage_key i = syncWorkCoverageKey (id_stream_key i) (id_generation i)"

definition membersMissingLatestWork ::
  "sync_catalog_member list \<Rightarrow> sync_work_identity list \<Rightarrow> sync_catalog_member list" where
  "membersMissingLatestWork members existing =
     (let covered = List.map identity_coverage_key
            (List.filter (\<lambda>i. is_stream (id_stream_key i)
               \<and> id_lane i \<in> {LaneLive, LaneInteractive, LaneHistory}) existing)
      in List.filter (\<lambda>m. is_stream (cm_stream_key m) \<and> member_coverage_key m \<notin> set covered) members)"

text \<open>A \<open>Set\<close> of lanes is the list of its elements in insertion order.\<close>

definition add_lane ::
  "sync_work_identity \<Rightarrow> (string, sync_lane list) js_map \<Rightarrow> (string, sync_lane list) js_map" where
  "add_lane i m =
     (if \<not> is_stream (id_stream_key i) then m
      else let key = identity_coverage_key i; lanes = or_else (map_of m key) []
           in js_set key (if id_lane i \<in> set lanes then lanes else lanes @ [id_lane i]) m)"

definition lanesByCoverageKey :: "sync_work_identity list \<Rightarrow> (string, sync_lane list) js_map" where
  "lanesByCoverageKey existing = fold add_lane existing []"

definition membersMissingLane ::
  "sync_catalog_member list \<Rightarrow> sync_work_identity list \<Rightarrow> sync_lane \<Rightarrow> sync_catalog_member list" where
  "membersMissingLane members existing lane =
     (let lanesByKey = lanesByCoverageKey existing
      in List.filter (\<lambda>m. is_stream (cm_stream_key m)
           \<and> lane \<notin> set (or_else (map_of lanesByKey (member_coverage_key m)) [])) members)"

definition membersMissingBootstrapSeed ::
  "sync_catalog_member list \<Rightarrow> sync_work_identity list \<Rightarrow> sync_catalog_member list" where
  "membersMissingBootstrapSeed members existing =
     (let lanesByKey = lanesByCoverageKey existing
      in List.filter (\<lambda>m. is_stream (cm_stream_key m) \<and>
           (case map_of lanesByKey (member_coverage_key m) of
              None \<Rightarrow> True
            | Some lanes \<Rightarrow> lanes = [] \<or>
                LaneHistory \<notin> set lanes \<and> LaneLive \<notin> set lanes \<and> LaneInteractive \<notin> set lanes)) members)"

definition uncoveredCatalogMembers ::
  "sync_catalog_member list \<Rightarrow> sync_work_identity list \<Rightarrow> sync_catalog_member list" where
  "uncoveredCatalogMembers members existing =
     (let covered = List.map identity_coverage_key
            (List.filter (\<lambda>i. is_stream (id_stream_key i)) existing)
      in List.filter (\<lambda>m. is_stream (cm_stream_key m) \<and> member_coverage_key m \<notin> set covered) members)"

subsection \<open>First seeds\<close>

definition firstSeedHeadLimit :: "js_num option \<Rightarrow> nat" where
  "firstSeedHeadLimit limit =
     (case limit of Some (Num q) \<Rightarrow> nat (clamp_floor 0 64 q) | _ \<Rightarrow> UNSEEN_SEED_PER_TICK)"

text \<open>The environment variable with \<open>Number\<close> applied.\<close>

definition firstSeedHeadFromEnv :: "js_num option \<Rightarrow> nat" where
  "firstSeedHeadFromEnv raw =
     (let n = or_else raw (int_num (int UNSEEN_SEED_PER_TICK))
      in if \<not> is_finite n then UNSEEN_SEED_PER_TICK else firstSeedHeadLimit (Some n))"

definition isFirstSeedCandidate :: "heads_map \<Rightarrow> string option \<Rightarrow> sync_catalog_member \<Rightarrow> bool" where
  "isFirstSeedCandidate states preferred m \<longleftrightarrow>
     is_stream (cm_stream_key m)
     \<and> \<not> (truthy preferred \<and> cm_thread_id m = preferred)
     \<and> (case map_of states (cm_stream_key m) of
          None \<Rightarrow> True | Some s \<Rightarrow> \<not> ph_media_pending s \<and> ph_phase s = PhaseUnseeded)"

definition compareFirstSeedMembers ::
  "(string \<Rightarrow> string \<Rightarrow> int) \<Rightarrow> sync_catalog_member \<Rightarrow> sync_catalog_member \<Rightarrow> int" where
  "compareFirstSeedMembers lc left right =
     cmp_then (lc (cm_last_seen_at right) (cm_last_seen_at left))
       (cmp_then (lc (cm_discovered_at right) (cm_discovered_at left))
          (lc (cm_stream_key left) (cm_stream_key right)))"

definition selectFirstSeedKeys ::
  "(string \<Rightarrow> string \<Rightarrow> int) \<Rightarrow> sync_catalog_member list \<Rightarrow> heads_map \<Rightarrow> string option
   \<Rightarrow> js_num option \<Rightarrow> string list" where
  "selectFirstSeedKeys lc members states preferredThreadId limit0 =
     (let limit = firstSeedHeadLimit limit0
      in if limit = 0 then []
         else let preferred = trim_opt preferredThreadId;
                  ranked = js_sort (compareFirstSeedMembers lc)
                    (List.filter (isFirstSeedCandidate states preferred) members)
              in remdups (List.map cm_stream_key (take limit ranked)))"

text \<open>
  The quotient of doubles \<open>(index + 1) / count * windowMs\<close> is taken exactly; count and window
  are positive integers here.
\<close>

definition firstSeedStaggerDelayMs :: "int \<Rightarrow> int \<Rightarrow> int \<Rightarrow> int" where
  "firstSeedStaggerDelayMs index0 count0 window0 =
     (let cnt = max 1 count0; windowMs = max 1 window0;
          index = max 0 (min index0 (cnt - 1))
      in max 1 ((index + 1) * windowMs div cnt))"

subsection \<open>The rows of a catalog\<close>

definition dueWorkLanes ::
  "due_work_plane \<Rightarrow> sync_catalog_member \<Rightarrow> sync_phase_head option \<Rightarrow> string option \<Rightarrow> sync_lane list" where
  "dueWorkLanes plane m state preferredThreadId =
     (let phase = (case state of None \<Rightarrow> PhaseUnseeded | Some s \<Rightarrow> ph_phase s);
          media = (case state of None \<Rightarrow> False | Some s \<Rightarrow> ph_media_pending s);
          preferred = truthy preferredThreadId \<and> cm_thread_id m = preferredThreadId
      in if plane = PlaneSteady then
           (if messageDuty (Some phase) DEFAULT_HISTORY_POLICY = LaneHistory
            then (if media \<and> \<not> preferred then [LaneMedia] else [])
            else (if preferred then [LaneInteractive] else [LaneLive])
                 @ (if media \<and> \<not> preferred then [LaneMedia] else []))
         else if messageDuty (Some phase) DEFAULT_HISTORY_POLICY = LaneHistory then [LaneHistory]
         else if phase = PhaseUnseeded then (if preferred then [LaneInteractive] else [LaneLive])
         else [])"

definition dueWorkIsEager ::
  "due_work_plane \<Rightarrow> sync_phase_head option \<Rightarrow> string \<Rightarrow> string list \<Rightarrow> sync_lane \<Rightarrow> bool" where
  "dueWorkIsEager plane state streamKey firstSeedKeys lane =
     (let phase = (case state of None \<Rightarrow> PhaseUnseeded | Some s \<Rightarrow> ph_phase s)
      in if lane = LaneMedia then True
         else if (lane = LaneLive \<or> lane = LaneInteractive)
              \<and> (case state of None \<Rightarrow> False | Some s \<Rightarrow> ph_media_pending s) then True
         else if phase = PhaseUnseeded then streamKey \<in> set firstSeedKeys
         else plane = PlaneBootstrap \<and> phase = PhaseHistory)"

definition coldUnseededIndexByKey ::
  "(string \<Rightarrow> string \<Rightarrow> int) \<Rightarrow> due_work_plane \<Rightarrow> sync_catalog_member list \<Rightarrow> heads_map
   \<Rightarrow> string option \<Rightarrow> string list \<Rightarrow> (string, nat \<times> nat) js_map" where
  "coldUnseededIndexByKey lc plane members states preferred firstSeedKeys =
     (let keys = js_sort lc (List.map cm_stream_key (List.filter (\<lambda>m.
            isFirstSeedCandidate states preferred m
            \<and> cm_stream_key m \<notin> set firstSeedKeys
            \<and> dueWorkLanes plane m (map_of states (cm_stream_key m)) preferred \<noteq> []) members));
          cnt = length keys
      in js_map_of_list (List.map (\<lambda>i. (keys ! i, (i, cnt))) [0..<cnt]))"

record plan_due_input =
  pd_installation_id :: string
  pd_members :: "sync_catalog_member list"
  pd_states :: heads_map
  pd_now :: string
  pd_plane :: due_work_plane
  pd_preferred_thread_id :: "string option"
  pd_catalog_size :: "int option"
  pd_cold_idle_ms :: "int option"
  pd_first_seed_limit :: "js_num option"

definition plan_cold_idle :: "plan_due_input \<Rightarrow> int" where
  "plan_cold_idle i = coldIdleMsForCatalogSize
     (int_num (or_else (pd_catalog_size i) (int (length (pd_members i)))))
     (or_else (pd_cold_idle_ms i) DEFAULT_COLD_STREAM_IDLE_MS) MAX_COLD_STREAM_IDLE_MS"

text \<open>The loop over members and lanes: the pairs that get a row, then the row of a pair.\<close>

definition plan_pairs :: "plan_due_input \<Rightarrow> (sync_catalog_member \<times> sync_lane) list" where
  "plan_pairs i =
     concat (List.map (\<lambda>m. List.map (Pair m)
         (dueWorkLanes (pd_plane i) m (map_of (pd_states i) (cm_stream_key m))
            (trim_opt (pd_preferred_thread_id i))))
       (List.filter (\<lambda>m. is_stream (cm_stream_key m)) (pd_members i)))"

definition member_generation :: "heads_map \<Rightarrow> sync_catalog_member \<Rightarrow> int" where
  "member_generation states m =
     (if cm_generation m \<noteq> 0 then cm_generation m
      else case map_of states (cm_stream_key m) of
             None \<Rightarrow> 1 | Some s \<Rightarrow> if ph_generation s \<noteq> 0 then ph_generation s else 1)"

definition plan_row ::
  "plan_due_input \<Rightarrow> string list \<Rightarrow> (string, nat \<times> nat) js_map
   \<Rightarrow> sync_catalog_member \<times> sync_lane \<Rightarrow> js_error + enqueue_sync_work" where
  "plan_row i firstSeedKeys coldIndex pair =
     (case pair of (m, lane) \<Rightarrow>
        let state = map_of (pd_states i) (cm_stream_key m);
            heat = classifyDueWorkHeat (lane = LaneInteractive) None
              (dueWorkIsEager (pd_plane i) state (cm_stream_key m) firstSeedKeys lane);
            due = (case map_of coldIndex (cm_stream_key m) of
                Some (index, cnt) \<Rightarrow> addIdleMs (pd_now i)
                  (int_num (firstSeedStaggerDelayMs (int index) (int cnt) (plan_cold_idle i)))
              | None \<Rightarrow> nextDueAtForDueWork (pd_now i) (Option.bind state ph_idle_until) heat
                  (Some (plan_cold_idle i)))
        in map_sum id (\<lambda>d. due_row (pd_installation_id i) (cm_stream_key m) lane
             (member_generation (pd_states i) m) d (pd_now i)) due)"

definition compare_due_rows ::
  "(string \<Rightarrow> string \<Rightarrow> int) \<Rightarrow> enqueue_sync_work \<Rightarrow> enqueue_sync_work \<Rightarrow> int" where
  "compare_due_rows lc left right =
     cmp_then (or_else (eq_priority right) 0 - or_else (eq_priority left) 0)
       (cmp_then (lc (eq_next_due_at left) (eq_next_due_at right))
          (lc (eq_stream_key left) (eq_stream_key right)))"

definition planDueSyncWork ::
  "(string \<Rightarrow> string \<Rightarrow> int) \<Rightarrow> plan_due_input \<Rightarrow> js_error + enqueue_sync_work list" where
  "planDueSyncWork lc i =
     (let preferred = trim_opt (pd_preferred_thread_id i);
          firstSeedKeys = selectFirstSeedKeys lc (pd_members i) (pd_states i) preferred
            (pd_first_seed_limit i);
          coldIndex = coldUnseededIndexByKey lc (pd_plane i) (pd_members i) (pd_states i)
            preferred firstSeedKeys
      in map_sum id (js_sort (compare_due_rows lc))
           (js_traverse (plan_row i firstSeedKeys coldIndex) (plan_pairs i)))"

subsection \<open>Runs of a user\<close>

definition syncRunWorkPlane :: "sync_run_mode \<Rightarrow> due_work_plane" where
  "syncRunWorkPlane mode = (if mode = Continuous then PlaneSteady else PlaneBootstrap)"

definition syncRunWorkLanes :: "sync_run_mode \<Rightarrow> sync_lane list" where
  "syncRunWorkLanes mode =
     (if mode = Archive then [LaneHistory]
      else if mode = Continuous then [LaneInteractive, LaneLive, LaneCatalog, LaneMedia]
      else [LaneInteractive, LaneLive, LaneCatalog])"

text \<open>The first loop of \<open>selectQuickStartStreamKeys\<close>: \<open>take\<close> the preferred thread's streams.\<close>

fun take_keys :: "string list \<Rightarrow> string list \<Rightarrow> string list" where
  "take_keys selected [] = selected"
| "take_keys selected (k # ks) =
     take_keys (if \<not> is_stream k \<or> k \<in> set selected then selected else selected @ [k]) ks"

fun take_ranked :: "nat \<Rightarrow> string list \<Rightarrow> string list \<Rightarrow> string list" where
  "take_ranked remaining selected [] = selected"
| "take_ranked remaining selected (k # ks) =
     (if remaining = 0 then selected
      else if k \<in> set selected then take_ranked remaining selected ks
      else take_ranked (remaining - 1) (take_keys selected [k]) ks)"

definition selectQuickStartStreamKeys ::
  "(string \<Rightarrow> string \<Rightarrow> int) \<Rightarrow> sync_catalog_member list \<Rightarrow> string option \<Rightarrow> js_num option
   \<Rightarrow> string list" where
  "selectQuickStartStreamKeys lc members preferredThreadId limit0 =
     (let limit = firstSeedHeadLimit limit0;
          preferred = trim_opt preferredThreadId;
          head = (case preferred of None \<Rightarrow> []
            | Some p \<Rightarrow> take_keys [] (List.map cm_stream_key
                (List.filter (\<lambda>m. cm_thread_id m = Some p) members)));
          ranked = js_sort (compareFirstSeedMembers lc)
            (List.filter (\<lambda>m. is_stream (cm_stream_key m)) members)
      in take_ranked limit head (List.map cm_stream_key ranked))"

definition selectSyncRunWakeKeys ::
  "(string \<Rightarrow> string \<Rightarrow> int) \<Rightarrow> sync_run_mode \<Rightarrow> sync_catalog_member list \<Rightarrow> string option
   \<Rightarrow> string list option \<Rightarrow> js_num option \<Rightarrow> string list" where
  "selectSyncRunWakeKeys lc mode members preferredThreadId streamKeys limit =
     (if or_else streamKeys [] \<noteq> []
      then take_keys [] (List.filter is_stream (List.map js_trim (or_else streamKeys [])))
      else if mode = Continuous then []
      else selectQuickStartStreamKeys lc members preferredThreadId limit)"

subsection \<open>The ensure plan\<close>

lemma mem_pending_unassigned: "pending_unassigned existing lane \<longleftrightarrow>
    (\<exists>r \<in> set existing. \<not> truthy (ol_run_id r) \<and> ol_lane r = lane \<and> ol_status r = WorkPending)"
  by (auto simp: pending_unassigned_def list_ex_iff)

lemma interactive_not_owed [simp]:
  "LaneInteractive \<notin> set (owedSyncLanes p m pol)" "LaneCatalog \<notin> set (owedSyncLanes p m pol)"
  by (auto simp: owedSyncLanes_set messageDuty_def)

lemma set_ep_cancel:
  "l \<in> set (ep_cancel (syncWorkEnsurePlan p m existing pol pref)) \<longleftrightarrow>
     pending_unassigned existing l \<and>
     (l = LaneInteractive \<and> (pref = Some False \<or> LaneLive \<notin> set (owedSyncLanes p m (or_else pol DEFAULT_HISTORY_POLICY)))
      \<or> l \<in> {LaneHistory, LaneLive, LaneMedia} \<and> l \<notin> set (owedSyncLanes p m (or_else pol DEFAULT_HISTORY_POLICY)))"
  by (auto simp: syncWorkEnsurePlan_def Let_def)

lemma set_ep_enqueue:
  "l \<in> set (ep_enqueue (syncWorkEnsurePlan p m existing pol pref)) \<longleftrightarrow>
     l \<in> set (owedSyncLanes p m (or_else pol DEFAULT_HISTORY_POLICY))
     \<and> \<not> laneBlocksEnqueue (if pref = Some False
         then List.filter (\<lambda>item. ol_lane item \<noteq> LaneInteractive) existing else existing) l"
  by (simp add: syncWorkEnsurePlan_def Let_def)

lemma distinct_ep_enqueue [simp]: "distinct (ep_enqueue (syncWorkEnsurePlan p m existing pol pref))"
  by (simp add: syncWorkEnsurePlan_def Let_def)

lemma distinct_ep_cancel: "distinct (ep_cancel (syncWorkEnsurePlan p m existing pol pref))"
  by (simp add: syncWorkEnsurePlan_def Let_def)

text \<open>
  What a stored row covers, read off the rows: a row of the lane itself that is open or in a
  run, and for the live lane an open interactive row, unless the stream stopped being the
  preferred one.
\<close>

definition covers_lane :: "bool option \<Rightarrow> open_sync_work_lane \<Rightarrow> sync_lane \<Rightarrow> bool" where
  "covers_lane pref row l \<longleftrightarrow>
     ol_lane row = l \<and> (truthy (ol_run_id row) \<or> open_status (ol_status row))
     \<or> l = LaneLive \<and> ol_lane row = LaneInteractive \<and> open_status (ol_status row) \<and> pref \<noteq> Some False"

lemma row_blocks_iff_covers:
  assumes "l \<noteq> LaneInteractive"
  shows "(pref = Some False \<longrightarrow> ol_lane row \<noteq> LaneInteractive) \<and> laneBlocksEnqueue [row] l \<longleftrightarrow> covers_lane pref row l"
  using assms by (cases "ol_lane row = l") (auto simp: laneBlocksEnqueue_def covers_lane_def)

lemma blocks_iff_covered:
  assumes "l \<noteq> LaneInteractive"
  shows "laneBlocksEnqueue (if pref = Some False
      then List.filter (\<lambda>item. ol_lane item \<noteq> LaneInteractive) existing else existing) l
    \<longleftrightarrow> (\<exists>row \<in> set existing. covers_lane pref row l)"
proof -
  have each: "laneBlocksEnqueue rows l \<longleftrightarrow> (\<exists>row \<in> set rows. laneBlocksEnqueue [row] l)" for rows
    by (simp add: laneBlocksEnqueue_def list_ex_iff)
  show ?thesis
    by (subst each, unfold row_blocks_iff_covers[OF assms, symmetric]) (simp; blast)
qed

lemma owed_lanes_set:
  "set (owedSyncLanes p m pol) = {if p = PhaseHistory \<and> pol = Backfill then LaneHistory else LaneLive}
     \<union> (if m then {LaneMedia} else {})"
  by (auto simp: owedSyncLanes_set messageDuty_def)

text \<open>C30. The plan of a phase write, exactly. The phase owes one message lane (history in the
  history phase of a backfill, live otherwise) and the media lane when media is pending. The
  plan enqueues, once each, the owed lanes that no row covers (an open row or a row of a run of
  that lane; for the live lane also an open interactive row, unless the stream is no longer
  preferred), and no others. It cancels, once each, the lanes with a pending row outside a run
  that are not owed (never the catalog lane), where an interactive row is kept unless the
  stream is no longer preferred or the live lane is not owed.\<close>

theorem ensure_plan_exact:
  "let plan = syncWorkEnsurePlan p m existing pol pref;
       walking = (p = PhaseHistory \<and> or_else pol DEFAULT_HISTORY_POLICY = Backfill);
       owed = {if walking then LaneHistory else LaneLive} \<union> (if m then {LaneMedia} else {})
   in set (ep_enqueue plan) = {l \<in> owed. \<not> (\<exists>row \<in> set existing. covers_lane pref row l)}
    \<and> set (ep_cancel plan) =
        {l. (\<exists>row \<in> set existing. ol_lane row = l \<and> ol_status row = WorkPending \<and> \<not> truthy (ol_run_id row))
          \<and> (if l = LaneInteractive then pref = Some False \<or> walking
             else l \<noteq> LaneCatalog \<and> l \<notin> owed)}
    \<and> distinct (ep_enqueue plan) \<and> distinct (ep_cancel plan)"
proof -
  let ?plan = "syncWorkEnsurePlan p m existing pol pref"
  let ?owed = "owedSyncLanes p m (or_else pol DEFAULT_HISTORY_POLICY)"
  have "l \<in> set (ep_enqueue ?plan) \<longleftrightarrow>
      l \<in> set ?owed \<and> \<not> (\<exists>row \<in> set existing. covers_lane pref row l)" for l
    using blocks_iff_covered[of l pref existing]
    by (cases "l = LaneInteractive") (simp_all add: set_ep_enqueue)
  moreover have "l \<in> set (ep_cancel ?plan) \<longleftrightarrow>
      (\<exists>row \<in> set existing. ol_lane row = l \<and> ol_status row = WorkPending \<and> \<not> truthy (ol_run_id row))
      \<and> (if l = LaneInteractive then pref = Some False \<or> LaneLive \<notin> set ?owed
         else l \<noteq> LaneCatalog \<and> l \<notin> set ?owed)" for l
    by (cases l) (auto simp: set_ep_cancel mem_pending_unassigned)
  moreover have "LaneLive \<notin> set ?owed \<longleftrightarrow> p = PhaseHistory \<and> or_else pol DEFAULT_HISTORY_POLICY = Backfill"
    by (auto simp: owed_lanes_set)
  ultimately show ?thesis
    unfolding Let_def owed_lanes_set[symmetric]
    by (simp only: set_eq_iff mem_Collect_eq distinct_ep_enqueue distinct_ep_cancel simp_thms)
qed

definition sample_open :: "sync_lane \<Rightarrow> open_sync_work_lane" where
  "sample_open l = \<lparr>ol_lane = l, ol_status = WorkPending, ol_run_id = None\<rparr>"

text \<open>
  A stream in its history with a pending live row: the live row is cancelled and the history
  lane enqueued; once a history row is there too, nothing more is enqueued.
\<close>

theorem ensure_plan_exact_witness:
  "set (ep_enqueue (syncWorkEnsurePlan PhaseHistory False [sample_open LaneLive] None None)) = {LaneHistory}
   \<and> set (ep_cancel (syncWorkEnsurePlan PhaseHistory False [sample_open LaneLive] None None)) = {LaneLive}
   \<and> set (ep_enqueue (syncWorkEnsurePlan PhaseHistory False [sample_open LaneHistory] None None)) = {}"
proof -
  have open1: "covers_lane None (sample_open k) l \<longleftrightarrow> k = l \<or> l = LaneLive \<and> k = LaneInteractive" for k l
    by (auto simp: covers_lane_def sample_open_def open_status_def)
  have pend: "(\<exists>row \<in> set [sample_open k]. ol_lane row = l \<and> ol_status row = WorkPending
      \<and> \<not> truthy (ol_run_id row)) \<longleftrightarrow> k = l" for k l
    by (simp add: sample_open_def)
  note at_live = ensure_plan_exact[of PhaseHistory False "[sample_open LaneLive]" None None,
      unfolded pend Let_def]
  note at_history = ensure_plan_exact[of PhaseHistory False "[sample_open LaneHistory]" None None,
      unfolded pend Let_def]
  show ?thesis
    unfolding at_live[THEN conjunct1] at_live[THEN conjunct2, THEN conjunct1] at_history[THEN conjunct1]
    by (auto simp: DEFAULT_HISTORY_POLICY_def open1)
qed

subsection \<open>Row identities\<close>

lemma append_colon_eq:
  "CHR '':'' \<notin> set a \<Longrightarrow> CHR '':'' \<notin> set b \<Longrightarrow> a @ CHR '':'' # x = b @ CHR '':'' # y \<longleftrightarrow> a = b \<and> x = y"
proof (induction a arbitrary: b)
  case (Cons c a)
  then show ?case by (cases b) auto
next
  case Nil
  then show ?case by (cases b) auto
qed

lemma lane_string_no_colon [simp]: "CHR '':'' \<notin> set (lane_string l)"
  by (cases l) simp_all

lemma lane_string_inj: "lane_string l = lane_string k \<longleftrightarrow> l = k"
  by (cases l; cases k) simp_all

text \<open>Due-row ids are unique: for installation ids without a colon, two rows have the same
  id exactly when they are the same installation, stream, lane and generation, whatever
  characters the stream keys contain.\<close>

lemma due_id_injective:
  assumes "CHR '':'' \<notin> set inst" and "CHR '':'' \<notin> set inst'"
  shows "dueSyncWorkId inst key lane gen = dueSyncWorkId inst' key' lane' gen'
    \<longleftrightarrow> inst = inst' \<and> key = key' \<and> lane = lane' \<and> gen = gen'"
  using assms by (auto simp: dueSyncWorkId_def append_colon_eq lane_string_inj int_string_inj)

lemma due_id_injective_witness:
  "dueSyncWorkId ''a'' ''x'' LaneLive 1 \<noteq> dueSyncWorkId ''a'' ''x'' LaneLive 2"
  using due_id_injective[of "''a''" "''a''" "''x''" LaneLive 1 "''x''" LaneLive 2] by simp

text \<open>Without that condition they are not: an installation id that contains a colon can
  share the id of its live row with a row of another installation.\<close>

lemma due_id_collision:
  "dueSyncWorkId ''a'' ''live:1:b'' LaneLive 1 = dueSyncWorkId ''a:live:1'' ''b'' LaneLive 1"
  by code_simp

subsection \<open>Coverage\<close>

lemma add_lanes_lookup:
  "set (or_else (map_of (fold add_lane existing m) k) []) =
     set (or_else (map_of m k) []) \<union>
     id_lane ` {i \<in> set existing. is_stream (id_stream_key i) \<and> identity_coverage_key i = k}"
  by (induction existing arbitrary: m) (auto simp: add_lane_def Let_def)

lemma lanesByCoverageKey_set:
  "set (or_else (map_of (lanesByCoverageKey existing) k) []) =
     id_lane ` {i \<in> set existing. is_stream (id_stream_key i) \<and> identity_coverage_key i = k}"
  by (simp add: lanesByCoverageKey_def add_lanes_lookup)

text \<open>The bootstrap gap-fill and the latest-work check are the same question, although one
  builds a set of covered keys and the other a map from keys to lanes: a member needs a
  bootstrap seed exactly when it misses latest work. In particular a live row does count as
  coverage for the bootstrap.\<close>

lemma bootstrap_seed_is_latest_work:
  "membersMissingBootstrapSeed members existing = membersMissingLatestWork members existing"
proof -
  have "(case map_of (lanesByCoverageKey existing) k of
            None \<Rightarrow> True
          | Some lanes \<Rightarrow> lanes = [] \<or>
              LaneHistory \<notin> set lanes \<and> LaneLive \<notin> set lanes \<and> LaneInteractive \<notin> set lanes)
      \<longleftrightarrow> set (or_else (map_of (lanesByCoverageKey existing) k) [])
           \<inter> {LaneLive, LaneInteractive, LaneHistory} = {}" for k
    by (cases "map_of (lanesByCoverageKey existing) k") auto
  note this[unfolded lanesByCoverageKey_set]
  moreover have "id_lane ` {i \<in> set existing. is_stream (id_stream_key i) \<and> identity_coverage_key i = k}
        \<inter> {LaneLive, LaneInteractive, LaneHistory} = {}
      \<longleftrightarrow> k \<notin> set (List.map identity_coverage_key (List.filter (\<lambda>i. is_stream (id_stream_key i)
               \<and> id_lane i \<in> {LaneLive, LaneInteractive, LaneHistory}) existing))" for k
    unfolding set_map set_filter by blast
  ultimately show ?thesis
    unfolding membersMissingBootstrapSeed_def membersMissingLatestWork_def Let_def by presburger
qed

subsection \<open>First seeds are spread out\<close>

lemma stagger_bounds:
  "1 \<le> firstSeedStaggerDelayMs i n w" "1 \<le> w \<Longrightarrow> firstSeedStaggerDelayMs i n w \<le> w"
proof -
  show "1 \<le> firstSeedStaggerDelayMs i n w" by (simp add: firstSeedStaggerDelayMs_def Let_def)
  assume w: "1 \<le> w"
  let ?n = "max 1 n" let ?i = "max 0 (min i (?n - 1))"
  have "(?i + 1) * w \<le> ?n * w" using w by (intro mult_right_mono) auto
  then have "(?i + 1) * w div ?n \<le> ?n * w div ?n" by (intro zdiv_mono1) auto
  then show "firstSeedStaggerDelayMs i n w \<le> w"
    using w by (simp add: firstSeedStaggerDelayMs_def Let_def)
qed

text \<open>The stagger of the streams that wait for their first seed: every delay lies in the
  window, later streams never wait less, and the last one waits out the whole window.\<close>

lemma stagger_spreads_window:
  assumes "1 \<le> w" and "0 \<le> i" and "i \<le> j" and "j < n"
  shows "1 \<le> firstSeedStaggerDelayMs i n w \<and> firstSeedStaggerDelayMs i n w \<le> firstSeedStaggerDelayMs j n w
    \<and> firstSeedStaggerDelayMs j n w \<le> w \<and> firstSeedStaggerDelayMs (n - 1) n w = w"
proof -
  have n: "max 1 n = n" "max 0 (min k (n - 1)) = k" if "k \<in> {i, j, n - 1}" for k using that assms by auto
  have w: "max 1 w = w" using assms(1) by simp
  have val: "firstSeedStaggerDelayMs k n w = max 1 ((k + 1) * w div n)" if "k \<in> {i, j, n - 1}" for k
    by (simp only: firstSeedStaggerDelayMs_def Let_def n[OF that] w)
  have "(i + 1) * w div n \<le> (j + 1) * w div n"
    using assms by (intro zdiv_mono1 mult_right_mono) auto
  then have "firstSeedStaggerDelayMs i n w \<le> firstSeedStaggerDelayMs j n w" by (simp add: val)
  moreover have "firstSeedStaggerDelayMs (n - 1) n w = w" using assms val[of "n - 1"] by simp
  ultimately show ?thesis using stagger_bounds(1)[where i=i and n=n and w=w] stagger_bounds(2)[OF assms(1)] by blast
qed

lemma stagger_spreads_window_witness:
  "firstSeedStaggerDelayMs 0 3 900 \<le> firstSeedStaggerDelayMs 1 3 900"
  using stagger_spreads_window[of 900 0 1 3] by simp

lemma fst_js_map_of_list: "fst ` set (js_map_of_list ps) = fst ` set ps"
proof (induction ps rule: rev_induct)
  case (snoc p ps)
  then show ?case by (cases p) (auto simp: js_map_of_list_snoc dom_update)
qed (simp add: js_map_of_list_def)

lemma cold_index_dom:
  "fst ` set (coldUnseededIndexByKey lc plane members states pref keys) =
     {cm_stream_key m | m. m \<in> set members \<and> isFirstSeedCandidate states pref m
        \<and> cm_stream_key m \<notin> set keys
        \<and> dueWorkLanes plane m (map_of states (cm_stream_key m)) pref \<noteq> []}"
proof -
  have "(\<lambda>i. ks ! i) ` {0..<length ks} = set ks" for ks :: "string list"
    using arg_cong[OF map_nth[of ks], of set] by (simp add: atLeast0LessThan)
  then show ?thesis
    unfolding coldUnseededIndexByKey_def Let_def fst_js_map_of_list
    by (simp add: image_image del: length_js_sort) blast
qed

lemma candidate_has_lane:
  "isFirstSeedCandidate states pref m \<Longrightarrow>
     dueWorkLanes plane m (map_of states (cm_stream_key m)) pref \<noteq> []"
  by (auto simp: isFirstSeedCandidate_def dueWorkLanes_def Let_def split: option.splits)

lemma selectFirstSeedKeys_length: "length (selectFirstSeedKeys lc ms st pref lmt) \<le> firstSeedHeadLimit lmt"
proof -
  have "length (remdups (List.map cm_stream_key (take n xs))) \<le> n" for n xs
    by (rule order.trans[OF length_remdups_leq]) simp
  then show ?thesis by (auto simp: selectFirstSeedKeys_def Let_def)
qed

subsection \<open>The planned rows\<close>

lemma plan_cold_idle_bounds: "1 \<le> plan_cold_idle i" "plan_cold_idle i \<le> MAX_COLD_STREAM_IDLE_MS"
  using cold_idle_bounds[of MAX_COLD_STREAM_IDLE_MS]
  by (auto simp: plan_cold_idle_def idle_consts) (metis idle_consts(5) order.trans one_le_numeral)

lemma plan_rows_pairs:
  assumes "planDueSyncWork lc i = Inr rows"
  obtains keys index raw where
    "keys = selectFirstSeedKeys lc (pd_members i) (pd_states i) (trim_opt (pd_preferred_thread_id i))
       (pd_first_seed_limit i)"
    "index = coldUnseededIndexByKey lc (pd_plane i) (pd_members i) (pd_states i)
       (trim_opt (pd_preferred_thread_id i)) keys"
    "list_all2 (\<lambda>p r. plan_row i keys index p = Inr r) (plan_pairs i) raw"
    "rows = js_sort (compare_due_rows lc) raw"
  using assms js_traverse_Inr
  by (auto simp: planDueSyncWork_def Let_def map_sum_def split: sum.splits) blast

lemma plan_row_shape:
  assumes "plan_row i keys index (m, lane) = Inr r"
  shows "\<exists>due. r = due_row (pd_installation_id i) (cm_stream_key m) lane
     (member_generation (pd_states i) m) due (pd_now i)"
  using assms by (auto simp: plan_row_def Let_def map_sum_def split: sum.splits option.splits prod.splits)

lemma due_row_fields [simp]:
  "eq_id (due_row inst key lane g due now) = dueSyncWorkId inst key lane g"
  "eq_stream_key (due_row inst key lane g due now) = key"
  "eq_lane (due_row inst key lane g due now) = lane"
  "eq_priority (due_row inst key lane g due now) = Some (syncWorkPriority lane)"
  "eq_next_due_at (due_row inst key lane g due now) = due"
  "eq_generation (due_row inst key lane g due now) = g"
  by (simp_all add: due_row_def)

lemma due_id_same_installation:
  "dueSyncWorkId inst key lane g = dueSyncWorkId inst key' lane' g' \<longleftrightarrow> key = key' \<and> lane = lane' \<and> g = g'"
  by (auto simp: dueSyncWorkId_def append_colon_eq lane_string_inj int_string_inj)

lemma mem_plan_pairs:
  "(m, lane) \<in> set (plan_pairs i) \<longleftrightarrow> m \<in> set (pd_members i) \<and> is_stream (cm_stream_key m)
     \<and> lane \<in> set (dueWorkLanes (pd_plane i) m (map_of (pd_states i) (cm_stream_key m))
         (trim_opt (pd_preferred_thread_id i)))"
  by (auto simp: plan_pairs_def)

lemma distinct_dueWorkLanes [simp]: "distinct (dueWorkLanes plane m st pref)"
  by (auto simp: dueWorkLanes_def Let_def)

lemma plane_lanes:
  assumes "lane \<in> set (dueWorkLanes plane m st pref)"
  shows "plane = PlaneBootstrap \<Longrightarrow> lane \<in> {LaneHistory, LaneLive, LaneInteractive}"
    and "plane = PlaneSteady \<Longrightarrow> lane \<in> {LaneInteractive, LaneLive, LaneMedia}"
  using assms by (auto simp: dueWorkLanes_def Let_def split: if_splits)

lemma distinct_pair_keys:
  assumes "distinct (List.map cm_stream_key ms)"
  shows "distinct (List.map (\<lambda>(m, lane). (cm_stream_key m, lane))
    (concat (List.map (\<lambda>m. List.map (Pair m) (dueWorkLanes plane m (st m) pref)) ms)))"
  using assms
proof (induction ms)
  case (Cons m ms)
  have "distinct (List.map (\<lambda>(m, lane). (cm_stream_key m, lane)) (List.map (Pair m) ls))" if "distinct ls" for ls
    using that by (simp add: distinct_map inj_on_def comp_def)
  from this[OF distinct_dueWorkLanes, of plane m "st m" pref] Cons show ?case
    by (auto simp del: List.map_map)
qed simp

lemma comparator_due_rows:
  "collation lc \<Longrightarrow> comparator (compare_due_rows lc)"
proof -
  assume "collation lc"
  then have lc: "comparator lc" by (simp add: collation_def)
  have p: "comparator (\<lambda>x y. or_else (eq_priority y) 0 - or_else (eq_priority x) 0)"
    by (rule comparator_swap[OF comparator_int])
  show ?thesis
    unfolding compare_due_rows_def
    by (rule comparator_then[OF p comparator_then[OF comparator_on[OF lc] comparator_on[OF lc]]])
qed

lemma plan_rows_keys:
  assumes "planDueSyncWork lc i = Inr rows"
  shows "mset (List.map (\<lambda>r. (eq_stream_key r, eq_lane r)) rows)
    = mset (List.map (\<lambda>(m, lane). (cm_stream_key m, lane)) (plan_pairs i))"
proof -
  from assms obtain keys index raw where
    raw: "list_all2 (\<lambda>p r. plan_row i keys index p = Inr r) (plan_pairs i) raw"
    and rows: "rows = js_sort (compare_due_rows lc) raw"
    by (rule plan_rows_pairs)
  from raw have "List.map (\<lambda>r. (eq_stream_key r, eq_lane r)) raw
      = List.map (\<lambda>(m, lane). (cm_stream_key m, lane)) (plan_pairs i)"
    by (induction rule: list_all2_induct) (auto dest!: plan_row_shape)
  then show ?thesis unfolding rows by (metis mset_js_sort mset_map)
qed

lemma plan_rows_due:
  assumes "planDueSyncWork lc i = Inr rows" and "r \<in> set rows"
  shows "\<exists>key lane g due. r = due_row (pd_installation_id i) key lane g due (pd_now i)"
proof -
  from assms(1) obtain keys index raw where
    raw: "list_all2 (\<lambda>p r. plan_row i keys index p = Inr r) (plan_pairs i) raw"
    and rows: "rows = js_sort (compare_due_rows lc) raw"
    by (rule plan_rows_pairs)
  from assms(2) rows obtain k where "k < length raw" "raw ! k = r" by (auto simp: in_set_conv_nth)
  then have "plan_row i keys index (plan_pairs i ! k) = Inr r" using list_all2_nthD2[OF raw] by metis
  then obtain p where "plan_row i keys index p = Inr r" ..
  then show ?thesis by (cases p) (auto dest!: plan_row_shape)
qed

lemma plan_rows_priority:
  assumes "planDueSyncWork lc i = Inr rows" and "r \<in> set rows"
  shows "eq_priority r = Some (syncWorkPriority (eq_lane r))"
    and "\<exists>g. eq_id r = dueSyncWorkId (pd_installation_id i) (eq_stream_key r) (eq_lane r) g"
  using plan_rows_due[OF assms] by auto

lemma plan_rows_distinct:
  assumes "planDueSyncWork lc i = Inr rows" and "distinct (List.map cm_stream_key (pd_members i))"
  shows "distinct (List.map (\<lambda>r. (eq_stream_key r, eq_lane r)) rows)"
proof -
  have "distinct (List.map (\<lambda>(m, lane). (cm_stream_key m, lane)) (plan_pairs i))"
    unfolding plan_pairs_def by (rule distinct_pair_keys) (use assms(2) distinct_map_filter in blast)
  with plan_rows_keys[OF assms(1)] show ?thesis using mset_eq_imp_distinct_iff by blast
qed

text \<open>C31. The rows a catalog refresh plans: one row for each owed lane of each stream member and
  nothing else (never for the catalog stream), every row with its own id, and the list ordered by
  priority, then due stamp.\<close>

theorem plan_rows_sound:
  assumes "collation lc" and "planDueSyncWork lc i = Inr rows"
    and "distinct (List.map cm_stream_key (pd_members i))"
  shows "distinct (List.map eq_id rows)
    \<and> (\<lambda>r. (eq_stream_key r, eq_lane r)) ` set rows =
        {(cm_stream_key m, lane) | m lane. m \<in> set (pd_members i) \<and> is_stream (cm_stream_key m)
           \<and> lane \<in> set (dueWorkLanes (pd_plane i) m (map_of (pd_states i) (cm_stream_key m))
               (trim_opt (pd_preferred_thread_id i)))}
    \<and> sorted_wrt (\<lambda>a b. syncWorkPriority (eq_lane b) < syncWorkPriority (eq_lane a)
        \<or> eq_lane a = eq_lane b \<and> lc (eq_next_due_at a) (eq_next_due_at b) \<le> 0) rows"
proof (intro conjI)
  have inj: "inj_on (\<lambda>r. (eq_stream_key r, eq_lane r)) (set rows)" "distinct rows"
    using plan_rows_distinct[OF assms(2,3)] by (simp_all add: distinct_map)
  have "inj_on eq_id (set rows)"
  proof (rule inj_onI)
    fix r s assume rs: "r \<in> set rows" "s \<in> set rows" "eq_id r = eq_id s"
    then have "(eq_stream_key r, eq_lane r) = (eq_stream_key s, eq_lane s)"
      using plan_rows_priority(2)[OF assms(2)] due_id_same_installation by (metis (no_types))
    with inj(1) rs show "r = s" by (auto dest: inj_onD)
  qed
  with inj(2) show "distinct (List.map eq_id rows)" by (simp add: distinct_map)
  have "(\<lambda>r. (eq_stream_key r, eq_lane r)) ` set rows
      = (\<lambda>(m, lane). (cm_stream_key m, lane)) ` set (plan_pairs i)"
    using plan_rows_keys[OF assms(2)] by (metis (no_types, lifting) set_map set_mset_mset)
  then show "(\<lambda>r. (eq_stream_key r, eq_lane r)) ` set rows =
        {(cm_stream_key m, lane) | m lane. m \<in> set (pd_members i) \<and> is_stream (cm_stream_key m)
           \<and> lane \<in> set (dueWorkLanes (pd_plane i) m (map_of (pd_states i) (cm_stream_key m))
               (trim_opt (pd_preferred_thread_id i)))}"
    by (auto simp: mem_plan_pairs image_iff)
  from assms(2) obtain raw where rows: "rows = js_sort (compare_due_rows lc) raw"
    by (rule plan_rows_pairs)
  have "sorted_wrt (\<lambda>x y. compare_due_rows lc x y \<le> 0) rows"
    unfolding rows by (rule comparator.sorted_js_sort[OF comparator_due_rows[OF assms(1)]])
  then show "sorted_wrt (\<lambda>a b. syncWorkPriority (eq_lane b) < syncWorkPriority (eq_lane a)
        \<or> eq_lane a = eq_lane b \<and> lc (eq_next_due_at a) (eq_next_due_at b) \<le> 0) rows"
  proof (rule sorted_wrt_mono_rel[rotated])
    fix a b assume ab: "a \<in> set rows" "b \<in> set rows" "compare_due_rows lc a b \<le> 0"
    note p = plan_rows_priority(1)[OF assms(2) ab(1)] plan_rows_priority(1)[OF assms(2) ab(2)]
    show "syncWorkPriority (eq_lane b) < syncWorkPriority (eq_lane a)
        \<or> eq_lane a = eq_lane b \<and> lc (eq_next_due_at a) (eq_next_due_at b) \<le> 0"
      using ab(3) syncWorkPriority_inj[of "eq_lane a" "eq_lane b"]
      by (auto simp: compare_due_rows_def cmp_then_def p split: if_splits)
  qed
qed

definition sample_member :: "string \<Rightarrow> sync_catalog_member" where
  "sample_member key = \<lparr>cm_installation_id = ''i'', cm_stream_key = key, cm_thread_id = None,
     cm_label = None, cm_kind = None, cm_generation = 1, cm_discovered_at = ''d'', cm_last_seen_at = ''d''\<rparr>"

definition sample_plan :: plan_due_input where
  "sample_plan = \<lparr>pd_installation_id = ''i'', pd_members = [sample_member ''a'', sample_member ''b''],
     pd_states = [], pd_now = ''n'', pd_plane = PlaneBootstrap, pd_preferred_thread_id = None,
     pd_catalog_size = None, pd_cold_idle_ms = None, pd_first_seed_limit = None\<rparr>"

lemma sample_plan_rows:
  "planDueSyncWork code_unit_compare sample_plan
    = Inr [due_row ''i'' ''a'' LaneLive 1 ''n'' ''n'', due_row ''i'' ''b'' LaneLive 1 ''n'' ''n'']"
  by code_simp

theorem plan_rows_sound_witness:
  "\<exists>rows. planDueSyncWork code_unit_compare sample_plan = Inr rows \<and> distinct (List.map eq_id rows)"
proof -
  have c: "collation code_unit_compare" by unfold_locales
  have d: "distinct (List.map cm_stream_key (pd_members sample_plan))"
    by (simp add: sample_plan_def sample_member_def)
  from plan_rows_sound[OF c sample_plan_rows d] sample_plan_rows show ?thesis by blast
qed

end
