(* ===== verification/SyncCapacity.thy ===== *)
theory SyncCapacity
  imports SyncWorkPlanner
begin

section \<open>Capacity of a tick\<close>

text \<open>
  \<open>packages/domain/src/sync-steady-capacity.ts\<close> (how many live polls a steady tick needs),
  \<open>sync-claim-limit.ts\<close> (the additive-increase, multiplicative-decrease limit of claimed
  rows) and \<open>sync-mode.ts\<close> (idle presets). Counts and times are whole numbers; values of the
  environment are given with \<open>Number\<close> applied.
\<close>

subsection \<open>sync-mode.ts\<close>

datatype sync_mode = ModeConversation | ModeBalanced | ModeContext

definition DEFAULT_SYNC_MODE :: sync_mode where "DEFAULT_SYNC_MODE = ModeConversation"

definition parseSyncMode :: "string option \<Rightarrow> sync_mode option" where
  "parseSyncMode raw =
     (case raw of None \<Rightarrow> None
      | Some s \<Rightarrow>
          let v = to_lower (js_trim s)
          in if v = ''conversation'' then Some ModeConversation
             else if v = ''balanced'' then Some ModeBalanced
             else if v = ''context'' then Some ModeContext
             else None)"

record sync_mode_preset =
  mp_activeIdleMs :: int
  mp_inactiveIdleMs :: int

definition SYNC_MODE_CONVERSATION :: sync_mode_preset where
  "SYNC_MODE_CONVERSATION = \<lparr>mp_activeIdleMs = 10000, mp_inactiveIdleMs = 300000\<rparr>"
definition SYNC_MODE_BALANCED :: sync_mode_preset where
  "SYNC_MODE_BALANCED = \<lparr>mp_activeIdleMs = 15000, mp_inactiveIdleMs = 180000\<rparr>"
definition SYNC_MODE_CONTEXT :: sync_mode_preset where
  "SYNC_MODE_CONTEXT = \<lparr>mp_activeIdleMs = 30000, mp_inactiveIdleMs = 600000\<rparr>"

fun syncModePreset :: "sync_mode \<Rightarrow> sync_mode_preset" where
  "syncModePreset ModeConversation = SYNC_MODE_CONVERSATION"
| "syncModePreset ModeBalanced = SYNC_MODE_BALANCED"
| "syncModePreset ModeContext = SYNC_MODE_CONTEXT"

definition syncModeFromConfig :: "config option \<Rightarrow> sync_mode option" where
  "syncModeFromConfig config =
     (case config of None \<Rightarrow> None | Some c \<Rightarrow> parseSyncMode (c ''sync_mode''))"

subsection \<open>sync-steady-capacity.ts\<close>

definition DEFAULT_STEADY_TARGET_IDLE_MS :: int where "DEFAULT_STEADY_TARGET_IDLE_MS = 180000"
definition MIN_STEADY_LIVE_PER_TICK :: int where "MIN_STEADY_LIVE_PER_TICK = 8"
definition MAX_STEADY_LIVE_PER_TICK :: int where "MAX_STEADY_LIVE_PER_TICK = 48"

lemmas steady_consts = DEFAULT_STEADY_TARGET_IDLE_MS_def MIN_STEADY_LIVE_PER_TICK_def
  MAX_STEADY_LIVE_PER_TICK_def

definition DEFAULT_STEADY_LANE_LIMITS :: sync_lane_limits where
  "DEFAULT_STEADY_LANE_LIMITS =
     \<lparr>lim_interactive = 1, lim_live = 8, lim_catalog = 0, lim_history = 0, lim_media = 4\<rparr>"

definition steadyLaneLimits :: "bool \<Rightarrow> sync_lane_limits" where
  "steadyLaneLimits catalogIncomplete =
     DEFAULT_STEADY_LANE_LIMITS\<lparr>lim_catalog := (if catalogIncomplete then 1 else 0)\<rparr>"

record steady_capacity_input =
  sci_steadyCount :: int
  sci_tickIntervalMs :: int
  sci_targetIdleMs :: "int option"
  sci_minLive :: "int option"
  sci_maxLive :: "int option"

text \<open>\<open>Math.ceil(x / y)\<close> for a positive divisor.\<close>

definition ceil_div :: "int \<Rightarrow> int \<Rightarrow> int" where
  "ceil_div x y = - ((- x) div y)"

definition steadyLiveLimit :: "steady_capacity_input \<Rightarrow> int" where
  "steadyLiveLimit i =
     (if sci_steadyCount i \<le> 0 then or_else (sci_minLive i) MIN_STEADY_LIVE_PER_TICK
      else let tick = max 1 (sci_tickIntervalMs i);
               targetIdle = max 1 (or_else (sci_targetIdleMs i) DEFAULT_STEADY_TARGET_IDLE_MS);
               needed = ceil_div (sci_steadyCount i * tick) targetIdle;
               lo = or_else (sci_minLive i) MIN_STEADY_LIVE_PER_TICK;
               hi = or_else (sci_maxLive i) MAX_STEADY_LIVE_PER_TICK
           in min hi (max lo needed))"

definition steadyTargetIdleMs :: "int \<Rightarrow> int \<Rightarrow> int" where
  "steadyTargetIdleMs steadyCount baseIdleMs =
     (if steadyCount \<le> 64 then baseIdleMs
      else if steadyCount \<le> 256 then baseIdleMs * 3 div 2
      else baseIdleMs * 2)"

definition steadyLaneLimitsForCount ::
  "sync_catalog_member list \<Rightarrow> states_map \<Rightarrow> int \<Rightarrow> bool \<Rightarrow> int option \<Rightarrow> int option \<Rightarrow> sync_lane_limits" where
  "steadyLaneLimitsForCount members states tickIntervalMs catalogIncomplete targetIdleMs maxLive =
     (let steady = snd (partitionMembersByLifecycle members states);
          targetIdle = or_else targetIdleMs
            (steadyTargetIdleMs (int (length steady)) DEFAULT_STEADY_TARGET_IDLE_MS)
      in (steadyLaneLimits catalogIncomplete)
           \<lparr>lim_live := steadyLiveLimit \<lparr>sci_steadyCount = int (length steady),
              sci_tickIntervalMs = tickIntervalMs, sci_targetIdleMs = Some targetIdle,
              sci_minLive = None, sci_maxLive = maxLive\<rparr>\<rparr>)"

definition at_least_env :: "js_num option \<Rightarrow> int \<Rightarrow> int \<Rightarrow> int" where
  "at_least_env raw fallback lo =
     (case or_else raw (int_num fallback) of
        Num q \<Rightarrow> if of_int lo \<le> q then \<lfloor>q\<rfloor> else fallback
      | _ \<Rightarrow> fallback)"

definition steadyCapacityFromEnv :: "(string \<Rightarrow> js_num option) \<Rightarrow> int \<times> int" where
  "steadyCapacityFromEnv env =
     (at_least_env (env ''REGENIC_STEADY_TARGET_IDLE_MS'') DEFAULT_STEADY_TARGET_IDLE_MS 1000,
      at_least_env (env ''REGENIC_STEADY_LIVE_MAX'') MAX_STEADY_LIVE_PER_TICK
        MIN_STEADY_LIVE_PER_TICK)"

subsection \<open>sync-claim-limit.ts\<close>

definition DEFAULT_DUE_WORK_CLAIM_LIMIT :: int where "DEFAULT_DUE_WORK_CLAIM_LIMIT = 32"
definition DEFAULT_BOOTSTRAP_DUE_WORK_CLAIM_LIMIT :: int where
  "DEFAULT_BOOTSTRAP_DUE_WORK_CLAIM_LIMIT = 16"
definition MIN_DUE_WORK_CLAIM_LIMIT :: int where "MIN_DUE_WORK_CLAIM_LIMIT = 1"
definition MAX_DUE_WORK_CLAIM_LIMIT :: int where "MAX_DUE_WORK_CLAIM_LIMIT = 128"

fun clampClaimLimit :: "js_num \<Rightarrow> int \<Rightarrow> int \<Rightarrow> int" where
  "clampClaimLimit (Num q) lo hi = clamp_floor lo hi q"
| "clampClaimLimit _ lo hi = hi"

record claim_limiter =
  dl_value :: int
  dl_floor :: int
  dl_ceiling :: int

definition new_limiter :: "int \<Rightarrow> int \<Rightarrow> js_num \<Rightarrow> claim_limiter" where
  "new_limiter flr ceil initial =
     \<lparr>dl_value = clampClaimLimit initial flr ceil, dl_floor = flr, dl_ceiling = ceil\<rparr>"

text \<open>An omitted cap is the ceiling.\<close>

definition limiter_limit :: "claim_limiter \<Rightarrow> js_num option \<Rightarrow> int" where
  "limiter_limit s cap =
     min (dl_value s)
       (clampClaimLimit (or_else cap (int_num (dl_ceiling s))) (dl_floor s) (dl_ceiling s))"

definition limiter_observe :: "bool \<Rightarrow> js_num option \<Rightarrow> claim_limiter \<Rightarrow> claim_limiter" where
  "limiter_observe pressure cap s =
     (let current = limiter_limit s cap
      in if pressure
         then s\<lparr>dl_value := max (dl_floor s)
                (if current div 2 = 0 then dl_floor s else current div 2)\<rparr>
         else s\<lparr>dl_value := min (dl_ceiling s) (current + 1)\<rparr>)"

text \<open>A thrown value: nothing, or its \<open>code\<close> (when it has a string one) and its message.\<close>

datatype thrown = NothingThrown | Thrown "string option" string

definition word_char :: "char \<Rightarrow> bool" where
  "word_char c \<longleftrightarrow> (let n = of_char c :: nat in
     48 \<le> n \<and> n \<le> 57 \<or> 65 \<le> n \<and> n \<le> 90 \<or> 97 \<le> n \<and> n \<le> 122 \<or> n = 95)"

text \<open>\<open>/\b429\b/\<close>, with whether the character before is a word character.\<close>

fun has_429 :: "bool \<Rightarrow> string \<Rightarrow> bool" where
  "has_429 before [] = False"
| "has_429 before (c # s) =
     (\<not> before \<and> starts_with ''429'' (c # s)
        \<and> (case drop 3 (c # s) of [] \<Rightarrow> True | d # _ \<Rightarrow> \<not> word_char d)
      \<or> has_429 (word_char c) s)"

text \<open>\<open>/rate.?limit|throttl/i\<close>, on the message in lower case; \<open>.\<close> is no line break.\<close>

definition rate_limit_here :: "string \<Rightarrow> bool" where
  "rate_limit_here s \<longleftrightarrow>
     starts_with ''rate'' s \<and>
       (starts_with ''limit'' (drop 4 s)
        \<or> (case drop 4 s of [] \<Rightarrow> False
            | c # r \<Rightarrow> c \<noteq> CHR 0x0A \<and> c \<noteq> CHR 0x0D \<and> starts_with ''limit'' r))
     \<or> starts_with ''throttl'' s"

fun has_rate_limit :: "string \<Rightarrow> bool" where
  "has_rate_limit [] = False"
| "has_rate_limit (c # s) = (rate_limit_here (c # s) \<or> has_rate_limit s)"

fun looksLikeSyncPressure :: "thrown \<Rightarrow> bool" where
  "looksLikeSyncPressure NothingThrown = False"
| "looksLikeSyncPressure (Thrown code message) =
     (code = Some ''throttled'' \<or> has_429 False message \<or> has_rate_limit (to_lower message))"

subsection \<open>Enough live polls\<close>

lemma ceil_div_bounds:
  assumes "0 < y"
  shows "x \<le> ceil_div x y * y" and "(ceil_div x y - 1) * y < x"
proof -
  have "(- x) div y * y + (- x) mod y = - x" by (rule div_mult_mod_eq)
  moreover have "0 \<le> (- x) mod y" "(- x) mod y < y" using assms by simp_all
  ultimately have c: "x = ceil_div x y * y - (- x) mod y" "0 \<le> (- x) mod y" "(- x) mod y < y"
    unfolding ceil_div_def minus_mult_left[symmetric] by linarith+
  then show "x \<le> ceil_div x y * y" by linarith
  have "(ceil_div x y - 1) * y = ceil_div x y * y - y" by (simp add: left_diff_distrib)
  with c show "(ceil_div x y - 1) * y < x" by linarith
qed

text \<open>The live limit of a steady tick lies between its bounds; below the upper bound it is
  enough to poll every steady stream once per target idle time, and above the lower bound it is the
  least number that is.\<close>

lemma steady_limit_keeps_up:
  assumes "0 < n" and "1 \<le> tick" and "1 \<le> idle" and "lo \<le> hi"
  shows "let r = steadyLiveLimit \<lparr>sci_steadyCount = n, sci_tickIntervalMs = tick,
             sci_targetIdleMs = Some idle, sci_minLive = Some lo, sci_maxLive = Some hi\<rparr>
    in lo \<le> r \<and> r \<le> hi \<and> (r < hi \<longrightarrow> n * tick \<le> r * idle) \<and> (lo < r \<longrightarrow> (r - 1) * idle < n * tick)"
proof -
  let ?c = "ceil_div (n * tick) idle"
  have c: "n * tick \<le> ?c * idle" "(?c - 1) * idle < n * tick" using ceil_div_bounds[of idle] assms by auto
  have mono: "a \<le> b \<Longrightarrow> a * idle \<le> b * idle" for a b using assms(3) by (simp add: mult_right_mono)
  let ?r = "min hi (max lo ?c)"
  have r: "steadyLiveLimit \<lparr>sci_steadyCount = n, sci_tickIntervalMs = tick, sci_targetIdleMs = Some idle,
      sci_minLive = Some lo, sci_maxLive = Some hi\<rparr> = ?r"
    using assms by (simp add: steadyLiveLimit_def Let_def max_absorb2)
  have "?r < hi \<longrightarrow> n * tick \<le> ?r * idle" using c(1) mono[of ?c ?r] by linarith
  moreover have "lo < ?r \<longrightarrow> (?r - 1) * idle < n * tick" using c(2) mono[of "?r - 1" "?c - 1"] by linarith
  ultimately show ?thesis unfolding r Let_def using assms(4) by simp
qed

lemma steady_limit_keeps_up_witness:
  "600 * 10000 \<le> steadyLiveLimit \<lparr>sci_steadyCount = 600, sci_tickIntervalMs = 10000,
     sci_targetIdleMs = Some 180000, sci_minLive = Some 8, sci_maxLive = Some 48\<rparr> * 180000"
proof -
  have v: "steadyLiveLimit \<lparr>sci_steadyCount = 600, sci_tickIntervalMs = 10000,
     sci_targetIdleMs = Some 180000, sci_minLive = Some 8, sci_maxLive = Some 48\<rparr> = 34"
    by code_simp
  show ?thesis using steady_limit_keeps_up[of 600 10000 180000 8 48] by (simp add: v Let_def)
qed

subsection \<open>The claim limit\<close>

definition limiter_ok :: "claim_limiter \<Rightarrow> bool" where
  "limiter_ok s \<longleftrightarrow> 1 \<le> dl_floor s \<and> dl_floor s \<le> dl_value s \<and> dl_value s \<le> dl_ceiling s"

lemma clampClaimLimit_bounds:
  "lo \<le> hi \<Longrightarrow> lo \<le> clampClaimLimit n lo hi \<and> clampClaimLimit n lo hi \<le> hi"
  by (cases n) (auto simp: clamp_floor_bounds)

lemma limiter_limit_bounds:
  "limiter_ok s \<Longrightarrow> dl_floor s \<le> limiter_limit s cap \<and> limiter_limit s cap \<le> dl_value s"
  using clampClaimLimit_bounds[of "dl_floor s" "dl_ceiling s"] by (auto simp: limiter_ok_def limiter_limit_def)

lemma limiter_observe_ok: "limiter_ok s \<Longrightarrow> limiter_ok (limiter_observe p cap s)"
  using limiter_limit_bounds[of s cap] by (auto simp: limiter_ok_def limiter_observe_def Let_def)

lemma limiter_observe_consts [simp]:
  "dl_floor (limiter_observe p cap s) = dl_floor s" "dl_ceiling (limiter_observe p cap s) = dl_ceiling s"
  by (simp_all add: limiter_observe_def Let_def)

fun limiter_run :: "(bool \<times> js_num option) list \<Rightarrow> claim_limiter \<Rightarrow> claim_limiter" where
  "limiter_run [] s = s"
| "limiter_run ((p, cap) # os) s = limiter_run os (limiter_observe p cap s)"

lemma limiter_run_ok:
  "limiter_ok s \<Longrightarrow> limiter_ok (limiter_run os s) \<and> dl_floor (limiter_run os s) = dl_floor s
     \<and> dl_ceiling (limiter_run os s) = dl_ceiling s"
  by (induction os s rule: limiter_run.induct) (auto simp: limiter_observe_ok)

text \<open>Whatever it observes and whatever caps it is asked for, the limiter answers between its
  floor and its ceiling and never above the cap it is given: the environment's cap bounds the claim
  even while the limit recovers.\<close>

lemma limiter_bounded:
  assumes "1 \<le> flr" and "flr \<le> ceil"
  shows "let s = limiter_run os (new_limiter flr ceil initial)
    in flr \<le> limiter_limit s cap \<and> limiter_limit s cap \<le> ceil
       \<and> limiter_limit s cap \<le> clampClaimLimit (or_else cap (int_num ceil)) flr ceil"
proof -
  have "limiter_ok (new_limiter flr ceil initial)"
    using clampClaimLimit_bounds[OF assms(2)] assms(1) by (simp add: limiter_ok_def new_limiter_def)
  from limiter_run_ok[OF this, of os] limiter_limit_bounds[of "limiter_run os (new_limiter flr ceil initial)" cap]
  show ?thesis
    by (auto simp: Let_def limiter_ok_def new_limiter_def limiter_limit_def)
qed

lemma limiter_bounded_witness:
  "1 \<le> limiter_limit (limiter_run [(True, None), (True, None)] (new_limiter 1 128 NaN)) (Some PosInf)"
  using limiter_bounded[of 1 128 "[(True, None), (True, None)]" NaN "Some PosInf"] by (simp add: Let_def)

lemma limiter_limit_uncapped: "limiter_ok s \<Longrightarrow> limiter_limit s None = dl_value s"
  by (auto simp: limiter_limit_def limiter_ok_def int_num_def)

lemma limiter_clean_value:
  "limiter_ok s \<Longrightarrow> dl_value (limiter_observe False None s) = min (dl_ceiling s) (dl_value s + 1)"
  by (simp add: limiter_observe_def limiter_limit_uncapped Let_def)

lemma limiter_pressure_value:
  "limiter_ok s \<Longrightarrow> dl_value (limiter_observe True None s) = max (dl_floor s) (dl_value s div 2)"
  by (auto simp: limiter_observe_def limiter_limit_uncapped Let_def limiter_ok_def)

text \<open>Additive increase, multiplicative decrease: \<open>k\<close> clean ticks raise the limit by \<open>k\<close> up
  to the ceiling, and \<open>k\<close> ticks under pressure divide it by \<open>2 ^ k\<close> down to the floor, so that
  enough pressure always reaches the floor.\<close>

lemma limiter_aimd:
  assumes "limiter_ok s"
  shows "limiter_limit (limiter_run (replicate k (False, None)) s) None
      = min (dl_ceiling s) (dl_value s + int k)
    \<and> limiter_limit (limiter_run (replicate k (True, None)) s) None
      = max (dl_floor s) (dl_value s div 2 ^ k)"
proof
  show "limiter_limit (limiter_run (replicate k (False, None)) s) None
      = min (dl_ceiling s) (dl_value s + int k)"
    using assms
  proof (induction k arbitrary: s)
    case 0
    then show ?case by (simp add: limiter_limit_uncapped limiter_ok_def)
  next
    case (Suc k)
    from Suc.IH[OF limiter_observe_ok[OF Suc.prems]] show ?case
      by (simp add: limiter_clean_value[OF Suc.prems])
  qed
  have half: "0 \<le> v \<Longrightarrow> max f (max f (v div 2) div 2 ^ k) = max f (v div 2 ^ Suc k)" if "1 \<le> f" for f v :: int and k
  proof -
    have "f div 2 ^ k \<le> f" using that using zdiv_mono2[of f 1 "2 ^ k"] by simp
    moreover have "max f (v div 2) div 2 ^ k = max (f div 2 ^ k) (v div 2 div 2 ^ k)"
      by (cases "f \<le> v div 2") (simp_all add: max_def zdiv_mono1 antisym)
    moreover have "v div 2 div 2 ^ k = v div 2 ^ Suc k" by (simp add: zdiv_zmult2_eq)
    ultimately show ?thesis by auto
  qed
  show "limiter_limit (limiter_run (replicate k (True, None)) s) None
      = max (dl_floor s) (dl_value s div 2 ^ k)"
    using assms
  proof (induction k arbitrary: s)
    case 0
    then show ?case by (simp add: limiter_limit_uncapped limiter_ok_def)
  next
    case (Suc k)
    have "1 \<le> dl_floor s" "0 \<le> dl_value s" using Suc.prems by (auto simp: limiter_ok_def)
    from half[OF this] Suc.IH[OF limiter_observe_ok[OF Suc.prems]] show ?case
      by (simp add: limiter_pressure_value[OF Suc.prems] del: power_Suc)
  qed
qed

lemma limiter_aimd_witness:
  "limiter_limit (limiter_run (replicate 5 (True, None)) \<lparr>dl_value = 100, dl_floor = 1, dl_ceiling = 128\<rparr>) None = 3"
proof -
  have "limiter_ok \<lparr>dl_value = 100, dl_floor = 1, dl_ceiling = 128\<rparr>" by (simp add: limiter_ok_def)
  from limiter_aimd[OF this, of 5] show ?thesis by simp
qed

end
