(* ===== verification/SyncScheduler.thy ===== *)
theory SyncScheduler
  imports SyncCapacity "HOL-Library.Sublist"
begin

section \<open>Scheduling a tick in memory\<close>

text \<open>
  \<open>packages/domain/src/sync-ring.ts\<close> (the ring that rotates through the steady streams),
  \<open>sync-scheduler.ts\<close> (the work items of a tick) and \<open>sync-orchestrator.ts\<close> (bootstrap and
  steady plans merged). A \<open>Partial\<close> of lane limits is a record of options; an absent field keeps
  the default. A \<open>Set\<close> of stream keys is a list.
\<close>

definition same_thread :: "string option \<Rightarrow> sync_catalog_member \<Rightarrow> bool" where
  "same_thread preferredId m \<longleftrightarrow> preferredId \<noteq> None \<and> cm_thread_id m = preferredId"

subsection \<open>sync-ring.ts\<close>

record live_ring =
  rg_cursor :: nat
  rg_force :: "string list"

definition new_ring :: live_ring where
  "new_ring = \<lparr>rg_cursor = 0, rg_force = []\<rparr>"

definition nudge :: "string \<Rightarrow> live_ring \<Rightarrow> live_ring" where
  "nudge streamKey r =
     (let key = js_trim streamKey
      in if key \<noteq> [] then r\<lparr>rg_force := List.insert key (rg_force r)\<rparr> else r)"

definition nudgeThread :: "string \<Rightarrow> sync_catalog_member list \<Rightarrow> live_ring \<Rightarrow> live_ring" where
  "nudgeThread threadId members r =
     (let ident = js_trim threadId
      in if ident = [] then r
         else fold (\<lambda>m. if cm_thread_id m = Some ident then nudge (cm_stream_key m) else (\<lambda>x. x)) members r)"

definition ring_steady :: "sync_catalog_member list \<Rightarrow> states_map \<Rightarrow> string list \<Rightarrow> sync_catalog_member list" where
  "ring_steady members states excluded =
     List.filter (\<lambda>m. cm_stream_key m \<notin> set excluded \<and> isSteadyPhase (phase_of states m)) members"

definition ring_due :: "states_map \<Rightarrow> string \<Rightarrow> string list \<Rightarrow> sync_catalog_member \<Rightarrow> bool" where
  "ring_due states now forced m \<longleftrightarrow>
     cm_stream_key m \<in> set forced \<or> syncStateIsDue (map_of states (cm_stream_key m)) now False"

text \<open>
  The urgency of a member: its tier and the negated overdue time (\<^term>\<open>None\<close> is NaN, when
  \<open>now\<close> is no date).
\<close>

definition urgency :: "states_map \<Rightarrow> string \<Rightarrow> string list \<Rightarrow> sync_catalog_member \<Rightarrow> int \<times> int option" where
  "urgency states now forced m =
     (if cm_stream_key m \<in> set forced then (0, Some 0)
      else case Option.bind (map_of states (cm_stream_key m)) ss_idle_until of
             None \<Rightarrow> (1, Some 0)
           | Some i \<Rightarrow>
               (case date_parse i of
                  None \<Rightarrow> (1, Some 0)
                | Some t \<Rightarrow> (1, map_option (\<lambda>n. - max 0 (n - t)) (date_parse now))))"

definition compare_urgency ::
  "(string \<Rightarrow> string \<Rightarrow> int) \<Rightarrow> states_map \<Rightarrow> string \<Rightarrow> string list
   \<Rightarrow> sync_catalog_member \<Rightarrow> sync_catalog_member \<Rightarrow> int" where
  "compare_urgency lc states now forced left right =
     (case (urgency states now forced left, urgency states now forced right) of
        ((lt, lo), (rt, ro)) \<Rightarrow>
          if lt \<noteq> rt then lt - rt
          else case (lo, ro) of
                 (Some a, Some b) \<Rightarrow>
                   if a \<noteq> b then a - b else lc (cm_stream_key left) (cm_stream_key right)
               | _ \<Rightarrow> 0)"

definition ring_ranked ::
  "(string \<Rightarrow> string \<Rightarrow> int) \<Rightarrow> sync_catalog_member list \<Rightarrow> states_map \<Rightarrow> string \<Rightarrow> string list
   \<Rightarrow> string list \<Rightarrow> sync_catalog_member list" where
  "ring_ranked lc members states now excluded forced =
     js_sort (compare_urgency lc states now forced)
       (List.filter (ring_due states now forced) (ring_steady members states excluded))"

fun find_index :: "('a \<Rightarrow> bool) \<Rightarrow> 'a list \<Rightarrow> nat option" where
  "find_index P [] = None"
| "find_index P (x # xs) = (if P x then Some 0 else map_option Suc (find_index P xs))"

definition nextDue ::
  "(string \<Rightarrow> string \<Rightarrow> int) \<Rightarrow> sync_catalog_member list \<Rightarrow> states_map \<Rightarrow> string \<Rightarrow> int \<Rightarrow> string list
   \<Rightarrow> live_ring \<Rightarrow> sync_catalog_member list \<times> live_ring" where
  "nextDue lc members states now limit excluded r =
     (let ranked = ring_ranked lc members states now excluded (rg_force r)
      in if limit \<le> 0 \<or> ranked = [] then ([], r)
         else let start = (if length ranked \<le> rg_cursor r then 0 else rg_cursor r mod length ranked);
                  rotated = drop start ranked @ take start ranked;
                  picked = take (nat limit) rotated
              in if picked = [] then ([], r)
                 else let cursor = (case find_index (\<lambda>m. cm_stream_key m = cm_stream_key (List.last picked)) ranked of
                              Some index \<Rightarrow> (index + 1) mod length ranked | None \<Rightarrow> 0)
                      in (picked, \<lparr>rg_cursor = cursor,
                            rg_force = List.filter (\<lambda>k. k \<notin> cm_stream_key ` set picked) (rg_force r)\<rparr>))"

definition adoptRotateFrom :: "string option \<Rightarrow> sync_catalog_member list \<Rightarrow> live_ring \<Rightarrow> live_ring" where
  "adoptRotateFrom rotateFrom members r =
     (if \<not> truthy rotateFrom then r
      else let steady = List.filter (\<lambda>m. cm_stream_key m \<noteq> []) members
           in case find_index (\<lambda>m. Some (cm_stream_key m) = rotateFrom) steady of
                Some index \<Rightarrow> r\<lparr>rg_cursor := (index + 1) mod length steady\<rparr>
              | None \<Rightarrow> r)"

subsection \<open>sync-scheduler.ts\<close>

definition DEFAULT_BOOTSTRAP_LANE_LIMITS :: sync_lane_limits where
  "DEFAULT_BOOTSTRAP_LANE_LIMITS =
     \<lparr>lim_interactive = 1, lim_live = 16, lim_catalog = 1, lim_history = 32, lim_media = 2\<rparr>"

definition HUMAN_PRESENT_BOOTSTRAP_LIMITS :: sync_lane_limits where
  "HUMAN_PRESENT_BOOTSTRAP_LIMITS =
     \<lparr>lim_interactive = 1, lim_live = 0, lim_catalog = 0, lim_history = 1, lim_media = 0\<rparr>"

definition syncLaneLimits :: "bool \<Rightarrow> bool \<Rightarrow> sync_lane_limits" where
  "syncLaneLimits humanIdle catalogIncomplete =
     (if humanIdle
      then \<lparr>lim_interactive = 1, lim_live = 1, lim_catalog = (if catalogIncomplete then 1 else 0),
            lim_history = 2, lim_media = 2\<rparr>
      else \<lparr>lim_interactive = 1, lim_live = 2, lim_catalog = (if catalogIncomplete then 1 else 0),
            lim_history = 1, lim_media = 1\<rparr>)"

definition bootstrapWorkerLaneLimits :: "bool \<Rightarrow> sync_lane_limits" where
  "bootstrapWorkerLaneLimits catalogIncomplete =
     DEFAULT_BOOTSTRAP_LANE_LIMITS
       \<lparr>lim_catalog := (if catalogIncomplete then lim_catalog DEFAULT_BOOTSTRAP_LANE_LIMITS else 0)\<rparr>"

record partial_limits =
  pl_interactive :: "int option"
  pl_live :: "int option"
  pl_catalog :: "int option"
  pl_history :: "int option"
  pl_media :: "int option"

definition no_limits :: partial_limits where
  "no_limits = \<lparr>pl_interactive = None, pl_live = None, pl_catalog = None, pl_history = None, pl_media = None\<rparr>"

text \<open>\<open>{...base, ...limits}\<close>\<close>

definition with_limits :: "sync_lane_limits \<Rightarrow> partial_limits \<Rightarrow> sync_lane_limits" where
  "with_limits base p =
     \<lparr>lim_interactive = or_else (pl_interactive p) (lim_interactive base),
      lim_live = or_else (pl_live p) (lim_live base),
      lim_catalog = or_else (pl_catalog p) (lim_catalog base),
      lim_history = or_else (pl_history p) (lim_history base),
      lim_media = or_else (pl_media p) (lim_media base)\<rparr>"

definition all_limits :: "sync_lane_limits \<Rightarrow> partial_limits" where
  "all_limits l = \<lparr>pl_interactive = Some (lim_interactive l), pl_live = Some (lim_live l),
     pl_catalog = Some (lim_catalog l), pl_history = Some (lim_history l), pl_media = Some (lim_media l)\<rparr>"

record sync_schedule_input =
  si_members :: "sync_catalog_member list"
  si_states :: states_map
  si_preferredThreadId :: "string option"
  si_humanIdle :: bool
  si_catalogIncomplete :: bool
  si_rotateFrom :: "string option"
  si_rotateSeedFrom :: "string option"
  si_now :: string
  si_limits :: partial_limits
  si_pages :: "int option"

definition rotateFromKey ::
  "('a \<Rightarrow> string option) \<Rightarrow> ('a \<Rightarrow> string option) \<Rightarrow> 'a list \<Rightarrow> string option \<Rightarrow> 'a list" where
  "rotateFromKey streamKey key items from =
     (if \<not> truthy from \<or> items = [] then items
      else case find_index (\<lambda>i. streamKey i = from \<or> key i = from) items of
             None \<Rightarrow> items
           | Some index \<Rightarrow>
               let start = (index + 1) mod length items in drop start items @ take start items)"

abbreviation rotate_members :: "sync_catalog_member list \<Rightarrow> string option \<Rightarrow> sync_catalog_member list" where
  "rotate_members \<equiv> rotateFromKey (\<lambda>m. Some (cm_stream_key m)) (\<lambda>_. None)"

definition rankLiveMembers ::
  "sync_catalog_member list \<Rightarrow> states_map \<Rightarrow> string option \<Rightarrow> sync_catalog_member list" where
  "rankLiveMembers members states preferredId =
     (let rest = List.filter (\<lambda>m. \<not> same_thread preferredId m) members
      in List.filter (\<lambda>m. phase_of states m = None \<or> phase_of states m = Some PhaseUnseeded) rest
         @ List.filter (\<lambda>m. phase_of states m = Some PhaseLive \<or> phase_of states m = Some PhaseSteady) rest)"

definition text_item :: "sync_lane \<Rightarrow> bool \<Rightarrow> int \<Rightarrow> sync_catalog_member \<Rightarrow> sync_work_item" where
  "text_item lane older pages m =
     \<lparr>wi_lane = lane, wi_stream_key = cm_stream_key m, wi_thread_id = cm_thread_id m,
      wi_older = older, wi_media = False, wi_pages = pages\<rparr>"

definition catalog_item :: sync_work_item where
  "catalog_item = \<lparr>wi_lane = LaneCatalog, wi_stream_key = SYNC_CATALOG_STREAM, wi_thread_id = None,
     wi_older = False, wi_media = False, wi_pages = 1\<rparr>"

definition media_item :: "sync_catalog_member \<Rightarrow> sync_work_item" where
  "media_item m = \<lparr>wi_lane = LaneMedia, wi_stream_key = cm_stream_key m, wi_thread_id = cm_thread_id m,
     wi_older = False, wi_media = True, wi_pages = 1\<rparr>"

definition interactive_members ::
  "sync_lane_limits \<Rightarrow> sync_catalog_member list \<Rightarrow> string option \<Rightarrow> sync_catalog_member list" where
  "interactive_members limits members preferredId =
     (case List.find (same_thread preferredId) members of
        Some m \<Rightarrow> if 0 < lim_interactive limits then [m] else []
      | None \<Rightarrow> [])"

definition catalog_items :: "sync_lane_limits \<Rightarrow> bool \<Rightarrow> sync_work_item list" where
  "catalog_items limits catalogIncomplete =
     (if 0 < lim_catalog limits \<and> catalogIncomplete then [catalog_item] else [])"

definition media_members ::
  "sync_lane_limits \<Rightarrow> sync_catalog_member list \<Rightarrow> states_map \<Rightarrow> string option \<Rightarrow> sync_catalog_member list" where
  "media_members limits members states preferredId =
     (if 0 < lim_media limits then
        let pending = List.filter (media_pending_of states) members
        in take (nat (lim_media limits))
             (List.filter (same_thread preferredId) pending
              @ List.filter (\<lambda>m. \<not> same_thread preferredId m) pending)
      else [])"

definition live_rest :: "sync_schedule_input \<Rightarrow> string option \<Rightarrow> string list \<Rightarrow> sync_catalog_member list" where
  "live_rest i preferredId taken =
     (let livePool = rankLiveMembers (si_members i) (si_states i) preferredId;
          unseen = List.filter (\<lambda>m. phase_of (si_states i) m = None
                     \<or> phase_of (si_states i) m = Some PhaseUnseeded) livePool;
          seeds = take UNSEEN_SEED_PER_TICK
            (rotate_members unseen (or_opt (si_rotateSeedFrom i) (si_rotateFrom i)))
      in List.filter (\<lambda>m. cm_stream_key m \<notin> set taken
             \<and> syncStateIsDue (map_of (si_states i) (cm_stream_key m)) (si_now i) False)
           (seeds @ List.filter (\<lambda>m. cm_stream_key m \<notin> cm_stream_key ` set seeds) livePool))"

definition history_pool :: "sync_schedule_input \<Rightarrow> string option \<Rightarrow> string list \<Rightarrow> sync_catalog_member list" where
  "history_pool i preferredId taken =
     rotate_members
       (List.filter (\<lambda>m. cm_stream_key m \<notin> set taken \<and> \<not> same_thread preferredId m
          \<and> phase_of (si_states i) m = Some PhaseHistory) (si_members i))
       (si_rotateFrom i)"

definition planSyncWork :: "sync_schedule_input \<Rightarrow> sync_work_item list" where
  "planSyncWork i =
     (let limits = with_limits (syncLaneLimits (si_humanIdle i) (si_catalogIncomplete i)) (si_limits i);
          pages = or_else (si_pages i) 1;
          preferredId = trim_opt (si_preferredThreadId i);
          inter = interactive_members limits (si_members i) preferredId;
          live = take (nat (lim_live limits)) (live_rest i preferredId (List.map cm_stream_key inter));
          hist = take (nat (lim_history limits))
            (history_pool i preferredId (List.map cm_stream_key (inter @ live)))
      in List.map (text_item LaneInteractive False pages) inter
         @ List.map (text_item LaneLive False pages) live
         @ catalog_items limits (si_catalogIncomplete i)
         @ List.map (text_item LaneHistory True pages) hist
         @ List.map media_item (media_members limits (si_members i) (si_states i) preferredId))"

text \<open>
  Bootstrap and steady plans take their limits from the input's \<open>limits\<close>. \<open>humanIdle\<close> is
  given to \<open>planBootstrapSyncWork\<close> with its default (true) already applied.
\<close>

definition planBootstrapSyncWork :: "sync_schedule_input \<Rightarrow> sync_work_item list" where
  "planBootstrapSyncWork i =
     (let bootstrap = fst (partitionMembersByLifecycle (si_members i) (si_states i));
          limits =
            (if si_humanIdle i
             then with_limits (bootstrapWorkerLaneLimits (si_catalogIncomplete i)) (si_limits i)
             else (with_limits HUMAN_PRESENT_BOOTSTRAP_LIMITS (si_limits i))
                    \<lparr>lim_live := or_else (pl_live (si_limits i)) 0,
                     lim_catalog := or_else (pl_catalog (si_limits i)) 0\<rparr>)
      in planSyncWork (i\<lparr>si_members := bootstrap, si_limits := all_limits limits\<rparr>))"

definition planSteadySyncWork ::
  "(string \<Rightarrow> string \<Rightarrow> int) \<Rightarrow> sync_schedule_input \<Rightarrow> live_ring \<Rightarrow> sync_work_item list \<times> live_ring" where
  "planSteadySyncWork lc i ring0 =
     (let limits = (with_limits (steadyLaneLimits (si_catalogIncomplete i)) (si_limits i))\<lparr>lim_history := 0\<rparr>;
          pages = or_else (si_pages i) 1;
          preferredId = trim_opt (si_preferredThreadId i);
          inter = interactive_members limits (si_members i) preferredId;
          ring = adoptRotateFrom (si_rotateFrom i) (si_members i) ring0;
          (live, ring') = nextDue lc (si_members i) (si_states i) (si_now i) (max 0 (lim_live limits))
            (List.map cm_stream_key inter) ring
      in (List.map (text_item LaneInteractive False pages) inter
          @ List.map (text_item LaneLive False pages) live
          @ catalog_items limits (si_catalogIncomplete i)
          @ List.map media_item (media_members limits (si_members i) (si_states i) preferredId), ring'))"

definition lastHistoryWorkKey :: "sync_work_item list \<Rightarrow> string option" where
  "lastHistoryWorkKey items =
     map_option wi_stream_key (List.find (\<lambda>i. wi_lane i = LaneHistory) (rev items))"

definition lastSeedWorkKey :: "sync_work_item list \<Rightarrow> string option" where
  "lastSeedWorkKey items =
     map_option wi_stream_key
       (List.find (\<lambda>i. wi_lane i = LaneLive \<or> wi_lane i = LaneInteractive) (rev items))"

subsection \<open>sync-orchestrator.ts\<close>

record sync_tick_plan =
  tp_bootstrap :: "sync_work_item list"
  tp_steady :: "sync_work_item list"
  tp_all :: "sync_work_item list"

fun merge_items :: "string list \<Rightarrow> sync_work_item list \<Rightarrow> sync_work_item list" where
  "merge_items taken [] = []"
| "merge_items taken (i # is) =
     (if wi_lane i = LaneCatalog then i # merge_items taken is
      else if wi_stream_key i \<in> set taken then merge_items taken is
      else i # merge_items (wi_stream_key i # taken) is)"

definition mergeSyncTickPlan :: "sync_work_item list \<Rightarrow> sync_work_item list \<Rightarrow> sync_tick_plan" where
  "mergeSyncTickPlan bootstrap steady =
     \<lparr>tp_bootstrap = bootstrap, tp_steady = steady, tp_all = merge_items [] (bootstrap @ steady)\<rparr>"

text \<open>The input of a tick: a schedule input whose own \<open>limits\<close> are not read.\<close>

definition planSyncTick ::
  "(string \<Rightarrow> string \<Rightarrow> int) \<Rightarrow> sync_schedule_input \<Rightarrow> partial_limits \<Rightarrow> partial_limits \<Rightarrow> live_ring
   \<Rightarrow> sync_tick_plan \<times> live_ring" where
  "planSyncTick lc i bootstrapLimits steadyLimits ring =
     (let (bootstrap, steady) = partitionMembersByLifecycle (si_members i) (si_states i);
          bootstrapItems = planBootstrapSyncWork
            (i\<lparr>si_members := bootstrap, si_limits := bootstrapLimits\<rparr>);
          steadyLims = (if si_humanIdle i then steadyLimits else steadyLimits\<lparr>pl_catalog := Some 0\<rparr>);
          (steadyItems, ring') = planSteadySyncWork lc
            (i\<lparr>si_members := steady, si_limits := steadyLims\<rparr>) ring
      in (mergeSyncTickPlan bootstrapItems steadyItems, ring'))"

definition statesMap :: "sync_stream_state list \<Rightarrow> states_map" where
  "statesMap states = js_map_of_list (List.map (\<lambda>s. (ss_stream_key s, s)) states)"

definition membersFromStates :: "sync_stream_state list \<Rightarrow> sync_catalog_member list" where
  "membersFromStates states =
     List.map (\<lambda>s. \<lparr>cm_installation_id = ss_installation_id s, cm_stream_key = ss_stream_key s,
       cm_thread_id = None, cm_label = None, cm_kind = None, cm_generation = ss_generation s,
       cm_discovered_at = ss_updated_at s, cm_last_seen_at = ss_updated_at s\<rparr>) states"

subsection \<open>What a tick contains\<close>

lemma item_simps [simp]:
  "wi_lane (text_item l o' p m) = l" "wi_stream_key (text_item l o' p m) = cm_stream_key m"
  "wi_lane (media_item m) = LaneMedia" "wi_stream_key (media_item m) = cm_stream_key m"
  "wi_lane catalog_item = LaneCatalog" "wi_stream_key catalog_item = SYNC_CATALOG_STREAM"
  "wi_older (text_item l o' p m) = o'" "wi_older (media_item m) = False" "wi_older catalog_item = False"
  by (simp_all add: text_item_def media_item_def catalog_item_def)

lemma filter_items [simp]:
  "List.filter (\<lambda>i. wi_lane i = k) (List.map (text_item l o' p) ms) = (if l = k then List.map (text_item l o' p) ms else [])"
  "List.filter (\<lambda>i. wi_lane i = k) (List.map media_item ms) = (if k = LaneMedia then List.map media_item ms else [])"
  "List.filter (\<lambda>i. wi_lane i = k) (catalog_items lims b) = (if k = LaneCatalog then catalog_items lims b else [])"
  by (auto simp: filter_map comp_def catalog_items_def filter_empty_conv)

fun lane_limit :: "sync_lane_limits \<Rightarrow> sync_lane \<Rightarrow> int" where
  "lane_limit l LaneInteractive = lim_interactive l"
| "lane_limit l LaneLive = lim_live l"
| "lane_limit l LaneCatalog = lim_catalog l"
| "lane_limit l LaneHistory = lim_history l"
| "lane_limit l LaneMedia = lim_media l"

lemma take_limit: "int (length (take (nat n) xs)) \<le> max 0 n"
  by (cases "0 \<le> n") simp_all

lemma take_le: "0 \<le> n \<Longrightarrow> int (length (take (nat n) xs)) \<le> n"
  by simp

lemma interactive_members_length: "int (length (interactive_members lims ms p)) \<le> max 0 (lim_interactive lims)"
  by (auto simp: interactive_members_def split: option.splits)

lemma media_members_length: "int (length (media_members lims ms st p)) \<le> max 0 (lim_media lims)"
  by (simp add: media_members_def Let_def take_le del: length_take take_append)

lemma catalog_items_length: "int (length (catalog_items lims b)) \<le> max 0 (lim_catalog lims)"
  by (simp add: catalog_items_def)

lemma nextDue_length: "int (length (fst (nextDue lc ms st now n ex r))) \<le> max 0 n"
  by (simp add: nextDue_def Let_def take_le del: length_take take_append)

text \<open>A tick plans at most as many items of a lane as that lane's limit, in the general plan
  and in the steady plan, and the steady plan has no history item whatever limits it is given.\<close>

lemma tick_within_limits:
  "int (length (List.filter (\<lambda>w. wi_lane w = lane) (planSyncWork i)))
     \<le> max 0 (lane_limit (with_limits (syncLaneLimits (si_humanIdle i) (si_catalogIncomplete i)) (si_limits i)) lane)
   \<and> int (length (List.filter (\<lambda>w. wi_lane w = lane) (fst (planSteadySyncWork lc i ring))))
     \<le> (if lane = LaneHistory then 0
        else max 0 (lane_limit (with_limits (steadyLaneLimits (si_catalogIncomplete i)) (si_limits i)) lane))"
proof
  let ?b = "with_limits (syncLaneLimits (si_humanIdle i) (si_catalogIncomplete i)) (si_limits i)"
  show "int (length (List.filter (\<lambda>w. wi_lane w = lane) (planSyncWork i))) \<le> max 0 (lane_limit ?b lane)"
    using interactive_members_length[of ?b] media_members_length[of ?b] catalog_items_length[of ?b] take_limit
    by (cases lane) (simp_all add: planSyncWork_def Let_def del: length_take)
  let ?l = "with_limits (steadyLaneLimits (si_catalogIncomplete i)) (si_limits i)"
  have h: "catalog_items (?l\<lparr>lim_history := 0\<rparr>) b = catalog_items ?l b"
    "media_members (?l\<lparr>lim_history := 0\<rparr>) ms st p = media_members ?l ms st p"
    "interactive_members (?l\<lparr>lim_history := 0\<rparr>) ms p = interactive_members ?l ms p" for b ms st p
    by (simp_all add: catalog_items_def media_members_def interactive_members_def split: option.splits)
  have n: "int (length (fst (nextDue lc ms st now (max 0 (lim_live ?l)) ex r))) \<le> max 0 (lim_live ?l)" for ms st now ex r
    using nextDue_length[of lc ms st now "max 0 (lim_live ?l)" ex r] by simp
  show "int (length (List.filter (\<lambda>w. wi_lane w = lane) (fst (planSteadySyncWork lc i ring))))
     \<le> (if lane = LaneHistory then 0 else max 0 (lane_limit ?l lane))"
    using interactive_members_length[of ?l] media_members_length[of ?l] catalog_items_length[of ?l] n
    by (cases lane) (simp_all add: planSteadySyncWork_def Let_def split_beta h)
qed

lemma set_rotate_members [simp]: "set (rotateFromKey f g xs from) = set xs"
proof -
  have "set (drop n xs @ take n xs) = set xs" for n by (metis append_take_drop_id set_append Un_commute)
  then show ?thesis by (auto simp: rotateFromKey_def Let_def split: option.splits)
qed

lemma distinct_rotate [simp]: "distinct (List.map h (rotateFromKey f g xs from)) = distinct (List.map h xs)"
proof -
  have "mset (rotateFromKey f g xs from) = mset xs"
    by (auto simp: rotateFromKey_def Let_def simp flip: mset_append split: option.splits)
      (metis append_take_drop_id mset_append add.commute)
  then show ?thesis by (metis mset_eq_imp_distinct_iff mset_map)
qed

definition text_lane :: "sync_lane \<Rightarrow> bool" where
  "text_lane l \<longleftrightarrow> l = LaneInteractive \<or> l = LaneLive \<or> l = LaneHistory"

lemma text_lane_simps [simp]:
  "text_lane LaneInteractive" "text_lane LaneLive" "text_lane LaneHistory"
  "\<not> text_lane LaneCatalog" "\<not> text_lane LaneMedia"
  by (simp_all add: text_lane_def)

lemma filter_text [simp]:
  "List.filter (\<lambda>i. text_lane (wi_lane i)) (List.map (text_item l o' p) ms)
     = (if text_lane l then List.map (text_item l o' p) ms else [])"
  "List.filter (\<lambda>i. text_lane (wi_lane i)) (List.map media_item ms) = []"
  "List.filter (\<lambda>i. text_lane (wi_lane i)) (catalog_items lims b) = []"
  by (auto simp: filter_map comp_def catalog_items_def filter_empty_conv text_lane_def)

lemma distinct_keys_filter: "distinct (List.map h xs) \<Longrightarrow> distinct (List.map h (List.filter P xs))"
  by (rule distinct_map_filter)

lemma distinct_keys_take: "distinct (List.map h xs) \<Longrightarrow> distinct (List.map h (take n xs))"
  by (simp add: take_map[symmetric])

lemma set_interactive_members:
  "m \<in> set (interactive_members lims ms p) \<Longrightarrow> m \<in> set ms \<and> same_thread p m"
  by (cases "List.find (same_thread p) ms")
    (auto simp: interactive_members_def find_Some_iff split: if_splits)

lemma distinct_interactive [simp]: "distinct (List.map h (interactive_members lims ms p))"
  by (auto simp: interactive_members_def split: option.splits)

lemma distinct_rankLive:
  assumes "distinct (List.map cm_stream_key ms)"
  shows "distinct (List.map cm_stream_key (rankLiveMembers ms st p))"
proof -
  have "cm_stream_key m \<noteq> cm_stream_key m'" if "phase_of st m \<noteq> phase_of st m'" for m m'
    using that by (auto simp: phase_of_def)
  then show ?thesis
    unfolding rankLiveMembers_def Let_def
    by (auto simp: assms distinct_keys_filter disjoint_iff)
qed

lemma live_rest_sound:
  assumes "distinct (List.map cm_stream_key (si_members i))"
  shows "distinct (List.map cm_stream_key (live_rest i p taken))"
    and "\<forall>m \<in> set (live_rest i p taken). m \<in> set (si_members i) \<and> cm_stream_key m \<notin> set taken
          \<and> phase_of (si_states i) m \<noteq> Some PhaseHistory \<and> \<not> same_thread p m
          \<and> syncStateIsDue (map_of (si_states i) (cm_stream_key m)) (si_now i) False"
proof -
  define pool where "pool = rankLiveMembers (si_members i) (si_states i) p"
  define seeds where "seeds = take UNSEEN_SEED_PER_TICK (rotate_members
    (List.filter (\<lambda>m. phase_of (si_states i) m = None \<or> phase_of (si_states i) m = Some PhaseUnseeded) pool)
    (or_opt (si_rotateSeedFrom i) (si_rotateFrom i)))"
  have pool: "distinct (List.map cm_stream_key pool)" unfolding pool_def by (rule distinct_rankLive[OF assms])
  have sub: "set seeds \<subseteq> set pool" unfolding seeds_def by (auto dest: in_set_takeD)
  have eq: "live_rest i p taken = List.filter (\<lambda>m. cm_stream_key m \<notin> set taken
      \<and> syncStateIsDue (map_of (si_states i) (cm_stream_key m)) (si_now i) False)
      (seeds @ List.filter (\<lambda>m. cm_stream_key m \<notin> cm_stream_key ` set seeds) pool)"
    by (simp add: live_rest_def pool_def seeds_def Let_def)
  have "distinct (List.map cm_stream_key seeds)"
    unfolding seeds_def by (intro distinct_keys_take) (simp add: pool distinct_keys_filter)
  then have "distinct (List.map cm_stream_key (seeds @ List.filter (\<lambda>m. cm_stream_key m \<notin> cm_stream_key ` set seeds) pool))"
    by (auto simp: pool distinct_keys_filter) (metis image_eqI)
  then show "distinct (List.map cm_stream_key (live_rest i p taken))"
    unfolding eq by (rule distinct_keys_filter)
  show "\<forall>m \<in> set (live_rest i p taken). m \<in> set (si_members i) \<and> cm_stream_key m \<notin> set taken
          \<and> phase_of (si_states i) m \<noteq> Some PhaseHistory \<and> \<not> same_thread p m
          \<and> syncStateIsDue (map_of (si_states i) (cm_stream_key m)) (si_now i) False"
    unfolding eq using sub by (auto simp: pool_def rankLiveMembers_def Let_def)
qed

lemma history_pool_sound:
  "\<forall>m \<in> set (history_pool i p taken). m \<in> set (si_members i) \<and> cm_stream_key m \<notin> set taken
     \<and> phase_of (si_states i) m = Some PhaseHistory"
  "distinct (List.map cm_stream_key (si_members i)) \<Longrightarrow> distinct (List.map cm_stream_key (history_pool i p taken))"
  by (auto simp: history_pool_def distinct_keys_filter)

text \<open>One text poll per stream and tick: the interactive, live and history items of a plan name
  different streams (when the catalog names each stream once). A history item walks a stream whose
  stored phase is history, a live item polls one that is due and not in history.\<close>

lemma one_text_poll_per_stream:
  assumes "distinct (List.map cm_stream_key (si_members i))"
  shows "distinct (List.map wi_stream_key (List.filter (\<lambda>w. text_lane (wi_lane w)) (planSyncWork i)))
    \<and> (\<forall>w \<in> set (planSyncWork i). wi_lane w = LaneHistory \<longrightarrow>
         map_option ss_phase (map_of (si_states i) (wi_stream_key w)) = Some PhaseHistory \<and> wi_older w)
    \<and> (\<forall>w \<in> set (planSyncWork i). wi_lane w = LaneLive \<longrightarrow>
         map_option ss_phase (map_of (si_states i) (wi_stream_key w)) \<noteq> Some PhaseHistory
         \<and> syncStateIsDue (map_of (si_states i) (wi_stream_key w)) (si_now i) False)"
proof -
  define limits where "limits = with_limits (syncLaneLimits (si_humanIdle i) (si_catalogIncomplete i)) (si_limits i)"
  define pref where "pref = trim_opt (si_preferredThreadId i)"
  define inter where "inter = interactive_members limits (si_members i) pref"
  define live where "live = take (nat (lim_live limits)) (live_rest i pref (List.map cm_stream_key inter))"
  define hist where "hist = take (nat (lim_history limits))
    (history_pool i pref (List.map cm_stream_key (inter @ live)))"
  define media where "media = media_members limits (si_members i) (si_states i) pref"
  define pages where "pages = or_else (si_pages i) 1"
  have plan: "planSyncWork i = List.map (text_item LaneInteractive False pages) inter
         @ List.map (text_item LaneLive False pages) live
         @ catalog_items limits (si_catalogIncomplete i)
         @ List.map (text_item LaneHistory True pages) hist @ List.map media_item media"
    by (simp add: planSyncWork_def Let_def limits_def pref_def inter_def live_def hist_def media_def pages_def)
  have live: "distinct (List.map cm_stream_key live)"
    "\<forall>m \<in> set live. m \<in> set (si_members i) \<and> cm_stream_key m \<notin> cm_stream_key ` set inter
          \<and> phase_of (si_states i) m \<noteq> Some PhaseHistory
          \<and> syncStateIsDue (map_of (si_states i) (cm_stream_key m)) (si_now i) False"
    using live_rest_sound[OF assms, of pref "List.map cm_stream_key inter"]
    by (auto simp: live_def distinct_keys_take dest: in_set_takeD)
  have hist: "distinct (List.map cm_stream_key hist)"
    "\<forall>m \<in> set hist. cm_stream_key m \<notin> cm_stream_key ` set inter \<and> cm_stream_key m \<notin> cm_stream_key ` set live
       \<and> phase_of (si_states i) m = Some PhaseHistory"
    using history_pool_sound(1)[of i pref "List.map cm_stream_key (inter @ live)"] history_pool_sound(2)[OF assms]
    by (auto simp: hist_def distinct_keys_take dest!: in_set_takeD)
  have "distinct (List.map cm_stream_key inter)" by (simp add: inter_def)
  with live hist have "distinct (List.map wi_stream_key (List.filter (\<lambda>w. text_lane (wi_lane w)) (planSyncWork i)))"
    unfolding plan by (simp add: comp_def disjoint_iff image_iff) blast
  moreover have "\<forall>w \<in> set (planSyncWork i). wi_lane w = LaneHistory \<longrightarrow>
      map_option ss_phase (map_of (si_states i) (wi_stream_key w)) = Some PhaseHistory \<and> wi_older w"
    unfolding plan using hist(2) by (auto simp: phase_of_def catalog_items_def)
  moreover have "\<forall>w \<in> set (planSyncWork i). wi_lane w = LaneLive \<longrightarrow>
      map_option ss_phase (map_of (si_states i) (wi_stream_key w)) \<noteq> Some PhaseHistory
      \<and> syncStateIsDue (map_of (si_states i) (wi_stream_key w)) (si_now i) False"
    unfolding plan using live(2) by (auto simp: phase_of_def catalog_items_def)
  ultimately show ?thesis by blast
qed

definition sample_schedule :: sync_schedule_input where
  "sample_schedule = \<lparr>si_members = [sample_member ''a'', sample_member ''b''], si_states = [],
     si_preferredThreadId = None, si_humanIdle = True, si_catalogIncomplete = False,
     si_rotateFrom = None, si_rotateSeedFrom = None, si_now = ''n'', si_limits = no_limits, si_pages = None\<rparr>"

lemma one_text_poll_per_stream_witness:
  "distinct (List.map wi_stream_key (List.filter (\<lambda>w. text_lane (wi_lane w)) (planSyncWork sample_schedule)))"
proof -
  have "distinct (List.map cm_stream_key (si_members sample_schedule))"
    by (simp add: sample_schedule_def sample_member_def)
  from one_text_poll_per_stream[OF this] show ?thesis by blast
qed

subsection \<open>The ring serves everyone\<close>

definition ring_start :: "nat \<Rightarrow> live_ring \<Rightarrow> nat" where
  "ring_start n r = (if n \<le> rg_cursor r then 0 else rg_cursor r)"

lemma ring_start_less: "0 < n \<Longrightarrow> ring_start n r < n"
  by (simp add: ring_start_def)

lemma find_index_nth:
  "distinct (List.map f xs) \<Longrightarrow> j < length xs \<Longrightarrow> find_index (\<lambda>x. f x = f (xs ! j)) xs = Some j"
proof (induction xs arbitrary: j)
  case (Cons x xs)
  show ?case
  proof (cases j)
    case (Suc k)
    with Cons.prems have "f x \<noteq> f (xs ! k)" by (auto simp: image_iff)
    with Suc Cons show ?thesis by simp
  qed simp
qed simp

lemma nextDue_force:
  "rg_force (snd (nextDue lc ms st now l ex r)) =
     List.filter (\<lambda>k. k \<notin> cm_stream_key ` set (fst (nextDue lc ms st now l ex r))) (rg_force r)"
  by (auto simp: nextDue_def Let_def)

lemma nextDue_steady: "set (fst (nextDue lc ms st now l ex r)) \<subseteq> set (ring_steady ms st ex)"
  by (auto simp: nextDue_def Let_def ring_ranked_def dest!: in_set_takeD in_set_dropD
      split: if_splits)

lemma ring_pick:
  fixes r :: live_ring
  assumes R: "R = ring_ranked lc ms st now ex (rg_force r)" "R \<noteq> []" "distinct (List.map cm_stream_key R)"
    and l: "0 < l"
  defines "n \<equiv> length R" and "m \<equiv> min (nat l) (length R)"
  shows "fst (nextDue lc ms st now l ex r) = List.map (\<lambda>i. R ! ((ring_start n r + i) mod n)) [0..<m]"
    and "ring_start n (snd (nextDue lc ms st now l ex r)) = (ring_start n r + m) mod n"
proof -
  let ?s = "ring_start n r"
  have n: "0 < n" and m: "0 < m" "m \<le> n" using R(2) l by (auto simp: n_def m_def)
  have s: "?s < n" by (rule ring_start_less[OF n])
  let ?rot = "drop ?s R @ take ?s R"
  have rot: "?rot = rotate ?s R" using s by (simp add: rotate_drop_take n_def)
  have picked: "take (nat l) ?rot = List.map (\<lambda>i. R ! ((?s + i) mod n)) [0..<m]" (is "_ = ?p")
    unfolding rot by (rule nth_equalityI) (auto simp: nth_rotate n_def m_def)
  have last: "List.last ?p = R ! ((?s + (m - 1)) mod n)" using m by (simp add: last_map last_upt)
  have idx: "find_index (\<lambda>x. cm_stream_key x = cm_stream_key (List.last ?p)) R = Some ((?s + (m - 1)) mod n)"
    unfolding last by (rule find_index_nth[OF R(3)]) (use n in \<open>simp add: n_def\<close>)
  have cur: "((?s + (m - 1)) mod n + 1) mod n = (?s + m) mod n"
    using m by (simp add: mod_simps)
  have start: "(if length R \<le> rg_cursor r then 0 else rg_cursor r mod length R) = ?s"
    by (simp add: ring_start_def n_def)
  have ne: "?p \<noteq> []" using m by simp
  have "fst (nextDue lc ms st now l ex r) = ?p \<and> rg_cursor (snd (nextDue lc ms st now l ex r)) = (?s + m) mod n"
    using R(2) l ne idx cur unfolding nextDue_def R(1)[symmetric] Let_def start picked
    by (simp add: n_def)
  then show "fst (nextDue lc ms st now l ex r) = ?p"
    "ring_start n (snd (nextDue lc ms st now l ex r)) = (?s + m) mod n"
    using mod_less_divisor[OF n, of "?s + m"] by (simp_all add: ring_start_def)
qed

text \<open>Successive ticks over the same streams.\<close>

fun ring_run :: "(live_ring \<Rightarrow> sync_catalog_member list \<times> live_ring) \<Rightarrow> nat \<Rightarrow> live_ring \<Rightarrow> sync_catalog_member list" where
  "ring_run tick 0 r = []"
| "ring_run tick (Suc k) r = (case tick r of (picked, r') \<Rightarrow> picked @ ring_run tick k r')"

fun ring_after :: "(live_ring \<Rightarrow> sync_catalog_member list \<times> live_ring) \<Rightarrow> nat \<Rightarrow> live_ring \<Rightarrow> live_ring" where
  "ring_after tick 0 r = r"
| "ring_after tick (Suc k) r = ring_after tick k (snd (tick r))"

lemma ring_run_add:
  "ring_run tick (a + b) r = ring_run tick a r @ ring_run tick b (ring_after tick a r)"
  by (induction a arbitrary: r) (auto simp: split_beta)

lemma ring_run_mono: "a \<le> b \<Longrightarrow> set (ring_run tick a r) \<subseteq> set (ring_run tick b r)"
  using ring_run_add[of tick a "b - a" r] by simp

text \<open>Over a run, exactly the nudges of the polled streams are taken back.\<close>

lemma ring_after_force:
  "rg_force (ring_after (nextDue lc ms st now l ex) k r) =
     List.filter (\<lambda>key. key \<notin> cm_stream_key ` set (ring_run (nextDue lc ms st now l ex) k r)) (rg_force r)"
  by (induction k arbitrary: r) (auto simp: split_beta nextDue_force intro: filter_cong)

lemma ring_run_steady: "set (ring_run (nextDue lc ms st now l ex) k r) \<subseteq> set (ring_steady ms st ex)"
  using nextDue_steady by (induction k arbitrary: r) (auto simp: split_beta)

text \<open>As long as no nudge is taken back the ranking stays, and the ticks go round it.\<close>

lemma ring_run_covers:
  assumes R: "R \<noteq> []" "distinct (List.map cm_stream_key R)" and l: "0 < l"
  shows "R = ring_ranked lc ms st now ex (rg_force r) \<Longrightarrow>
    rg_force (ring_after (nextDue lc ms st now l ex) k r) = rg_force r \<Longrightarrow>
    i < k * min (nat l) (length R) \<Longrightarrow>
    R ! ((ring_start (length R) r + i) mod length R) \<in> set (ring_run (nextDue lc ms st now l ex) k r)"
proof (induction k arbitrary: r i)
  case (Suc k)
  note pick = ring_pick[OF Suc.prems(1) R l]
  let ?n = "length R" and ?m = "min (nat l) (length R)" and ?r' = "snd (nextDue lc ms st now l ex r)"
  have same: "rg_force ?r' = rg_force r"
    "rg_force (ring_after (nextDue lc ms st now l ex) k ?r') = rg_force ?r'"
    using Suc.prems(2) unfolding ring_after.simps ring_after_force nextDue_force
    by (auto simp: filter_id_conv)
  show ?case
  proof (cases "i < ?m")
    case True
    then have "R ! ((ring_start ?n r + i) mod ?n) \<in> set (fst (nextDue lc ms st now l ex r))"
      unfolding pick(1) set_map set_upt by (intro imageI) simp
    then show ?thesis by (simp add: split_beta)
  next
    case False
    with Suc.prems(3) have "i - ?m < k * ?m" by (simp only: mult_Suc) linarith
    from Suc.IH[OF _ same(2) this] Suc.prems(1) have
      "R ! (((ring_start ?n r + ?m) mod ?n + (i - ?m)) mod ?n) \<in> set (ring_run (nextDue lc ms st now l ex) k ?r')"
      unfolding pick(2) same(1) by simp
    moreover have "((ring_start ?n r + ?m) mod ?n + (i - ?m)) mod ?n = (ring_start ?n r + i) mod ?n"
    proof -
      have "ring_start ?n r + ?m + (i - ?m) = ring_start ?n r + i" using False by linarith
      then show ?thesis by (simp only: mod_add_left_eq)
    qed
    ultimately show ?thesis by (simp add: split_beta)
  qed
qed simp

lemma ring_ranked_keys:
  "distinct (List.map cm_stream_key ms) \<Longrightarrow> distinct (List.map cm_stream_key (ring_ranked lc ms st now ex forced))"
proof -
  assume "distinct (List.map cm_stream_key ms)"
  then have "distinct (List.map cm_stream_key (List.filter (ring_due st now forced) (ring_steady ms st ex)))"
    unfolding ring_steady_def by (intro distinct_keys_filter)
  moreover have "mset (List.map cm_stream_key (ring_ranked lc ms st now ex forced))
      = mset (List.map cm_stream_key (List.filter (ring_due st now forced) (ring_steady ms st ex)))"
    unfolding ring_ranked_def by (simp only: mset_map mset_js_sort)
  ultimately show ?thesis using mset_eq_imp_distinct_iff by blast
qed

lemma fewer_due:
  "set g \<subseteq> set f \<Longrightarrow> length (List.filter (ring_due st now g) xs) \<le> length (List.filter (ring_due st now f) xs)"
  by (induction xs) (auto simp: ring_due_def)

lemma ring_turn:
  assumes keys: "distinct (List.map cm_stream_key ms)" and l: "0 < l"
    and room: "length (List.filter (ring_due st now (rg_force r)) (ring_steady ms st ex)) \<le> q * nat l"
    and quiet: "rg_force (ring_after (nextDue lc ms st now l ex) q r) = rg_force r"
    and m: "m \<in> set (ring_steady ms st ex)" "ring_due st now (rg_force r) m"
  shows "m \<in> set (ring_run (nextDue lc ms st now l ex) q r)"
proof -
  define R where "R = ring_ranked lc ms st now ex (rg_force r)"
  let ?n = "length R" and ?s = "ring_start (length R) r"
  have mem: "m \<in> set R" using m by (simp add: R_def ring_ranked_def)
  then have ne: "R \<noteq> []" by auto
  have dist: "distinct (List.map cm_stream_key R)" unfolding R_def by (rule ring_ranked_keys[OF keys])
  from mem obtain j where j: "j < ?n" "R ! j = m" by (auto simp: in_set_conv_nth)
  have s: "?s < ?n" using ne by (intro ring_start_less) simp
  define i where "i = (j + (?n - ?s)) mod ?n"
  have "?n \<le> q * nat l" using room by (simp add: R_def ring_ranked_def)
  then have "?n \<le> q * min (nat l) ?n" using ne by (cases q) (auto simp: min_def)
  moreover have "i < ?n" unfolding i_def using ne by simp
  ultimately have "i < q * min (nat l) ?n" by simp
  from ring_run_covers[OF ne dist l R_def quiet this]
  have "R ! ((?s + i) mod ?n) \<in> set (ring_run (nextDue lc ms st now l ex) q r)" .
  moreover have "(?s + i) mod ?n = j"
  proof -
    have "(?s + i) mod ?n = (?s + (j + (?n - ?s))) mod ?n" unfolding i_def by (rule mod_add_right_eq)
    also have "?s + (j + (?n - ?s)) = j + ?n" using s by simp
    finally show ?thesis using j(1) by simp
  qed
  ultimately show ?thesis using j(2) by simp
qed

text \<open>The nudges still to be served: those of streams the ring can poll.\<close>

definition nudges_left :: "sync_catalog_member list \<Rightarrow> states_map \<Rightarrow> string list \<Rightarrow> live_ring \<Rightarrow> string set" where
  "nudges_left ms st ex r = set (rg_force r) \<inter> cm_stream_key ` set (ring_steady ms st ex)"

lemma ring_nudged_turns:
  assumes keys: "distinct (List.map cm_stream_key ms)" and l: "0 < l"
    and m: "m \<in> set (ring_steady ms st ex)"
  shows "length (List.filter (ring_due st now (rg_force r)) (ring_steady ms st ex)) \<le> q * nat l \<Longrightarrow>
    ring_due st now (rg_force r) m \<Longrightarrow> (card (nudges_left ms st ex r) + 1) * q \<le> k \<Longrightarrow>
    m \<in> set (ring_run (nextDue lc ms st now l ex) k r)"
proof (induction "card (nudges_left ms st ex r)" arbitrary: r k rule: less_induct)
  case less
  let ?tick = "nextDue lc ms st now l ex"
  let ?r' = "ring_after ?tick q r" and ?run = "ring_run ?tick q r"
  have k: "q \<le> k" using less.prems(3) by (simp add: le_trans[OF _ less.prems(3)])
  show ?case
  proof (cases "m \<in> set ?run")
    case True
    with ring_run_mono[OF k] show ?thesis by blast
  next
    case False
    have due': "ring_due st now (rg_force ?r') m"
    proof -
      have "cm_stream_key m \<notin> cm_stream_key ` set ?run"
        using False keys m ring_run_steady[of lc ms st now l ex q r]
        by (auto simp: ring_steady_def distinct_map dest: inj_onD)
      with less.prems(2) show ?thesis by (auto simp: ring_due_def ring_after_force)
    qed
    have "rg_force ?r' \<noteq> rg_force r"
      using ring_turn[OF keys l less.prems(1) _ m less.prems(2)] False by blast
    then obtain x where "x \<in> set (rg_force r)" "x \<in> cm_stream_key ` set ?run"
      unfolding ring_after_force by (auto simp: filter_id_conv)
    then have "nudges_left ms st ex ?r' \<subset> nudges_left ms st ex r"
      using ring_run_steady[of lc ms st now l ex q r] by (auto simp: nudges_left_def ring_after_force)
    then have fewer: "card (nudges_left ms st ex ?r') < card (nudges_left ms st ex r)"
      by (rule psubset_card_mono[rotated]) (simp add: nudges_left_def)
    have "length (List.filter (ring_due st now (rg_force ?r')) (ring_steady ms st ex))
        \<le> length (List.filter (ring_due st now (rg_force r)) (ring_steady ms st ex))"
      by (rule fewer_due) (auto simp: ring_after_force)
    then have room: "length (List.filter (ring_due st now (rg_force ?r')) (ring_steady ms st ex)) \<le> q * nat l"
      using less.prems(1) by simp
    have "(card (nudges_left ms st ex ?r') + 1) * q \<le> card (nudges_left ms st ex r) * q"
      using fewer by (intro mult_right_mono) simp_all
    then have "(card (nudges_left ms st ex ?r') + 1) * q \<le> k - q" using less.prems(3) by simp
    from less.hyps[OF fewer room due' this] show ?thesis
      using ring_run_add[of ?tick q "k - q" r] k by simp
  qed
qed

text \<open>C29. No due steady stream starves while nothing changes: over ticks that see the same
  members, states, clock and excluded streams, with no new nudge on the way, and from any
  position of the ring with any nudges pending, every steady stream that is due or nudged is
  polled within \<open>(n + 1) * q\<close> ticks, where \<open>n\<close> is the number of pending nudges (each served
  nudge may reshuffle the ranking under the cursor, once) and \<open>q\<close> ticks have room for all
  due streams, whatever the collation ranks first.\<close>

theorem ring_serves_every_due_stream:
  assumes "distinct (List.map cm_stream_key ms)" and "0 < l"
    and "length (List.filter (ring_due st now (rg_force r)) (ring_steady ms st ex)) \<le> q * nat l"
    and "(card (set (rg_force r)) + 1) * q \<le> k"
    and "m \<in> set ms" and "cm_stream_key m \<notin> set ex" and "isSteadyPhase (phase_of st m)"
    and "ring_due st now (rg_force r) m"
  shows "m \<in> set (ring_run (nextDue lc ms st now l ex) k r)"
proof (rule ring_nudged_turns[OF assms(1,2) _ assms(3,8)])
  show "m \<in> set (ring_steady ms st ex)" using assms(5-7) by (simp add: ring_steady_def)
  have "card (nudges_left ms st ex r) \<le> card (set (rg_force r))"
    unfolding nudges_left_def by (rule card_mono) auto
  then have "(card (nudges_left ms st ex r) + 1) * q \<le> (card (set (rg_force r)) + 1) * q"
    by (intro mult_right_mono) simp_all
  with assms(4) show "(card (nudges_left ms st ex r) + 1) * q \<le> k" by linarith
qed

definition sample_steady_state :: "string \<Rightarrow> sync_stream_state" where
  "sample_steady_state key = (sample_state PhaseSteady)\<lparr>ss_stream_key := key, ss_idle_until := None\<rparr>"

text \<open>
  Two due streams and a pending nudge of the second one, one poll per tick: both are polled
  within four ticks.
\<close>

theorem ring_serves_every_due_stream_witness:
  "let polled = ring_run (nextDue code_unit_compare [sample_member ''a'', sample_member ''b'']
       [(''a'', sample_steady_state ''a''), (''b'', sample_steady_state ''b'')] ''n'' 1 []) 4
       (nudge ''b'' new_ring)
   in sample_member ''a'' \<in> set polled \<and> sample_member ''b'' \<in> set polled"
proof -
  let ?ms = "[sample_member ''a'', sample_member ''b'']"
  let ?st = "[(''a'', sample_steady_state ''a''), (''b'', sample_steady_state ''b'')]"
  let ?r = "nudge ''b'' new_ring"
  have force: "rg_force ?r = [''b'']" by (simp add: nudge_def new_ring_def js_trim_def js_space_def Let_def)
  have key: "cm_stream_key (sample_member k) = k" for k by (simp add: sample_member_def)
  have due: "isSteadyPhase (phase_of ?st (sample_member k))" "ring_due ?st ''n'' [''b''] (sample_member k)"
    if "k = ''a'' \<or> k = ''b''" for k
    using that by (auto simp: key sample_steady_state_def sample_state_def isSteadyPhase_def
        syncLifecycleMode_def phase_of_def syncStateIsDue_def ring_due_def)
  have "sample_member k \<in> set (ring_run (nextDue code_unit_compare ?ms ?st ''n'' 1 []) 4 ?r)"
    if "k = ''a'' \<or> k = ''b''" for k
    by (rule ring_serves_every_due_stream[where q = 2])
      (use that due in \<open>auto simp: force key ring_steady_def\<close>)
  then show ?thesis by (simp add: Let_def)
qed

subsection \<open>The merged plan of a tick\<close>

definition poll_keys :: "sync_work_item list \<Rightarrow> string list" where
  "poll_keys ws = List.map wi_stream_key (List.filter (\<lambda>w. wi_lane w \<noteq> LaneCatalog) ws)"

lemma poll_keys_simps [simp]:
  "poll_keys [] = []" "poll_keys (b @ s) = poll_keys b @ poll_keys s"
  "poll_keys (w # ws) = (if wi_lane w = LaneCatalog then poll_keys ws else wi_stream_key w # poll_keys ws)"
  by (simp_all add: poll_keys_def)

lemma merge_items_keys: "set (poll_keys (merge_items taken ws)) = set (poll_keys ws) - set taken"
  by (induction taken ws rule: merge_items.induct) auto

lemma merge_items_distinct: "distinct (poll_keys (merge_items taken ws))"
  by (induction taken ws rule: merge_items.induct) (auto simp: merge_items_keys)

lemma subseq_merge_items: "subseq (merge_items taken ws) ws"
  by (induction taken ws rule: merge_items.induct) auto

lemma merge_items_catalog:
  "List.filter (\<lambda>w. wi_lane w = LaneCatalog) (merge_items taken ws) = List.filter (\<lambda>w. wi_lane w = LaneCatalog) ws"
  by (induction taken ws rule: merge_items.induct) auto

text \<open>The merged plan of a tick polls every stream that either plan wants, once: its items are
  those of the two plans in order, without repeating a stream and without dropping one, and the
  catalog items all stay.\<close>

lemma merged_tick_exact:
  "let t = mergeSyncTickPlan b s in
     subseq (tp_all t) (b @ s) \<and> distinct (poll_keys (tp_all t))
     \<and> set (poll_keys (tp_all t)) = set (poll_keys b) \<union> set (poll_keys s)
     \<and> List.filter (\<lambda>w. wi_lane w = LaneCatalog) (tp_all t) = List.filter (\<lambda>w. wi_lane w = LaneCatalog) (b @ s)"
  using merge_items_keys[of "[]" "b @ s"] merge_items_distinct[of "[]" "b @ s"]
    subseq_merge_items[of "[]" "b @ s"] merge_items_catalog[of "[]" "b @ s"]
  by (simp add: mergeSyncTickPlan_def Let_def)

text \<open>The comment in \<open>planSyncWork\<close> says that media still runs for a stream whose text was claimed
  in the same tick. The plan does list both items, but the merged plan drops the media item.\<close>

lemma merged_tick_drops_media:
  "let m = sample_member ''a''; text = text_item LaneLive False 1 m
   in tp_all (mergeSyncTickPlan [] [text, media_item m]) = [text]"
  by (simp add: mergeSyncTickPlan_def Let_def)

end
