(* ===== verification/SyncStore.thy ===== *)
theory SyncStore
  imports SyncScheduler
begin

section \<open>Stores of sync state\<close>

text \<open>
  The \<open>SyncStore\<close> interface of \<open>packages/domain/src/sync-contracts.ts\<close> as a record of
  operations on a state, the laws a client may rely on as a locale, and \<open>MemorySyncStore\<close> of
  \<open>sync-engine.ts\<close> with its proof that it keeps them. A promise that resolves is its value; the
  in-memory operations never reject. Copies of the stored objects are the objects (HOL values are
  not aliased), which is what the code's copies are for.
\<close>

record 's sync_store =
  st_getSyncCatalog :: "string \<Rightarrow> 's \<Rightarrow> sync_catalog_view"
  st_getSyncCatalogHead :: "string \<Rightarrow> 's \<Rightarrow> sync_catalog_head"
  st_applySyncCatalogPage :: "apply_sync_catalog_page_input \<Rightarrow> 's \<Rightarrow> sync_catalog_view \<times> 's"
  st_listSyncStates :: "string \<Rightarrow> 's \<Rightarrow> sync_stream_state list"
  st_listSyncPhaseHeads :: "string \<Rightarrow> 's \<Rightarrow> sync_phase_head list"
  st_getSyncState :: "string \<Rightarrow> string \<Rightarrow> 's \<Rightarrow> sync_stream_state option"
  st_putSyncState :: "sync_stream_state \<Rightarrow> 's \<Rightarrow> sync_stream_state \<times> 's"

text \<open>
  A store may refuse to keep the state of a stream that its complete catalog does not name (then
  \<open>getSyncState\<close> answers null), and it may normalise what it is given; it never touches another
  stream's state or a catalog. \<open>valid\<close> are the installation ids it keeps apart.
\<close>

locale sync_state_store =
  fixes st :: "'s sync_store" and ok :: "'s \<Rightarrow> bool" and valid :: "string \<Rightarrow> bool"
  assumes ok_put: "ok s \<Longrightarrow> valid (ss_installation_id x) \<Longrightarrow> ok (snd (st_putSyncState st x s))"
    and ok_apply: "ok s \<Longrightarrow> valid (ap_installation_id p) \<Longrightarrow> ok (snd (st_applySyncCatalogPage st p s))"
    and put_ids: "ss_installation_id (fst (st_putSyncState st x s)) = ss_installation_id x"
      "ss_stream_key (fst (st_putSyncState st x s)) = ss_stream_key x"
    and put_get: "ok s \<Longrightarrow> valid (ss_installation_id x) \<Longrightarrow>
      st_getSyncState st (ss_installation_id x) (ss_stream_key x) (snd (st_putSyncState st x s))
        \<in> {None, Some (fst (st_putSyncState st x s))}"
    and put_other: "ok s \<Longrightarrow> valid (ss_installation_id x) \<Longrightarrow> valid i \<Longrightarrow>
      (i, k) \<noteq> (ss_installation_id x, ss_stream_key x) \<Longrightarrow>
      st_getSyncState st i k (snd (st_putSyncState st x s)) = st_getSyncState st i k s"
    and put_catalog: "st_getSyncCatalog st i (snd (st_putSyncState st x s)) = st_getSyncCatalog st i s"
    and apply_view: "fst (st_applySyncCatalogPage st p s)
        = applySyncCatalogMembers (st_getSyncCatalog st (ap_installation_id p) s) p"
    and apply_get: "st_getSyncCatalog st (ap_installation_id p) (snd (st_applySyncCatalogPage st p s))
        = fst (st_applySyncCatalogPage st p s)"
    and apply_other: "i \<noteq> ap_installation_id p \<Longrightarrow>
      st_getSyncCatalog st i (snd (st_applySyncCatalogPage st p s)) = st_getSyncCatalog st i s"
    and list_get: "ok s \<Longrightarrow> valid i \<Longrightarrow>
      set (st_listSyncStates st i s) = {x. \<exists>k. st_getSyncState st i k s = Some x}"
    and get_key: "ok s \<Longrightarrow> valid i \<Longrightarrow> st_getSyncState st i k s = Some x \<Longrightarrow>
      ss_installation_id x = i \<and> ss_stream_key x = k"

text \<open>A store that keeps exactly what it is given.\<close>

locale exact_state_store = sync_state_store +
  assumes put_exact: "fst (st_putSyncState st x s) = x"
    and put_kept: "ok s \<Longrightarrow> valid (ss_installation_id x) \<Longrightarrow>
      st_getSyncState st (ss_installation_id x) (ss_stream_key x) (snd (st_putSyncState st x s)) = Some x"

subsection \<open>MemorySyncStore\<close>

record memory_sync_store =
  ms_catalogs :: "(string, sync_catalog_view) js_map"
  ms_states :: "(string, sync_stream_state) js_map"

definition new_memory_sync_store :: memory_sync_store where
  "new_memory_sync_store = \<lparr>ms_catalogs = [], ms_states = []\<rparr>"

definition stateKey :: "string \<Rightarrow> string \<Rightarrow> string" where
  "stateKey installationId streamKey = installationId @ CHR 0x00 # streamKey"

definition getSyncCatalog :: "string \<Rightarrow> memory_sync_store \<Rightarrow> sync_catalog_view" where
  "getSyncCatalog i s = or_else (map_of (ms_catalogs s) i) (emptySyncCatalog i)"

definition getSyncCatalogHead :: "string \<Rightarrow> memory_sync_store \<Rightarrow> sync_catalog_head" where
  "getSyncCatalogHead i s =
     (let view = getSyncCatalog i s
      in \<lparr>ch_member_count = length (List.filter (\<lambda>m. is_stream (cm_stream_key m)) (cv_members view)),
          ch_has_cursor = (cv_catalog view \<noteq> None),
          ch_complete = (case cv_catalog view of None \<Rightarrow> False | Some c \<Rightarrow> sn_complete c),
          ch_generation = (case cv_catalog view of None \<Rightarrow> 1 | Some c \<Rightarrow> sn_generation c),
          ch_updated_at = Option.bind (cv_catalog view) (\<lambda>c. to_truthy (sn_updated_at c))\<rparr>)"

definition applySyncCatalogPage ::
  "apply_sync_catalog_page_input \<Rightarrow> memory_sync_store \<Rightarrow> sync_catalog_view \<times> memory_sync_store" where
  "applySyncCatalogPage p s =
     (let nxt = applySyncCatalogMembers (getSyncCatalog (ap_installation_id p) s) p
      in (nxt, s\<lparr>ms_catalogs := js_set (ap_installation_id p) nxt (ms_catalogs s)\<rparr>))"

definition listSyncStates :: "string \<Rightarrow> memory_sync_store \<Rightarrow> sync_stream_state list" where
  "listSyncStates i s = List.filter (\<lambda>x. ss_installation_id x = i) (js_values (ms_states s))"

definition phase_head :: "sync_stream_state \<Rightarrow> sync_phase_head" where
  "phase_head x = \<lparr>ph_stream_key = ss_stream_key x, ph_phase = ss_phase x,
     ph_media_pending = ss_media_pending x, ph_generation = ss_generation x, ph_idle_until = ss_idle_until x\<rparr>"

definition listSyncPhaseHeads :: "string \<Rightarrow> memory_sync_store \<Rightarrow> sync_phase_head list" where
  "listSyncPhaseHeads i s = List.map phase_head (List.filter (\<lambda>x. ss_installation_id x = i) (js_values (ms_states s)))"

definition getSyncState :: "string \<Rightarrow> string \<Rightarrow> memory_sync_store \<Rightarrow> sync_stream_state option" where
  "getSyncState i k s = map_of (ms_states s) (stateKey i k)"

definition putSyncState :: "sync_stream_state \<Rightarrow> memory_sync_store \<Rightarrow> sync_stream_state \<times> memory_sync_store" where
  "putSyncState x s =
     (x, s\<lparr>ms_states := js_set (stateKey (ss_installation_id x) (ss_stream_key x)) x (ms_states s)\<rparr>)"

definition dropSyncState :: "string \<Rightarrow> string \<Rightarrow> memory_sync_store \<Rightarrow> memory_sync_store" where
  "dropSyncState i k s = s\<lparr>ms_states := AList.delete (stateKey i k) (ms_states s)\<rparr>"

definition clear_sync_store :: "string option \<Rightarrow> memory_sync_store \<Rightarrow> memory_sync_store" where
  "clear_sync_store installationId s =
     (if \<not> truthy installationId then s\<lparr>ms_catalogs := [], ms_states := []\<rparr>
      else let i = or_else installationId [] in
        s\<lparr>ms_catalogs := AList.delete i (ms_catalogs s),
          ms_states := delete_where (\<lambda>key _. starts_with (i @ [CHR 0x00]) key) (ms_states s)\<rparr>)"

definition memory_store :: "memory_sync_store sync_store" where
  "memory_store = \<lparr>st_getSyncCatalog = getSyncCatalog, st_getSyncCatalogHead = getSyncCatalogHead,
     st_applySyncCatalogPage = applySyncCatalogPage, st_listSyncStates = listSyncStates,
     st_listSyncPhaseHeads = listSyncPhaseHeads, st_getSyncState = getSyncState,
     st_putSyncState = putSyncState\<rparr>"

lemma memory_store_simps [simp]:
  "st_getSyncCatalog memory_store = getSyncCatalog" "st_getSyncCatalogHead memory_store = getSyncCatalogHead"
  "st_applySyncCatalogPage memory_store = applySyncCatalogPage" "st_listSyncStates memory_store = listSyncStates"
  "st_listSyncPhaseHeads memory_store = listSyncPhaseHeads" "st_getSyncState memory_store = getSyncState"
  "st_putSyncState memory_store = putSyncState"
  by (simp_all add: memory_store_def)

subsection \<open>The memory store keeps the laws\<close>

definition no_nul :: "string \<Rightarrow> bool" where
  "no_nul i \<longleftrightarrow> CHR 0x00 \<notin> set i"

lemma stateKey_inj: "no_nul i \<Longrightarrow> no_nul j \<Longrightarrow> stateKey i k = stateKey j l \<longleftrightarrow> i = j \<and> k = l"
proof (induction i arbitrary: j)
  case Nil
  then show ?case by (cases j) (auto simp: stateKey_def no_nul_def)
next
  case (Cons c i)
  then show ?case by (cases j) (auto simp: stateKey_def no_nul_def)
qed

definition memory_ok :: "memory_sync_store \<Rightarrow> bool" where
  "memory_ok s \<longleftrightarrow> distinct (js_keys (ms_states s))
     \<and> (\<forall>(key, x) \<in> set (ms_states s). key = stateKey (ss_installation_id x) (ss_stream_key x)
          \<and> no_nul (ss_installation_id x))"

lemma memory_ok_new [simp]: "memory_ok new_memory_sync_store"
  by (simp add: memory_ok_def new_memory_sync_store_def)

lemma memory_ok_lookup:
  "memory_ok s \<Longrightarrow> map_of (ms_states s) key = Some x \<Longrightarrow>
     key = stateKey (ss_installation_id x) (ss_stream_key x) \<and> no_nul (ss_installation_id x)"
  by (auto simp: memory_ok_def dest: map_of_SomeD)

lemma memory_get_key:
  "memory_ok s \<Longrightarrow> no_nul i \<Longrightarrow> getSyncState i k s = Some x \<Longrightarrow> ss_installation_id x = i \<and> ss_stream_key x = k"
  using memory_ok_lookup stateKey_inj by (metis getSyncState_def)

lemma memory_ok_put: "memory_ok s \<Longrightarrow> no_nul (ss_installation_id x) \<Longrightarrow> memory_ok (snd (putSyncState x s))"
  by (auto simp: memory_ok_def putSyncState_def set_js_set)

lemma set_js_delete: "set (AList.delete k m) = {p \<in> set m. fst p \<noteq> k}"
  by (auto simp: AList.delete_eq)

lemma memory_ok_drop: "memory_ok s \<Longrightarrow> memory_ok (dropSyncState i k s)"
  by (auto simp: memory_ok_def dropSyncState_def set_js_delete)

lemma memory_ok_clear: "memory_ok s \<Longrightarrow> memory_ok (clear_sync_store i s)"
  by (auto simp: memory_ok_def clear_sync_store_def Let_def)

lemma memory_list_get:
  assumes "memory_ok s" and "no_nul i"
  shows "set (listSyncStates i s) = {x. \<exists>k. getSyncState i k s = Some x}"
proof -
  have d: "distinct (js_keys (ms_states s))" using assms(1) by (simp add: memory_ok_def)
  have "x \<in> set (js_values (ms_states s)) \<and> ss_installation_id x = i \<longleftrightarrow> (\<exists>k. getSyncState i k s = Some x)" for x
  proof
    assume "x \<in> set (js_values (ms_states s)) \<and> ss_installation_id x = i"
    then obtain key where "map_of (ms_states s) key = Some x" "ss_installation_id x = i"
      using d by (auto simp: map_of_eq_Some_iff)
    with memory_ok_lookup[OF assms(1)] have "getSyncState i (ss_stream_key x) s = Some x"
      by (metis getSyncState_def)
    then show "\<exists>k. getSyncState i k s = Some x" ..
  next
    assume "\<exists>k. getSyncState i k s = Some x"
    then obtain k where k: "getSyncState i k s = Some x" ..
    with memory_get_key[OF assms k] show "x \<in> set (js_values (ms_states s)) \<and> ss_installation_id x = i"
      by (auto simp: getSyncState_def dest!: map_of_SomeD intro: rev_image_eqI)
  qed
  then show ?thesis by (auto simp: listSyncStates_def)
qed

interpretation memory: exact_state_store memory_store memory_ok no_nul
proof
  fix s :: memory_sync_store and x :: sync_stream_state and p :: apply_sync_catalog_page_input and i k :: string
  show "fst (st_putSyncState memory_store x s) = x" by (simp add: putSyncState_def)
  show "ss_installation_id (fst (st_putSyncState memory_store x s)) = ss_installation_id x"
    "ss_stream_key (fst (st_putSyncState memory_store x s)) = ss_stream_key x" by (simp_all add: putSyncState_def)
  show "st_getSyncCatalog memory_store i (snd (st_putSyncState memory_store x s)) = st_getSyncCatalog memory_store i s"
    by (simp add: putSyncState_def getSyncCatalog_def)
  show "fst (st_applySyncCatalogPage memory_store p s)
      = applySyncCatalogMembers (st_getSyncCatalog memory_store (ap_installation_id p) s) p"
    by (simp add: applySyncCatalogPage_def Let_def)
  show "st_getSyncCatalog memory_store (ap_installation_id p) (snd (st_applySyncCatalogPage memory_store p s))
      = fst (st_applySyncCatalogPage memory_store p s)"
    by (simp add: applySyncCatalogPage_def Let_def getSyncCatalog_def)
  show "i \<noteq> ap_installation_id p \<Longrightarrow>
      st_getSyncCatalog memory_store i (snd (st_applySyncCatalogPage memory_store p s)) = st_getSyncCatalog memory_store i s"
    by (simp add: applySyncCatalogPage_def Let_def getSyncCatalog_def)
  assume ok: "memory_ok s"
  show "no_nul (ap_installation_id p) \<Longrightarrow> memory_ok (snd (st_applySyncCatalogPage memory_store p s))"
    using ok by (simp add: applySyncCatalogPage_def Let_def memory_ok_def)
  show "no_nul i \<Longrightarrow> set (st_listSyncStates memory_store i s) = {x. \<exists>k. st_getSyncState memory_store i k s = Some x}"
    using memory_list_get[OF ok] by simp
  show "no_nul i \<Longrightarrow> st_getSyncState memory_store i k s = Some x \<Longrightarrow> ss_installation_id x = i \<and> ss_stream_key x = k"
    using memory_get_key[OF ok] by simp
  assume x: "no_nul (ss_installation_id x)"
  show "memory_ok (snd (st_putSyncState memory_store x s))" using memory_ok_put[OF ok x] by simp
  show "st_getSyncState memory_store (ss_installation_id x) (ss_stream_key x) (snd (st_putSyncState memory_store x s)) = Some x"
    by (simp add: putSyncState_def getSyncState_def)
  then show "st_getSyncState memory_store (ss_installation_id x) (ss_stream_key x) (snd (st_putSyncState memory_store x s))
        \<in> {None, Some (fst (st_putSyncState memory_store x s))}"
    by (simp add: putSyncState_def)
  show "no_nul i \<Longrightarrow> (i, k) \<noteq> (ss_installation_id x, ss_stream_key x) \<Longrightarrow>
      st_getSyncState memory_store i k (snd (st_putSyncState memory_store x s)) = st_getSyncState memory_store i k s"
    using stateKey_inj[OF _ x] by (auto simp: putSyncState_def getSyncState_def)
qed

lemma clear_exact:
  assumes "memory_ok s" and "no_nul i" and "i \<noteq> []" and "no_nul j" and "j \<noteq> i"
  shows "listSyncStates i (clear_sync_store (Some i) s) = []
    \<and> getSyncCatalog i (clear_sync_store (Some i) s) = emptySyncCatalog i
    \<and> listSyncStates j (clear_sync_store (Some i) s) = listSyncStates j s
    \<and> getSyncCatalog j (clear_sync_store (Some i) s) = getSyncCatalog j s"
proof -
  have key: "starts_with (i @ [CHR 0x00]) key \<longleftrightarrow> ss_installation_id x = i" if "(key, x) \<in> set (ms_states s)" for key x
  proof -
    have k: "key = stateKey (ss_installation_id x) (ss_stream_key x)" "no_nul (ss_installation_id x)"
      using assms(1) that by (auto simp: memory_ok_def)
    have "starts_with (i @ [CHR 0x00]) (stateKey a b) \<longleftrightarrow> a = i" if "no_nul a" for a b
      using that assms(2)
    proof (induction i arbitrary: a)
      case Nil
      then show ?case by (cases a) (auto simp: starts_with_def stateKey_def no_nul_def)
    next
      case (Cons c i)
      then show ?case by (cases a) (auto simp: starts_with_def stateKey_def no_nul_def)
    qed
    with k show ?thesis by simp
  qed
  let ?m = "delete_where (\<lambda>key _. starts_with (i @ [CHR 0x00]) key) (ms_states s)"
  have m: "?m = List.filter (\<lambda>(key, x). ss_installation_id x \<noteq> i) (ms_states s)"
    unfolding delete_where_def by (rule filter_cong) (use key in fastforce)+
  have "List.filter (\<lambda>x. ss_installation_id x = i) (js_values ?m) = []"
    unfolding m by (auto simp: filter_empty_conv)
  moreover have "List.filter (\<lambda>x. ss_installation_id x = j) (js_values ?m)
      = List.filter (\<lambda>x. ss_installation_id x = j) (js_values (ms_states s))"
    unfolding m filter_map using assms(5)
    by (auto simp: comp_def split_beta intro!: arg_cong[where f = "List.map snd"] filter_cong)
  ultimately show ?thesis
    using assms(3,5) by (simp add: clear_sync_store_def Let_def listSyncStates_def getSyncCatalog_def truthy_iff)
qed

text \<open>Clearing an installation removes its catalog and all its stream states and leaves every
  other installation as it was.\<close>

lemma clear_removes_only_its_installation:
  assumes "memory_ok s" and "no_nul i" and "i \<noteq> []" and "no_nul j" and "j \<noteq> i"
  shows "listSyncStates i (clear_sync_store (Some i) s) = []
    \<and> getSyncCatalog i (clear_sync_store (Some i) s) = emptySyncCatalog i
    \<and> listSyncStates j (clear_sync_store (Some i) s) = listSyncStates j s
    \<and> getSyncCatalog j (clear_sync_store (Some i) s) = getSyncCatalog j s"
  by (rule clear_exact[OF assms])

definition sample_store :: memory_sync_store where
  "sample_store = snd (putSyncState (sample_state PhaseLive) new_memory_sync_store)"

lemma sample_store_ok: "memory_ok sample_store"
  unfolding sample_store_def
  by (rule memory_ok_put) (simp_all add: sample_state_def no_nul_def)

lemma clear_removes_only_its_installation_witness:
  "listSyncStates ''i'' (clear_sync_store (Some ''j'') sample_store) = [sample_state PhaseLive]"
proof -
  have v: "no_nul ''i''" "no_nul ''j''" by (simp_all add: no_nul_def)
  have "listSyncStates ''i'' sample_store = [sample_state PhaseLive]"
    by (simp add: sample_store_def putSyncState_def new_memory_sync_store_def listSyncStates_def sample_state_def)
  with clear_removes_only_its_installation[OF sample_store_ok v(2) _ v(1)] show ?thesis by simp
qed

end
