(* ===== verification/SyncEngine.thy ===== *)
theory SyncEngine
  imports SyncStore
begin

section \<open>The sync engine\<close>

text \<open>
  \<open>SyncEngine\<close> of \<open>packages/domain/src/sync-engine.ts\<close> over any \<open>SyncStore\<close>: the
  directory refresh, the two planners with their repair of wiped cursors, and the state write after
  a poll. The directory of a connector and the clock are parameters; the \<open>page\<close>-th call of
  \<open>listDirectory\<close> and of \<open>now\<close> is given its number, so both may answer differently each time.
\<close>

definition cursorFresh :: "int \<Rightarrow> (bool \<times> string option) option \<Rightarrow> string \<Rightarrow> bool" where
  "cursorFresh catalogRescanMs cursor now =
     (case cursor of
        None \<Rightarrow> False
      | Some (finished, updated_at) \<Rightarrow>
          if \<not> finished \<or> \<not> truthy updated_at then False
          else case (date_parse (or_else updated_at []), date_parse now) of
                 (Some updated, Some current) \<Rightarrow> current - updated < catalogRescanMs
               | _ \<Rightarrow> False)"

definition catalogFresh :: "int \<Rightarrow> sync_catalog_view \<Rightarrow> string \<Rightarrow> bool" where
  "catalogFresh ms view now =
     cursorFresh ms (map_option (\<lambda>c. (sn_complete c, Some (sn_updated_at c))) (cv_catalog view)) now"

definition catalogHeadFresh :: "int \<Rightarrow> sync_catalog_head \<Rightarrow> string \<Rightarrow> bool" where
  "catalogHeadFresh ms head now =
     (if \<not> ch_has_cursor head then False
      else cursorFresh ms (Some (ch_complete head, Some (or_else (ch_updated_at head) []))) now)"

type_synonym directory = "nat \<Rightarrow> string option \<Rightarrow> js_error + sync_directory_page"

record refresh_input =
  rf_installation_id :: string
  rf_listDirectory :: "directory option"
  rf_pages :: "int option"
  rf_force :: bool

definition page_input :: "string \<Rightarrow> sync_directory_page \<Rightarrow> string \<Rightarrow> apply_sync_catalog_page_input" where
  "page_input inst pg now =
     \<lparr>ap_installation_id = inst, ap_members = dp_members pg, ap_now = now,
      ap_next_cursor = dp_next_cursor pg, ap_complete = dp_complete pg,
      ap_replaces = dp_replaces pg\<rparr>"

definition directory_cursor :: "sync_catalog_view \<Rightarrow> string option" where
  "directory_cursor view =
     (case cv_catalog view of None \<Rightarrow> None | Some c \<Rightarrow> if sn_complete c then None else sn_cursor c)"

text \<open>The page loop, with the number of pages left and the number of the page.\<close>

fun refresh_pages ::
  "'s sync_store \<Rightarrow> string \<Rightarrow> directory \<Rightarrow> (nat \<Rightarrow> string) \<Rightarrow> nat \<Rightarrow> nat \<Rightarrow> sync_catalog_view \<Rightarrow> 's
   \<Rightarrow> (js_error + sync_catalog_view) \<times> 's" where
  "refresh_pages st inst dir now 0 page view s = (Inr view, s)"
| "refresh_pages st inst dir now (Suc left) page view s =
     (case dir page (directory_cursor view) of
        Inl e \<Rightarrow> (Inl e, s)
      | Inr pg \<Rightarrow>
          let (view', s') = st_applySyncCatalogPage st (page_input inst pg (now page)) s
          in if dp_complete pg \<or> \<not> truthy (dp_next_cursor pg) then (Inr view', s')
             else refresh_pages st inst dir now left (Suc page) view' s')"

text \<open>\<open>now0\<close> is the clock's answer to the freshness check.\<close>

definition refreshCatalog ::
  "'s sync_store \<Rightarrow> int \<Rightarrow> string \<Rightarrow> (nat \<Rightarrow> string) \<Rightarrow> refresh_input \<Rightarrow> 's
   \<Rightarrow> (js_error + sync_catalog_view) \<times> 's" where
  "refreshCatalog st ms now0 now i s =
     (case rf_listDirectory i of
        None \<Rightarrow> (Inr (st_getSyncCatalog st (rf_installation_id i) s), s)
      | Some dir \<Rightarrow>
          let view = st_getSyncCatalog st (rf_installation_id i) s;
              pages = (if rf_pages i = Some 0 then 0 else max 1 (or_else (rf_pages i) 1))
          in if pages = 0 then (Inr view, s)
             else if \<not> rf_force i \<and> catalogFresh ms view now0 then (Inr view, s)
             else refresh_pages st (rf_installation_id i) dir now (nat pages) 0 view s)"

definition refreshCatalogIfStale ::
  "'s sync_store \<Rightarrow> int \<Rightarrow> string \<Rightarrow> (nat \<Rightarrow> string) \<Rightarrow> refresh_input \<Rightarrow> 's \<Rightarrow> (js_error + unit) \<times> 's" where
  "refreshCatalogIfStale st ms now0 now i s =
     (if \<not> rf_force i \<and> rf_listDirectory i \<noteq> None
         \<and> catalogHeadFresh ms (st_getSyncCatalogHead st (rf_installation_id i) s) now0
      then (Inr (), s)
      else apfst (map_sum id (\<lambda>_. ())) (refreshCatalog st ms now0 now i s))"

subsection \<open>Planning a tick\<close>

type_synonym cursor_states = "(string, string option) js_map"

record sync_plan_input =
  pn_installation_id :: string
  pn_preferredThreadId :: "string option"
  pn_humanIdle :: bool
  pn_rotateFrom :: "string option"
  pn_rotateSeedFrom :: "string option"
  pn_pages :: "int option"
  pn_members :: "sync_catalog_member list option"
  pn_fallbackMembers :: "sync_catalog_member list option"
  pn_cursorStates :: "cursor_states option"

definition wiped :: "cursor_states \<Rightarrow> string \<Rightarrow> sync_stream_state \<Rightarrow> bool" where
  "wiped cursors key state \<longleftrightarrow>
     caught_up (ss_phase state) \<and> key \<in> set (js_keys cursors)
     \<and> trim_opt (or_else (map_of cursors key) None) = None"

text \<open>The loop that heals streams whose poll cursor was wiped, over the entries of \<open>states\<close>.\<close>

fun heal_loop ::
  "'s sync_store \<Rightarrow> string \<Rightarrow> string \<Rightarrow> cursor_states \<Rightarrow> (string \<times> sync_stream_state) list \<Rightarrow> states_map \<Rightarrow> 's
   \<Rightarrow> states_map \<times> 's" where
  "heal_loop st inst now cursors [] states s = (states, s)"
| "heal_loop st inst now cursors ((key, state) # es) states s =
     (if \<not> wiped cursors key state then heal_loop st inst now cursors es states s
      else let derived = syncStateFromCursor inst key (or_else (map_of cursors key) None) now
                 (Some (ss_generation state))
           in if ss_phase derived \<noteq> PhaseUnseeded then heal_loop st inst now cursors es states s
              else heal_loop st inst now cursors es (js_set key derived states)
                     (snd (st_putSyncState st derived s)))"

definition fill_states ::
  "string \<Rightarrow> string \<Rightarrow> cursor_states option \<Rightarrow> sync_catalog_member list \<Rightarrow> states_map \<Rightarrow> states_map" where
  "fill_states inst now cursors members states =
     fold (\<lambda>m acc. if map_of acc (cm_stream_key m) \<noteq> None then acc
             else js_set (cm_stream_key m)
               (syncStateFromCursor inst (cm_stream_key m)
                 (Option.bind cursors (\<lambda>c. or_else (map_of c (cm_stream_key m)) None)) now None) acc)
       members states"

definition plan_members :: "sync_plan_input \<Rightarrow> sync_catalog_view \<Rightarrow> sync_catalog_member list" where
  "plan_members i view =
     (case pn_members i of
        Some (m # ms) \<Rightarrow> m # ms
      | _ \<Rightarrow> if cv_members view \<noteq> [] then cv_members view else or_else (pn_fallbackMembers i) [])"

text \<open>What \<open>plan\<close> and \<open>planSplit\<close> share: members, repaired states, whether the catalog is
  incomplete, and the store after the repairs.\<close>

definition prepare_plan ::
  "'s sync_store \<Rightarrow> string \<Rightarrow> sync_plan_input \<Rightarrow> 's \<Rightarrow> sync_schedule_input \<times> 's" where
  "prepare_plan st now i s =
     (let inst = pn_installation_id i;
          view = st_getSyncCatalog st inst s;
          states0 = statesMap (st_listSyncStates st inst s);
          members = plan_members i view;
          (states1, s') = (case pn_cursorStates i of
              None \<Rightarrow> (states0, s)
            | Some cursors \<Rightarrow> heal_loop st inst now cursors states0 states0 s);
          states = fill_states inst now (pn_cursorStates i) members states1;
          catalogIncomplete = (case cv_catalog view of None \<Rightarrow> True | Some c \<Rightarrow> \<not> sn_complete c)
      in (\<lparr>si_members = members, si_states = states, si_preferredThreadId = pn_preferredThreadId i,
           si_humanIdle = pn_humanIdle i, si_catalogIncomplete = catalogIncomplete,
           si_rotateFrom = pn_rotateFrom i, si_rotateSeedFrom = pn_rotateSeedFrom i, si_now = now,
           si_limits = all_limits (syncLaneLimits (pn_humanIdle i) catalogIncomplete),
           si_pages = pn_pages i\<rparr>, s'))"

definition engine_plan :: "'s sync_store \<Rightarrow> string \<Rightarrow> sync_plan_input \<Rightarrow> 's \<Rightarrow> sync_work_item list \<times> 's" where
  "engine_plan st now i s = apfst planSyncWork (prepare_plan st now i s)"

definition planSplit ::
  "(string \<Rightarrow> string \<Rightarrow> int) \<Rightarrow> 's sync_store \<Rightarrow> string \<Rightarrow> sync_plan_input \<Rightarrow> partial_limits \<Rightarrow> partial_limits
   \<Rightarrow> live_ring \<Rightarrow> 's \<Rightarrow> (sync_tick_plan \<times> live_ring) \<times> 's" where
  "planSplit lc st now i bootstrapLimits steadyLimits ring s =
     apfst (\<lambda>input. planSyncTick lc input bootstrapLimits steadyLimits ring) (prepare_plan st now i s)"

definition rememberResult ::
  "'s sync_store \<Rightarrow> sync_page_outcome \<Rightarrow> 's \<Rightarrow> (js_error + sync_stream_state) \<times> 's" where
  "rememberResult st outcome s =
     (let current = st_getSyncState st (po_installation_id outcome) (po_stream_key outcome) s
      in case advanceSyncState current outcome of
           Inl e \<Rightarrow> (Inl e, s)
         | Inr nxt \<Rightarrow> let (stored, s') = st_putSyncState st nxt s in (Inr stored, s'))"

subsection \<open>What every store gives the engine\<close>

lemma map_of_js_map_of_list: "map_of (js_map_of_list ps) = map_of (rev ps)"
proof (induction ps rule: rev_induct)
  case (snoc p ps)
  then show ?case by (cases p) (simp add: js_map_of_list_snoc)
qed (simp add: js_map_of_list_def)

lemma distinct_js_map_of_list [simp]: "distinct (js_keys (js_map_of_list ps))"
proof (induction ps rule: rev_induct)
  case (snoc p ps)
  then show ?case by (cases p) (simp add: js_map_of_list_snoc)
qed (simp add: js_map_of_list_def)

lemma derived_simps [simp]:
  "ss_installation_id (syncStateFromCursor i k c n g) = i" "ss_stream_key (syncStateFromCursor i k c n g) = k"
  by (simp_all add: syncStateFromCursor_def Let_def)

lemma derived_unseeded: "trim_opt c = None \<Longrightarrow> ss_phase (syncStateFromCursor i k c n g) = PhaseUnseeded"
  by (simp add: syncStateFromCursor_def Let_def deriveSyncPhase_def streamCursorUnseeded_def)

text \<open>The state a wiped stream gets.\<close>

definition healed :: "string \<Rightarrow> string \<Rightarrow> cursor_states \<Rightarrow> string \<Rightarrow> sync_stream_state \<Rightarrow> sync_stream_state" where
  "healed inst now cursors key x =
     (if wiped cursors key x
      then syncStateFromCursor inst key (or_else (map_of cursors key) None) now (Some (ss_generation x))
      else x)"

lemma healed_phase: "wiped cursors key x \<Longrightarrow> ss_phase (healed inst now cursors key x) = PhaseUnseeded"
  by (simp add: healed_def wiped_def derived_unseeded)

lemma heal_loop_Cons [simp]:
  "heal_loop st inst now cursors ((key, x) # es) states s =
     (if wiped cursors key x
      then heal_loop st inst now cursors es (js_set key (healed inst now cursors key x) states)
             (snd (st_putSyncState st (healed inst now cursors key x) s))
      else heal_loop st inst now cursors es states s)"
  by (simp add: healed_def wiped_def derived_unseeded Let_def)

lemma heal_loop_states:
  "distinct (js_keys es) \<Longrightarrow> map_of (fst (heal_loop st inst now cursors es states s)) k =
     (case map_of es k of
        Some x \<Rightarrow> if wiped cursors k x then Some (healed inst now cursors k x) else map_of states k
      | None \<Rightarrow> map_of states k)"
proof (induction es arbitrary: states s)
  case (Cons e es)
  obtain key x where e: "e = (key, x)" by (cases e)
  have "map_of es key = None" using Cons.prems e by (simp add: map_of_eq_None_iff)
  with Cons show ?case unfolding e by (auto simp del: heal_loop.simps(2) split: option.splits)
qed simp

lemma fill_states_known:
  "map_of states k = Some x \<Longrightarrow> map_of (fill_states inst now cursors ms states) k = Some x"
proof (induction ms arbitrary: states)
  case (Cons m ms)
  have "cm_stream_key m = k \<Longrightarrow> map_of states (cm_stream_key m) \<noteq> None" using Cons.prems by simp
  then show ?case using Cons unfolding fill_states_def by (cases "cm_stream_key m = k") auto
qed (simp add: fill_states_def)

context sync_state_store
begin

lemma states_map_lookup:
  assumes "ok s" and "valid i"
  shows "map_of (statesMap (st_listSyncStates st i s)) k = st_getSyncState st i k s"
proof -
  let ?xs = "st_listSyncStates st i s"
  have mem: "x \<in> set ?xs \<longleftrightarrow> (\<exists>k. st_getSyncState st i k s = Some x)" for x
    using list_get[OF assms] by auto
  show ?thesis
  proof (cases "st_getSyncState st i k s")
    case None
    have "k \<notin> fst ` set (List.map (\<lambda>x. (ss_stream_key x, x)) ?xs)"
      using None mem get_key[OF assms] by fastforce
    then show ?thesis unfolding statesMap_def map_of_js_map_of_list None
      by (simp add: map_of_eq_None_iff image_image)
  next
    case (Some x)
    with mem have "x \<in> set ?xs" by blast
    moreover have "ss_stream_key x = k" using get_key[OF assms Some] by simp
    ultimately have "k \<in> fst ` set (rev (List.map (\<lambda>x. (ss_stream_key x, x)) ?xs))" by force
    then obtain y where y: "map_of (rev (List.map (\<lambda>x. (ss_stream_key x, x)) ?xs)) k = Some y"
      by (metis domIff dom_map_of_conv_image_fst option.exhaust)
    then have "y \<in> set ?xs" "ss_stream_key y = k" by (auto dest!: map_of_SomeD)
    with mem get_key[OF assms] have "st_getSyncState st i k s = Some y" by metis
    with y show ?thesis unfolding statesMap_def map_of_js_map_of_list by simp
  qed
qed

lemma heal_loop_ok:
  assumes "valid inst"
  shows "ok s \<Longrightarrow> ok (snd (heal_loop st inst now cursors es states s))"
proof (induction es arbitrary: states s)
  case (Cons e es)
  then show ?case using ok_put[OF Cons.prems, of "healed inst now cursors (fst e) (snd e)"] assms
    by (cases e) (auto simp: healed_def simp del: heal_loop.simps(2))
qed simp

lemma heal_loop_catalog:
  "st_getSyncCatalog st i (snd (heal_loop st inst now cursors es states s)) = st_getSyncCatalog st i s"
proof (induction es arbitrary: states s)
  case (Cons e es)
  then show ?case by (cases e) (auto simp: put_catalog simp del: heal_loop.simps(2))
qed simp

lemma heal_loop_other:
  assumes "valid inst" and "valid i"
  shows "ok s \<Longrightarrow> i \<noteq> inst \<or> k \<notin> fst ` set es \<Longrightarrow>
    st_getSyncState st i k (snd (heal_loop st inst now cursors es states s)) = st_getSyncState st i k s"
proof (induction es arbitrary: states s)
  case (Cons e es)
  obtain key x where e: "e = (key, x)" by (cases e)
  let ?h = "healed inst now cursors key x"
  show ?case
  proof (cases "wiped cursors key x")
    case True
    have h: "ss_installation_id ?h = inst" "ss_stream_key ?h = key" using True by (simp_all add: healed_def)
    with Cons.prems(2) e have "(i, k) \<noteq> (ss_installation_id ?h, ss_stream_key ?h)" by auto
    with put_other[OF Cons.prems(1), of ?h i k] assms h ok_put[OF Cons.prems(1), of ?h]
      Cons.IH[of "snd (st_putSyncState st ?h s)"] Cons.prems(2) True e
    show ?thesis by (auto simp del: heal_loop.simps(2))
  next
    case False
    with Cons e show ?thesis by (auto simp del: heal_loop.simps(2))
  qed
qed simp

lemma refresh_pages_other:
  "i \<noteq> inst \<Longrightarrow> st_getSyncCatalog st i (snd (refresh_pages st inst dir now left page view s)) = st_getSyncCatalog st i s"
proof (induction left arbitrary: page view s)
  case (Suc left)
  show ?case
    using apply_other[of i] Suc by (auto simp: split_beta page_input_def split: sum.splits)
qed simp

end

context exact_state_store
begin

lemma heal_loop_get:
  assumes "valid inst"
  shows "ok s \<Longrightarrow> distinct (js_keys es) \<Longrightarrow>
    st_getSyncState st inst k (snd (heal_loop st inst now cursors es states s)) =
      (case map_of es k of
         Some x \<Rightarrow> if wiped cursors k x then Some (healed inst now cursors k x) else st_getSyncState st inst k s
       | None \<Rightarrow> st_getSyncState st inst k s)"
proof (induction es arbitrary: states s)
  case (Cons e es)
  obtain key x where e: "e = (key, x)" by (cases e)
  let ?h = "healed inst now cursors key x" and ?s = "snd (st_putSyncState st (healed inst now cursors key x) s)"
  show ?case
  proof (cases "wiped cursors key x")
    case True
    have h: "ss_installation_id ?h = inst" "ss_stream_key ?h = key" using True by (simp_all add: healed_def)
    have ok: "ok ?s" using ok_put[OF Cons.prems(1)] assms h by simp
    have "st_getSyncState st inst key ?s = Some ?h" using put_kept[OF Cons.prems(1), of ?h] assms h by simp
    moreover have "k \<noteq> key \<Longrightarrow> st_getSyncState st inst k ?s = st_getSyncState st inst k s"
      using put_other[OF Cons.prems(1), of ?h inst k] assms h by simp
    moreover have "map_of es key = None" using Cons.prems(2) e by (simp add: map_of_eq_None_iff)
    ultimately show ?thesis using Cons.IH[OF ok] Cons.prems(2) True e
      by (auto simp del: heal_loop.simps(2) split: option.splits)
  next
    case False
    have "map_of es key = None" using Cons.prems(2) e by (simp add: map_of_eq_None_iff)
    with False Cons e show ?thesis by (auto simp del: heal_loop.simps(2) split: option.splits)
  qed
qed simp

lemma prepare_plan_state:
  assumes "ok s" and "valid (pn_installation_id i)" and "pn_cursorStates i = Some cursors"
    and "st_getSyncState st (pn_installation_id i) k s = Some x"
  shows "st_getSyncState st (pn_installation_id i) k (snd (prepare_plan st now i s))
      = Some (healed (pn_installation_id i) now cursors k x)"
    and "map_of (si_states (fst (prepare_plan st now i s))) k
      = Some (healed (pn_installation_id i) now cursors k x)"
proof -
  let ?inst = "pn_installation_id i"
  let ?m = "statesMap (st_listSyncStates st ?inst s)"
  have d: "distinct (js_keys ?m)" by (simp add: statesMap_def)
  have k: "map_of ?m k = Some x" using states_map_lookup[OF assms(1,2)] assms(4) by simp
  show "st_getSyncState st ?inst k (snd (prepare_plan st now i s)) = Some (healed ?inst now cursors k x)"
    using heal_loop_get[OF assms(2,1) d, of k now cursors ?m] assms(3,4) k
    by (simp add: prepare_plan_def Let_def split_beta healed_def)
  have "map_of (fst (heal_loop st ?inst now cursors ?m ?m s)) k = Some (healed ?inst now cursors k x)"
    using heal_loop_states[OF d, of st ?inst now cursors ?m s k] k by (simp add: healed_def)
  then show "map_of (si_states (fst (prepare_plan st now i s))) k = Some (healed ?inst now cursors k x)"
    using assms(3) by (simp add: prepare_plan_def Let_def split_beta fill_states_known)
qed

end

text \<open>Planning repairs wiped cursors and nothing else: a stored stream that claims to be caught
  up while its mounted poll cursor is blank is stored as unseeded again (same generation), every
  other stored stream keeps its state, and the planner works on exactly what is stored.\<close>

lemma plan_heals_wiped_cursors:
  assumes "memory_ok s" and "no_nul (pn_installation_id i)" and "pn_cursorStates i = Some cursors"
    and "getSyncState (pn_installation_id i) k s = Some x"
  shows "\<exists>y. getSyncState (pn_installation_id i) k (snd (engine_plan memory_store now i s)) = Some y
    \<and> map_of (si_states (fst (prepare_plan memory_store now i s))) k = Some y
    \<and> (if wiped cursors k x
       then ss_phase y = PhaseUnseeded \<and> ss_generation y = ss_generation x \<and> ss_live_cursor y = None
       else y = x)"
proof -
  note p = memory.prepare_plan_state[of s i cursors k x now, OF assms(1,2,3)]
  have "wiped cursors k x \<Longrightarrow> ss_generation (healed (pn_installation_id i) now cursors k x) = ss_generation x
      \<and> ss_live_cursor (healed (pn_installation_id i) now cursors k x) = None"
    by (simp add: healed_def wiped_def syncStateFromCursor_def Let_def)
  with p assms(4) healed_phase[of cursors k x] show ?thesis
    by (auto simp: engine_plan_def healed_def)
qed

definition sample_plan_input :: sync_plan_input where
  "sample_plan_input = \<lparr>pn_installation_id = ''i'', pn_preferredThreadId = None, pn_humanIdle = True,
     pn_rotateFrom = None, pn_rotateSeedFrom = None, pn_pages = None, pn_members = None,
     pn_fallbackMembers = None, pn_cursorStates = Some [(''s'', Some '' '')]\<rparr>"

lemma plan_heals_wiped_cursors_witness:
  "\<exists>y. getSyncState ''i'' ''s'' (snd (engine_plan memory_store ''n'' sample_plan_input sample_store)) = Some y
     \<and> ss_phase y = PhaseUnseeded"
proof -
  have g: "getSyncState (pn_installation_id sample_plan_input) ''s'' sample_store = Some (sample_state PhaseLive)"
    by (simp add: sample_store_def sample_plan_input_def putSyncState_def new_memory_sync_store_def
        getSyncState_def sample_state_def)
  have v: "no_nul (pn_installation_id sample_plan_input)" by (simp add: sample_plan_input_def no_nul_def)
  have c: "pn_cursorStates sample_plan_input = Some [(''s'', Some '' '')]" by (simp add: sample_plan_input_def)
  have w: "wiped [(''s'', Some '' '')] ''s'' (sample_state PhaseLive)"
    by (simp add: wiped_def sample_state_def trim_opt_def js_trim_def js_space_def)
  from plan_heals_wiped_cursors[OF sample_store_ok v c g] w show ?thesis
    by (auto simp: sample_plan_input_def)
qed

subsection \<open>Remembering polls\<close>

text \<open>The outcomes of the pages of one stream, remembered one after the other.\<close>

fun remember_all :: "'s sync_store \<Rightarrow> sync_page_outcome list \<Rightarrow> 's \<Rightarrow> (js_error + unit) \<times> 's" where
  "remember_all st [] s = (Inr (), s)"
| "remember_all st (p # ps) s =
     (case rememberResult st p s of (Inl e, s') \<Rightarrow> (Inl e, s') | (Inr _, s') \<Rightarrow> remember_all st ps s')"

context exact_state_store
begin

lemma remember_all_state:
  assumes "valid i"
  shows "ok s \<Longrightarrow> \<forall>p \<in> set ps. po_installation_id p = i \<and> po_stream_key p = k \<Longrightarrow>
    advance_all (st_getSyncState st i k s) ps = Inr r \<Longrightarrow>
    fst (remember_all st ps s) = Inr () \<and> ok (snd (remember_all st ps s))
    \<and> st_getSyncState st i k (snd (remember_all st ps s)) = r
    \<and> (\<forall>j l. valid j \<longrightarrow> (j, l) \<noteq> (i, k) \<longrightarrow>
         st_getSyncState st j l (snd (remember_all st ps s)) = st_getSyncState st j l s)"
proof (induction ps arbitrary: s)
  case (Cons p ps)
  from Cons.prems(2) have ids: "po_installation_id p = i" "po_stream_key p = k" by simp_all
  from Cons.prems(3) obtain x where x: "advanceSyncState (st_getSyncState st i k s) p = Inr x"
    "advance_all (Some x) ps = Inr r" by (auto split: sum.splits)
  have xid: "ss_installation_id x = i" "ss_stream_key x = k" using advance_fields(5,6)[OF x(1)] ids by simp_all
  let ?s = "snd (st_putSyncState st x s)"
  have rem: "rememberResult st p s = (Inr x, ?s)"
    using x(1) ids put_exact[of x s] by (simp add: rememberResult_def Let_def split_beta)
  have ok: "ok ?s" using ok_put[OF Cons.prems(1)] xid assms by simp
  have get: "st_getSyncState st i k ?s = Some x" using put_kept[OF Cons.prems(1), of x] xid assms by simp
  have other: "valid j \<Longrightarrow> (j, l) \<noteq> (i, k) \<Longrightarrow> st_getSyncState st j l ?s = st_getSyncState st j l s" for j l
    using put_other[OF Cons.prems(1), of x j l] xid assms by simp
  have "\<forall>p \<in> set ps. po_installation_id p = i \<and> po_stream_key p = k" using Cons.prems(2) by simp
  moreover have "advance_all (st_getSyncState st i k ?s) ps = Inr r" unfolding get by (rule x(2))
  moreover have eq: "remember_all st (p # ps) s = remember_all st ps ?s" by (simp add: rem)
  ultimately show ?case using Cons.IH[OF ok] other unfolding eq by metis
qed simp

end

text \<open>C17. The stored state of a stream is the state machine: remembering the outcomes of its pages
  one by one leaves exactly what \<open>advanceSyncState\<close> computes from the state before, and no other
  stream, of this or another installation, changes.\<close>

theorem remembered_state_is_the_machine:
  assumes "memory_ok s" and "no_nul i"
    and "\<forall>p \<in> set ps. po_installation_id p = i \<and> po_stream_key p = k"
    and "advance_all (getSyncState i k s) ps = Inr r"
  shows "getSyncState i k (snd (remember_all memory_store ps s)) = r
    \<and> (\<forall>j l. no_nul j \<longrightarrow> (j, l) \<noteq> (i, k) \<longrightarrow>
         getSyncState j l (snd (remember_all memory_store ps s)) = getSyncState j l s)"
  using memory.remember_all_state[OF assms(2,1,3)] assms(4) by simp

theorem remembered_state_is_the_machine_witness:
  "map_option ss_phase (getSyncState ''i'' ''s'' (snd (remember_all memory_store
     [sample_outcome KindLive None None] sample_store))) = Some PhaseLive"
proof -
  let ?o = "sample_outcome KindLive None None"
  have v: "no_nul ''i''" by (simp add: no_nul_def)
  have g: "getSyncState ''i'' ''s'' sample_store = Some (sample_state PhaseLive)"
    by (simp add: sample_store_def putSyncState_def new_memory_sync_store_def getSyncState_def sample_state_def)
  have p: "\<forall>p \<in> set [?o]. po_installation_id p = ''i'' \<and> po_stream_key p = ''s''" by (simp add: sample_outcome_def)
  have "(case advanceSyncState (Some (sample_state PhaseLive)) ?o of Inl _ \<Rightarrow> None | Inr x \<Rightarrow> Some (ss_phase x))
      = Some PhaseLive"
    by (simp add: poll_eval Let_def)
  then obtain x where x: "advanceSyncState (Some (sample_state PhaseLive)) ?o = Inr x" "ss_phase x = PhaseLive"
    by (cases "advanceSyncState (Some (sample_state PhaseLive)) ?o") simp_all
  have "advance_all (getSyncState ''i'' ''s'' sample_store) [?o] = Inr (Some x)" using x g by simp
  from remembered_state_is_the_machine[OF sample_store_ok v p this] x(2) show ?thesis by simp
qed

subsection \<open>Refreshing the directory\<close>

text \<open>
  A directory that answers by cursor: \<open>walk d c ps\<close> when the pages from cursor \<open>c\<close> on are \<open>ps\<close>, the
  last one completes the walk and none is a full snapshot.
\<close>

fun walk :: "(string option \<Rightarrow> sync_directory_page) \<Rightarrow> string option \<Rightarrow> sync_directory_page list \<Rightarrow> bool" where
  "walk d c [] = False"
| "walk d c [p] = (d c = p \<and> dp_complete p \<and> \<not> dp_replaces p)"
| "walk d c (p # q # ps) = (d c = p \<and> \<not> dp_complete p \<and> \<not> dp_replaces p \<and> truthy (dp_next_cursor p)
     \<and> walk d (dp_next_cursor p) (q # ps))"

fun page_inputs :: "string \<Rightarrow> (nat \<Rightarrow> string) \<Rightarrow> nat \<Rightarrow> sync_directory_page list \<Rightarrow> apply_sync_catalog_page_input list" where
  "page_inputs inst now page [] = []"
| "page_inputs inst now page (p # ps) = page_input inst p (now page) # page_inputs inst now (Suc page) ps"

lemma page_input_simps [simp]:
  "ap_installation_id (page_input i p n) = i" "ap_members (page_input i p n) = dp_members p"
  "ap_complete (page_input i p n) = dp_complete p" "ap_replaces (page_input i p n) = dp_replaces p"
  "ap_next_cursor (page_input i p n) = dp_next_cursor p"
  by (simp_all add: page_input_def)

lemma directory_cursor_apply:
  "\<not> dp_complete p \<Longrightarrow> truthy (dp_next_cursor p) \<Longrightarrow>
     directory_cursor (applySyncCatalogMembers v (page_input i p n)) = dp_next_cursor p"
  by (simp add: directory_cursor_def applySyncCatalogMembers_def Let_def)

context sync_state_store
begin

lemma refresh_pages_walk:
  "walk d (directory_cursor view) ps \<Longrightarrow> length ps \<le> left \<Longrightarrow> st_getSyncCatalog st inst s = view \<Longrightarrow>
     fst (refresh_pages st inst (\<lambda>_ c. Inr (d c)) now left page view s)
       = Inr (apply_pages view (page_inputs inst now page ps))
     \<and> st_getSyncCatalog st inst (snd (refresh_pages st inst (\<lambda>_ c. Inr (d c)) now left page view s))
       = apply_pages view (page_inputs inst now page ps)"
proof (induction ps arbitrary: left page view s)
  case (Cons p ps)
  then obtain l where l: "left = Suc l" by (cases left) auto
  let ?i = "page_input inst p (now page)"
  have v: "fst (st_applySyncCatalogPage st ?i s) = applySyncCatalogMembers view ?i"
    using apply_view[of ?i s] Cons.prems(3) by simp
  have g: "st_getSyncCatalog st inst (snd (st_applySyncCatalogPage st ?i s)) = applySyncCatalogMembers view ?i"
    using apply_get[of ?i s] v by simp
  have d: "d (directory_cursor view) = p" using Cons.prems(1) by (cases ps) auto
  show ?case
  proof (cases ps)
    case Nil
    with Cons.prems(1) d l v g show ?thesis by (simp add: split_beta)
  next
    case (Cons q qs)
    with Cons.prems(1) have p: "\<not> dp_complete p" "truthy (dp_next_cursor p)" "walk d (dp_next_cursor p) ps"
      by simp_all
    have "walk d (directory_cursor (applySyncCatalogMembers view ?i)) ps"
      using p directory_cursor_apply by simp
    from Cons.IH[OF this _ g, of l "Suc page"] Cons.prems(2) l d p v show ?thesis
      by (simp add: split_beta)
  qed
qed simp

end

lemma page_inputs_walk:
  "walk d c (p # ps) \<Longrightarrow> ps \<noteq> [] \<Longrightarrow>
     \<exists>start mid fin. page_inputs inst now page (p # ps) = start # mid @ [fin]
       \<and> walk_page inst start \<and> (\<forall>i \<in> set mid. walk_page inst i) \<and> last_walk_page inst fin"
proof (induction ps arbitrary: p c page)
  case (Cons q qs)
  have start: "walk_page inst (page_input inst p (now page))" using Cons.prems(1) by (simp add: walk_page_def)
  show ?case
  proof (cases qs)
    case Nil
    with Cons.prems(1) start show ?thesis
      by (intro exI[of _ "page_input inst p (now page)"] exI[of _ "[]"] exI[of _ "page_input inst q (now (Suc page))"])
        (simp add: last_walk_page_def)
  next
    case (Cons r rs)
    with Cons.IH[of "dp_next_cursor p" q "Suc page"] Cons.prems(1) obtain s m f where
      "page_inputs inst now (Suc page) (q # qs) = s # m @ [f]" "walk_page inst s"
      "\<forall>i \<in> set m. walk_page inst i" "last_walk_page inst f" by auto
    with start show ?thesis
      by (intro exI[of _ "page_input inst p (now page)"] exI[of _ "s # m"] exI[of _ f]) simp
  qed
qed simp

lemma page_inputs_listed:
  "(\<Union>i \<in> set (page_inputs inst now page ps). listed (ap_members i)) = (\<Union>p \<in> set ps. listed (dp_members p))"
  by (induction ps arbitrary: page) auto

text \<open>C18. A catalog refresh is a census: over a directory of several pages, with a page budget that
  reaches its end, a refresh from an idle catalog stores and returns exactly the streams that the
  directory's pages list.\<close>

theorem refresh_stores_the_directory:
  assumes "wf_catalog inst (getSyncCatalog inst s)" and "directory_cursor (getSyncCatalog inst s) = None"
    and "walk d None (p # q # ps)" and "2 + length ps \<le> n"
  shows "\<exists>view s'. refreshCatalog memory_store ms now0 now
           \<lparr>rf_installation_id = inst, rf_listDirectory = Some (\<lambda>_ c. Inr (d c)),
            rf_pages = Some (int n), rf_force = True\<rparr> s = (Inr view, s')
    \<and> getSyncCatalog inst s' = view
    \<and> cm_stream_key ` set (cv_members view) = (\<Union>r \<in> set (p # q # ps). listed (dp_members r))"
proof -
  let ?v = "getSyncCatalog inst s" and ?is = "page_inputs inst now 0 (p # q # ps)"
  have idle: "\<not> truthy (Option.bind (cv_catalog ?v) sn_cursor)"
    using assms(1,2) by (cases "cv_catalog ?v") (auto simp: directory_cursor_def wf_catalog_def split: if_splits)
  have w: "walk d (directory_cursor ?v) (p # q # ps)" using assms(2,3) by simp
  have g: "st_getSyncCatalog memory_store inst s = ?v" by simp
  have len: "length (p # q # ps) \<le> n" using assms(4) by simp
  note r = memory.refresh_pages_walk[OF w len g, of now 0]
  obtain start mid fin where "?is = start # mid @ [fin]"
    "walk_page inst start" "\<forall>i \<in> set mid. walk_page inst i" "last_walk_page inst fin"
    using page_inputs_walk[OF assms(3), of inst now 0] by auto
  with walked_census[OF assms(1) idle] have
    "cm_stream_key ` set (cv_members (apply_pages ?v ?is)) = (\<Union>i \<in> set ?is. listed (ap_members i))" by metis
  then have keys: "cm_stream_key ` set (cv_members (apply_pages ?v ?is)) = (\<Union>r \<in> set (p # q # ps). listed (dp_members r))"
    by (simp only: page_inputs_listed)
  let ?r = "refresh_pages memory_store inst (\<lambda>_ c. Inr (d c)) now n 0 ?v s"
  have "refreshCatalog memory_store ms now0 now
           \<lparr>rf_installation_id = inst, rf_listDirectory = Some (\<lambda>_ c. Inr (d c)),
            rf_pages = Some (int n), rf_force = True\<rparr> s = ?r"
    using assms(4) by (simp add: refreshCatalog_def Let_def max_def)
  moreover have "?r = (Inr (apply_pages ?v ?is), snd ?r)" using r by (metis prod.collapse)
  ultimately show ?thesis using keys r by (metis memory_store_simps(1))
qed

definition sample_directory :: "string option \<Rightarrow> sync_directory_page" where
  "sample_directory c =
     (if c = None then \<lparr>dp_members = [\<lparr>dm_stream_key = ''a'', dm_thread_id = None, dm_label = None, dm_kind = None\<rparr>],
         dp_next_cursor = Some ''2'', dp_complete = False, dp_replaces = False\<rparr>
      else \<lparr>dp_members = [\<lparr>dm_stream_key = ''b'', dm_thread_id = None, dm_label = None, dm_kind = None\<rparr>],
         dp_next_cursor = None, dp_complete = True, dp_replaces = False\<rparr>)"

theorem refresh_stores_the_directory_witness:
  "\<exists>view s'. refreshCatalog memory_store 300000 ''n'' (\<lambda>_. ''n'')
     \<lparr>rf_installation_id = ''i'', rf_listDirectory = Some (\<lambda>_ c. Inr (sample_directory c)),
      rf_pages = Some (int 5), rf_force = True\<rparr> new_memory_sync_store = (Inr view, s')
   \<and> cm_stream_key ` set (cv_members view) = {''a'', ''b''}"
proof -
  have g: "getSyncCatalog ''i'' new_memory_sync_store = emptySyncCatalog ''i''"
    by (simp add: getSyncCatalog_def new_memory_sync_store_def)
  have w: "walk sample_directory None [sample_directory None, sample_directory (Some ''2'')]"
    by (simp add: sample_directory_def)
  have l: "(\<Union>r \<in> set [sample_directory None, sample_directory (Some ''2'')]. listed (dp_members r)) = {''a'', ''b''}"
    by (auto simp: sample_directory_def listed_def js_trim_def js_space_def)
  let ?p = "sample_directory None" and ?q = "sample_directory (Some ''2'')"
  have wf: "wf_catalog ''i'' (getSyncCatalog ''i'' new_memory_sync_store)" by (simp add: g)
  have c: "directory_cursor (getSyncCatalog ''i'' new_memory_sync_store) = None"
    by (simp add: g directory_cursor_def emptySyncCatalog_def)
  have n: "2 + length ([] :: sync_directory_page list) \<le> 5" by simp
  from refresh_stores_the_directory[OF wf c w n, of 300000 "''n''" "\<lambda>_. ''n''"] show ?thesis
    unfolding l by (metis of_nat_numeral)
qed

text \<open>A fresh catalog costs nothing: when the stored directory is complete and younger than the
  rescan interval, an unforced refresh answers from the store, does not call the connector and
  changes nothing; \<open>refreshCatalogIfStale\<close>, which reads only the catalog's head, decides the same.\<close>

lemma fresh_catalog_is_not_listed:
  assumes "cv_catalog (getSyncCatalog inst s) = Some c" and "sn_complete c"
    and "sn_updated_at c = iso_string t" and "now0 = iso_string u"
    and "\<bar>t\<bar> \<le> max_time" and "\<bar>u\<bar> \<le> max_time" and "u - t < ms"
  shows "refreshCatalog memory_store ms now0 now
           \<lparr>rf_installation_id = inst, rf_listDirectory = dir, rf_pages = pages, rf_force = False\<rparr> s
         = (Inr (getSyncCatalog inst s), s)
    \<and> refreshCatalogIfStale memory_store ms now0 now
           \<lparr>rf_installation_id = inst, rf_listDirectory = dir, rf_pages = pages, rf_force = False\<rparr> s
         = (Inr (), s)"
proof -
  have ne: "truthy (Some (iso_string t))" by (simp add: truthy_iff iso_string_neq_Nil)
  have fresh: "catalogFresh ms (getSyncCatalog inst s) now0"
    using assms ne by (simp add: catalogFresh_def cursorFresh_def date_parse_iso_string)
  have tt: "to_truthy (iso_string t) = Some (iso_string t)" by simp
  have head: "catalogHeadFresh ms (getSyncCatalogHead inst s) now0"
    using assms ne by (simp add: catalogHeadFresh_def getSyncCatalogHead_def Let_def cursorFresh_def
        date_parse_iso_string tt)
  show ?thesis
    using fresh head by (cases dir) (simp_all add: refreshCatalog_def refreshCatalogIfStale_def Let_def)
qed

lemma fresh_catalog_is_not_listed_witness:
  "\<exists>s. cv_catalog (getSyncCatalog ''i'' s) \<noteq> None
     \<and> fst (refreshCatalog memory_store 300000 (iso_string 1000) (\<lambda>_. ''n'')
       \<lparr>rf_installation_id = ''i'', rf_listDirectory = Some (\<lambda>_ _. Inl RangeError), rf_pages = None, rf_force = False\<rparr> s)
     = Inr sample_catalog"
proof -
  let ?s = "new_memory_sync_store\<lparr>ms_catalogs := [(''i'', sample_catalog)]\<rparr>"
  have c: "getSyncCatalog ''i'' ?s = sample_catalog" by (simp add: getSyncCatalog_def new_memory_sync_store_def)
  have "refreshCatalog memory_store 300000 (iso_string 1000) (\<lambda>_. ''n'')
       \<lparr>rf_installation_id = ''i'', rf_listDirectory = Some (\<lambda>_ _. Inl RangeError), rf_pages = None, rf_force = False\<rparr> ?s
     = (Inr (getSyncCatalog ''i'' ?s), ?s)"
    by (rule conjunct1[OF fresh_catalog_is_not_listed[where t = 0 and u = 1000 and
        c = "the (cv_catalog sample_catalog)"]])
      (simp_all only: c, simp_all add: sample_catalog_def max_time_def)
  with c show ?thesis by (intro exI[of _ ?s]) (simp add: sample_catalog_def)
qed

end
