(* ===== verification/RuntimeStore.thy ===== *)
theory RuntimeStore
  imports SyncEngine
begin

section \<open>The connector runtime store\<close>

text \<open>
  \<open>packages/domain/src/memory-connector-runtime-store.ts\<close>: installations, stream cursors with
  their leases, ingest attempts, quarantines, sync runs and durable work rows, with the sync state
  kept by a \<open>MemorySyncStore\<close>. The class is one record of its maps and every method is a
  function that returns its result and the new store; a method that can throw returns the error and
  the store as it is at the throw. Keys that the code builds with \<open>JSON.stringify\<close> of an array
  are tuples (the encoding is injective). The key of an installation's \<open>config\<close> that the code
  reads is a string. The types of \<open>ingestion.ts\<close> and of the connector contract come first.
\<close>

datatype installation_status = Enabled | Disabled | NeedsAttention

record connector_installation =
  in_id :: string
  in_org_id :: string
  in_connector_type :: string
  in_status :: installation_status
  in_config :: config
  in_credentials_ref :: "string option"
  in_created_at :: string
  in_updated_at :: string

record new_connector_installation =
  ni_id :: string
  ni_org_id :: string
  ni_connector_type :: string
  ni_status :: installation_status
  ni_config :: config
  ni_credentials_ref :: "string option"
  ni_created_at :: string

record stored_cursor =
  sc_installation_id :: string
  sc_stream_key :: string
  sc_cursor :: "string option"
  sc_cursor_version :: int
  sc_updated_at :: string
  sc_lease_owner :: "string option"
  sc_lease_expires_at :: "string option"

record connector_stream_cursor =
  sk_installation_id :: string
  sk_stream_key :: string
  sk_cursor :: "string option"
  sk_cursor_version :: int
  sk_updated_at :: string

record connector_lease = connector_stream_cursor +
  lk_lease_owner :: "string option"
  lk_lease_expires_at :: "string option"

record acquire_lease =
  al_installation_id :: string
  al_stream_key :: string
  al_lease_owner :: string
  al_now :: string
  al_lease_duration_ms :: int
  al_preempt :: bool

record release_lease =
  rl_installation_id :: string
  rl_stream_key :: string
  rl_lease_owner :: string
  rl_now :: string

record reset_cursor =
  rc_installation_id :: string
  rc_stream_key :: string
  rc_now :: string

datatype attempt_status = AttemptRunning | AttemptSucceeded | AttemptFailed

record ingest_attempt =
  ia_id :: string
  ia_org_id :: string
  ia_installation_id :: string
  ia_stream_key :: string
  ia_delivery_id :: string
  ia_started_at :: string
  ia_finished_at :: "string option"
  ia_status :: attempt_status
  ia_accepted_count :: int
  ia_duplicate_count :: int
  ia_quarantined_count :: int
  ia_retryable_failure_count :: int
  ia_error_code :: "string option"

record new_ingest_attempt =
  na_id :: string
  na_org_id :: string
  na_installation_id :: string
  na_stream_key :: string
  na_delivery_id :: string
  na_started_at :: string

datatype ingest_error_code =
  InvalidEnvelope | InvalidRecord | ConnectorMismatch | AuthorityBoundaryMismatch
| PrincipalUnresolved | ScopeUnresolved | ContentUnavailable | SourceIdentityConflict
| ConcurrentSourceUpdate | InternalError | UnsupportedRecordType

record new_quarantine =
  nq_id :: string
  nq_record_external_id :: string
  nq_reason_code :: ingest_error_code
  nq_safe_metadata :: "(string \<times> string) list"
  nq_created_at :: string

record ingest_quarantine = new_quarantine +
  iq_attempt_id :: string
  iq_installation_id :: string
  iq_stream_key :: string

record settle_attempt =
  st_attempt_id :: string
  st_installation_id :: string
  st_stream_key :: string
  st_lease_owner :: string
  st_finished_at :: string
  st_accepted_count :: int
  st_duplicate_count :: int
  st_quarantined_count :: int
  st_retryable_failure_count :: int
  st_error_code :: "string option"
  st_next_cursor :: "string option"
  st_quarantines :: "new_quarantine list"

type_synonym cursor_key = "string \<times> string"
type_synonym work_key = "string \<times> string \<times> sync_lane \<times> int"

record runtime_store =
  rs_installations :: "(string, connector_installation) js_map"
  rs_cursors :: "(cursor_key, stored_cursor) js_map"
  rs_attempts :: "(string, ingest_attempt) js_map"
  rs_quarantines :: "ingest_quarantine list"
  rs_runs :: "(string, sync_run) js_map"
  rs_work :: "(string, sync_work_record) js_map"
  rs_workKeys :: "(work_key, string) js_map"
  rs_sync :: memory_sync_store

definition new_runtime_store :: runtime_store where
  "new_runtime_store = \<lparr>rs_installations = [], rs_cursors = [], rs_attempts = [], rs_quarantines = [],
     rs_runs = [], rs_work = [], rs_workKeys = [], rs_sync = new_memory_sync_store\<rparr>"

subsection \<open>Installations\<close>

definition createInstallation ::
  "new_connector_installation \<Rightarrow> runtime_store \<Rightarrow> connector_installation \<times> runtime_store" where
  "createInstallation i s =
     (let inst = \<lparr>in_id = ni_id i, in_org_id = ni_org_id i, in_connector_type = ni_connector_type i,
            in_status = ni_status i, in_config = ni_config i, in_credentials_ref = ni_credentials_ref i,
            in_created_at = ni_created_at i, in_updated_at = ni_created_at i\<rparr>
      in (inst, s\<lparr>rs_installations := js_set (in_id inst) inst (rs_installations s)\<rparr>))"

definition findInstallation :: "string \<Rightarrow> runtime_store \<Rightarrow> connector_installation option" where
  "findInstallation i s = map_of (rs_installations s) i"

definition listInstallations :: "string \<Rightarrow> runtime_store \<Rightarrow> connector_installation list" where
  "listInstallations org s = List.filter (\<lambda>i. in_org_id i = org) (js_values (rs_installations s))"

text \<open>The guard the three updates share: the installation, when it belongs to the organisation.\<close>

definition own_installation :: "string \<Rightarrow> string \<Rightarrow> runtime_store \<Rightarrow> connector_installation option" where
  "own_installation i org s =
     (case map_of (rs_installations s) i of
        None \<Rightarrow> None | Some inst \<Rightarrow> if in_org_id inst \<noteq> org then None else Some inst)"

definition setInstallationStatus ::
  "string \<Rightarrow> string \<Rightarrow> installation_status \<Rightarrow> string \<Rightarrow> runtime_store
   \<Rightarrow> connector_installation option \<times> runtime_store" where
  "setInstallationStatus i org status updated_at s =
     (case own_installation i org s of
        None \<Rightarrow> (None, s)
      | Some inst \<Rightarrow>
          let updated = inst\<lparr>in_status := status, in_updated_at := updated_at\<rparr>
          in (Some updated, s\<lparr>rs_installations := js_set (in_id updated) updated (rs_installations s)\<rparr>))"

definition updateInstallationConfig ::
  "string \<Rightarrow> string \<Rightarrow> config \<Rightarrow> string \<Rightarrow> runtime_store \<Rightarrow> connector_installation option \<times> runtime_store" where
  "updateInstallationConfig i org conf updated_at s =
     (case own_installation i org s of
        None \<Rightarrow> (None, s)
      | Some inst \<Rightarrow>
          let updated = inst\<lparr>in_config := conf, in_updated_at := updated_at\<rparr>
          in (Some updated, s\<lparr>rs_installations := js_set (in_id updated) updated (rs_installations s)\<rparr>))"

definition policy_of :: "runtime_store \<Rightarrow> string \<Rightarrow> history_policy" where
  "policy_of s i = historyPolicyFromConfig (map_option in_config (map_of (rs_installations s) i))"

definition syncWorkUniqueKey :: "sync_work_record \<Rightarrow> work_key" where
  "syncWorkUniqueKey w = (wr_installation_id w, wr_stream_key w, wr_lane w, wr_generation w)"

definition enqueue_key :: "enqueue_sync_work \<Rightarrow> work_key" where
  "enqueue_key i = (eq_installation_id i, eq_stream_key i, eq_lane i, eq_generation i)"

text \<open>\<open>this.sync.clear(id)\<close>: an empty id would clear every installation.\<close>

definition deleteInstallation :: "string \<Rightarrow> string \<Rightarrow> runtime_store \<Rightarrow> bool \<times> runtime_store" where
  "deleteInstallation i org s =
     (case own_installation i org s of
        None \<Rightarrow> (False, s)
      | Some _ \<Rightarrow>
          let gone = List.filter (\<lambda>w. wr_installation_id w = i) (js_values (rs_work s))
          in (True,
           s\<lparr>rs_installations := AList.delete i (rs_installations s),
             rs_sync := clear_sync_store (Some i) (rs_sync s),
             rs_cursors := delete_where (\<lambda>_ c. sc_installation_id c = i) (rs_cursors s),
             rs_attempts := delete_where (\<lambda>_ a. ia_installation_id a = i) (rs_attempts s),
             rs_quarantines := List.filter (\<lambda>q. iq_installation_id q \<noteq> i) (rs_quarantines s),
             rs_runs := delete_where (\<lambda>_ r. sr_installation_id r = i) (rs_runs s),
             rs_work := delete_where (\<lambda>_ w. wr_installation_id w = i) (rs_work s),
             rs_workKeys := fold (\<lambda>w. AList.delete (syncWorkUniqueKey w)) gone (rs_workKeys s)\<rparr>))"

subsection \<open>Cursors and leases\<close>

definition copyCursor :: "stored_cursor \<Rightarrow> connector_stream_cursor" where
  "copyCursor c = \<lparr>sk_installation_id = sc_installation_id c, sk_stream_key = sc_stream_key c,
     sk_cursor = sc_cursor c, sk_cursor_version = sc_cursor_version c, sk_updated_at = sc_updated_at c\<rparr>"

definition copyLease :: "stored_cursor \<Rightarrow> connector_lease" where
  "copyLease c = connector_stream_cursor.extend (copyCursor c)
     (connector_lease.fields (sc_lease_owner c) (sc_lease_expires_at c))"

text \<open>\<open>current?.lease_expires_at \<and> current.lease_expires_at > now\<close>\<close>

definition lease_live :: "stored_cursor \<Rightarrow> string \<Rightarrow> bool" where
  "lease_live c now \<longleftrightarrow>
     truthy (sc_lease_expires_at c) \<and> now < or_else (sc_lease_expires_at c) []"

definition acquireLease :: "acquire_lease \<Rightarrow> (runtime_store, connector_lease option) js_op" where
  "acquireLease i s =
     (let key = (al_installation_id i, al_stream_key i); current = map_of (rs_cursors s) key
      in if \<not> al_preempt i
            \<and> (case current of None \<Rightarrow> False
               | Some c \<Rightarrow> lease_live c (al_now i) \<and> sc_lease_owner c \<noteq> Some (al_lease_owner i))
         then (Inr None, s)
         else case add_ms (al_now i) (al_lease_duration_ms i) of
                Inl e \<Rightarrow> (Inl e, s)
              | Inr expires \<Rightarrow>
                  let lease = \<lparr>sc_installation_id = al_installation_id i, sc_stream_key = al_stream_key i,
                        sc_cursor = Option.bind current sc_cursor,
                        sc_cursor_version = (case current of None \<Rightarrow> 1 | Some c \<Rightarrow> sc_cursor_version c),
                        sc_updated_at = al_now i, sc_lease_owner = Some (al_lease_owner i),
                        sc_lease_expires_at = Some expires\<rparr>
                  in (Inr (Some (copyLease lease)), s\<lparr>rs_cursors := js_set key lease (rs_cursors s)\<rparr>))"

definition releaseLease :: "release_lease \<Rightarrow> runtime_store \<Rightarrow> bool \<times> runtime_store" where
  "releaseLease i s =
     (let key = (rl_installation_id i, rl_stream_key i)
      in case map_of (rs_cursors s) key of
           None \<Rightarrow> (False, s)
         | Some c \<Rightarrow>
             if sc_lease_owner c \<noteq> Some (rl_lease_owner i) then (False, s)
             else (True, s\<lparr>rs_cursors := js_set key (c\<lparr>sc_lease_owner := None, sc_lease_expires_at := None,
                     sc_updated_at := rl_now i\<rparr>) (rs_cursors s)\<rparr>))"

definition resetCursor :: "reset_cursor \<Rightarrow> (runtime_store, connector_stream_cursor option) js_op" where
  "resetCursor i s =
     (let key = (rc_installation_id i, rc_stream_key i)
      in case map_of (rs_cursors s) key of
           None \<Rightarrow> (Inr None, s)
         | Some c \<Rightarrow>
             if lease_live c (rc_now i)
             then (Inl (ErrorMsg ''Connector cursor is leased and cannot be reset''), s)
             else let reset = c\<lparr>sc_cursor := None, sc_cursor_version := sc_cursor_version c + 1,
                        sc_lease_owner := None, sc_lease_expires_at := None, sc_updated_at := rc_now i\<rparr>
                  in (Inr (Some (copyCursor reset)), s\<lparr>rs_cursors := js_set key reset (rs_cursors s)\<rparr>))"

definition getCursor :: "string \<Rightarrow> string \<Rightarrow> runtime_store \<Rightarrow> connector_stream_cursor option" where
  "getCursor i k s = map_option copyCursor (map_of (rs_cursors s) (i, k))"

definition listCursors :: "string \<Rightarrow> string list option \<Rightarrow> runtime_store \<Rightarrow> connector_stream_cursor list" where
  "listCursors i streamKeys s =
     List.map copyCursor (List.filter (\<lambda>c. sc_installation_id c = i
       \<and> (case streamKeys of None \<Rightarrow> True | Some ks \<Rightarrow> sc_stream_key c \<in> set ks)) (js_values (rs_cursors s)))"

subsection \<open>Attempts\<close>

definition beginAttempt :: "new_ingest_attempt \<Rightarrow> runtime_store \<Rightarrow> ingest_attempt \<times> runtime_store" where
  "beginAttempt i s =
     (let a = \<lparr>ia_id = na_id i, ia_org_id = na_org_id i, ia_installation_id = na_installation_id i,
            ia_stream_key = na_stream_key i, ia_delivery_id = na_delivery_id i,
            ia_started_at = na_started_at i, ia_finished_at = None, ia_status = AttemptRunning,
            ia_accepted_count = 0, ia_duplicate_count = 0, ia_quarantined_count = 0,
            ia_retryable_failure_count = 0, ia_error_code = None\<rparr>
      in (a, s\<lparr>rs_attempts := js_set (ia_id a) a (rs_attempts s)\<rparr>))"

definition stamp_quarantine :: "settle_attempt \<Rightarrow> new_quarantine \<Rightarrow> ingest_quarantine" where
  "stamp_quarantine i q = new_quarantine.extend q
     (ingest_quarantine.fields (st_attempt_id i) (st_installation_id i) (st_stream_key i))"

definition settleAttempt :: "settle_attempt \<Rightarrow> (runtime_store, ingest_attempt) js_op" where
  "settleAttempt i s =
     (case map_of (rs_attempts s) (st_attempt_id i) of
        None \<Rightarrow> (Inl (ErrorMsg (''Ingest attempt not found: '' @ st_attempt_id i)), s)
      | Some attempt \<Rightarrow>
          let key = (st_installation_id i, st_stream_key i)
          in case map_of (rs_cursors s) key of
               None \<Rightarrow> (Inl (ErrorMsg ''Connector lease is not held by the attempt owner''), s)
             | Some c \<Rightarrow>
                 if sc_lease_owner c \<noteq> Some (st_lease_owner i)
                 then (Inl (ErrorMsg ''Connector lease is not held by the attempt owner''), s)
                 else
                   let ok = st_retryable_failure_count i = 0;
                       settled = attempt\<lparr>ia_finished_at := Some (st_finished_at i),
                         ia_status := (if ok then AttemptSucceeded else AttemptFailed),
                         ia_accepted_count := st_accepted_count i,
                         ia_duplicate_count := st_duplicate_count i,
                         ia_quarantined_count := st_quarantined_count i,
                         ia_retryable_failure_count := st_retryable_failure_count i,
                         ia_error_code := st_error_code i\<rparr>;
                       moved = ok \<and> st_next_cursor i \<noteq> None;
                       c' = c\<lparr>sc_cursor := (if moved then st_next_cursor i else sc_cursor c),
                              sc_cursor_version := (if moved then sc_cursor_version c + 1 else sc_cursor_version c),
                              sc_updated_at := st_finished_at i,
                              sc_lease_owner := None, sc_lease_expires_at := None\<rparr>
                   in (Inr settled,
                       s\<lparr>rs_attempts := js_set (ia_id settled) settled (rs_attempts s),
                         rs_quarantines := rs_quarantines s @ List.map (stamp_quarantine i) (st_quarantines i),
                         rs_cursors := js_set key c' (rs_cursors s)\<rparr>))"

text \<open>The in-memory store ignores the page's ingest commit; it returns no events.\<close>

definition commitSyncPage ::
  "new_ingest_attempt \<Rightarrow> settle_attempt \<Rightarrow> (runtime_store, ingest_attempt) js_op" where
  "commitSyncPage attempt settle s = settleAttempt settle (snd (beginAttempt attempt s))"

definition compare_attempts :: "(string \<Rightarrow> string \<Rightarrow> int) \<Rightarrow> ingest_attempt \<Rightarrow> ingest_attempt \<Rightarrow> int" where
  "compare_attempts lc left right =
     cmp_then (lc (ia_started_at right) (ia_started_at left)) (lc (ia_id right) (ia_id left))"

definition listAttempts ::
  "(string \<Rightarrow> string \<Rightarrow> int) \<Rightarrow> string \<Rightarrow> js_num option \<Rightarrow> runtime_store \<Rightarrow> ingest_attempt list" where
  "listAttempts lc i limit s =
     (let rows = js_sort (compare_attempts lc)
            (List.filter (\<lambda>a. ia_installation_id a = i) (js_values (rs_attempts s)))
      in case limit of
           Some (Num q) \<Rightarrow> if q = of_int \<lfloor>q\<rfloor> \<and> 0 < q then take (nat \<lfloor>q\<rfloor>) rows else rows
         | _ \<Rightarrow> rows)"

definition latestAttempt :: "(string \<Rightarrow> string \<Rightarrow> int) \<Rightarrow> string \<Rightarrow> runtime_store \<Rightarrow> ingest_attempt option" where
  "latestAttempt lc i s = (case listAttempts lc i (Some (Num 1)) s of [] \<Rightarrow> None | a # _ \<Rightarrow> Some a)"

definition listQuarantines :: "string \<Rightarrow> runtime_store \<Rightarrow> ingest_quarantine list" where
  "listQuarantines i s = List.filter (\<lambda>q. iq_installation_id q = i) (rs_quarantines s)"

end
