(* ===== verification/RuntimeWork.thy ===== *)
theory RuntimeWork
  imports RuntimeStore
begin

section \<open>Runs and durable work rows\<close>

text \<open>
  The second half of \<open>memory-connector-runtime-store.ts\<close>: sync runs, the queue of work rows
  with its claims and leases, the gaps, and the sync state methods that keep the queue in step with
  phases and with the catalog. Loops that mutate stored rows are \<open>map_vals\<close>.
\<close>

subsection \<open>Runs\<close>

definition new_run :: "new_sync_run \<Rightarrow> sync_run" where
  "new_run i = \<lparr>sr_id = nr_id i, sr_org_id = nr_org_id i, sr_installation_id = nr_installation_id i,
     sr_mode = nr_mode i, sr_status = RunQueued, sr_options = or_else (nr_options i) no_run_options,
     sr_total_work = 0, sr_completed_work = 0, sr_failed_work = 0, sr_accepted_count = 0,
     sr_started_at = None, sr_finished_at = None, sr_last_error = None,
     sr_created_at = nr_now i, sr_updated_at = nr_now i\<rparr>"

definition createSyncRun :: "new_sync_run \<Rightarrow> (runtime_store, sync_run) js_op" where
  "createSyncRun i s =
     (if map_of (rs_runs s) (nr_id i) \<noteq> None
      then (Inl (ErrorMsg (''Sync run already exists: '' @ nr_id i)), s)
      else case validateSyncRunOptions (or_else (nr_options i) no_run_options) of
             Inl e \<Rightarrow> (Inl e, s)
           | Inr _ \<Rightarrow>
               (case own_installation (nr_installation_id i) (nr_org_id i) s of
                  None \<Rightarrow> (Inl (ErrorMsg ''Connector installation not found for sync run''), s)
                | Some _ \<Rightarrow> (Inr (new_run i), s\<lparr>rs_runs := js_set (nr_id i) (new_run i) (rs_runs s)\<rparr>)))"

definition getSyncRun :: "string \<Rightarrow> string \<Rightarrow> runtime_store \<Rightarrow> sync_run option" where
  "getSyncRun i org s =
     (case map_of (rs_runs s) i of None \<Rightarrow> None | Some r \<Rightarrow> if sr_org_id r = org then Some r else None)"

definition compare_runs :: "(string \<Rightarrow> string \<Rightarrow> int) \<Rightarrow> sync_run \<Rightarrow> sync_run \<Rightarrow> int" where
  "compare_runs lc left right =
     cmp_then (lc (sr_created_at right) (sr_created_at left)) (lc (sr_id right) (sr_id left))"

definition listSyncRuns :: "(string \<Rightarrow> string \<Rightarrow> int) \<Rightarrow> list_sync_runs_query \<Rightarrow> runtime_store \<Rightarrow> sync_run list" where
  "listSyncRuns lc q s =
     (let limit = (case lq_limit q of Some n \<Rightarrow> if 0 < n then n else 100 | None \<Rightarrow> 100)
      in take (nat limit) (js_sort (compare_runs lc)
           (List.filter (\<lambda>r. sr_org_id r = lq_org_id q
              \<and> (\<not> truthy (lq_installation_id q) \<or> lq_installation_id q = Some (sr_installation_id r)))
              (js_values (rs_runs s)))))"

definition open_work :: "sync_work_record \<Rightarrow> bool" where
  "open_work w \<longleftrightarrow> wr_status w = WorkPending \<or> wr_status w = WorkRunning"

definition cancel_work :: "string \<Rightarrow> sync_work_record \<Rightarrow> sync_work_record" where
  "cancel_work now w = w\<lparr>wr_status := WorkCancelled, wr_lease_owner := None, wr_lease_expires_at := None,
     wr_updated_at := now\<rparr>"

definition commandSyncRun :: "command_sync_run \<Rightarrow> runtime_store \<Rightarrow> sync_run option \<times> runtime_store" where
  "commandSyncRun i s =
     (case map_of (rs_runs s) (cr_id i) of
        None \<Rightarrow> (None, s)
      | Some run \<Rightarrow>
          if sr_org_id run \<noteq> cr_org_id i then (None, s)
          else let cancels = (cr_command i = CommandCancel
                     \<and> (syncRunIsClaimable (sr_status run) \<or> sr_status run = RunPaused));
                   run1 = (if cr_command i = CommandPause \<and> syncRunIsClaimable (sr_status run)
                           then run\<lparr>sr_status := RunPaused\<rparr>
                           else if cr_command i = CommandResume \<and> sr_status run = RunPaused
                           then run\<lparr>sr_status := RunQueued, sr_finished_at := None\<rparr>
                           else if cancels
                           then run\<lparr>sr_status := RunCancelled, sr_finished_at := Some (cr_now i)\<rparr>
                           else run);
                   run2 = run1\<lparr>sr_updated_at := cr_now i\<rparr>;
                   work = (if cancels
                           then map_vals (\<lambda>w. if wr_run_id w = Some (sr_id run) \<and> open_work w
                                              then cancel_work (cr_now i) w else w) (rs_work s)
                           else rs_work s)
               in (Some run2, s\<lparr>rs_runs := js_set (cr_id i) run2 (rs_runs s), rs_work := work\<rparr>))"

definition deleteSyncRun :: "delete_sync_run \<Rightarrow> runtime_store \<Rightarrow> bool \<times> runtime_store" where
  "deleteSyncRun i s =
     (case map_of (rs_runs s) (dr_id i) of
        None \<Rightarrow> (False, s)
      | Some run \<Rightarrow>
          if sr_org_id run \<noteq> dr_org_id i
             \<or> sr_status run \<noteq> RunSucceeded \<and> sr_status run \<noteq> RunFailed \<and> sr_status run \<noteq> RunCancelled
          then (False, s)
          else (True, s\<lparr>rs_runs := AList.delete (dr_id i) (rs_runs s),
                 rs_work := map_vals (\<lambda>w. if wr_run_id w = Some (dr_id i) then w\<lparr>wr_run_id := None\<rparr> else w)
                   (rs_work s)\<rparr>))"

subsection \<open>Enqueueing\<close>

definition new_work :: "enqueue_sync_work \<Rightarrow> sync_work_record" where
  "new_work i = \<lparr>wr_id = eq_id i, wr_run_id = eq_run_id i, wr_installation_id = eq_installation_id i,
     wr_stream_key = eq_stream_key i, wr_lane = eq_lane i,
     wr_priority = or_else (eq_priority i) (syncWorkPriority (eq_lane i)),
     wr_next_due_at = eq_next_due_at i, wr_status = WorkPending, wr_attempts = 0,
     wr_generation = eq_generation i, wr_lease_owner = None, wr_lease_expires_at = None,
     wr_last_error = None, wr_created_at = eq_now i, wr_updated_at = eq_now i\<rparr>"

definition reopen_work :: "enqueue_sync_work \<Rightarrow> sync_work_record \<Rightarrow> sync_work_record" where
  "reopen_work i w =
     (if wr_status w = WorkRunning then w
      else w\<lparr>wr_next_due_at := eq_next_due_at i,
             wr_priority := or_else (eq_priority i) (syncWorkPriority (eq_lane i)),
             wr_status := WorkPending, wr_last_error := None, wr_updated_at := eq_now i\<rparr>)"

text \<open>
  A key whose row is gone cannot be read (\<open>existing\<close> is undefined): a TypeError. An empty id is
  not taken for an existing row.
\<close>

definition enqueueSyncWork :: "enqueue_sync_work \<Rightarrow> (runtime_store, sync_work_record) js_op" where
  "enqueueSyncWork i s =
     (if truthy (eq_run_id i) \<and> map_of (rs_runs s) (or_else (eq_run_id i) []) = None
      then (Inl (ErrorMsg (''Sync run not found: '' @ or_else (eq_run_id i) [])), s)
      else let existing = map_of (rs_workKeys s) (enqueue_key i)
           in if truthy existing
              then (case map_of (rs_work s) (or_else existing []) of
                      None \<Rightarrow> (Inl (ErrorMsg ''Cannot read properties of undefined''), s)
                    | Some w \<Rightarrow>
                        (Inr (reopen_work i w),
                         s\<lparr>rs_work := js_set (or_else existing []) (reopen_work i w) (rs_work s)\<rparr>))
              else (Inr (new_work i),
                    s\<lparr>rs_work := js_set (eq_id i) (new_work i) (rs_work s),
                      rs_workKeys := js_set (enqueue_key i) (eq_id i) (rs_workKeys s),
                      rs_runs := (if truthy (eq_run_id i)
                        then (case map_of (rs_runs s) (or_else (eq_run_id i) []) of
                                None \<Rightarrow> rs_runs s
                              | Some r \<Rightarrow> js_set (or_else (eq_run_id i) [])
                                  (r\<lparr>sr_total_work := sr_total_work r + 1, sr_updated_at := eq_now i\<rparr>) (rs_runs s))
                        else rs_runs s)\<rparr>))"

fun enqueueSyncWorkMany :: "enqueue_sync_work list \<Rightarrow> (runtime_store, unit) js_op" where
  "enqueueSyncWorkMany [] s = (Inr (), s)"
| "enqueueSyncWorkMany (i # is) s =
     (case enqueueSyncWork i s of (Inl e, s') \<Rightarrow> (Inl e, s') | (Inr _, s') \<Rightarrow> enqueueSyncWorkMany is s')"

subsection \<open>Claiming\<close>

definition claimable :: "claim_sync_work \<Rightarrow> runtime_store \<Rightarrow> sync_work_record \<Rightarrow> bool" where
  "claimable i s w \<longleftrightarrow>
     \<not> (truthy (cl_work_id i) \<and> cl_work_id i \<noteq> Some (wr_id w))
     \<and> \<not> (truthy (cl_installation_id i) \<and> cl_installation_id i \<noteq> Some (wr_installation_id w))
     \<and> \<not> (or_else (cl_lanes i) [] \<noteq> [] \<and> wr_lane w \<notin> set (or_else (cl_lanes i) []))
     \<and> \<not> (cl_unassigned i \<and> truthy (wr_run_id w))
     \<and> \<not> (truthy (wr_run_id w)
          \<and> (case map_of (rs_runs s) (or_else (wr_run_id w) []) of
               None \<Rightarrow> True | Some r \<Rightarrow> \<not> syncRunIsClaimable (sr_status r)))
     \<and> (wr_status w = WorkPending \<and> wr_next_due_at w \<le> cl_now i
        \<or> wr_status w = WorkRunning \<and> truthy (wr_lease_expires_at w)
          \<and> or_else (wr_lease_expires_at w) [] \<le> cl_now i)"

definition compare_work :: "(string \<Rightarrow> string \<Rightarrow> int) \<Rightarrow> sync_work_record \<Rightarrow> sync_work_record \<Rightarrow> int" where
  "compare_work lc left right =
     cmp_then (wr_priority right - wr_priority left)
       (cmp_then (lc (wr_next_due_at left) (wr_next_due_at right))
          (cmp_then (lc (wr_created_at left) (wr_created_at right)) (lc (wr_id left) (wr_id right))))"

text \<open>The rows a claim takes, with the keys they are stored at.\<close>

definition claim_entries ::
  "(string \<Rightarrow> string \<Rightarrow> int) \<Rightarrow> claim_sync_work \<Rightarrow> runtime_store \<Rightarrow> (string \<times> sync_work_record) list" where
  "claim_entries lc i s =
     take (nat (max 0 (cl_limit i)))
       (js_sort (\<lambda>a b. compare_work lc (snd a) (snd b))
          (List.filter (\<lambda>e. claimable i s (snd e)) (rs_work s)))"

definition claimed_work :: "claim_sync_work \<Rightarrow> string \<Rightarrow> sync_work_record \<Rightarrow> sync_work_record" where
  "claimed_work i expires w = w\<lparr>wr_status := WorkRunning, wr_attempts := wr_attempts w + 1,
     wr_lease_owner := Some (cl_owner i), wr_lease_expires_at := Some expires, wr_updated_at := cl_now i\<rparr>"

definition start_run :: "string \<Rightarrow> sync_run \<Rightarrow> sync_run" where
  "start_run now r =
     (if sr_status r = RunQueued
      then r\<lparr>sr_status := RunRunning, sr_started_at := or_opt (sr_started_at r) (Some now), sr_updated_at := now\<rparr>
      else r)"

definition start_runs ::
  "string \<Rightarrow> (string \<times> sync_work_record) list \<Rightarrow> (string, sync_run) js_map \<Rightarrow> (string, sync_run) js_map" where
  "start_runs now entries runs =
     fold (\<lambda>(_, w) rs. if truthy (wr_run_id w)
             then (case map_of rs (or_else (wr_run_id w) []) of
                     None \<Rightarrow> rs | Some r \<Rightarrow> js_set (or_else (wr_run_id w) []) (start_run now r) rs)
             else rs) entries runs"

definition claimSyncWork ::
  "(string \<Rightarrow> string \<Rightarrow> int) \<Rightarrow> claim_sync_work \<Rightarrow> (runtime_store, sync_work_record list) js_op" where
  "claimSyncWork lc i s =
     (case add_ms (cl_now i) (cl_lease_ms i) of
        Inl e \<Rightarrow> (Inl e, s)
      | Inr expires \<Rightarrow>
          let entries = claim_entries lc i s
          in (Inr (List.map (\<lambda>e. claimed_work i expires (snd e)) entries),
              s\<lparr>rs_work := List.map (\<lambda>(k, w). (k, if k \<in> fst ` set entries then claimed_work i expires w else w))
                  (rs_work s),
                rs_runs := start_runs (cl_now i) entries (rs_runs s)\<rparr>))"

definition renewSyncWork :: "renew_sync_work \<Rightarrow> (runtime_store, bool) js_op" where
  "renewSyncWork i s =
     (case map_of (rs_work s) (rn_id i) of
        None \<Rightarrow> (Inr False, s)
      | Some w \<Rightarrow>
          if wr_status w \<noteq> WorkRunning \<or> wr_lease_owner w \<noteq> Some (rn_owner i)
             \<or> \<not> truthy (wr_lease_expires_at w) \<or> or_else (wr_lease_expires_at w) [] \<le> rn_now i
          then (Inr False, s)
          else case add_ms (rn_now i) (rn_lease_ms i) of
                 Inl e \<Rightarrow> (Inl e, s)
               | Inr expires \<Rightarrow>
                   (Inr True, s\<lparr>rs_work := js_set (rn_id i)
                      (w\<lparr>wr_lease_expires_at := Some expires, wr_updated_at := rn_now i\<rparr>) (rs_work s)\<rparr>))"

subsection \<open>Settling\<close>

definition settleRunIfComplete :: "sync_run \<Rightarrow> sync_work_record list \<Rightarrow> string \<Rightarrow> sync_run" where
  "settleRunIfComplete run allWork now =
     (let remaining = list_ex (\<lambda>w. wr_run_id w = Some (sr_id run) \<and> open_work w) allWork
      in if remaining \<or> sr_status run = RunPaused then run\<lparr>sr_updated_at := now\<rparr>
         else run\<lparr>sr_status := (if 0 < sr_failed_work run then RunFailed else RunSucceeded),
                  sr_finished_at := Some now, sr_updated_at := now\<rparr>)"

fun outcome_status :: "sync_work_outcome \<Rightarrow> sync_work_status" where
  "outcome_status OutRetry = WorkPending"
| "outcome_status OutSucceeded = WorkSucceeded"
| "outcome_status OutFailed = WorkFailed"
| "outcome_status OutCancelled = WorkCancelled"

definition settled_work :: "settle_sync_work \<Rightarrow> sync_work_record \<Rightarrow> sync_work_record" where
  "settled_work i w = w\<lparr>wr_status := outcome_status (sx_outcome i),
     wr_next_due_at := or_else (sx_next_due_at i) (wr_next_due_at w), wr_last_error := sx_error_code i,
     wr_lease_owner := None, wr_lease_expires_at := None, wr_updated_at := sx_now i\<rparr>"

definition count_outcome :: "settle_sync_work \<Rightarrow> sync_run \<Rightarrow> sync_run" where
  "count_outcome i run =
     (let run1 = (if sx_outcome i = OutSucceeded then run\<lparr>sr_completed_work := sr_completed_work run + 1\<rparr>
                  else if sx_outcome i = OutFailed
                  then run\<lparr>sr_failed_work := sr_failed_work run + 1, sr_last_error := sx_error_code i\<rparr>
                  else run)
      in run1\<lparr>sr_accepted_count := sr_accepted_count run1 + max 0 (or_else (sx_accepted_count i) 0)\<rparr>)"

definition settleSyncWork :: "settle_sync_work \<Rightarrow> runtime_store \<Rightarrow> sync_work_record option \<times> runtime_store" where
  "settleSyncWork i s =
     (case map_of (rs_work s) (sx_id i) of
        None \<Rightarrow> (None, s)
      | Some w \<Rightarrow>
          if wr_status w \<noteq> WorkRunning \<or> wr_lease_owner w \<noteq> Some (sx_owner i) then (None, s)
          else let w' = settled_work i w;
                   work = js_set (sx_id i) w' (rs_work s);
                   runs = (if truthy (wr_run_id w) \<and> sx_outcome i \<noteq> OutRetry then
                             (case map_of (rs_runs s) (or_else (wr_run_id w) []) of
                                None \<Rightarrow> rs_runs s
                              | Some run \<Rightarrow>
                                  if sr_status run = RunCancelled then rs_runs s
                                  else js_set (or_else (wr_run_id w) [])
                                    (settleRunIfComplete (count_outcome i run) (js_values work) (sx_now i))
                                    (rs_runs s))
                           else rs_runs s)
               in (Some w', s\<lparr>rs_work := work, rs_runs := runs\<rparr>))"

subsection \<open>Unassigned work\<close>

definition matchesUnassignedQuery :: "sync_work_record \<Rightarrow> unassigned_query \<Rightarrow> bool" where
  "matchesUnassignedQuery w q \<longleftrightarrow>
     isUnassignedSyncWork w
     \<and> \<not> (truthy (uq_installation_id q) \<and> uq_installation_id q \<noteq> Some (wr_installation_id w))
     \<and> \<not> (or_else (uq_lanes q) [] \<noteq> [] \<and> wr_lane w \<notin> set (or_else (uq_lanes q) []))"

definition hasUnassignedSyncWork :: "unassigned_query \<Rightarrow> runtime_store \<Rightarrow> bool" where
  "hasUnassignedSyncWork q s = list_ex (\<lambda>w. matchesUnassignedQuery w q) (js_values (rs_work s))"

definition listUnassignedSyncWorkIdentities :: "string \<Rightarrow> runtime_store \<Rightarrow> sync_work_identity list" where
  "listUnassignedSyncWorkIdentities i s =
     List.map (\<lambda>w. \<lparr>id_stream_key = wr_stream_key w, id_lane = wr_lane w, id_generation = wr_generation w\<rparr>)
       (List.filter (\<lambda>w. matchesUnassignedQuery w \<lparr>uq_installation_id = Some i, uq_lanes = None\<rparr>)
          (js_values (rs_work s)))"

definition wakes :: "wake_unassigned \<Rightarrow> sync_work_record \<Rightarrow> bool" where
  "wakes i w \<longleftrightarrow> wr_installation_id w = wk_installation_id i \<and> \<not> truthy (wr_run_id w)
     \<and> wr_status w = WorkPending
     \<and> wr_stream_key w \<in> set (List.filter (\<lambda>k. js_trim k \<noteq> []) (wk_stream_keys i))"

definition wakeUnassignedSyncWork :: "wake_unassigned \<Rightarrow> runtime_store \<Rightarrow> nat \<times> runtime_store" where
  "wakeUnassignedSyncWork i s =
     (length (List.filter (wakes i) (js_values (rs_work s))),
      s\<lparr>rs_work := map_vals (\<lambda>w. if wakes i w
          then w\<lparr>wr_next_due_at := wk_now i, wr_updated_at := wk_now i\<rparr> else w) (rs_work s)\<rparr>)"

definition workForStream :: "string \<Rightarrow> string \<Rightarrow> int \<Rightarrow> runtime_store \<Rightarrow> sync_work_record list" where
  "workForStream i k g s =
     List.filter (\<lambda>w. wr_installation_id w = i \<and> wr_stream_key w = k \<and> wr_generation w = g)
       (js_values (rs_work s))"

definition open_lane :: "sync_work_record \<Rightarrow> open_sync_work_lane" where
  "open_lane w = \<lparr>ol_lane = wr_lane w, ol_status = wr_status w, ol_run_id = wr_run_id w\<rparr>"

definition ensure_for :: "runtime_store \<Rightarrow> sync_stream_state \<Rightarrow> ensure_plan" where
  "ensure_for s x =
     syncWorkEnsurePlan (ss_phase x) (ss_media_pending x)
       (List.map open_lane (workForStream (ss_installation_id x) (ss_stream_key x) (ss_generation x) s))
       (Some (policy_of s (ss_installation_id x))) None"

definition latestWorkCovers :: "string \<Rightarrow> string \<Rightarrow> int \<Rightarrow> runtime_store \<Rightarrow> bool" where
  "latestWorkCovers i k g s =
     list_ex (\<lambda>w. wr_installation_id w = i \<and> wr_stream_key w = k \<and> wr_generation w = g
       \<and> (wr_lane w = LaneLive \<or> wr_lane w = LaneInteractive)
       \<and> (truthy (wr_run_id w) \<or> open_work w)) (js_values (rs_work s))"

definition unseeded_members ::
  "(string \<Rightarrow> string \<Rightarrow> int) \<Rightarrow> string \<Rightarrow> int \<Rightarrow> runtime_store \<Rightarrow> sync_catalog_member list" where
  "unseeded_members lc i limit s =
     take (nat limit) (js_sort (compareFirstSeedMembers lc)
       (List.filter (\<lambda>m. is_stream (cm_stream_key m)
          \<and> cm_stream_key m \<notin> ss_stream_key ` set (listSyncStates i (rs_sync s))
          \<and> \<not> latestWorkCovers i (cm_stream_key m) (generation_or_1 (cm_generation m)) s)
          (cv_members (getSyncCatalog i (rs_sync s)))))"

definition listSyncWorkGaps ::
  "(string \<Rightarrow> string \<Rightarrow> int) \<Rightarrow> string \<Rightarrow> int option \<Rightarrow> runtime_store \<Rightarrow> sync_work_gap list" where
  "listSyncWorkGaps lc i unseeded_limit s =
     (let states = listSyncStates i (rs_sync s);
          threadByKey = js_map_of_list (List.map (\<lambda>m. (cm_stream_key m, cm_thread_id m))
            (cv_members (getSyncCatalog i (rs_sync s))));
          thread = (\<lambda>k. Option.bind (Option.bind (map_of threadByKey k) id) to_truthy);
          gaps = concat (List.map (\<lambda>x. List.map (\<lambda>lane.
              \<lparr>gap_stream_key = ss_stream_key x, gap_phase = ss_phase x, gap_media_pending = ss_media_pending x,
               gap_idle_until = ss_idle_until x, gap_generation = ss_generation x, gap_missing_lane = lane,
               gap_thread_id = thread (ss_stream_key x)\<rparr>) (ep_enqueue (ensure_for s x))) states);
          limit = max 0 (or_else unseeded_limit 0)
      in if limit = 0 then gaps
         else gaps @ List.map (\<lambda>m.
              \<lparr>gap_stream_key = cm_stream_key m, gap_phase = PhaseUnseeded, gap_media_pending = False,
               gap_idle_until = None, gap_generation = generation_or_1 (cm_generation m),
               gap_missing_lane = LaneLive, gap_thread_id = Option.bind (cm_thread_id m) to_truthy\<rparr>)
              (unseeded_members lc i limit s))"

subsection \<open>Sync state and catalog\<close>

definition cancelUnassignedStreams :: "string \<Rightarrow> string list \<Rightarrow> string \<Rightarrow> runtime_store \<Rightarrow> runtime_store" where
  "cancelUnassignedStreams i keys now s =
     (if keys = [] then s
      else s\<lparr>rs_work := map_vals (\<lambda>w. if wr_installation_id w = i \<and> \<not> truthy (wr_run_id w) \<and> open_work w
                \<and> wr_stream_key w \<in> set keys then cancel_work now w else w) (rs_work s)\<rparr>)"

definition due_input :: "sync_stream_state \<Rightarrow> sync_lane \<Rightarrow> enqueue_sync_work" where
  "due_input x lane =
     \<lparr>eq_id = dueSyncWorkId (ss_installation_id x) (ss_stream_key x) lane (ss_generation x),
      eq_run_id = None, eq_installation_id = ss_installation_id x, eq_stream_key = ss_stream_key x,
      eq_lane = lane, eq_priority = None, eq_next_due_at = ss_updated_at x,
      eq_generation = ss_generation x, eq_now = ss_updated_at x\<rparr>"

definition cancel_lane :: "sync_stream_state \<Rightarrow> sync_lane \<Rightarrow> runtime_store \<Rightarrow> runtime_store" where
  "cancel_lane x lane s = s\<lparr>rs_work := map_vals (\<lambda>w.
     if wr_installation_id w = ss_installation_id x \<and> wr_stream_key w = ss_stream_key x
        \<and> wr_generation w = ss_generation x \<and> wr_lane w = lane \<and> \<not> truthy (wr_run_id w)
        \<and> wr_status w = WorkPending
     then cancel_work (ss_updated_at x) w else w) (rs_work s)\<rparr>"

definition ensureOwedSyncWork :: "sync_stream_state \<Rightarrow> (runtime_store, unit) js_op" where
  "ensureOwedSyncWork x s =
     (let plan = ensure_for s x
      in case enqueueSyncWorkMany (List.map (due_input x) (ep_enqueue plan)) s of
           (Inl e, s') \<Rightarrow> (Inl e, s')
         | (Inr _, s') \<Rightarrow> (Inr (), fold (cancel_lane x) (ep_cancel plan) s'))"

definition rt_putSyncState :: "sync_stream_state \<Rightarrow> (runtime_store, sync_stream_state) js_op" where
  "rt_putSyncState x s =
     (let stored = releaseHistoryPhase x (policy_of s (ss_installation_id x));
          view = getSyncCatalog (ss_installation_id stored) (rs_sync s)
      in if (case cv_catalog view of None \<Rightarrow> False | Some c \<Rightarrow> sn_complete c)
            \<and> ss_stream_key stored \<notin> cm_stream_key ` set (cv_members view)
         then (Inr stored,
               cancelUnassignedStreams (ss_installation_id stored) [ss_stream_key stored] (ss_updated_at stored)
                 (s\<lparr>rs_sync := dropSyncState (ss_installation_id stored) (ss_stream_key stored) (rs_sync s)\<rparr>))
         else case ensureOwedSyncWork stored (s\<lparr>rs_sync := snd (putSyncState stored (rs_sync s))\<rparr>) of
                (Inl e, s') \<Rightarrow> (Inl e, s')
              | (Inr _, s') \<Rightarrow> (Inr stored, s'))"

definition applyCatalogPage ::
  "apply_sync_catalog_page_input \<Rightarrow> runtime_store \<Rightarrow> sync_catalog_view \<times> runtime_store" where
  "applyCatalogPage p s =
     (let i = ap_installation_id p; current = getSyncCatalog i (rs_sync s);
          (nxt, sync') = applySyncCatalogPage p (rs_sync s);
          s1 = s\<lparr>rs_sync := sync'\<rparr>
      in if ap_complete p then
           let left = catalogStreamKeysLeft current nxt;
               s2 = s1\<lparr>rs_sync := fold (dropSyncState i) left (rs_sync s1)\<rparr>
           in (nxt, cancelUnassignedStreams i left (ap_now p) s2)
         else (nxt, s1))"

end
