(* ===== verification/RuntimeLeases.thy ===== *)
theory RuntimeLeases
  imports RuntimeWork
begin

section \<open>Every operation of the runtime store, and what its leases promise\<close>

text \<open>
  The mutating methods of \<open>ConnectorRuntimeStore\<close> as one type of operations, so that a client
  is a list of them; a call that throws leaves the store as it is at the throw and the client goes
  on. The lemmas are about stream cursors: who may write a leased cursor, and how cursor values are
  versioned.
\<close>

datatype runtime_op =
  OpCreateInstallation new_connector_installation
| OpSetStatus string string installation_status string
| OpUpdateConfig string string config string
| OpDeleteInstallation string string
| OpAcquire acquire_lease
| OpRelease release_lease
| OpReset reset_cursor
| OpBegin new_ingest_attempt
| OpSettleAttempt settle_attempt
| OpCommitPage new_ingest_attempt settle_attempt
| OpCreateRun new_sync_run
| OpCommandRun command_sync_run
| OpDeleteRun delete_sync_run
| OpEnqueue enqueue_sync_work
| OpEnqueueMany "enqueue_sync_work list"
| OpClaim claim_sync_work
| OpRenew renew_sync_work
| OpSettleWork settle_sync_work
| OpWake wake_unassigned
| OpPutState sync_stream_state
| OpApplyPage apply_sync_catalog_page_input

fun runtime_step :: "(string \<Rightarrow> string \<Rightarrow> int) \<Rightarrow> runtime_op \<Rightarrow> runtime_store \<Rightarrow> runtime_store" where
  "runtime_step lc (OpCreateInstallation i) s = snd (createInstallation i s)"
| "runtime_step lc (OpSetStatus i org status now) s = snd (setInstallationStatus i org status now s)"
| "runtime_step lc (OpUpdateConfig i org conf now) s = snd (updateInstallationConfig i org conf now s)"
| "runtime_step lc (OpDeleteInstallation i org) s = snd (deleteInstallation i org s)"
| "runtime_step lc (OpAcquire i) s = snd (acquireLease i s)"
| "runtime_step lc (OpRelease i) s = snd (releaseLease i s)"
| "runtime_step lc (OpReset i) s = snd (resetCursor i s)"
| "runtime_step lc (OpBegin i) s = snd (beginAttempt i s)"
| "runtime_step lc (OpSettleAttempt i) s = snd (settleAttempt i s)"
| "runtime_step lc (OpCommitPage a i) s = snd (commitSyncPage a i s)"
| "runtime_step lc (OpCreateRun i) s = snd (createSyncRun i s)"
| "runtime_step lc (OpCommandRun i) s = snd (commandSyncRun i s)"
| "runtime_step lc (OpDeleteRun i) s = snd (deleteSyncRun i s)"
| "runtime_step lc (OpEnqueue i) s = snd (enqueueSyncWork i s)"
| "runtime_step lc (OpEnqueueMany is) s = snd (enqueueSyncWorkMany is s)"
| "runtime_step lc (OpClaim i) s = snd (claimSyncWork lc i s)"
| "runtime_step lc (OpRenew i) s = snd (renewSyncWork i s)"
| "runtime_step lc (OpSettleWork i) s = snd (settleSyncWork i s)"
| "runtime_step lc (OpWake i) s = snd (wakeUnassignedSyncWork i s)"
| "runtime_step lc (OpPutState x) s = snd (rt_putSyncState x s)"
| "runtime_step lc (OpApplyPage p) s = snd (applyCatalogPage p s)"

text \<open>The state after a call that can throw half way.\<close>

lemma snd_enqueue_many:
  "snd (enqueueSyncWorkMany (i # is) s) =
     (if isl (fst (enqueueSyncWork i s)) then snd (enqueueSyncWork i s)
      else snd (enqueueSyncWorkMany is (snd (enqueueSyncWork i s))))"
  by (simp split: prod.splits sum.splits)

lemma snd_ensure:
  "snd (ensureOwedSyncWork x s) =
     (let r = enqueueSyncWorkMany (List.map (due_input x) (ep_enqueue (ensure_for s x))) s
      in if isl (fst r) then snd r else fold (cancel_lane x) (ep_cancel (ensure_for s x)) (snd r))"
  by (simp add: ensureOwedSyncWork_def Let_def split: prod.splits sum.splits)

definition put_drops :: "sync_stream_state \<Rightarrow> runtime_store \<Rightarrow> bool" where
  "put_drops x s \<longleftrightarrow>
     (let view = getSyncCatalog (ss_installation_id x) (rs_sync s)
      in (case cv_catalog view of None \<Rightarrow> False | Some c \<Rightarrow> sn_complete c)
         \<and> ss_stream_key x \<notin> cm_stream_key ` set (cv_members view))"

lemma snd_put:
  "snd (rt_putSyncState x s) =
     (let stored = releaseHistoryPhase x (policy_of s (ss_installation_id x))
      in if put_drops stored s
         then cancelUnassignedStreams (ss_installation_id stored) [ss_stream_key stored] (ss_updated_at stored)
                (s\<lparr>rs_sync := dropSyncState (ss_installation_id stored) (ss_stream_key stored) (rs_sync s)\<rparr>)
         else snd (ensureOwedSyncWork stored (s\<lparr>rs_sync := snd (putSyncState stored (rs_sync s))\<rparr>)))"
  by (simp add: rt_putSyncState_def put_drops_def Let_def split: prod.splits sum.splits)

subsection \<open>What does not touch the cursors\<close>

named_theorems cursor_frame \<open>operations that leave the cursors alone\<close>

lemma installation_ops_cursors [cursor_frame]:
  "rs_cursors (snd (createInstallation i s)) = rs_cursors s"
  "rs_cursors (snd (setInstallationStatus k org status now s)) = rs_cursors s"
  "rs_cursors (snd (updateInstallationConfig k org conf now s)) = rs_cursors s"
  "rs_cursors (snd (beginAttempt a s)) = rs_cursors s"
  by (simp_all add: createInstallation_def setInstallationStatus_def updateInstallationConfig_def
      beginAttempt_def Let_def split: option.splits)

lemma run_ops_cursors [cursor_frame]:
  "rs_cursors (snd (createSyncRun i s)) = rs_cursors s"
  "rs_cursors (snd (commandSyncRun c s)) = rs_cursors s"
  "rs_cursors (snd (deleteSyncRun d s)) = rs_cursors s"
  by (simp_all add: createSyncRun_def commandSyncRun_def deleteSyncRun_def Let_def
      split: option.splits sum.splits)

lemma enqueue_cursors [cursor_frame]: "rs_cursors (snd (enqueueSyncWork i s)) = rs_cursors s"
  by (simp add: enqueueSyncWork_def Let_def split: option.splits)

lemma enqueue_many_cursors [cursor_frame]: "rs_cursors (snd (enqueueSyncWorkMany is s)) = rs_cursors s"
  by (induction "is" arbitrary: s) (simp_all add: snd_enqueue_many enqueue_cursors del: enqueueSyncWorkMany.simps(2))

lemma work_ops_cursors [cursor_frame]:
  "rs_cursors (snd (claimSyncWork lc c s)) = rs_cursors s"
  "rs_cursors (snd (renewSyncWork r s)) = rs_cursors s"
  "rs_cursors (snd (settleSyncWork x s)) = rs_cursors s"
  "rs_cursors (snd (wakeUnassignedSyncWork w s)) = rs_cursors s"
  "rs_cursors (cancelUnassignedStreams k ks now s) = rs_cursors s"
  by (simp_all add: claimSyncWork_def renewSyncWork_def settleSyncWork_def wakeUnassignedSyncWork_def
      cancelUnassignedStreams_def Let_def split: option.splits sum.splits)

lemma cancel_lanes_cursors [cursor_frame]: "rs_cursors (fold (cancel_lane x) lanes s) = rs_cursors s"
  by (induction lanes arbitrary: s) (simp_all add: cancel_lane_def)

lemma ensure_cursors [cursor_frame]: "rs_cursors (snd (ensureOwedSyncWork x s)) = rs_cursors s"
  by (simp add: snd_ensure Let_def cancel_lanes_cursors enqueue_many_cursors)

lemma sync_ops_cursors [cursor_frame]:
  "rs_cursors (snd (rt_putSyncState x s)) = rs_cursors s"
  "rs_cursors (snd (applyCatalogPage p s)) = rs_cursors s"
  by (simp_all add: snd_put applyCatalogPage_def Let_def work_ops_cursors ensure_cursors split: prod.splits)

definition cursors_wf :: "runtime_store \<Rightarrow> bool" where
  "cursors_wf s \<longleftrightarrow> distinct (js_keys (rs_cursors s))
     \<and> (\<forall>(key, c) \<in> set (rs_cursors s). key = (sc_installation_id c, sc_stream_key c))"

lemma cursors_wf_new: "cursors_wf new_runtime_store"
  by (simp add: cursors_wf_def new_runtime_store_def)

lemma cursors_wf_cong: "rs_cursors s' = rs_cursors s \<Longrightarrow> cursors_wf s' = cursors_wf s"
  by (simp add: cursors_wf_def)

lemma cursors_wf_get:
  "cursors_wf s \<Longrightarrow> map_of (rs_cursors s) key = Some c \<Longrightarrow> key = (sc_installation_id c, sc_stream_key c)"
  by (auto simp: cursors_wf_def dest!: map_of_SomeD)

lemma cursors_wf_set:
  assumes "cursors_wf s" and "key = (sc_installation_id c, sc_stream_key c)"
    and "rs_cursors s' = js_set key c (rs_cursors s)"
  shows "cursors_wf s'"
  using assms by (auto simp: cursors_wf_def set_js_set)

lemma delete_cursors:
  "rs_cursors (snd (deleteInstallation i org s)) =
     (if own_installation i org s = None then rs_cursors s
      else delete_where (\<lambda>_ c. sc_installation_id c = i) (rs_cursors s))"
  by (simp add: deleteInstallation_def Let_def split: option.splits)

subsection \<open>One step on one cursor\<close>

text \<open>The writes of the five cursor methods: what becomes of the row at the key the call names.\<close>

fun cursor_target :: "runtime_op \<Rightarrow> cursor_key option" where
  "cursor_target (OpAcquire i) = Some (al_installation_id i, al_stream_key i)"
| "cursor_target (OpRelease i) = Some (rl_installation_id i, rl_stream_key i)"
| "cursor_target (OpReset i) = Some (rc_installation_id i, rc_stream_key i)"
| "cursor_target (OpSettleAttempt i) = Some (st_installation_id i, st_stream_key i)"
| "cursor_target (OpCommitPage _ i) = Some (st_installation_id i, st_stream_key i)"
| "cursor_target _ = None"

definition settled_cursor :: "settle_attempt \<Rightarrow> stored_cursor \<Rightarrow> stored_cursor" where
  "settled_cursor i c =
     (let moved = (st_retryable_failure_count i = 0 \<and> st_next_cursor i \<noteq> None)
      in c\<lparr>sc_cursor := (if moved then st_next_cursor i else sc_cursor c),
           sc_cursor_version := (if moved then sc_cursor_version c + 1 else sc_cursor_version c),
           sc_updated_at := st_finished_at i, sc_lease_owner := None, sc_lease_expires_at := None\<rparr>)"

definition leased_cursor :: "acquire_lease \<Rightarrow> string \<Rightarrow> stored_cursor option \<Rightarrow> stored_cursor" where
  "leased_cursor i e old =
     \<lparr>sc_installation_id = al_installation_id i, sc_stream_key = al_stream_key i,
      sc_cursor = Option.bind old sc_cursor,
      sc_cursor_version = (case old of None \<Rightarrow> 1 | Some c \<Rightarrow> sc_cursor_version c),
      sc_updated_at = al_now i, sc_lease_owner = Some (al_lease_owner i), sc_lease_expires_at = Some e\<rparr>"

inductive cursor_write :: "runtime_op \<Rightarrow> stored_cursor option \<Rightarrow> stored_cursor \<Rightarrow> bool" where
  write_acquire: "al_preempt i \<or> (\<forall>c. old = Some c \<longrightarrow>
      lease_live c (al_now i) \<longrightarrow> sc_lease_owner c = Some (al_lease_owner i)) \<Longrightarrow>
    add_ms (al_now i) (al_lease_duration_ms i) = Inr e \<Longrightarrow>
    cursor_write (OpAcquire i) old (leased_cursor i e old)"
| write_release: "sc_lease_owner c = Some (rl_lease_owner i) \<Longrightarrow>
    cursor_write (OpRelease i) (Some c)
      (c\<lparr>sc_lease_owner := None, sc_lease_expires_at := None, sc_updated_at := rl_now i\<rparr>)"
| write_reset: "\<not> lease_live c (rc_now i) \<Longrightarrow>
    cursor_write (OpReset i) (Some c)
      (c\<lparr>sc_cursor := None, sc_cursor_version := sc_cursor_version c + 1,
         sc_lease_owner := None, sc_lease_expires_at := None, sc_updated_at := rc_now i\<rparr>)"
| write_settle: "sc_lease_owner c = Some (st_lease_owner i) \<Longrightarrow>
    cursor_write (OpSettleAttempt i) (Some c) (settled_cursor i c)"
| write_page: "sc_lease_owner c = Some (st_lease_owner i) \<Longrightarrow>
    cursor_write (OpCommitPage a i) (Some c) (settled_cursor i c)"

inductive_cases cursor_writeE: "cursor_write op old c'"

text \<open>A step leaves the cursors as they are or makes one write.\<close>

definition cursor_step :: "runtime_op \<Rightarrow> runtime_store \<Rightarrow> runtime_store \<Rightarrow> bool" where
  "cursor_step op s s' \<longleftrightarrow> rs_cursors s' = rs_cursors s
     \<or> (\<exists>key c'. cursor_target op = Some key \<and> cursor_write op (map_of (rs_cursors s) key) c'
          \<and> rs_cursors s' = js_set key c' (rs_cursors s))"

lemma cursor_step_same: "rs_cursors s' = rs_cursors s \<Longrightarrow> cursor_step op s s'"
  by (simp add: cursor_step_def)

lemma cursor_step_write:
  "cursor_target op = Some key \<Longrightarrow> cursor_write op (map_of (rs_cursors s) key) c' \<Longrightarrow>
   rs_cursors s' = js_set key c' (rs_cursors s) \<Longrightarrow> cursor_step op s s'"
  by (auto simp: cursor_step_def)

lemma acquire_step: "cursor_step (OpAcquire i) s (snd (acquireLease i s))"
proof -
  let ?key = "(al_installation_id i, al_stream_key i)"
  show ?thesis
  proof (cases "\<not> al_preempt i \<and> (case map_of (rs_cursors s) ?key of None \<Rightarrow> False
               | Some c \<Rightarrow> lease_live c (al_now i) \<and> sc_lease_owner c \<noteq> Some (al_lease_owner i))")
    case True
    then show ?thesis by (intro cursor_step_same) (simp add: acquireLease_def Let_def)
  next
    case False
    then have ok: "al_preempt i \<or> (\<forall>c. map_of (rs_cursors s) ?key = Some c \<longrightarrow>
        lease_live c (al_now i) \<longrightarrow> sc_lease_owner c = Some (al_lease_owner i))"
      by (auto split: option.splits)
    show ?thesis
    proof (cases "add_ms (al_now i) (al_lease_duration_ms i)")
      case (Inl e)
      with False show ?thesis by (intro cursor_step_same) (simp add: acquireLease_def Let_def)
    next
      case (Inr e)
      have "rs_cursors (snd (acquireLease i s))
          = js_set ?key (leased_cursor i e (map_of (rs_cursors s) ?key)) (rs_cursors s)"
        by (simp only: acquireLease_def Let_def if_not_P[OF False]) (simp add: Inr leased_cursor_def)
      with write_acquire[OF ok Inr] show ?thesis by (rule cursor_step_write[rotated]) simp
    qed
  qed
qed

lemma settle_store:
  "snd (settleAttempt i s) = s \<or> (\<exists>c. map_of (rs_cursors s) (st_installation_id i, st_stream_key i) = Some c
     \<and> sc_lease_owner c = Some (st_lease_owner i)
     \<and> rs_cursors (snd (settleAttempt i s))
        = js_set (st_installation_id i, st_stream_key i) (settled_cursor i c) (rs_cursors s))"
proof (cases "map_of (rs_attempts s) (st_attempt_id i)")
  case (Some a)
  note a = this
  show ?thesis
  proof (cases "map_of (rs_cursors s) (st_installation_id i, st_stream_key i)")
    case (Some c)
    with a show ?thesis
      by (cases "sc_lease_owner c = Some (st_lease_owner i)")
         (simp_all add: settleAttempt_def settled_cursor_def Let_def)
  qed (simp add: settleAttempt_def a)
qed (simp add: settleAttempt_def)

lemma release_step: "cursor_step (OpRelease i) s (snd (releaseLease i s))"
proof (cases "map_of (rs_cursors s) (rl_installation_id i, rl_stream_key i)")
  case (Some c)
  show ?thesis
  proof (cases "sc_lease_owner c = Some (rl_lease_owner i)")
    case True
    with Some write_release[OF True] show ?thesis
      by (intro cursor_step_write[where key = "(rl_installation_id i, rl_stream_key i)"])
         (auto simp: releaseLease_def)
  qed (use Some in \<open>simp add: cursor_step_def releaseLease_def\<close>)
qed (simp add: cursor_step_def releaseLease_def)

lemma reset_step: "cursor_step (OpReset i) s (snd (resetCursor i s))"
proof (cases "map_of (rs_cursors s) (rc_installation_id i, rc_stream_key i)")
  case (Some c)
  show ?thesis
  proof (cases "lease_live c (rc_now i)")
    case False
    with Some write_reset[OF False] show ?thesis
      by (intro cursor_step_write[where key = "(rc_installation_id i, rc_stream_key i)"])
         (auto simp: resetCursor_def Let_def)
  qed (use Some in \<open>simp add: cursor_step_def resetCursor_def\<close>)
qed (simp add: cursor_step_def resetCursor_def)

lemma settle_step: "cursor_step (OpSettleAttempt i) s (snd (settleAttempt i s))"
  using settle_store[of i s]
proof (elim disjE exE conjE)
  fix c
  assume c: "map_of (rs_cursors s) (st_installation_id i, st_stream_key i) = Some c"
    "sc_lease_owner c = Some (st_lease_owner i)"
    "rs_cursors (snd (settleAttempt i s))
       = js_set (st_installation_id i, st_stream_key i) (settled_cursor i c) (rs_cursors s)"
  show ?thesis
    by (rule cursor_step_write[OF _ _ c(3)]) (simp_all add: c(1) write_settle[OF c(2)])
qed (simp add: cursor_step_same)

lemma commit_page_step: "cursor_step (OpCommitPage a i) s (snd (commitSyncPage a i s))"
  using settle_store[of i "snd (beginAttempt a s)"]
proof (elim disjE exE conjE)
  fix c
  assume c: "map_of (rs_cursors (snd (beginAttempt a s))) (st_installation_id i, st_stream_key i) = Some c"
    "sc_lease_owner c = Some (st_lease_owner i)"
    "rs_cursors (snd (settleAttempt i (snd (beginAttempt a s))))
       = js_set (st_installation_id i, st_stream_key i) (settled_cursor i c) (rs_cursors (snd (beginAttempt a s)))"
  show ?thesis
    by (rule cursor_step_write[of _ "(st_installation_id i, st_stream_key i)" _ "settled_cursor i c"])
       (use c in \<open>simp_all add: commitSyncPage_def installation_ops_cursors write_page\<close>)
qed (simp add: cursor_step_same commitSyncPage_def installation_ops_cursors)

fun deleted_installation :: "runtime_op \<Rightarrow> string option" where
  "deleted_installation (OpDeleteInstallation i _) = Some i"
| "deleted_installation _ = None"

lemma runtime_cursor_step:
  "deleted_installation op = None \<Longrightarrow> cursor_step op s (runtime_step lc op s)"
  by (cases op) (simp_all add: acquire_step release_step reset_step settle_step commit_page_step
      cursor_step_same cursor_frame)

lemma delete_step_cursors:
  assumes "deleted_installation op = Some i"
  shows "rs_cursors (runtime_step lc op s) \<in>
    {rs_cursors s, delete_where (\<lambda>_ c. sc_installation_id c = i) (rs_cursors s)}"
  using assms by (cases op) (auto simp: delete_cursors)

lemma write_ids:
  assumes "cursor_write op old c'" and "cursor_target op = Some key"
    and "\<And>c. old = Some c \<Longrightarrow> key = (sc_installation_id c, sc_stream_key c)"
  shows "key = (sc_installation_id c', sc_stream_key c')"
  using assms by (cases rule: cursor_write.cases) (auto simp: leased_cursor_def settled_cursor_def Let_def)

lemma cursors_wf_step:
  assumes wf: "cursors_wf s" shows "cursors_wf (runtime_step lc op s)"
proof (cases "deleted_installation op")
  case None
  from runtime_cursor_step[OF this, of s lc] show ?thesis
    unfolding cursor_step_def
  proof (elim disjE exE conjE)
    fix key c'
    assume t: "cursor_target op = Some key" "cursor_write op (map_of (rs_cursors s) key) c'"
      "rs_cursors (runtime_step lc op s) = js_set key c' (rs_cursors s)"
    have "key = (sc_installation_id c', sc_stream_key c')"
      using write_ids[OF t(2,1)] cursors_wf_get[OF wf] by blast
    then show ?thesis by (rule cursors_wf_set[OF wf _ t(3)])
  qed (use wf cursors_wf_cong in blast)
next
  case (Some i)
  with delete_step_cursors[OF Some, of lc s] wf show ?thesis by (auto simp: cursors_wf_def)
qed

lemma cursors_wf_steps: "cursors_wf s \<Longrightarrow> cursors_wf (fold (runtime_step lc) ops s)"
  by (induction ops arbitrary: s) (simp_all add: cursors_wf_step)

text \<open>What one step makes of the row at a key.\<close>

lemma step_row:
  assumes "cursors_wf s" and "deleted_installation op \<noteq> Some (fst key)"
  shows "map_of (rs_cursors (runtime_step lc op s)) key = map_of (rs_cursors s) key
    \<or> (\<exists>c'. cursor_target op = Some key \<and> cursor_write op (map_of (rs_cursors s) key) c'
         \<and> map_of (rs_cursors (runtime_step lc op s)) key = Some c')"
proof (cases "deleted_installation op")
  case None
  from runtime_cursor_step[OF this, of s lc] show ?thesis by (auto simp: cursor_step_def split: if_splits)
next
  case (Some i)
  from assms(2) Some have "\<And>c. map_of (rs_cursors s) key = Some c \<Longrightarrow> sc_installation_id c \<noteq> i"
    using cursors_wf_get[OF assms(1)] by fastforce
  moreover have "distinct (js_keys (rs_cursors s))" using assms(1) by (simp add: cursors_wf_def)
  ultimately show ?thesis
    using delete_step_cursors[OF Some, of lc s] by (auto split: option.splits)
qed

subsection \<open>A live lease keeps everybody else out\<close>

text \<open>What ends or changes the lease of \<open>owner\<close> on \<open>key\<close> before it expires at \<open>e\<close>: a
  preempting acquire, the owner's own calls, the end of its time, and the deletion of the
  installation.\<close>

fun ends_lease :: "cursor_key \<Rightarrow> string \<Rightarrow> string \<Rightarrow> runtime_op \<Rightarrow> bool" where
  "ends_lease key owner e (OpDeleteInstallation i _) = (fst key = i)"
| "ends_lease key owner e (OpAcquire i) = (key = (al_installation_id i, al_stream_key i)
     \<and> (al_preempt i \<or> al_lease_owner i = owner \<or> e \<le> al_now i))"
| "ends_lease key owner e (OpRelease i) = (key = (rl_installation_id i, rl_stream_key i) \<and> rl_lease_owner i = owner)"
| "ends_lease key owner e (OpReset i) = (key = (rc_installation_id i, rc_stream_key i) \<and> e \<le> rc_now i)"
| "ends_lease key owner e (OpSettleAttempt i) = (key = (st_installation_id i, st_stream_key i) \<and> st_lease_owner i = owner)"
| "ends_lease key owner e (OpCommitPage _ i) = (key = (st_installation_id i, st_stream_key i) \<and> st_lease_owner i = owner)"
| "ends_lease key owner e _ = False"

lemma lease_live_iff:
  "sc_lease_expires_at c = Some e \<Longrightarrow> e \<noteq> [] \<Longrightarrow> lease_live c now \<longleftrightarrow> now < e"
  by (simp add: lease_live_def)

lemma write_ends_lease:
  assumes "cursor_write op (Some c) c'" and "cursor_target op = Some key"
    and "sc_lease_owner c = Some owner" and "sc_lease_expires_at c = Some e" and "e \<noteq> []"
  shows "ends_lease key owner e op"
  using assms by (cases rule: cursor_write.cases) (auto simp: lease_live_iff not_less)

lemma live_lease_step:
  assumes "cursors_wf s" and "map_of (rs_cursors s) key = Some c" and "sc_lease_owner c = Some owner"
    and "sc_lease_expires_at c = Some e" and "e \<noteq> []" and "\<not> ends_lease key owner e op"
  shows "map_of (rs_cursors (runtime_step lc op s)) key = Some c"
proof -
  have "deleted_installation op \<noteq> Some (fst key)" using assms(6) by (cases op) auto
  from step_row[OF assms(1) this, of lc] show ?thesis
    using write_ends_lease[OF _ _ assms(3-5), of op _ key] assms(2,6) by auto
qed

lemma live_lease_steps:
  assumes "cursors_wf s" and "map_of (rs_cursors s) key = Some c" and "sc_lease_owner c = Some owner"
    and "sc_lease_expires_at c = Some e" and "e \<noteq> []" and "\<forall>op\<in>set ops. \<not> ends_lease key owner e op"
  shows "map_of (rs_cursors (fold (runtime_step lc) ops s)) key = Some c"
  using assms
proof (induction ops arbitrary: s)
  case (Cons op ops)
  have "map_of (rs_cursors (runtime_step lc op s)) key = Some c"
    by (rule live_lease_step[OF Cons.prems(1-5)]) (use Cons.prems(6) in simp)
  with Cons.IH[OF cursors_wf_step[OF Cons.prems(1)]] Cons.prems show ?case by simp
qed simp

lemma acquired_row:
  assumes "acquireLease a s = (Inr (Some l), s')"
  shows "\<exists>e. e \<noteq> [] \<and> lk_lease_expires_at l = Some e \<and> add_ms (al_now a) (al_lease_duration_ms a) = Inr e
    \<and> s' = s\<lparr>rs_cursors := js_set (al_installation_id a, al_stream_key a)
        (leased_cursor a e (map_of (rs_cursors s) (al_installation_id a, al_stream_key a))) (rs_cursors s)\<rparr>"
proof -
  obtain e where e: "add_ms (al_now a) (al_lease_duration_ms a) = Inr e"
    using assms by (cases "add_ms (al_now a) (al_lease_duration_ms a)")
      (auto simp: acquireLease_def Let_def split: if_splits)
  then have "e \<noteq> []" by (auto simp: add_ms_def to_iso_def iso_string_neq_Nil split: option.splits if_splits)
  moreover have "lk_lease_expires_at l = Some e \<and> s' = s\<lparr>rs_cursors := js_set (al_installation_id a, al_stream_key a)
        (leased_cursor a e (map_of (rs_cursors s) (al_installation_id a, al_stream_key a))) (rs_cursors s)\<rparr>"
    using assms e by (auto simp: acquireLease_def leased_cursor_def copyLease_def Let_def
      connector_stream_cursor.defs connector_lease.defs copyCursor_def split: if_splits)
  ultimately show ?thesis using e by blast
qed

lemma live_lease_refuses:
  assumes "map_of (rs_cursors s) (i, k) = Some c" and "sc_lease_owner c = Some owner"
    and "sc_lease_expires_at c = Some e" and "e \<noteq> []"
  shows "al_installation_id b = i \<Longrightarrow> al_stream_key b = k \<Longrightarrow> \<not> al_preempt b \<Longrightarrow> al_lease_owner b \<noteq> owner \<Longrightarrow>
      al_now b < e \<Longrightarrow> acquireLease b s = (Inr None, s)"
    and "st_installation_id x = i \<Longrightarrow> st_stream_key x = k \<Longrightarrow> st_lease_owner x \<noteq> owner \<Longrightarrow>
      \<exists>err. settleAttempt x s = (Inl err, s)"
  using assms by (auto simp: acquireLease_def settleAttempt_def lease_live_iff Let_def split: option.splits)

text \<open>C1. While a lease is live, no sequence of operations of the store by anybody else changes the
  leased cursor: until it expires, and unless somebody preempts it or its owner gives it up, every
  other acquire is refused and every settlement by another owner throws without a change.\<close>

theorem lease_excludes_others:
  assumes "cursors_wf s" and "acquireLease a s = (Inr (Some l), s1)" and "lk_lease_expires_at l = Some e"
    and "\<forall>op\<in>set ops. \<not> ends_lease (al_installation_id a, al_stream_key a) (al_lease_owner a) e op"
    and "t = fold (runtime_step lc) ops s1"
  shows "map_of (rs_cursors t) (al_installation_id a, al_stream_key a)
      = map_of (rs_cursors s1) (al_installation_id a, al_stream_key a)
    \<and> (\<forall>b. al_installation_id b = al_installation_id a \<and> al_stream_key b = al_stream_key a \<and> \<not> al_preempt b
          \<and> al_lease_owner b \<noteq> al_lease_owner a \<and> al_now b < e \<longrightarrow> acquireLease b t = (Inr None, t))
    \<and> (\<forall>x. st_installation_id x = al_installation_id a \<and> st_stream_key x = al_stream_key a
          \<and> st_lease_owner x \<noteq> al_lease_owner a \<longrightarrow> (\<exists>err. settleAttempt x t = (Inl err, t)))"
proof -
  from acquired_row[OF assms(2)] assms(3) have e: "e \<noteq> []"
    and s1: "rs_cursors s1 = js_set (al_installation_id a, al_stream_key a)
        (leased_cursor a e (map_of (rs_cursors s) (al_installation_id a, al_stream_key a))) (rs_cursors s)"
    by auto
  obtain c where c: "map_of (rs_cursors s1) (al_installation_id a, al_stream_key a) = Some c"
    "sc_lease_owner c = Some (al_lease_owner a)" "sc_lease_expires_at c = Some e"
    by (simp add: s1 leased_cursor_def)
  have wf: "cursors_wf s1" by (rule cursors_wf_set[OF assms(1) _ s1]) (simp add: leased_cursor_def)
  from live_lease_steps[OF wf c e assms(4), of lc] assms(5)
  have t: "map_of (rs_cursors t) (al_installation_id a, al_stream_key a) = Some c" by simp
  with c live_lease_refuses[OF t c(2,3) e] show ?thesis by auto
qed

definition sample_acquire :: "string \<Rightarrow> int \<Rightarrow> acquire_lease" where
  "sample_acquire owner t = \<lparr>al_installation_id = ''i'', al_stream_key = ''k'', al_lease_owner = owner,
     al_now = iso_string t, al_lease_duration_ms = 60000, al_preempt = False\<rparr>"

lemma sample_acquire_fields [simp]:
  "al_installation_id (sample_acquire w t) = ''i''" "al_stream_key (sample_acquire w t) = ''k''"
  "al_lease_owner (sample_acquire w t) = w" "al_now (sample_acquire w t) = iso_string t"
  "al_lease_duration_ms (sample_acquire w t) = 60000" "\<not> al_preempt (sample_acquire w t)"
  by (simp_all add: sample_acquire_def)

definition sample_leased :: runtime_store where
  "sample_leased = snd (acquireLease (sample_acquire ''a'' 0) new_runtime_store)"

definition sample_lease :: connector_lease where
  "sample_lease = copyLease (leased_cursor (sample_acquire ''a'' 0) (iso_string 60000) None)"

lemma sample_acquired:
  "acquireLease (sample_acquire ''a'' 0) new_runtime_store = (Inr (Some sample_lease), sample_leased)"
  by (simp add: acquireLease_def sample_leased_def sample_lease_def new_runtime_store_def leased_cursor_def Let_def
      add_ms_iso_string max_time_def)

lemma sample_lease_expires: "lk_lease_expires_at sample_lease = Some (iso_string 60000)"
  by (simp add: sample_lease_def copyLease_def leased_cursor_def copyCursor_def
      connector_stream_cursor.defs connector_lease.defs)

theorem lease_excludes_others_witness:
  "fst (acquireLease (sample_acquire ''b'' 2000)
     (runtime_step (\<lambda>_ _. 0) (OpAcquire (sample_acquire ''b'' 1000)) sample_leased)) = Inr None"
proof -
  have less: "iso_string 1000 < iso_string 60000" "iso_string 2000 < iso_string 60000"
    by (simp_all add: iso_string_less_iff four_digit_time_def)
  have "\<forall>op\<in>set [OpAcquire (sample_acquire ''b'' 1000)].
      \<not> ends_lease (al_installation_id (sample_acquire ''a'' 0), al_stream_key (sample_acquire ''a'' 0))
          (al_lease_owner (sample_acquire ''a'' 0)) (iso_string 60000) op"
    using less(1) by (simp add: not_le)
  note excl = lease_excludes_others[OF cursors_wf_new sample_acquired sample_lease_expires this refl]
  show ?thesis
    using excl[THEN conjunct2, THEN conjunct1, rule_format, of "sample_acquire ''b'' 2000"] less(2)
    by (simp del: runtime_step.simps)
qed

subsection \<open>Cursor values are versioned\<close>

definition cursor_le :: "stored_cursor \<Rightarrow> stored_cursor \<Rightarrow> bool" where
  "cursor_le c c' \<longleftrightarrow> sc_cursor_version c < sc_cursor_version c'
     \<or> sc_cursor_version c' = sc_cursor_version c \<and> sc_cursor c' = sc_cursor c"

lemma cursor_le_refl [simp]: "cursor_le c c"
  by (simp add: cursor_le_def)

lemma cursor_le_trans: "cursor_le a b \<Longrightarrow> cursor_le b c \<Longrightarrow> cursor_le a c"
  by (auto simp: cursor_le_def)

lemma settled_cursor_le: "cursor_le c (settled_cursor i c)"
  by (auto simp: cursor_le_def settled_cursor_def Let_def split: if_splits)

lemma cursor_write_le: "cursor_write op (Some c) c' \<Longrightarrow> cursor_le c c'"
  by (cases rule: cursor_write.cases) (auto simp: settled_cursor_le, auto simp: cursor_le_def leased_cursor_def)

lemma step_cursor_le:
  assumes "cursors_wf s" and "map_of (rs_cursors s) key = Some c"
    and "deleted_installation op \<noteq> Some (fst key)"
  shows "\<exists>c'. map_of (rs_cursors (runtime_step lc op s)) key = Some c' \<and> cursor_le c c'"
  using step_row[OF assms(1,3), of lc] assms(2) cursor_write_le by fastforce

text \<open>Whatever the store is asked to do, the cursor of a stream changes only together with a
  larger cursor version, and versions never go back: two reads of a stream that show the same version
  show the same cursor. (Deleting the installation ends its streams.)\<close>

lemma cursor_changes_are_versioned:
  assumes "cursors_wf s" and "getCursor i k s = Some c"
    and "\<forall>op\<in>set ops. deleted_installation op \<noteq> Some i"
  shows "\<exists>c'. getCursor i k (fold (runtime_step lc) ops s) = Some c'
    \<and> sk_cursor_version c \<le> sk_cursor_version c'
    \<and> (sk_cursor_version c' = sk_cursor_version c \<longrightarrow> sk_cursor c' = sk_cursor c)"
proof -
  have "\<exists>r'. map_of (rs_cursors (fold (runtime_step lc) ops s)) (i, k) = Some r' \<and> cursor_le r r'"
    if "map_of (rs_cursors s) (i, k) = Some r" "cursors_wf s" for r
    using that assms(3)
  proof (induction ops arbitrary: s r)
    case (Cons op ops)
    then obtain r1 where r1: "map_of (rs_cursors (runtime_step lc op s)) (i, k) = Some r1" "cursor_le r r1"
      using step_cursor_le[OF Cons.prems(2,1), of op lc] by auto
    from Cons.IH[OF r1(1) cursors_wf_step[OF Cons.prems(2)]] Cons.prems(3) r1(2) show ?case
      by (auto intro: cursor_le_trans)
  qed simp
  with assms(1,2) show ?thesis by (fastforce simp: getCursor_def copyCursor_def cursor_le_def)
qed

definition sample_cursor :: connector_stream_cursor where
  "sample_cursor = \<lparr>sk_installation_id = ''i'', sk_stream_key = ''k'', sk_cursor = None,
     sk_cursor_version = 1, sk_updated_at = iso_string 0\<rparr>"

lemma cursor_changes_are_versioned_witness:
  "\<exists>c'. getCursor ''i'' ''k'' (runtime_step (\<lambda>_ _. 0) (OpAcquire (sample_acquire ''b'' 1000)) sample_leased) = Some c'
     \<and> 1 \<le> sk_cursor_version c'"
proof -
  have "cursors_wf sample_leased"
    using cursors_wf_step[OF cursors_wf_new, of "\<lambda>_ _. 0" "OpAcquire (sample_acquire ''a'' 0)"]
    by (simp add: sample_leased_def)
  moreover have "getCursor ''i'' ''k'' sample_leased = Some sample_cursor"
    using sample_acquired
    by (auto simp: sample_leased_def acquireLease_def getCursor_def sample_cursor_def copyCursor_def Let_def
        new_runtime_store_def add_ms_iso_string max_time_def)
  ultimately show ?thesis
    using cursor_changes_are_versioned[of sample_leased "''i''" "''k''" sample_cursor
        "[OpAcquire (sample_acquire ''b'' 1000)]" "\<lambda>_ _. 0"]
    by (auto simp: sample_cursor_def simp del: runtime_step.simps)
qed

subsection \<open>Committing a page\<close>

lemma settle_refused:
  assumes "Option.bind (map_of (rs_cursors s) (st_installation_id i, st_stream_key i)) sc_lease_owner
      \<noteq> Some (st_lease_owner i)"
    and "map_of (rs_attempts s) (st_attempt_id i) \<noteq> None"
  shows "settleAttempt i s = (Inl (ErrorMsg ''Connector lease is not held by the attempt owner''), s)"
  using assms
  by (cases "map_of (rs_cursors s) (st_installation_id i, st_stream_key i)")
     (auto simp: settleAttempt_def)

text \<open>C39. A page whose lease was lost is refused, its cursor stays where it was, but the attempt that
  the commit began stays behind as a running one.\<close>

theorem refused_page_leaves_running_attempt:
  assumes "Option.bind (map_of (rs_cursors s) (st_installation_id i, st_stream_key i)) sc_lease_owner
      \<noteq> Some (st_lease_owner i)"
    and "st_attempt_id i = na_id a"
  shows "fst (commitSyncPage a i s) = Inl (ErrorMsg ''Connector lease is not held by the attempt owner'')
    \<and> rs_cursors (snd (commitSyncPage a i s)) = rs_cursors s
    \<and> (\<exists>r. map_of (rs_attempts (snd (commitSyncPage a i s))) (na_id a) = Some r \<and> ia_status r = AttemptRunning)"
  using settle_refused[of "snd (beginAttempt a s)" i] assms
  by (simp add: commitSyncPage_def beginAttempt_def Let_def)

definition sample_attempt :: new_ingest_attempt where
  "sample_attempt = \<lparr>na_id = ''a1'', na_org_id = ''o'', na_installation_id = ''i'', na_stream_key = ''k'',
     na_delivery_id = ''d'', na_started_at = iso_string 0\<rparr>"

definition sample_settle :: "string \<Rightarrow> settle_attempt" where
  "sample_settle w = \<lparr>st_attempt_id = ''a1'', st_installation_id = ''i'', st_stream_key = ''k'',
     st_lease_owner = w, st_finished_at = iso_string 1000, st_accepted_count = 1, st_duplicate_count = 0,
     st_quarantined_count = 0, st_retryable_failure_count = 0, st_error_code = None,
     st_next_cursor = Some ''c2'', st_quarantines = []\<rparr>"

theorem refused_page_leaves_running_attempt_witness:
  "\<exists>r. map_of (rs_attempts (snd (commitSyncPage sample_attempt (sample_settle ''b'') new_runtime_store))) ''a1'' = Some r
     \<and> ia_status r = AttemptRunning"
proof -
  have "Option.bind (map_of (rs_cursors new_runtime_store) (st_installation_id (sample_settle ''b''), st_stream_key (sample_settle ''b'')))
      sc_lease_owner \<noteq> Some (st_lease_owner (sample_settle ''b''))"
    and "st_attempt_id (sample_settle ''b'') = na_id sample_attempt"
    by (simp_all add: new_runtime_store_def sample_settle_def sample_attempt_def)
  from refused_page_leaves_running_attempt[OF this] show ?thesis by (simp add: sample_attempt_def)
qed

end
