(* ===== verification/RuntimeQueue.thy ===== *)
theory RuntimeQueue
  imports RuntimeLeases
begin

section \<open>The queue of durable work\<close>

text \<open>
  The invariant of the work rows and their unique keys over every operation of the store, and what
  enqueueing, claiming, settling and the repair of gaps promise. The ids a client gives its rows are
  part of it: an id that begins with \<open>due:\<close> is the one \<open>dueSyncWorkId\<close> gives the row's key (the
  store itself makes such rows), any other id (the API names the row of a run \<open>sync-run:\<close> and the
  run's id) is not used for two keys. Ids of installations are free of the colon that separates the
  parts of a row id and of the NUL of the state keys.
\<close>

subsection \<open>The invariant\<close>

definition plain_id :: "string \<Rightarrow> bool" where
  "plain_id i \<longleftrightarrow> no_nul i \<and> CHR '':'' \<notin> set i"

definition key_id :: "work_key \<Rightarrow> string" where
  "key_id key = (case key of (i, k, lane, g) \<Rightarrow> dueSyncWorkId i k lane g)"

definition due_name :: "string \<Rightarrow> bool" where
  "due_name rid = starts_with ''due:'' rid"

text \<open>A row under its own id.\<close>

definition named_row :: "string \<Rightarrow> sync_work_record \<Rightarrow> bool" where
  "named_row rid w \<longleftrightarrow> wr_id w = rid \<and> rid \<noteq> [] \<and> plain_id (wr_installation_id w)
     \<and> (due_name rid \<longrightarrow> rid = key_id (syncWorkUniqueKey w))"

text \<open>The key map answers a key with the id of the row that has it.\<close>

definition indexes ::
  "(work_key, string) js_map \<Rightarrow> (string, sync_work_record) js_map \<Rightarrow> bool" where
  "indexes keys work \<longleftrightarrow> (\<forall>key rid. map_of keys key = Some rid
     \<longleftrightarrow> (\<exists>w. map_of work rid = Some w \<and> syncWorkUniqueKey w = key))"

definition queue_ok ::
  "(string, sync_work_record) js_map \<Rightarrow> (work_key, string) js_map \<Rightarrow> bool" where
  "queue_ok work keys \<longleftrightarrow> distinct (js_keys work)
     \<and> (\<forall>(rid, w) \<in> set work. named_row rid w) \<and> indexes keys work"

definition runtime_ok :: "runtime_store \<Rightarrow> bool" where
  "runtime_ok s \<longleftrightarrow> queue_ok (rs_work s) (rs_workKeys s) \<and> memory_ok (rs_sync s)"

lemma runtime_ok_new: "runtime_ok new_runtime_store"
  by (simp add: runtime_ok_def new_runtime_store_def queue_ok_def indexes_def)

lemma due_name_key_id [simp]: "due_name (key_id key)"
  by (cases key) (simp add: key_id_def dueSyncWorkId_def due_name_def starts_with_def)

lemma key_id_neq_Nil [simp]: "key_id key \<noteq> []"
  by (cases key) (simp add: key_id_def dueSyncWorkId_def)

lemma key_id_inj:
  assumes "plain_id (fst key)" and "plain_id (fst key')" and "key_id key = key_id key'"
  shows "key = key'"
  using assms by (cases key; cases key') (auto simp: plain_id_def key_id_def dueSyncWorkId_def append_colon_eq
    lane_string_inj int_string_inj)

lemma fst_work_keys [simp]:
  "fst (syncWorkUniqueKey w) = wr_installation_id w" "fst (enqueue_key i) = eq_installation_id i"
  by (simp_all add: syncWorkUniqueKey_def enqueue_key_def)

lemma queue_ok_row:
  "queue_ok work keys \<Longrightarrow> map_of work rid = Some w \<Longrightarrow> named_row rid w"
  by (auto simp: queue_ok_def dest!: map_of_SomeD)

lemma queue_ok_key:
  assumes "queue_ok work keys" and "map_of keys key = Some rid"
  shows "rid \<noteq> [] \<and> (\<exists>w. map_of work rid = Some w \<and> syncWorkUniqueKey w = key)"
proof -
  from assms obtain w where "map_of work rid = Some w" "syncWorkUniqueKey w = key"
    unfolding queue_ok_def indexes_def by blast
  with queue_ok_row[OF assms(1)] show ?thesis by (auto simp: named_row_def)
qed

lemma queue_ok_stored:
  "queue_ok work keys \<Longrightarrow> map_of work rid = Some w \<Longrightarrow> map_of keys (syncWorkUniqueKey w) = Some rid"
  unfolding queue_ok_def indexes_def by blast

text \<open>Updates that keep what identifies a row.\<close>

definition same_row :: "sync_work_record \<Rightarrow> sync_work_record \<Rightarrow> bool" where
  "same_row w w' \<longleftrightarrow> wr_id w' = wr_id w \<and> wr_installation_id w' = wr_installation_id w
     \<and> wr_stream_key w' = wr_stream_key w \<and> wr_lane w' = wr_lane w \<and> wr_generation w' = wr_generation w"

lemma same_row_refl [simp]: "same_row w w"
  by (simp add: same_row_def)

lemma same_row_key: "same_row w w' \<Longrightarrow> syncWorkUniqueKey w' = syncWorkUniqueKey w"
  by (simp add: same_row_def syncWorkUniqueKey_def)

lemma same_row_named: "same_row w w' \<Longrightarrow> named_row rid w' = named_row rid w"
  by (simp add: same_row_def named_row_def syncWorkUniqueKey_def)

lemma queue_ok_map:
  assumes "queue_ok work keys" and "\<And>k w. same_row w (f k w)"
  shows "queue_ok (List.map (\<lambda>(k, w). (k, f k w)) work) keys"
proof -
  have m: "map_of (List.map (\<lambda>(k, w). (k, f k w)) work) rid = map_option (f rid) (map_of work rid)" for rid
    by (induction work) auto
  have "indexes keys (List.map (\<lambda>(k, w). (k, f k w)) work)"
    using assms(1) unfolding queue_ok_def indexes_def m by (auto simp: same_row_key[OF assms(2)])
  with assms(1) show ?thesis
    by (auto simp: queue_ok_def comp_def split_beta same_row_named[OF assms(2)])
qed

lemma queue_ok_map_vals:
  "queue_ok work keys \<Longrightarrow> (\<And>w. same_row w (f w)) \<Longrightarrow> queue_ok (map_vals f work) keys"
  unfolding map_vals_def by (rule queue_ok_map)

lemma queue_ok_update:
  assumes ok: "queue_ok work keys" and w: "map_of work rid = Some w" and s: "same_row w w'"
  shows "queue_ok (js_set rid w' work) keys"
proof -
  have "(\<exists>u. map_of (js_set rid w' work) r = Some u \<and> syncWorkUniqueKey u = key)
      \<longleftrightarrow> (\<exists>u. map_of work r = Some u \<and> syncWorkUniqueKey u = key)" for r key
    using w same_row_key[OF s] by auto
  then have "indexes keys (js_set rid w' work)"
    using ok by (simp add: queue_ok_def indexes_def del: split_paired_All map_of_js_set)
  moreover have "named_row rid w'" using queue_ok_row[OF ok w] same_row_named[OF s] by simp
  ultimately show ?thesis using ok by (auto simp: queue_ok_def set_js_set)
qed

lemma queue_ok_insert:
  assumes ok: "queue_ok work keys" and new: "map_of keys (syncWorkUniqueKey w) = None"
    and none: "map_of work rid = None" and w: "named_row rid w"
  shows "queue_ok (js_set rid w work) (js_set (syncWorkUniqueKey w) rid keys)"
proof -
  have old: "map_of keys key = Some r \<longleftrightarrow> (\<exists>u. map_of work r = Some u \<and> syncWorkUniqueKey u = key)" for key r
    using ok unfolding queue_ok_def indexes_def by blast
  have "map_of (js_set (syncWorkUniqueKey w) rid keys) key = Some r
      \<longleftrightarrow> (\<exists>u. map_of (js_set rid w work) r = Some u \<and> syncWorkUniqueKey u = key)" for key r
  proof (cases "r = rid")
    case True
    with none old[of key rid] show ?thesis by auto
  next
    case False
    with new old[of key r] show ?thesis by auto
  qed
  then have "indexes (js_set (syncWorkUniqueKey w) rid keys) (js_set rid w work)"
    unfolding indexes_def by blast
  with ok w show ?thesis by (auto simp: queue_ok_def set_js_set)
qed

subsection \<open>Every operation keeps it\<close>

text \<open>The operations that touch neither the queue nor the sync state.\<close>

definition same_queue :: "runtime_store \<Rightarrow> runtime_store \<Rightarrow> bool" where
  "same_queue s s' \<longleftrightarrow> rs_work s' = rs_work s \<and> rs_workKeys s' = rs_workKeys s \<and> rs_sync s' = rs_sync s"

lemma same_queue_ok: "same_queue s s' \<Longrightarrow> runtime_ok s' = runtime_ok s"
  by (simp add: same_queue_def runtime_ok_def)

named_theorems queue_frame \<open>operations that leave the queue and the sync state alone\<close>

lemma installation_ops_queue [queue_frame]:
  "same_queue s (snd (createInstallation i s))"
  "same_queue s (snd (setInstallationStatus k org status now s))"
  "same_queue s (snd (updateInstallationConfig k org conf now s))"
  "same_queue s (snd (beginAttempt a s))"
  by (simp_all add: same_queue_def createInstallation_def setInstallationStatus_def updateInstallationConfig_def
      beginAttempt_def Let_def split: option.splits)

lemma lease_ops_queue [queue_frame]:
  "same_queue s (snd (acquireLease a s))" "same_queue s (snd (releaseLease r s))"
  "same_queue s (snd (resetCursor c s))"
  by (simp_all add: same_queue_def acquireLease_def releaseLease_def resetCursor_def Let_def
      split: option.splits sum.splits)

lemma settle_attempt_queue [queue_frame]: "same_queue s (snd (settleAttempt i s))"
  by (cases "map_of (rs_attempts s) (st_attempt_id i)";
      cases "map_of (rs_cursors s) (st_installation_id i, st_stream_key i)")
     (simp_all add: same_queue_def settleAttempt_def Let_def)

lemma commit_page_queue [queue_frame]: "same_queue s (snd (commitSyncPage a i s))"
  using settle_attempt_queue[of "snd (beginAttempt a s)" i] installation_ops_queue(4)[of s a]
  by (simp add: same_queue_def commitSyncPage_def)

lemma create_run_queue [queue_frame]: "same_queue s (snd (createSyncRun r s))"
  by (simp add: same_queue_def createSyncRun_def Let_def split: option.splits sum.splits)

text \<open>The operations on rows.\<close>

lemma same_row_updates [simp]:
  "same_row w (cancel_work now w)" "same_row w (claimed_work c e w)" "same_row w (reopen_work i w)"
  "same_row w (settled_work x w)"
  "same_row w (w\<lparr>wr_run_id := r\<rparr>)" "same_row w (w\<lparr>wr_lease_expires_at := l, wr_updated_at := n\<rparr>)"
  "same_row w (w\<lparr>wr_next_due_at := n, wr_updated_at := n\<rparr>)"
  by (simp_all add: same_row_def cancel_work_def claimed_work_def reopen_work_def settled_work_def)

lemma command_ok: "runtime_ok s \<Longrightarrow> runtime_ok (snd (commandSyncRun c s))"
  by (auto simp: runtime_ok_def commandSyncRun_def Let_def queue_ok_map_vals split: option.splits)

lemma delete_run_ok: "runtime_ok s \<Longrightarrow> runtime_ok (snd (deleteSyncRun d s))"
  by (auto simp: runtime_ok_def deleteSyncRun_def queue_ok_map_vals split: option.splits)

definition due_input_ok :: "enqueue_sync_work \<Rightarrow> bool" where
  "due_input_ok i \<longleftrightarrow> eq_id i = key_id (enqueue_key i) \<and> plain_id (eq_installation_id i)"

definition named_input :: "runtime_store \<Rightarrow> enqueue_sync_work \<Rightarrow> bool" where
  "named_input s i \<longleftrightarrow> plain_id (eq_installation_id i) \<and> eq_id i \<noteq> []
     \<and> (if due_name (eq_id i) then eq_id i = key_id (enqueue_key i)
        else case map_of (rs_work s) (eq_id i) of None \<Rightarrow> True | Some w \<Rightarrow> syncWorkUniqueKey w = enqueue_key i)"

lemma due_input_named: "due_input_ok i \<Longrightarrow> named_input s i"
  by (simp add: due_input_ok_def named_input_def)

lemma new_work_key: "syncWorkUniqueKey (new_work i) = enqueue_key i"
  by (simp add: new_work_def syncWorkUniqueKey_def enqueue_key_def)

lemma named_new_work: "named_input s i \<Longrightarrow> named_row (eq_id i) (new_work i)"
  by (simp add: named_row_def new_work_key named_input_def split: if_splits) (simp_all add: new_work_def)

text \<open>A named row with a new key has an unused id.\<close>

lemma named_input_free:
  assumes q: "queue_ok (rs_work s) (rs_workKeys s)" and "named_input s i"
    and new: "map_of (rs_workKeys s) (enqueue_key i) = None"
  shows "map_of (rs_work s) (eq_id i) = None"
proof (rule ccontr)
  assume "map_of (rs_work s) (eq_id i) \<noteq> None"
  then obtain w where w: "map_of (rs_work s) (eq_id i) = Some w" by blast
  have "syncWorkUniqueKey w = enqueue_key i"
  proof (cases "due_name (eq_id i)")
    case True
    with queue_ok_row[OF q w] assms(2) show ?thesis
      by (intro key_id_inj) (simp_all add: named_row_def named_input_def)
  qed (use assms(2) w in \<open>simp add: named_input_def\<close>)
  with queue_ok_stored[OF q w] new show False by simp
qed

lemma enqueue_ok:
  assumes "runtime_ok s" and "named_input s i"
  shows "runtime_ok (snd (enqueueSyncWork i s))"
proof -
  have q: "queue_ok (rs_work s) (rs_workKeys s)" using assms(1) by (simp add: runtime_ok_def)
  show ?thesis
  proof (cases "map_of (rs_workKeys s) (enqueue_key i)")
    case None
    have "queue_ok (js_set (eq_id i) (new_work i) (rs_work s)) (js_set (enqueue_key i) (eq_id i) (rs_workKeys s))"
      using queue_ok_insert[OF q _ named_input_free[OF q assms(2) None] named_new_work[OF assms(2)]] None
      by (simp add: new_work_key)
    with None assms(1) show ?thesis by (simp add: enqueueSyncWork_def runtime_ok_def)
  next
    case (Some rid)
    from queue_ok_key[OF q Some] obtain w where w: "map_of (rs_work s) rid = Some w" "rid \<noteq> []" by auto
    with queue_ok_update[OF q w(1) same_row_updates(3)[of w i]] Some assms(1) show ?thesis
      by (simp add: enqueueSyncWork_def runtime_ok_def)
  qed
qed

text \<open>An enqueue of a named row never reads a row that is gone.\<close>

lemma enqueue_returns:
  assumes "runtime_ok s" and "truthy (eq_run_id i) \<Longrightarrow> map_of (rs_runs s) (or_else (eq_run_id i) []) \<noteq> None"
  shows "\<exists>w. fst (enqueueSyncWork i s) = Inr w"
proof -
  have q: "queue_ok (rs_work s) (rs_workKeys s)" using assms(1) by (simp add: runtime_ok_def)
  have "map_of (rs_work s) rid \<noteq> None" if "map_of (rs_workKeys s) (enqueue_key i) = Some rid" for rid
    using queue_ok_key[OF q that] by auto
  with assms(2) show ?thesis
    by (cases "map_of (rs_workKeys s) (enqueue_key i)") (auto simp: enqueueSyncWork_def Let_def)
qed

lemma enqueue_many_ok:
  "runtime_ok s \<Longrightarrow> list_all due_input_ok is \<Longrightarrow> runtime_ok (snd (enqueueSyncWorkMany is s))"
  by (induction "is" arbitrary: s) (simp_all add: snd_enqueue_many enqueue_ok due_input_named del: enqueueSyncWorkMany.simps(2))

lemma work_ops_ok:
  assumes "runtime_ok s"
  shows "runtime_ok (snd (claimSyncWork lc c s))" "runtime_ok (snd (renewSyncWork r s))"
    "runtime_ok (snd (settleSyncWork x s))" "runtime_ok (snd (wakeUnassignedSyncWork w s))"
    "runtime_ok (cancelUnassignedStreams i ks now s)" "runtime_ok (cancel_lane st lane s)"
proof -
  have q: "queue_ok (rs_work s) (rs_workKeys s)" and m: "memory_ok (rs_sync s)"
    using assms by (simp_all add: runtime_ok_def)
  note upd = queue_ok_update[OF q] queue_ok_map[OF q] queue_ok_map_vals[OF q]
  show "runtime_ok (snd (claimSyncWork lc c s))"
    by (auto simp: runtime_ok_def claimSyncWork_def Let_def q m intro!: upd(2) split: sum.splits)
  show "runtime_ok (snd (renewSyncWork r s))"
    using upd(1) by (auto simp: runtime_ok_def renewSyncWork_def q m split: option.splits sum.splits)
  show "runtime_ok (snd (settleSyncWork x s))"
    using upd(1) by (auto simp: runtime_ok_def settleSyncWork_def Let_def q m split: option.splits)
  show "runtime_ok (snd (wakeUnassignedSyncWork w s))"
    by (auto simp: runtime_ok_def wakeUnassignedSyncWork_def q m intro!: upd(3))
  show "runtime_ok (cancelUnassignedStreams i ks now s)"
    by (auto simp: runtime_ok_def cancelUnassignedStreams_def q m intro!: upd(3))
  show "runtime_ok (cancel_lane st lane s)"
    by (auto simp: runtime_ok_def cancel_lane_def q m intro!: upd(3))
qed

lemma cancel_lanes_ok: "runtime_ok s \<Longrightarrow> runtime_ok (fold (cancel_lane x) lanes s)"
  by (induction lanes arbitrary: s) (simp_all add: work_ops_ok)

lemma named_due_input: "plain_id (ss_installation_id x) \<Longrightarrow> due_input_ok (due_input x lane)"
  by (simp add: due_input_ok_def due_input_def enqueue_key_def key_id_def)

lemma ensure_ok:
  assumes "runtime_ok s" and "plain_id (ss_installation_id x)"
  shows "runtime_ok (snd (ensureOwedSyncWork x s))"
  using enqueue_many_ok[OF assms(1)] named_due_input[OF assms(2)]
  by (simp add: snd_ensure Let_def cancel_lanes_ok list.pred_map comp_def list_all_iff)

lemma runtime_ok_sync: "runtime_ok s \<Longrightarrow> memory_ok m \<Longrightarrow> runtime_ok (s\<lparr>rs_sync := m\<rparr>)"
  by (simp add: runtime_ok_def)

lemma put_ok:
  assumes "runtime_ok s" and "plain_id (ss_installation_id x)"
  shows "runtime_ok (snd (rt_putSyncState x s))"
proof -
  let ?y = "releaseHistoryPhase x (policy_of s (ss_installation_id x))"
  have y: "plain_id (ss_installation_id ?y)" "no_nul (ss_installation_id ?y)"
    using assms(2) by (simp_all add: plain_id_def)
  have m: "memory_ok (rs_sync s)" using assms(1) by (simp add: runtime_ok_def)
  show ?thesis
    using y assms(1)
    by (simp add: snd_put Let_def work_ops_ok runtime_ok_sync memory_ok_drop[OF m] memory_ok_put[OF m] ensure_ok
        del: releaseHistoryPhase_frame)
qed

lemma apply_page_ok: "runtime_ok s \<Longrightarrow> runtime_ok (snd (applyCatalogPage p s))"
proof -
  assume ok: "runtime_ok s"
  have m: "memory_ok (snd (applySyncCatalogPage p (rs_sync s)))"
    using ok by (simp add: runtime_ok_def applySyncCatalogPage_def Let_def memory_ok_def)
  have "memory_ok (fold (dropSyncState i) ks t)" if "memory_ok t" for i ks t
    using that by (induction ks arbitrary: t) (simp_all add: memory_ok_drop)
  with ok m show ?thesis
    by (auto simp: applyCatalogPage_def Let_def work_ops_ok runtime_ok_sync split: prod.splits)
qed

lemma delete_keys:
  "map_of (fold (\<lambda>w. AList.delete (syncWorkUniqueKey w)) gone keys) key =
     (if key \<in> syncWorkUniqueKey ` set gone then None else map_of keys key)"
  by (induction gone arbitrary: keys) auto

lemma delete_installation_ok: "runtime_ok s \<Longrightarrow> runtime_ok (snd (deleteInstallation i org s))"
proof (cases "own_installation i org s")
  case (Some inst)
  assume ok: "runtime_ok s"
  then have q: "queue_ok (rs_work s) (rs_workKeys s)" and d: "distinct (js_keys (rs_work s))"
    by (simp_all add: runtime_ok_def queue_ok_def)
  let ?gone = "List.filter (\<lambda>w. wr_installation_id w = i) (js_values (rs_work s))"
  let ?work = "delete_where (\<lambda>_ w. wr_installation_id w = i) (rs_work s)"
  let ?keys = "fold (\<lambda>w. AList.delete (syncWorkUniqueKey w)) ?gone (rs_workKeys s)"
  have old: "map_of (rs_workKeys s) key = Some r \<longleftrightarrow> (\<exists>u. map_of (rs_work s) r = Some u \<and> syncWorkUniqueKey u = key)" for key r
    using q unfolding queue_ok_def indexes_def by blast
  have gone: "syncWorkUniqueKey u \<in> syncWorkUniqueKey ` set ?gone \<longleftrightarrow> wr_installation_id u = i"
    if "map_of (rs_work s) r = Some u" for r u
  proof
    assume "wr_installation_id u = i"
    with that show "syncWorkUniqueKey u \<in> syncWorkUniqueKey ` set ?gone" by (force dest!: map_of_SomeD)
  qed (auto simp: syncWorkUniqueKey_def)
  have "map_of ?keys key = Some r \<longleftrightarrow> (\<exists>u. map_of ?work r = Some u \<and> syncWorkUniqueKey u = key)" for key r
  proof (cases "\<exists>u. map_of (rs_work s) r = Some u \<and> syncWorkUniqueKey u = key")
    case True
    then obtain u where u: "map_of (rs_work s) r = Some u" "syncWorkUniqueKey u = key" by blast
    then have "map_of (rs_workKeys s) key = Some r" using old by blast
    with gone[OF u(1)] u show ?thesis
      unfolding delete_keys map_of_delete_where[OF d] by (simp add: u del: set_filter)
  next
    case False
    then show ?thesis
      unfolding delete_keys map_of_delete_where[OF d] using old[of key r] by (auto split: option.splits if_splits)
  qed
  then have "indexes ?keys ?work" unfolding indexes_def by blast
  with q have "queue_ok ?work ?keys" by (auto simp: queue_ok_def)
  with ok Some show ?thesis by (simp add: runtime_ok_def deleteInstallation_def Let_def memory_ok_clear)
qed (simp add: deleteInstallation_def)

text \<open>The calls of a well-behaved client: rows named by the convention, plain installation ids.\<close>

fun named_op :: "runtime_store \<Rightarrow> runtime_op \<Rightarrow> bool" where
  "named_op s (OpEnqueue i) = named_input s i"
| "named_op s (OpEnqueueMany is) = list_all due_input_ok is"
| "named_op s (OpPutState x) = plain_id (ss_installation_id x)"
| "named_op s _ = True"

fun named_ops :: "(string \<Rightarrow> string \<Rightarrow> int) \<Rightarrow> runtime_op list \<Rightarrow> runtime_store \<Rightarrow> bool" where
  "named_ops lc [] s = True"
| "named_ops lc (op # ops) s = (named_op s op \<and> named_ops lc ops (runtime_step lc op s))"

lemma runtime_ok_step:
  assumes "runtime_ok s" and "named_op s op" shows "runtime_ok (runtime_step lc op s)"
  using assms
  by (cases op) (simp_all add: queue_frame[THEN same_queue_ok] command_ok delete_run_ok enqueue_ok enqueue_many_ok
      work_ops_ok put_ok apply_page_ok delete_installation_ok)

lemma runtime_ok_steps:
  "runtime_ok s \<Longrightarrow> named_ops lc ops s \<Longrightarrow> runtime_ok (fold (runtime_step lc) ops s)"
  by (induction ops arbitrary: s) (simp_all add: runtime_ok_step)

subsection \<open>One row per key\<close>

lemma queue_ok_values:
  assumes q: "queue_ok work keys"
  shows "distinct (List.map syncWorkUniqueKey (js_values work))"
proof -
  have d: "distinct (js_keys work)" using q by (simp add: queue_ok_def)
  then have "r = the (map_of keys (syncWorkUniqueKey w))" if "(r, w) \<in> set work" for r w
    using queue_ok_stored[OF q, of r w] that by simp
  then have "js_keys work = List.map (\<lambda>key. the (map_of keys key)) (List.map syncWorkUniqueKey (js_values work))"
    by fastforce
  moreover have "distinct (js_keys work)" using q by (simp add: queue_ok_def)
  ultimately show ?thesis by (metis distinct_map)
qed

lemma enqueue_result_key:
  assumes "runtime_ok s" and "fst (enqueueSyncWork i s) = Inr w"
  shows "syncWorkUniqueKey w = enqueue_key i"
proof -
  have q: "queue_ok (rs_work s) (rs_workKeys s)" using assms(1) by (simp add: runtime_ok_def)
  show ?thesis
  proof (cases "map_of (rs_workKeys s) (enqueue_key i)")
    case None
    with assms(2) show ?thesis by (auto simp: enqueueSyncWork_def new_work_key Let_def split: if_splits)
  next
    case (Some rid)
    from queue_ok_key[OF q Some] obtain u where "map_of (rs_work s) rid = Some u" "syncWorkUniqueKey u = enqueue_key i" "rid \<noteq> []"
      by auto
    with Some assms(2) same_row_key[OF same_row_updates(3)[of u i]] show ?thesis
      by (auto simp: enqueueSyncWork_def Let_def split: if_splits)
  qed
qed

text \<open>C13. Whatever operations a client makes, every installation, stream, lane and generation has at
  most one work row, and asking for work on one returns that row: the id kept for a key always leads to
  a stored row with this key.\<close>

theorem one_row_per_key:
  assumes "named_ops lc ops new_runtime_store" and "s = fold (runtime_step lc) ops new_runtime_store"
  shows "distinct (List.map syncWorkUniqueKey (js_values (rs_work s)))
    \<and> (\<forall>i. \<not> truthy (eq_run_id i) \<longrightarrow>
        (\<exists>w. fst (enqueueSyncWork i s) = Inr w \<and> syncWorkUniqueKey w = enqueue_key i))"
proof -
  have ok: "runtime_ok s" using runtime_ok_steps[OF runtime_ok_new assms(1)] assms(2) by simp
  then have "distinct (List.map syncWorkUniqueKey (js_values (rs_work s)))"
    using queue_ok_values[of "rs_work s" "rs_workKeys s"] by (simp add: runtime_ok_def)
  moreover have "\<exists>w. fst (enqueueSyncWork i s) = Inr w \<and> syncWorkUniqueKey w = enqueue_key i"
    if "\<not> truthy (eq_run_id i)" for i
    using enqueue_returns[OF ok] enqueue_result_key[OF ok] that by blast
  ultimately show ?thesis by blast
qed

definition sample_input :: "sync_lane \<Rightarrow> int \<Rightarrow> enqueue_sync_work" where
  "sample_input lane t = \<lparr>eq_id = dueSyncWorkId ''i'' ''k'' lane 1, eq_run_id = None,
     eq_installation_id = ''i'', eq_stream_key = ''k'', eq_lane = lane, eq_priority = None,
     eq_next_due_at = iso_string t, eq_generation = 1, eq_now = iso_string t\<rparr>"

lemma sample_input_named: "named_input s (sample_input lane t)"
  by (rule due_input_named) (simp add: due_input_ok_def sample_input_def enqueue_key_def key_id_def plain_id_def no_nul_def)

theorem one_row_per_key_witness:
  "length (rs_work (runtime_step (\<lambda>_ _. 0) (OpEnqueue (sample_input LaneLive 0)) new_runtime_store)) = 1
   \<and> distinct (List.map syncWorkUniqueKey (js_values (rs_work
       (runtime_step (\<lambda>_ _. 0) (OpEnqueue (sample_input LaneLive 0)) new_runtime_store))))"
  using one_row_per_key[of "\<lambda>_ _. 0" "[OpEnqueue (sample_input LaneLive 0)]"] sample_input_named
  by (simp add: enqueueSyncWork_def new_runtime_store_def sample_input_def)

subsection \<open>Claims\<close>

lemma claimed_work_fields [simp]:
  "wr_id (claimed_work i e w) = wr_id w" "wr_status (claimed_work i e w) = WorkRunning"
  "wr_lease_owner (claimed_work i e w) = Some (cl_owner i)"
  "wr_lease_expires_at (claimed_work i e w) = Some e" "wr_run_id (claimed_work i e w) = wr_run_id w"
  "wr_installation_id (claimed_work i e w) = wr_installation_id w"
  "wr_priority (claimed_work i e w) = wr_priority w"
  by (simp_all add: claimed_work_def)

lemma claim_entries_set: "set (claim_entries lc i s) \<subseteq> {e \<in> set (rs_work s). claimable i s (snd e)}"
  unfolding claim_entries_def using set_take_subset by (fastforce simp: set_js_sort)

lemma claim_entries_distinct:
  assumes "runtime_ok s" shows "distinct (List.map fst (claim_entries lc i s))"
proof -
  have "distinct (js_keys (rs_work s))" using assms by (simp add: runtime_ok_def queue_ok_def)
  then have "distinct (List.map fst (js_sort (\<lambda>a b. compare_work lc (snd a) (snd b))
      (List.filter (\<lambda>e. claimable i s (snd e)) (rs_work s))))"
    using distinct_map_filter[of fst "rs_work s"]
    by (metis mset_js_sort mset_map mset_eq_imp_distinct_iff)
  then show ?thesis by (simp add: claim_entries_def flip: take_map)
qed

lemma claimed_rows:
  "map_of (List.map (\<lambda>(k, w). (k, if k \<in> K then f w else w)) m) k =
     map_option (\<lambda>w. if k \<in> K then f w else w) (map_of m k)"
  by (induction m) auto

lemma claim_result:
  assumes "runtime_ok s" and "claimSyncWork lc i s = (Inr ws, s')"
  shows "distinct (List.map wr_id ws) \<and> int (length ws) \<le> max 0 (cl_limit i)
    \<and> (\<forall>w\<in>set ws. wr_status w = WorkRunning \<and> wr_lease_owner w = Some (cl_owner i)
        \<and> (\<exists>e. add_ms (cl_now i) (cl_lease_ms i) = Inr e \<and> wr_lease_expires_at w = Some e)
        \<and> map_of (rs_work s') (wr_id w) = Some w
        \<and> (\<exists>w0. map_of (rs_work s) (wr_id w) = Some w0 \<and> claimable i s w0 \<and> wr_attempts w = wr_attempts w0 + 1))
    \<and> (\<forall>rid. rid \<notin> wr_id ` set ws \<longrightarrow> map_of (rs_work s') rid = map_of (rs_work s) rid)
    \<and> (int (length ws) < cl_limit i \<longrightarrow>
        (\<forall>rid w0. map_of (rs_work s) rid = Some w0 \<and> claimable i s w0 \<longrightarrow> rid \<in> wr_id ` set ws))"
proof -
  let ?es = "claim_entries lc i s"
  from assms(2) obtain e where e: "add_ms (cl_now i) (cl_lease_ms i) = Inr e"
    by (auto simp: claimSyncWork_def split: sum.splits)
  with assms(2) have ws: "ws = List.map (\<lambda>x. claimed_work i e (snd x)) ?es"
    and work: "rs_work s' = List.map (\<lambda>(k, w). (k, if k \<in> fst ` set ?es then claimed_work i e w else w)) (rs_work s)"
    by (auto simp: claimSyncWork_def Let_def)
  have q: "queue_ok (rs_work s) (rs_workKeys s)" using assms(1) by (simp add: runtime_ok_def)
  then have d: "distinct (js_keys (rs_work s))" by (simp add: queue_ok_def)
  have ent: "wr_id w = rid \<and> map_of (rs_work s) rid = Some w \<and> claimable i s w" if "(rid, w) \<in> set ?es" for rid w
    using claim_entries_set[of lc i s] that q d by (auto simp: queue_ok_def named_row_def)
  have ids: "List.map wr_id ws = List.map fst ?es" using ent by (auto simp: ws)
  then have idset: "wr_id ` set ws = fst ` set ?es" by (metis image_set)
  have "distinct (List.map wr_id ws)" using claim_entries_distinct[OF assms(1)] ids by simp
  moreover have "int (length ws) \<le> max 0 (cl_limit i)" by (simp add: ws claim_entries_def)
  moreover have "\<forall>w\<in>set ws. wr_status w = WorkRunning \<and> wr_lease_owner w = Some (cl_owner i)
        \<and> (\<exists>e. add_ms (cl_now i) (cl_lease_ms i) = Inr e \<and> wr_lease_expires_at w = Some e)
        \<and> map_of (rs_work s') (wr_id w) = Some w
        \<and> (\<exists>w0. map_of (rs_work s) (wr_id w) = Some w0 \<and> claimable i s w0 \<and> wr_attempts w = wr_attempts w0 + 1)"
  proof
    fix w assume "w \<in> set ws"
    then obtain rid u where u: "(rid, u) \<in> set ?es" "w = claimed_work i e u" by (auto simp: ws)
    with ent have k: "wr_id w = rid" "map_of (rs_work s) rid = Some u" "claimable i s u" by auto
    have "rid \<in> fst ` set ?es" using u(1) by force
    then have "map_of (rs_work s') rid = Some w" by (simp add: work claimed_rows k(2) u(2))
    with k u(2) e show "wr_status w = WorkRunning \<and> wr_lease_owner w = Some (cl_owner i)
        \<and> (\<exists>e. add_ms (cl_now i) (cl_lease_ms i) = Inr e \<and> wr_lease_expires_at w = Some e)
        \<and> map_of (rs_work s') (wr_id w) = Some w
        \<and> (\<exists>w0. map_of (rs_work s) (wr_id w) = Some w0 \<and> claimable i s w0 \<and> wr_attempts w = wr_attempts w0 + 1)"
      by (auto simp: claimed_work_def)
  qed
  moreover have "\<forall>rid. rid \<notin> wr_id ` set ws \<longrightarrow> map_of (rs_work s') rid = map_of (rs_work s) rid"
    unfolding idset work claimed_rows by (auto simp: option.map_ident)
  moreover have "rid \<in> wr_id ` set ws"
    if "int (length ws) < cl_limit i" "map_of (rs_work s) rid = Some w0" "claimable i s w0" for rid w0
  proof -
    have "length ?es < nat (max 0 (cl_limit i))" using that(1) by (simp add: ws)
    then have "set ?es = {e \<in> set (rs_work s). claimable i s (snd e)}"
      by (auto simp: claim_entries_def min_def split: if_splits)
    with that(2,3) have "(rid, w0) \<in> set ?es" by (auto dest: map_of_SomeD)
    then show ?thesis unfolding idset by force
  qed
  ultimately show ?thesis by blast
qed

text \<open>C14. A claim returns at most \<open>limit\<close> rows, each a different one, each claimable before the
  call; it returns them as it stores them, running under the claimer's name until the lease expires;
  it returns all claimable rows unless the limit is reached; no other row changes.\<close>

theorem claim_takes_claimable_rows:
  assumes "runtime_ok s" and "claimSyncWork lc i s = (Inr ws, s')"
  shows "distinct (List.map wr_id ws) \<and> int (length ws) \<le> max 0 (cl_limit i)
    \<and> (\<forall>w\<in>set ws. wr_status w = WorkRunning \<and> wr_lease_owner w = Some (cl_owner i)
        \<and> (\<exists>e. add_ms (cl_now i) (cl_lease_ms i) = Inr e \<and> wr_lease_expires_at w = Some e)
        \<and> map_of (rs_work s') (wr_id w) = Some w
        \<and> (\<exists>w0. map_of (rs_work s) (wr_id w) = Some w0 \<and> claimable i s w0 \<and> wr_attempts w = wr_attempts w0 + 1))
    \<and> (\<forall>rid. rid \<notin> wr_id ` set ws \<longrightarrow> map_of (rs_work s') rid = map_of (rs_work s) rid)
    \<and> (int (length ws) < cl_limit i \<longrightarrow>
        (\<forall>rid w0. map_of (rs_work s) rid = Some w0 \<and> claimable i s w0 \<longrightarrow> rid \<in> wr_id ` set ws))"
  by (rule claim_result[OF assms])

definition sample_claim :: "string \<Rightarrow> int \<Rightarrow> claim_sync_work" where
  "sample_claim w t = \<lparr>cl_owner = w, cl_now = iso_string t, cl_lease_ms = 60000, cl_limit = 5,
     cl_work_id = None, cl_installation_id = None, cl_lanes = None, cl_unassigned = False\<rparr>"

definition sample_queue :: runtime_store where
  "sample_queue = snd (enqueueSyncWork (sample_input LaneLive 0) new_runtime_store)"

lemma sample_queue_ok: "runtime_ok sample_queue"
  unfolding sample_queue_def by (rule enqueue_ok[OF runtime_ok_new sample_input_named])

definition sample_row :: sync_work_record where
  "sample_row = new_work (sample_input LaneLive 0)"

lemma sample_queue_work: "rs_work sample_queue = [(dueSyncWorkId ''i'' ''k'' LaneLive 1, sample_row)]"
  by (simp add: sample_queue_def sample_row_def enqueueSyncWork_def new_runtime_store_def sample_input_def)

lemma sample_claimed:
  "claimSyncWork lc (sample_claim w 1000) sample_queue =
     (Inr [claimed_work (sample_claim w 1000) (iso_string 61000) sample_row],
      snd (claimSyncWork lc (sample_claim w 1000) sample_queue))"
proof -
  have "iso_string 0 \<le> iso_string 1000" by (simp add: iso_string_less_iff four_digit_time_def less_imp_le)
  then have "claimable (sample_claim w 1000) sample_queue sample_row"
    by (simp add: claimable_def sample_claim_def sample_row_def new_work_def sample_input_def)
  then have "claim_entries lc (sample_claim w 1000) sample_queue = [(dueSyncWorkId ''i'' ''k'' LaneLive 1, sample_row)]"
    by (simp add: claim_entries_def sample_queue_work js_sort_def sample_claim_def)
  then show ?thesis
    by (simp add: claimSyncWork_def Let_def sample_claim_def add_ms_iso_string max_time_def)
qed

theorem claim_takes_claimable_rows_witness:
  "\<exists>s'. claimSyncWork (\<lambda>_ _. 0) (sample_claim ''a'' 1000) sample_queue
      = (Inr [claimed_work (sample_claim ''a'' 1000) (iso_string 61000) sample_row], s')
    \<and> map_of (rs_work s') (dueSyncWorkId ''i'' ''k'' LaneLive 1)
      = Some (claimed_work (sample_claim ''a'' 1000) (iso_string 61000) sample_row)"
  using claim_takes_claimable_rows[OF sample_queue_ok sample_claimed[of "\<lambda>_ _. 0" "''a''"]] sample_claimed
  by (auto simp: sample_row_def new_work_def sample_input_def)

end
