(* ===== verification/RuntimeClaims.thy ===== *)
theory RuntimeClaims
  imports RuntimeQueue
begin

section \<open>A claimed row belongs to its claimer\<close>

text \<open>
  The lease of a work row: what may end it, that nothing else changes the row, and that until then no
  other claim, renewal or settlement succeeds on it.
\<close>

text \<open>What ends the claim on the running row \<open>w\<close> of \<open>owner\<close> before it expires at \<open>e\<close>: the
  deletion of its installation or run, the cancellation of its run, the departure of its stream from
  the catalog, the end of its time, and the owner's own calls.\<close>

fun ends_claim :: "sync_work_record \<Rightarrow> string \<Rightarrow> string \<Rightarrow> runtime_store \<Rightarrow> runtime_op \<Rightarrow> bool" where
  "ends_claim w owner e s (OpDeleteInstallation i _) = (wr_installation_id w = i)"
| "ends_claim w owner e s (OpCommandRun c) = (cr_command c = CommandCancel
     \<and> (case map_of (rs_runs s) (cr_id c) of None \<Rightarrow> False | Some run \<Rightarrow> wr_run_id w = Some (sr_id run)))"
| "ends_claim w owner e s (OpDeleteRun d) = (wr_run_id w = Some (dr_id d))"
| "ends_claim w owner e s (OpClaim c) = (e \<le> cl_now c)"
| "ends_claim w owner e s (OpRenew r) = (rn_id r = wr_id w \<and> rn_owner r = owner)"
| "ends_claim w owner e s (OpSettleWork x) = (sx_id x = wr_id w \<and> sx_owner x = owner)"
| "ends_claim w owner e s (OpPutState x) = (\<not> truthy (wr_run_id w)
     \<and> ss_installation_id x = wr_installation_id w \<and> ss_stream_key x = wr_stream_key w \<and> put_drops x s)"
| "ends_claim w owner e s (OpApplyPage p) = (\<not> truthy (wr_run_id w) \<and> ap_complete p
     \<and> ap_installation_id p = wr_installation_id w
     \<and> wr_stream_key w \<in> set (catalogStreamKeysLeft (getSyncCatalog (ap_installation_id p) (rs_sync s))
          (fst (applySyncCatalogPage p (rs_sync s)))))"
| "ends_claim w owner e s _ = False"

fun undisturbed ::
  "(string \<Rightarrow> string \<Rightarrow> int) \<Rightarrow> sync_work_record \<Rightarrow> string \<Rightarrow> string \<Rightarrow> runtime_op list \<Rightarrow> runtime_store \<Rightarrow> bool" where
  "undisturbed lc w owner e [] s = True"
| "undisturbed lc w owner e (op # ops) s =
     (\<not> ends_claim w owner e s op \<and> undisturbed lc w owner e ops (runtime_step lc op s))"

definition holds_row :: "sync_work_record \<Rightarrow> string \<Rightarrow> string \<Rightarrow> runtime_store \<Rightarrow> bool" where
  "holds_row w owner e s \<longleftrightarrow> map_of (rs_work s) (wr_id w) = Some w \<and> wr_status w = WorkRunning
     \<and> wr_lease_owner w = Some owner \<and> wr_lease_expires_at w = Some e \<and> e \<noteq> []"

lemma holds_row_cong: "rs_work s' = rs_work s \<Longrightarrow> holds_row w owner e s' = holds_row w owner e s"
  by (simp add: holds_row_def)

lemma holds_row_get:
  "holds_row w owner e s \<Longrightarrow> map_of (rs_work s') (wr_id w) = map_of (rs_work s) (wr_id w) \<Longrightarrow> holds_row w owner e s'"
  by (simp add: holds_row_def)

lemma holds_map_vals:
  "holds_row w owner e s \<Longrightarrow> f w = w \<Longrightarrow> rs_work s' = map_vals f (rs_work s) \<Longrightarrow> holds_row w owner e s'"
  by (simp add: holds_row_def)

lemma holds_enqueue:
  assumes "runtime_ok s" and "named_input s i" and h: "holds_row w owner e s"
  shows "holds_row w owner e (snd (enqueueSyncWork i s))"
proof -
  have q: "queue_ok (rs_work s) (rs_workKeys s)" using assms(1) by (simp add: runtime_ok_def)
  show ?thesis
  proof (cases "map_of (rs_workKeys s) (enqueue_key i)")
    case None
    have "map_of (rs_work s) (eq_id i) = None"
      by (rule named_input_free[OF q assms(2) None])
    with h have "eq_id i \<noteq> wr_id w" by (auto simp: holds_row_def)
    with None h show ?thesis by (simp add: enqueueSyncWork_def holds_row_def)
  next
    case (Some rid)
    from queue_ok_key[OF q Some] obtain u where u: "map_of (rs_work s) rid = Some u" "rid \<noteq> []" by auto
    show ?thesis
    proof (cases "rid = wr_id w")
      case True
      with u(1) h have "reopen_work i u = w" by (simp add: holds_row_def reopen_work_def)
      with Some u h True show ?thesis by (simp add: enqueueSyncWork_def holds_row_def)
    qed (use Some u h in \<open>simp add: enqueueSyncWork_def holds_row_def\<close>)
  qed
qed

lemma holds_enqueue_many:
  "runtime_ok s \<Longrightarrow> list_all due_input_ok is \<Longrightarrow> holds_row w owner e s \<Longrightarrow>
   holds_row w owner e (snd (enqueueSyncWorkMany is s))"
  by (induction "is" arbitrary: s)
     (simp_all add: snd_enqueue_many enqueue_ok holds_enqueue due_input_named del: enqueueSyncWorkMany.simps(2))

lemma holds_cancel_lane: "holds_row w owner e s \<Longrightarrow> holds_row w owner e (cancel_lane x lane s)"
  by (simp add: cancel_lane_def holds_row_def)

lemma holds_cancel_lanes: "holds_row w owner e s \<Longrightarrow> holds_row w owner e (fold (cancel_lane x) lanes s)"
  by (induction lanes arbitrary: s) (simp_all add: holds_cancel_lane)

lemma holds_ensure:
  assumes "runtime_ok s" and "plain_id (ss_installation_id x)" and "holds_row w owner e s"
  shows "holds_row w owner e (snd (ensureOwedSyncWork x s))"
  using holds_enqueue_many[OF assms(1) _ assms(3)] named_due_input[OF assms(2)]
  by (simp add: snd_ensure Let_def holds_cancel_lanes list_all_iff)

lemma holds_cancel_streams:
  assumes "holds_row w owner e s"
    and "truthy (wr_run_id w) \<or> wr_installation_id w \<noteq> i \<or> wr_stream_key w \<notin> set ks"
  shows "holds_row w owner e (cancelUnassignedStreams i ks now s)"
  using assms by (auto simp: cancelUnassignedStreams_def holds_row_def)

lemma put_drops_release [simp]: "put_drops (releaseHistoryPhase x p) s = put_drops x s"
  by (simp add: put_drops_def)

lemma holds_put:
  assumes ok: "runtime_ok s" and x: "plain_id (ss_installation_id x)" and h: "holds_row w owner e s"
    and "\<not> ends_claim w owner e s (OpPutState x)"
  shows "holds_row w owner e (snd (rt_putSyncState x s))"
proof -
  let ?y = "releaseHistoryPhase x (policy_of s (ss_installation_id x))"
  have m: "memory_ok (snd (putSyncState ?y (rs_sync s)))"
    by (rule memory_ok_put) (use ok x in \<open>simp_all add: runtime_ok_def plain_id_def\<close>)
  have "holds_row w owner e (snd (ensureOwedSyncWork ?y (s\<lparr>rs_sync := snd (putSyncState ?y (rs_sync s))\<rparr>)))"
    by (rule holds_ensure[OF runtime_ok_sync[OF ok m]]) (use x h in \<open>simp_all add: holds_row_def\<close>)
  moreover have "holds_row w owner e (cancelUnassignedStreams (ss_installation_id x) [ss_stream_key x] now
      (s\<lparr>rs_sync := t\<rparr>))" if "put_drops x s" for now t
    by (rule holds_cancel_streams) (use that h assms(4) in \<open>auto simp: holds_row_def\<close>)
  ultimately show ?thesis by (simp add: snd_put Let_def)
qed

lemma holds_apply:
  assumes h: "holds_row w owner e s" and "\<not> ends_claim w owner e s (OpApplyPage p)"
  shows "holds_row w owner e (snd (applyCatalogPage p s))"
proof -
  have h': "holds_row w owner e (s\<lparr>rs_sync := t\<rparr>)" for t using h by (simp add: holds_row_def)
  show ?thesis
    using assms(2) by (auto simp: applyCatalogPage_def Let_def split_beta intro!: h' holds_cancel_streams)
qed

lemma holds_claim:
  assumes h: "holds_row w owner e s" and "runtime_ok s" and "cl_now c < e"
  shows "holds_row w owner e (snd (claimSyncWork lc c s))"
    and "claimSyncWork lc c s = (Inr ws, s') \<Longrightarrow> wr_id w \<notin> wr_id ` set ws"
proof -
  have no: "\<not> claimable c s w" using h assms(3) by (auto simp: claimable_def holds_row_def)
  have row: "map_of (rs_work s) (wr_id w) = Some w" using h by (simp add: holds_row_def)
  have d: "distinct (js_keys (rs_work s))" using assms(2) by (simp add: runtime_ok_def queue_ok_def)
  have only: "u = w" if "(wr_id w, u) \<in> set (rs_work s)" for u using that row d by simp
  have out: "wr_id w \<notin> fst ` set (claim_entries lc c s)"
    using claim_entries_set[of lc c s] no only by fastforce
  then show "holds_row w owner e (snd (claimSyncWork lc c s))"
    using h by (auto simp: claimSyncWork_def Let_def holds_row_def claimed_rows split: sum.splits)
  assume "claimSyncWork lc c s = (Inr ws, s')"
  then obtain x where ws: "ws = List.map (\<lambda>u. claimed_work c x (snd u)) (claim_entries lc c s)"
    by (auto simp: claimSyncWork_def Let_def split: sum.splits)
  have "wr_id u = rid" if "(rid, u) \<in> set (claim_entries lc c s)" for rid u
    using claim_entries_set[of lc c s] that assms(2) by (auto simp: runtime_ok_def queue_ok_def named_row_def)
  with out show "wr_id w \<notin> wr_id ` set ws" by (force simp: ws)
qed

lemma holds_command:
  assumes h: "holds_row w owner e s" and "\<not> ends_claim w owner e s (OpCommandRun c)"
  shows "holds_row w owner e (snd (commandSyncRun c s))"
proof (cases "map_of (rs_runs s) (cr_id c)")
  case (Some run)
  let ?f = "\<lambda>u. if wr_run_id u = Some (sr_id run) \<and> open_work u then cancel_work (cr_now c) u else u"
  have row: "map_of (rs_work s) (wr_id w) = Some w" using h by (simp add: holds_row_def)
  have "cr_command c = CommandCancel \<longrightarrow> ?f w = w" using assms(2) Some by auto
  then have "map_of (rs_work (snd (commandSyncRun c s))) (wr_id w) = Some w"
    by (auto simp: commandSyncRun_def Let_def Some row)
  then show ?thesis by (intro holds_row_get[OF h]) (simp only: row)
qed (use h in \<open>simp add: commandSyncRun_def\<close>)

lemma holds_delete_run:
  assumes h: "holds_row w owner e s" and "wr_run_id w \<noteq> Some (dr_id d)"
  shows "holds_row w owner e (snd (deleteSyncRun d s))"
proof -
  let ?f = "\<lambda>u. if wr_run_id u = Some (dr_id d) then u\<lparr>wr_run_id := None\<rparr> else u"
  have "?f w = w" using assms(2) by simp
  then show ?thesis
    by (auto simp: deleteSyncRun_def h intro!: holds_map_vals[OF h] split: option.splits)
qed

lemma holds_wake:
  assumes h: "holds_row w owner e s" shows "holds_row w owner e (snd (wakeUnassignedSyncWork k s))"
proof -
  have "\<not> wakes k w" using h by (simp add: wakes_def holds_row_def)
  then have "map_of (rs_work (snd (wakeUnassignedSyncWork k s))) (wr_id w) = map_of (rs_work s) (wr_id w)"
    using h by (simp add: wakeUnassignedSyncWork_def holds_row_def)
  then show ?thesis by (rule holds_row_get[OF h])
qed

lemma other_settles:
  assumes h: "holds_row w owner e s" and "sx_id x = wr_id w \<Longrightarrow> sx_owner x \<noteq> owner"
  shows "holds_row w owner e (snd (settleSyncWork x s))" and "sx_id x = wr_id w \<Longrightarrow> settleSyncWork x s = (None, s)"
proof -
  show *: "settleSyncWork x s = (None, s)" if "sx_id x = wr_id w"
    using that assms by (auto simp: settleSyncWork_def holds_row_def)
  show "holds_row w owner e (snd (settleSyncWork x s))"
  proof (cases "sx_id x = wr_id w")
    case False
    have "map_of (rs_work (snd (settleSyncWork x s))) (wr_id w) = map_of (rs_work s) (wr_id w)"
      using False by (simp add: settleSyncWork_def Let_def split: option.splits)
    then show ?thesis by (rule holds_row_get[OF h])
  qed (simp add: * h)
qed

lemma other_renews:
  assumes h: "holds_row w owner e s" and "rn_id r = wr_id w \<Longrightarrow> rn_owner r \<noteq> owner"
  shows "holds_row w owner e (snd (renewSyncWork r s))" and "rn_id r = wr_id w \<Longrightarrow> renewSyncWork r s = (Inr False, s)"
proof -
  show *: "renewSyncWork r s = (Inr False, s)" if "rn_id r = wr_id w"
    using that assms by (auto simp: renewSyncWork_def holds_row_def)
  show "holds_row w owner e (snd (renewSyncWork r s))"
  proof (cases "rn_id r = wr_id w")
    case False
    have "map_of (rs_work (snd (renewSyncWork r s))) (wr_id w) = map_of (rs_work s) (wr_id w)"
      using False by (simp add: renewSyncWork_def split: option.splits sum.splits)
    then show ?thesis by (rule holds_row_get[OF h])
  qed (simp add: * h)
qed

lemma holds_delete_installation:
  assumes h: "holds_row w owner e s" and "runtime_ok s" and "wr_installation_id w \<noteq> i"
  shows "holds_row w owner e (snd (deleteInstallation i org s))"
proof (cases "own_installation i org s")
  case (Some inst)
  have d: "distinct (js_keys (rs_work s))" using assms(2) by (simp add: runtime_ok_def queue_ok_def)
  have row: "map_of (rs_work s) (wr_id w) = Some w" using h by (simp add: holds_row_def)
  have "map_of (rs_work (snd (deleteInstallation i org s))) (wr_id w) = Some w"
    using assms(3) by (simp add: deleteInstallation_def Let_def Some map_of_delete_where[OF d] row)
  then show ?thesis by (intro holds_row_get[OF h]) (simp only: row)
qed (use h in \<open>simp add: deleteInstallation_def\<close>)

lemma same_queue_holds: "same_queue s s' \<Longrightarrow> holds_row w owner e s' = holds_row w owner e s"
  by (simp add: same_queue_def holds_row_def)

lemma holds_step:
  assumes h: "holds_row w owner e s" and ok: "runtime_ok s" and "named_op s op" and "\<not> ends_claim w owner e s op"
  shows "holds_row w owner e (runtime_step lc op s)"
  using assms(3,4)
  by (cases op) (simp_all add: queue_frame[THEN same_queue_holds] h holds_delete_run[OF h] holds_wake[OF h]
      other_settles(1)[OF h] other_renews(1)[OF h] holds_command[OF h] holds_enqueue[OF ok _ h]
      holds_enqueue_many[OF ok _ h] holds_claim(1)[OF h ok] holds_put[OF ok _ h] holds_apply[OF h]
      holds_delete_installation[OF h ok] del: ends_claim.simps(2,7,8))

lemma holds_steps:
  assumes "holds_row w owner e s" and "runtime_ok s" and "named_ops lc ops s" and "undisturbed lc w owner e ops s"
  shows "holds_row w owner e (fold (runtime_step lc) ops s) \<and> runtime_ok (fold (runtime_step lc) ops s)"
  using assms by (induction ops arbitrary: s) (simp_all add: holds_step runtime_ok_step)

lemma claimed_holds:
  assumes "runtime_ok s" and "claimSyncWork lc i s = (Inr ws, s1)" and "w \<in> set ws"
    and "wr_lease_expires_at w = Some e"
  shows "holds_row w (cl_owner i) e s1"
proof -
  from claim_result[OF assms(1,2)] assms(3)
  have "wr_status w = WorkRunning \<and> wr_lease_owner w = Some (cl_owner i)
      \<and> (\<exists>e. add_ms (cl_now i) (cl_lease_ms i) = Inr e \<and> wr_lease_expires_at w = Some e)
      \<and> map_of (rs_work s1) (wr_id w) = Some w" by auto
  moreover from this assms(4) have "e \<noteq> []"
    by (auto simp: add_ms_def to_iso_def iso_string_neq_Nil split: option.splits if_splits)
  ultimately show ?thesis using assms(4) by (simp add: holds_row_def)
qed

text \<open>C12. A claimed row stays exactly as it was handed out, whatever the other clients of the store do:
  until the lease expires, and unless the run is cancelled or the row loses its run, its stream or its
  installation, no other claim takes it, nobody else can renew it, and a settlement by anybody else is
  refused without a change.\<close>

theorem claim_is_exclusive:
  assumes "runtime_ok s" and "claimSyncWork lc i s = (Inr ws, s1)" and "w \<in> set ws"
    and "wr_lease_expires_at w = Some e"
    and "named_ops lc ops s1" and "undisturbed lc w (cl_owner i) e ops s1"
    and "t = fold (runtime_step lc) ops s1"
  shows "map_of (rs_work t) (wr_id w) = Some w
    \<and> (\<forall>c us t'. cl_now c < e \<and> claimSyncWork lc c t = (Inr us, t') \<longrightarrow> wr_id w \<notin> wr_id ` set us)
    \<and> (\<forall>x. sx_id x = wr_id w \<and> sx_owner x \<noteq> cl_owner i \<longrightarrow> settleSyncWork x t = (None, t))
    \<and> (\<forall>r. rn_id r = wr_id w \<and> rn_owner r \<noteq> cl_owner i \<longrightarrow> renewSyncWork r t = (Inr False, t))"
proof -
  have "runtime_ok s1" using work_ops_ok(1)[OF assms(1), of lc i] assms(2) by simp
  from holds_steps[OF claimed_holds[OF assms(1-4)] this assms(5,6)]
  have h: "holds_row w (cl_owner i) e t" and ok: "runtime_ok t" by (simp_all add: assms(7))
  then have "map_of (rs_work t) (wr_id w) = Some w" by (simp add: holds_row_def)
  with holds_claim(2)[OF h ok] other_settles(2)[OF h] other_renews(2)[OF h] show ?thesis by blast
qed

theorem claim_is_exclusive_witness:
  "fst (settleSyncWork \<lparr>sx_id = dueSyncWorkId ''i'' ''k'' LaneLive 1, sx_owner = ''b'', sx_now = iso_string 2000,
      sx_outcome = OutSucceeded, sx_accepted_count = None, sx_next_due_at = None, sx_error_code = None\<rparr>
    (runtime_step (\<lambda>_ _. 0) (OpClaim (sample_claim ''b'' 2000))
      (snd (claimSyncWork (\<lambda>_ _. 0) (sample_claim ''a'' 1000) sample_queue)))) = None"
proof -
  let ?w = "claimed_work (sample_claim ''a'' 1000) (iso_string 61000) sample_row"
  let ?ops = "[OpClaim (sample_claim ''b'' 2000)]"
  have "iso_string 2000 < iso_string 61000" by (simp add: iso_string_less_iff four_digit_time_def)
  then have u: "undisturbed (\<lambda>_ _. 0) ?w (cl_owner (sample_claim ''a'' 1000)) (iso_string 61000) ?ops
      (snd (claimSyncWork (\<lambda>_ _. 0) (sample_claim ''a'' 1000) sample_queue))"
    by (simp add: sample_claim_def not_le)
  have "wr_id ?w = dueSyncWorkId ''i'' ''k'' LaneLive 1" "cl_owner (sample_claim ''a'' 1000) = ''a''"
    by (simp_all add: sample_row_def new_work_def sample_input_def sample_claim_def)
  with claim_is_exclusive[OF sample_queue_ok sample_claimed _ _ _ u refl] show ?thesis by simp
qed

end
