(* ===== verification/RuntimeRuns.thy ===== *)
theory RuntimeRuns
  imports RuntimeClaims
begin

section \<open>The life of a sync run\<close>

text \<open>
  A run is queued, running or paused until it succeeds, fails or is cancelled. The invariant is that a
  finished run has no running row; with it a finished run stays as it finished whatever is asked of
  the store, short of deleting it.
\<close>

definition finished :: "sync_run_status \<Rightarrow> bool" where
  "finished st \<longleftrightarrow> st = RunSucceeded \<or> st = RunFailed \<or> st = RunCancelled"

lemma claimable_not_finished: "syncRunIsClaimable st \<Longrightarrow> \<not> finished st"
  by (auto simp: syncRunIsClaimable_def finished_def)

definition running_runs :: "(string, sync_work_record) js_map \<Rightarrow> string set" where
  "running_runs work = {rid. \<exists>w\<in>set (js_values work). wr_status w = WorkRunning \<and> wr_run_id w = Some rid}"

definition run_ok :: "(string, sync_work_record) js_map \<Rightarrow> string \<Rightarrow> sync_run \<Rightarrow> bool" where
  "run_ok work rid r \<longleftrightarrow> sr_id r = rid \<and> rid \<noteq> [] \<and> (finished (sr_status r) \<longrightarrow> rid \<notin> running_runs work)"

definition runs_ok :: "runtime_store \<Rightarrow> bool" where
  "runs_ok s \<longleftrightarrow> (\<forall>rid r. map_of (rs_runs s) rid = Some r \<longrightarrow> run_ok (rs_work s) rid r)
     \<and> distinct (js_keys (rs_runs s))"

lemma runs_ok_new: "runs_ok new_runtime_store"
  by (simp add: runs_ok_def new_runtime_store_def)

lemma runs_okD: "runs_ok s \<Longrightarrow> map_of (rs_runs s) rid = Some r \<Longrightarrow> run_ok (rs_work s) rid r"
  by (simp add: runs_ok_def)

subsection \<open>Which rows are running\<close>

lemma running_iff:
  "rid \<in> running_runs work \<longleftrightarrow> (\<exists>k w. (k, w) \<in> set work \<and> wr_status w = WorkRunning \<and> wr_run_id w = Some rid)"
  by (force simp: running_runs_def)

lemma running_map:
  assumes "\<And>k w. wr_status (f k w) = WorkRunning \<Longrightarrow> wr_status w = WorkRunning \<and> wr_run_id (f k w) = wr_run_id w"
  shows "running_runs (List.map (\<lambda>(k, w). (k, f k w)) work) \<subseteq> running_runs work"
  using assms by (auto simp: running_iff) metis

lemma running_map_vals:
  assumes "\<And>w. wr_status (f w) = WorkRunning \<Longrightarrow> wr_status w = WorkRunning \<and> wr_run_id (f w) = wr_run_id w"
  shows "running_runs (map_vals f work) \<subseteq> running_runs work"
  unfolding map_vals_def using running_map[of "\<lambda>_. f"] assms by blast

lemma running_set_quiet:
  assumes "wr_status w = WorkRunning \<Longrightarrow> wr_run_id w = Some rid \<Longrightarrow> rid \<in> running_runs work"
    and "rid \<in> running_runs (js_set k w work)"
  shows "rid \<in> running_runs work"
proof -
  have "set (js_set k w work) \<subseteq> insert (k, w) (set work)" by (induction work) auto
  with assms show ?thesis unfolding running_iff by blast
qed

lemma running_set_same:
  assumes "map_of work k = Some u" and "wr_status w = WorkRunning \<Longrightarrow> wr_status u = WorkRunning \<and> wr_run_id w = wr_run_id u"
  shows "running_runs (js_set k w work) \<subseteq> running_runs work"
proof
  fix rid assume "rid \<in> running_runs (js_set k w work)"
  moreover have "wr_status w = WorkRunning \<Longrightarrow> wr_run_id w = Some rid \<Longrightarrow> rid \<in> running_runs work"
    using map_of_SomeD[OF assms(1)] assms(2) by (auto simp: running_iff)
  ultimately show "rid \<in> running_runs work" by (rule running_set_quiet[rotated])
qed

lemma running_delete_where: "running_runs (delete_where P work) \<subseteq> running_runs work"
  unfolding running_iff subset_iff by auto

lemma run_ok_mono: "run_ok work rid r \<Longrightarrow> running_runs work' \<subseteq> running_runs work \<Longrightarrow> run_ok work' rid r"
  by (auto simp: run_ok_def)

text \<open>A step that leaves the runs alone and starts no row.\<close>

definition quiet :: "runtime_store \<Rightarrow> runtime_store \<Rightarrow> bool" where
  "quiet s s' \<longleftrightarrow> rs_runs s' = rs_runs s \<and> running_runs (rs_work s') \<subseteq> running_runs (rs_work s)"

lemma quiet_refl [simp]: "quiet s s"
  by (simp add: quiet_def)

lemma quiet_trans: "quiet a b \<Longrightarrow> quiet b c \<Longrightarrow> quiet a c"
  by (auto simp: quiet_def)

lemma quiet_runs_ok: "quiet s s' \<Longrightarrow> runs_ok s \<Longrightarrow> runs_ok s'"
  unfolding quiet_def runs_ok_def using run_ok_mono by metis

lemma quiet_ops:
  "quiet s (snd (createInstallation i s))" "quiet s (snd (setInstallationStatus k org status now s))"
  "quiet s (snd (updateInstallationConfig k org conf now s))" "quiet s (snd (beginAttempt a s))"
  "quiet s (snd (acquireLease al s))" "quiet s (snd (releaseLease rl s))" "quiet s (snd (resetCursor rc s))"
  by (simp_all add: quiet_def createInstallation_def setInstallationStatus_def updateInstallationConfig_def
      beginAttempt_def acquireLease_def releaseLease_def resetCursor_def Let_def split: option.splits sum.splits)

lemma quiet_settle_attempt: "quiet s (snd (settleAttempt i s))"
  by (cases "map_of (rs_attempts s) (st_attempt_id i)";
      cases "map_of (rs_cursors s) (st_installation_id i, st_stream_key i)")
     (simp_all add: quiet_def settleAttempt_def Let_def)

lemma quiet_commit_page: "quiet s (snd (commitSyncPage a i s))"
  unfolding commitSyncPage_def by (rule quiet_trans[OF quiet_ops(4) quiet_settle_attempt])

lemma quiet_work_ops:
  "quiet s (snd (renewSyncWork r s))" "quiet s (snd (wakeUnassignedSyncWork k s))"
  "quiet s (cancelUnassignedStreams i ks now s)" "quiet s (cancel_lane x lane s)"
proof -
  show "quiet s (snd (renewSyncWork r s))"
  proof (cases "map_of (rs_work s) (rn_id r)")
    case (Some w)
    have "running_runs (js_set (rn_id r) (w\<lparr>wr_lease_expires_at := e, wr_updated_at := rn_now r\<rparr>) (rs_work s))
        \<subseteq> running_runs (rs_work s)" for e
      by (rule running_set_same[OF Some]) simp
    with Some show ?thesis by (simp add: quiet_def renewSyncWork_def split: sum.splits)
  qed (simp add: renewSyncWork_def)
  show "quiet s (snd (wakeUnassignedSyncWork k s))"
    by (simp add: quiet_def wakeUnassignedSyncWork_def) (rule running_map_vals, simp split: if_splits)
  show "quiet s (cancelUnassignedStreams i ks now s)"
    by (simp add: quiet_def cancelUnassignedStreams_def)
       (intro impI running_map_vals, auto simp: cancel_work_def split: if_splits)
  show "quiet s (cancel_lane x lane s)"
    by (simp add: quiet_def cancel_lane_def)
       (intro running_map_vals, auto simp: cancel_work_def split: if_splits)
qed

lemma quiet_cancel_lanes: "quiet s (fold (cancel_lane x) lanes s)"
  by (induction lanes arbitrary: s) (auto intro: quiet_trans quiet_work_ops(4))

subsection \<open>The steps that touch runs\<close>

text \<open>What every step does to the runs: a finished one keeps everything its end fixed.\<close>

definition same_end :: "sync_run \<Rightarrow> sync_run \<Rightarrow> bool" where
  "same_end r r' \<longleftrightarrow> sr_status r' = sr_status r \<and> sr_finished_at r' = sr_finished_at r
     \<and> sr_completed_work r' = sr_completed_work r \<and> sr_failed_work r' = sr_failed_work r
     \<and> sr_accepted_count r' = sr_accepted_count r \<and> sr_last_error r' = sr_last_error r
     \<and> sr_installation_id r' = sr_installation_id r"

lemma same_end_refl [simp]: "same_end r r"
  by (simp add: same_end_def)

lemma same_end_trans: "same_end a b \<Longrightarrow> same_end b c \<Longrightarrow> same_end a c"
  by (simp add: same_end_def)

definition keeps_finished :: "runtime_store \<Rightarrow> runtime_store \<Rightarrow> bool" where
  "keeps_finished s s' \<longleftrightarrow> (\<forall>rid r. map_of (rs_runs s) rid = Some r \<and> finished (sr_status r) \<longrightarrow>
     (\<exists>r'. map_of (rs_runs s') rid = Some r' \<and> same_end r r'))"

lemma keeps_finished_refl [simp]: "keeps_finished s s"
  unfolding keeps_finished_def using same_end_refl by blast

lemma quiet_keeps: "quiet s s' \<Longrightarrow> keeps_finished s s'"
  unfolding quiet_def keeps_finished_def using same_end_refl by metis

lemma keeps_finishedD:
  "keeps_finished s s' \<Longrightarrow> map_of (rs_runs s) rid = Some r \<Longrightarrow> finished (sr_status r) \<Longrightarrow>
   \<exists>r'. map_of (rs_runs s') rid = Some r' \<and> same_end r r'"
  unfolding keeps_finished_def by blast

lemma keeps_finished_trans:
  assumes "keeps_finished a b" and "keeps_finished b c" shows "keeps_finished a c"
  unfolding keeps_finished_def
proof (intro allI impI, elim conjE)
  fix rid r assume r: "map_of (rs_runs a) rid = Some r" "finished (sr_status r)"
  from keeps_finishedD[OF assms(1) r] obtain r1 where r1: "map_of (rs_runs b) rid = Some r1" "same_end r r1" by blast
  then have "finished (sr_status r1)" using r(2) by (simp add: same_end_def)
  from keeps_finishedD[OF assms(2) r1(1) this] r1(2)
  show "\<exists>r'. map_of (rs_runs c) rid = Some r' \<and> same_end r r'" using same_end_trans by blast
qed

text \<open>One run changes; the rows of the others do not start.\<close>

lemma change_run:
  assumes ok: "runs_ok s" and r: "map_of (rs_runs s) rid = Some r"
    and s': "rs_runs s' = js_set rid r' (rs_runs s)"
    and run: "running_runs (rs_work s') \<subseteq> running_runs (rs_work s)"
    and r': "sr_id r' = sr_id r" "finished (sr_status r') \<Longrightarrow> rid \<notin> running_runs (rs_work s')"
    and fin: "finished (sr_status r) \<Longrightarrow> same_end r r'"
  shows "runs_ok s'" and "keeps_finished s s'"
proof -
  have "run_ok (rs_work s') rid r'" using runs_okD[OF ok r] r' by (simp add: run_ok_def)
  moreover have "run_ok (rs_work s') k u" if "map_of (rs_runs s) k = Some u" for k u
    using run_ok_mono[OF runs_okD[OF ok that] run] .
  ultimately show "runs_ok s'" using ok unfolding runs_ok_def s' by simp
  show "keeps_finished s s'" using r fin unfolding keeps_finished_def s' by auto
qed

lemma create_run_steps:
  assumes ok: "runs_ok s" and "nr_id i \<noteq> []"
  shows "runs_ok (snd (createSyncRun i s))" and "keeps_finished s (snd (createSyncRun i s))"
proof -
  have "snd (createSyncRun i s) = s \<or> (map_of (rs_runs s) (nr_id i) = None
      \<and> snd (createSyncRun i s) = s\<lparr>rs_runs := js_set (nr_id i) (new_run i) (rs_runs s)\<rparr>)"
    by (simp add: createSyncRun_def split: option.splits sum.splits)
  moreover have "run_ok (rs_work s) (nr_id i) (new_run i)"
    using assms(2) by (simp add: run_ok_def new_run_def finished_def)
  ultimately show "runs_ok (snd (createSyncRun i s))" and "keeps_finished s (snd (createSyncRun i s))"
    using ok by (auto simp: runs_ok_def keeps_finished_def simp del: map_of_eq_Some_iff split: if_splits)
qed

lemma command_steps:
  assumes ok: "runs_ok s"
  shows "runs_ok (snd (commandSyncRun c s))" and "keeps_finished s (snd (commandSyncRun c s))"
proof -
  have "runs_ok (snd (commandSyncRun c s)) \<and> keeps_finished s (snd (commandSyncRun c s))"
  proof (cases "map_of (rs_runs s) (cr_id c)")
    case (Some run)
    show ?thesis
    proof (cases "sr_org_id run = cr_org_id c")
      case True
      let ?cancels = "cr_command c = CommandCancel \<and> (syncRunIsClaimable (sr_status run) \<or> sr_status run = RunPaused)"
      let ?run1 = "if cr_command c = CommandPause \<and> syncRunIsClaimable (sr_status run) then run\<lparr>sr_status := RunPaused\<rparr>
         else if cr_command c = CommandResume \<and> sr_status run = RunPaused
         then run\<lparr>sr_status := RunQueued, sr_finished_at := None\<rparr>
         else if ?cancels then run\<lparr>sr_status := RunCancelled, sr_finished_at := Some (cr_now c)\<rparr> else run"
      let ?cancelled = "map_vals (\<lambda>w. if wr_run_id w = Some (sr_id run) \<and> open_work w
          then cancel_work (cr_now c) w else w) (rs_work s)"
      have id: "sr_id run = cr_id c" using runs_okD[OF ok Some] by (simp add: run_ok_def)
      have s': "rs_runs (snd (commandSyncRun c s)) = js_set (cr_id c) (?run1\<lparr>sr_updated_at := cr_now c\<rparr>) (rs_runs s)"
        and w': "rs_work (snd (commandSyncRun c s)) = (if ?cancels then ?cancelled else rs_work s)"
        by (simp_all add: commandSyncRun_def Some True Let_def)
      have sub: "running_runs ?cancelled \<subseteq> running_runs (rs_work s)"
        by (rule running_map_vals) (auto simp: cancel_work_def split: if_splits)
      have none: "cr_id c \<notin> running_runs ?cancelled"
        by (auto simp: running_iff id open_work_def cancel_work_def split: if_splits)
      note status = syncRunIsClaimable_def finished_def
      have old: "finished (sr_status run) \<Longrightarrow> cr_id c \<notin> running_runs (rs_work s)"
        using runs_okD[OF ok Some] by (simp add: run_ok_def)
      have work: "running_runs (rs_work (snd (commandSyncRun c s))) \<subseteq> running_runs (rs_work s)"
        using sub by (simp add: w')
      have rid: "sr_id (?run1\<lparr>sr_updated_at := cr_now c\<rparr>) = sr_id run" by simp
      have stopped: "cr_id c \<notin> running_runs (rs_work (snd (commandSyncRun c s)))"
        if "finished (sr_status (?run1\<lparr>sr_updated_at := cr_now c\<rparr>))"
        using that none old by (auto simp: w' status split: if_splits)
      have same: "same_end run (?run1\<lparr>sr_updated_at := cr_now c\<rparr>)" if "finished (sr_status run)"
        using that by (auto simp: status same_end_def)
      show ?thesis using change_run[OF ok Some s' work rid stopped same] by blast
    qed (simp add: commandSyncRun_def Some ok)
  qed (simp add: commandSyncRun_def ok)
  then show "runs_ok (snd (commandSyncRun c s))" and "keeps_finished s (snd (commandSyncRun c s))" by simp_all
qed

lemma delete_run_step: "runs_ok s \<Longrightarrow> runs_ok (snd (deleteSyncRun d s))"
proof (cases "map_of (rs_runs s) (dr_id d)")
  case (Some run)
  assume ok: "runs_ok s"
  have sub: "running_runs (map_vals (\<lambda>w. if wr_run_id w = Some (dr_id d) then w\<lparr>wr_run_id := None\<rparr> else w) (rs_work s))
      \<subseteq> running_runs (rs_work s)"
    by (auto simp: running_iff split: if_splits, blast)
  show ?thesis
    using ok run_ok_mono[OF _ sub] by (auto simp: deleteSyncRun_def Some runs_ok_def simp del: map_of_eq_Some_iff)
qed (simp add: deleteSyncRun_def)

lemma delete_installation_step:
  assumes ok: "runs_ok s" shows "runs_ok (snd (deleteInstallation i org s))"
proof (cases "own_installation i org s")
  case (Some inst)
  have d: "distinct (js_keys (rs_runs s))" using ok by (simp add: runs_ok_def)
  show ?thesis
    using ok run_ok_mono[OF _ running_delete_where]
    by (auto simp: deleteInstallation_def Let_def Some runs_ok_def map_of_delete_where[OF d]
        simp del: map_of_eq_Some_iff split: option.splits if_splits)
qed (simp add: deleteInstallation_def ok)

lemma enqueue_steps:
  assumes ok: "runs_ok s"
  shows "runs_ok (snd (enqueueSyncWork i s))" and "keeps_finished s (snd (enqueueSyncWork i s))"
proof -
  let ?s = "snd (enqueueSyncWork i s)" and ?rid = "or_else (eq_run_id i) []"
  have sub: "running_runs (rs_work ?s) \<subseteq> running_runs (rs_work s)"
  proof (cases "map_of (rs_work s) (or_else (map_of (rs_workKeys s) (enqueue_key i)) [])")
    case None
    have "running_runs (js_set (eq_id i) (new_work i) (rs_work s)) \<subseteq> running_runs (rs_work s)"
      by (auto dest!: running_set_quiet[rotated] simp: new_work_def)
    with None show ?thesis by (simp add: enqueueSyncWork_def Let_def)
  next
    case (Some w)
    have "running_runs (js_set (eq_id i) (new_work i) (rs_work s)) \<subseteq> running_runs (rs_work s)"
      by (auto dest!: running_set_quiet[rotated] simp: new_work_def)
    moreover have "running_runs (js_set k (reopen_work i w) (rs_work s)) \<subseteq> running_runs (rs_work s)"
      if "map_of (rs_work s) k = Some w" for k
      by (rule running_set_same[OF that]) (simp add: reopen_work_def split: if_splits)
    ultimately show ?thesis using Some by (simp add: enqueueSyncWork_def Let_def)
  qed
  have "rs_runs ?s = rs_runs s \<or> (\<exists>r. map_of (rs_runs s) ?rid = Some r
      \<and> rs_runs ?s = js_set ?rid (r\<lparr>sr_total_work := sr_total_work r + 1, sr_updated_at := eq_now i\<rparr>) (rs_runs s))"
    by (simp add: enqueueSyncWork_def Let_def split: option.splits)
  then have "runs_ok ?s \<and> keeps_finished s ?s"
  proof (elim disjE exE conjE)
    assume "rs_runs ?s = rs_runs s"
    with sub have "quiet s ?s" by (simp add: quiet_def)
    with ok show ?thesis by (simp add: quiet_runs_ok quiet_keeps)
  next
    fix r assume r: "map_of (rs_runs s) ?rid = Some r"
      and s': "rs_runs ?s = js_set ?rid (r\<lparr>sr_total_work := sr_total_work r + 1, sr_updated_at := eq_now i\<rparr>) (rs_runs s)"
    have "finished (sr_status r) \<Longrightarrow> ?rid \<notin> running_runs (rs_work ?s)"
      using runs_okD[OF ok r] sub by (auto simp: run_ok_def)
    then show ?thesis using change_run[OF ok r s' sub] by (simp add: same_end_def)
  qed
  then show "runs_ok ?s" and "keeps_finished s ?s" by simp_all
qed

lemma start_run_twice [simp]: "start_run now (start_run now r) = start_run now r"
  by (simp add: start_run_def)

lemma start_run_fields [simp]:
  "sr_id (start_run now r) = sr_id r" "finished (sr_status (start_run now r)) = finished (sr_status r)"
  by (auto simp: start_run_def finished_def)

lemma finished_start_run [simp]: "finished (sr_status r) \<Longrightarrow> start_run now r = r"
  by (auto simp: start_run_def finished_def)

lemma start_runs_get:
  "map_of (start_runs now es runs) rid \<in> {map_of runs rid, map_option (start_run now) (map_of runs rid)}"
proof (induction es arbitrary: runs)
  case (Cons e es)
  let ?runs1 = "if truthy (wr_run_id (snd e))
     then (case map_of runs (or_else (wr_run_id (snd e)) []) of
             None \<Rightarrow> runs | Some r \<Rightarrow> js_set (or_else (wr_run_id (snd e)) []) (start_run now r) runs)
     else runs"
  have "start_runs now (e # es) runs = start_runs now es ?runs1"
    by (simp add: start_runs_def split_beta)
  moreover have "map_of ?runs1 rid \<in> {map_of runs rid, map_option (start_run now) (map_of runs rid)}"
    by (auto split: option.splits)
  ultimately show ?case using Cons.IH[of ?runs1] by (auto simp: option.map_comp comp_def)
qed (simp add: start_runs_def)

lemma start_runs_distinct: "distinct (js_keys runs) \<Longrightarrow> distinct (js_keys (start_runs now es runs))"
proof (induction es arbitrary: runs)
  case (Cons e es)
  then show ?case by (simp add: start_runs_def split_beta split: option.splits)
qed (simp add: start_runs_def)

lemma claim_steps:
  assumes ok: "runs_ok s" and "runtime_ok s"
  shows "runs_ok (snd (claimSyncWork lc c s))" and "keeps_finished s (snd (claimSyncWork lc c s))"
proof -
  let ?s = "snd (claimSyncWork lc c s)" and ?es = "claim_entries lc c s"
  have "runs_ok ?s \<and> keeps_finished s ?s"
  proof (cases "add_ms (cl_now c) (cl_lease_ms c)")
    case (Inl e)
    then show ?thesis using ok by (simp add: claimSyncWork_def)
  next
    case (Inr e)
    let ?f = "\<lambda>k w. if k \<in> fst ` set ?es then claimed_work c e w else w"
    have s': "rs_runs ?s = start_runs (cl_now c) ?es (rs_runs s)"
      and w': "rs_work ?s = List.map (\<lambda>(k, w). (k, ?f k w)) (rs_work s)"
      by (simp_all add: claimSyncWork_def Inr Let_def)
    have get: "map_of (rs_runs ?s) rid \<in> {map_of (rs_runs s) rid, map_option (start_run (cl_now c)) (map_of (rs_runs s) rid)}" for rid
      unfolding s' by (rule start_runs_get)
    have same: "map_of (rs_runs ?s) rid = Some r" if "map_of (rs_runs s) rid = Some r" "finished (sr_status r)" for rid r
      using get[of rid] that by auto
    have "run_ok (rs_work ?s) rid r'" if r': "map_of (rs_runs ?s) rid = Some r'" for rid r'
    proof -
      obtain r where r: "map_of (rs_runs s) rid = Some r" "r' = r \<or> r' = start_run (cl_now c) r"
        using get[of rid] r' by (cases "map_of (rs_runs s) rid") auto
      note old = runs_okD[OF ok r(1)]
      have "rid \<notin> running_runs (rs_work ?s)" if fin: "finished (sr_status r)"
      proof
        assume "rid \<in> running_runs (rs_work ?s)"
        then obtain k w where w: "(k, w) \<in> set (rs_work s)" "wr_run_id w = Some rid"
          "k \<in> fst ` set ?es \<or> wr_status w = WorkRunning"
          by (auto simp: running_iff w' split: if_splits)
        have "rid \<notin> running_runs (rs_work s)" using old fin by (simp add: run_ok_def)
        with w have "k \<in> fst ` set ?es" by (auto simp: running_iff)
        then obtain u where u: "(k, u) \<in> set ?es" by auto
        have d: "distinct (js_keys (rs_work s))" using assms(2) by (simp add: runtime_ok_def queue_ok_def)
        from u claim_entries_set[of lc c s] have "(k, u) \<in> set (rs_work s)" "claimable c s u" by auto
        with w(1) d have "claimable c s w" using eq_key_imp_eq_value by metis
        with w(2) r(1) fin old show False by (auto simp: claimable_def run_ok_def dest: claimable_not_finished)
      qed
      with old r(2) show ?thesis by (auto simp: run_ok_def)
    qed
    then show ?thesis
      using ok same same_end_refl start_runs_distinct[of "rs_runs s"]
      unfolding runs_ok_def keeps_finished_def s' by metis
  qed
  then show "runs_ok ?s" and "keeps_finished s ?s" by simp_all
qed

lemma count_outcome_fields [simp]:
  "sr_id (count_outcome x r) = sr_id r" "sr_status (count_outcome x r) = sr_status r"
  by (simp_all add: count_outcome_def Let_def)

lemma settle_run_id [simp]: "sr_id (settleRunIfComplete r ws now) = sr_id r"
  by (simp add: settleRunIfComplete_def Let_def)

lemma settle_run_finishes:
  assumes "finished (sr_status (settleRunIfComplete r (js_values work) now))" and "\<not> finished (sr_status r)"
  shows "sr_id r \<notin> running_runs work"
proof
  assume "sr_id r \<in> running_runs work"
  then have "list_ex (\<lambda>w. wr_run_id w = Some (sr_id r) \<and> open_work w) (js_values work)"
    by (force simp: running_iff list_ex_iff open_work_def)
  with assms show False by (simp add: settleRunIfComplete_def)
qed

lemma settle_steps:
  assumes ok: "runs_ok s"
  shows "runs_ok (snd (settleSyncWork x s))" and "keeps_finished s (snd (settleSyncWork x s))"
proof -
  let ?s = "snd (settleSyncWork x s)"
  have "runs_ok ?s \<and> keeps_finished s ?s"
  proof (cases "map_of (rs_work s) (sx_id x)")
    case (Some w)
    note w = this
    show ?thesis
    proof (cases "wr_status w = WorkRunning \<and> wr_lease_owner w = Some (sx_owner x)")
      case True
      let ?w = "settled_work x w" and ?rid = "or_else (wr_run_id w) []"
      let ?work = "js_set (sx_id x) ?w (rs_work s)"
      have w': "rs_work ?s = ?work" using True by (simp add: settleSyncWork_def w Let_def)
      have "wr_status ?w \<noteq> WorkRunning" by (cases "sx_outcome x") (simp_all add: settled_work_def)
      then have sub: "running_runs (rs_work ?s) \<subseteq> running_runs (rs_work s)"
        by (auto simp: w' dest!: running_set_quiet[rotated])
      show ?thesis
      proof (cases "truthy (wr_run_id w) \<and> sx_outcome x \<noteq> OutRetry \<and> (\<exists>r. map_of (rs_runs s) ?rid = Some r \<and> sr_status r \<noteq> RunCancelled)")
        case False
        then have "rs_runs ?s = rs_runs s" using True
          by (auto simp: settleSyncWork_def w Let_def split: option.splits)
        with sub have "quiet s ?s" by (simp add: quiet_def)
        with ok show ?thesis by (simp add: quiet_runs_ok quiet_keeps)
      next
        case t: True
        then obtain r where r: "map_of (rs_runs s) ?rid = Some r" "sr_status r \<noteq> RunCancelled" by blast
        have s': "rs_runs ?s = js_set ?rid (settleRunIfComplete (count_outcome x r) (js_values ?work) (sx_now x)) (rs_runs s)"
          using True t r by (simp add: settleSyncWork_def w Let_def)
        have "?rid \<in> running_runs (rs_work s)"
          using map_of_SomeD[OF w] True t by (auto simp: running_iff truthy_iff) blast
        then have open_run: "\<not> finished (sr_status r)" and id: "sr_id r = ?rid"
          using runs_okD[OF ok r(1)] by (auto simp: run_ok_def)
        have stop: "?rid \<notin> running_runs (rs_work ?s)"
          if "finished (sr_status (settleRunIfComplete (count_outcome x r) (js_values ?work) (sx_now x)))"
          using settle_run_finishes[OF that] open_run by (simp add: w' id)
        show ?thesis using change_run[OF ok r(1) s' sub _ stop] open_run by simp
      qed
    qed (simp add: settleSyncWork_def w ok)
  qed (simp add: settleSyncWork_def ok)
  then show "runs_ok ?s" and "keeps_finished s ?s" by simp_all
qed

lemma enqueue_many_steps:
  "runs_ok s \<Longrightarrow> runs_ok (snd (enqueueSyncWorkMany is s)) \<and> keeps_finished s (snd (enqueueSyncWorkMany is s))"
proof (induction "is" arbitrary: s)
  case (Cons i "is")
  note one = enqueue_steps[OF Cons.prems, of i] and more = Cons.IH[OF enqueue_steps(1)[OF Cons.prems, of i]]
  then show ?case
    by (auto simp: snd_enqueue_many intro: keeps_finished_trans simp del: enqueueSyncWorkMany.simps(2))
qed simp

lemma ensure_steps:
  assumes "runs_ok s"
  shows "runs_ok (snd (ensureOwedSyncWork x s)) \<and> keeps_finished s (snd (ensureOwedSyncWork x s))"
proof -
  let ?s = "snd (enqueueSyncWorkMany (List.map (due_input x) (ep_enqueue (ensure_for s x))) s)"
  have s: "runs_ok ?s" "keeps_finished s ?s" using enqueue_many_steps[OF assms] by simp_all
  note q = quiet_cancel_lanes[of ?s x "ep_cancel (ensure_for s x)"]
  from s quiet_runs_ok[OF q s(1)] keeps_finished_trans[OF s(2) quiet_keeps[OF q]] show ?thesis
    by (simp add: snd_ensure Let_def)
qed

lemma runs_ok_sync [simp]: "runs_ok (s\<lparr>rs_sync := m\<rparr>) = runs_ok s" "keeps_finished (s\<lparr>rs_sync := m\<rparr>) t = keeps_finished s t"
  "quiet (s\<lparr>rs_sync := m\<rparr>) t = quiet s t"
  by (simp_all add: runs_ok_def keeps_finished_def quiet_def)

lemma put_steps:
  assumes ok: "runs_ok s"
  shows "runs_ok (snd (rt_putSyncState x s)) \<and> keeps_finished s (snd (rt_putSyncState x s))"
proof -
  have "quiet s (cancelUnassignedStreams i ks now (s\<lparr>rs_sync := m\<rparr>))" for i ks now m
    using quiet_work_ops(3)[of "s\<lparr>rs_sync := m\<rparr>" i ks now] by simp
  moreover have "runs_ok (snd (ensureOwedSyncWork y (s\<lparr>rs_sync := m\<rparr>)))
      \<and> keeps_finished s (snd (ensureOwedSyncWork y (s\<lparr>rs_sync := m\<rparr>)))" for y m
    using ensure_steps[of "s\<lparr>rs_sync := m\<rparr>" y] ok by simp
  ultimately show ?thesis by (auto simp: snd_put Let_def intro: quiet_runs_ok[OF _ ok] quiet_keeps)
qed

lemma quiet_apply: "quiet s (snd (applyCatalogPage p s))"
proof -
  have "quiet s (cancelUnassignedStreams i ks now (s\<lparr>rs_sync := m\<rparr>))" for i ks now m
    using quiet_work_ops(3)[of "s\<lparr>rs_sync := m\<rparr>" i ks now] by simp
  moreover have "quiet s (s\<lparr>rs_sync := m\<rparr>)" for m by (simp add: quiet_def)
  ultimately show ?thesis by (simp add: applyCatalogPage_def Let_def split_beta)
qed

text \<open>Run ids are not empty; a run is deleted by itself or with its installation.\<close>

fun run_op :: "runtime_op \<Rightarrow> bool" where
  "run_op (OpCreateRun i) = (nr_id i \<noteq> [])"
| "run_op _ = True"


lemma runs_step:
  assumes ok: "runs_ok s" and rt: "runtime_ok s" and "run_op op"
  shows "runs_ok (runtime_step lc op s)"
    and "\<nexists>d. op = OpDeleteRun d \<Longrightarrow> \<nexists>i org. op = OpDeleteInstallation i org \<Longrightarrow> keeps_finished s (runtime_step lc op s)"
proof -
  note quiets = quiet_ops quiet_settle_attempt quiet_commit_page quiet_work_ops quiet_apply
  note steps = create_run_steps[OF ok] command_steps[OF ok] claim_steps[OF ok rt] settle_steps[OF ok]
    enqueue_steps[OF ok] enqueue_many_steps[OF ok] put_steps[OF ok]
  show "runs_ok (runtime_step lc op s)"
    using assms(3) by (cases op) (simp_all add: steps quiets[THEN quiet_runs_ok, OF ok]
      delete_run_step[OF ok] delete_installation_step[OF ok])
  show "\<nexists>d. op = OpDeleteRun d \<Longrightarrow> \<nexists>i org. op = OpDeleteInstallation i org \<Longrightarrow> keeps_finished s (runtime_step lc op s)"
    using assms(3) by (cases op) (simp_all add: steps quiets[THEN quiet_keeps])
qed

subsection \<open>Reachable stores\<close>

text \<open>The stores a client can bring about that names its rows and runs by the convention.\<close>

inductive runtime_reachable :: "(string \<Rightarrow> string \<Rightarrow> int) \<Rightarrow> runtime_store \<Rightarrow> bool" for lc where
  reachable_new: "runtime_reachable lc new_runtime_store"
| reachable_step: "runtime_reachable lc s \<Longrightarrow> named_op s op \<Longrightarrow> run_op op \<Longrightarrow>
    runtime_reachable lc (runtime_step lc op s)"

lemma reachable_invariants:
  "runtime_reachable lc s \<Longrightarrow> runtime_ok s \<and> runs_ok s \<and> cursors_wf s"
  by (induction rule: runtime_reachable.induct)
     (simp_all add: runtime_ok_new runs_ok_new cursors_wf_new runtime_ok_step runs_step(1) cursors_wf_step)




definition sample_installation :: new_connector_installation where
  "sample_installation = \<lparr>ni_id = ''i'', ni_org_id = ''o'', ni_connector_type = ''c'', ni_status = Enabled,
     ni_config = Map.empty, ni_credentials_ref = None, ni_created_at = ''t0''\<rparr>"

definition sample_run :: new_sync_run where
  "sample_run = \<lparr>nr_id = ''r'', nr_org_id = ''o'', nr_installation_id = ''i'', nr_mode = QuickStart,
     nr_options = None, nr_now = ''t0''\<rparr>"

definition sample_command :: "sync_run_command \<Rightarrow> command_sync_run" where
  "sample_command c = \<lparr>cr_id = ''r'', cr_org_id = ''o'', cr_command = c, cr_now = ''t1''\<rparr>"






subsection \<open>A run paused at its end\<close>

text \<open>C40. When the last row of a paused run settles, the run stays paused; resumed, it is queued again
  with its end forgotten although it has no row left that a claim could take.\<close>

theorem resumed_run_has_nothing_to_do:
  assumes "runtime_reachable lc s" and "map_of (rs_runs s) rid = Some r" and "sr_status r = RunPaused"
    and "settleSyncWork x s = (Some w, s1)" and "wr_run_id w = Some rid" and "sx_outcome x = OutSucceeded"
    and "\<forall>u\<in>set (js_values (rs_work s1)). wr_run_id u = Some rid \<longrightarrow> \<not> open_work u"
    and "cr_id c = rid" and "cr_org_id c = sr_org_id r" and "cr_command c = CommandResume"
  shows "\<exists>r2. map_of (rs_runs (snd (commandSyncRun c s1))) rid = Some r2 \<and> sr_status r2 = RunQueued
      \<and> sr_finished_at r2 = None \<and> sr_completed_work r2 = sr_completed_work r + 1
      \<and> (\<forall>cl us t. claimSyncWork lc cl (snd (commandSyncRun c s1)) = (Inr us, t) \<longrightarrow> Some rid \<notin> wr_run_id ` set us)"
proof -
  have run: "run_ok (rs_work s) rid r" using reachable_invariants[OF assms(1)] runs_okD assms(2) by blast
  obtain w0 where w0: "map_of (rs_work s) (sx_id x) = Some w0" "w = settled_work x w0" "wr_run_id w0 = Some rid"
    and s1: "rs_runs s1 = js_set rid (settleRunIfComplete (count_outcome x r) (js_values (rs_work s1)) (sx_now x)) (rs_runs s)"
    using assms(2-6) run
    by (auto simp: settleSyncWork_def settled_work_def Let_def run_ok_def split: option.splits if_splits)
  let ?r1 = "settleRunIfComplete (count_outcome x r) (js_values (rs_work s1)) (sx_now x)"
  have r1: "map_of (rs_runs s1) rid = Some ?r1" by (simp add: s1)
  have f1: "sr_status ?r1 = RunPaused" "sr_completed_work ?r1 = sr_completed_work r + 1" "sr_org_id ?r1 = sr_org_id r"
    using assms(3,6) by (simp_all add: settleRunIfComplete_def count_outcome_def Let_def)
  then have r2: "map_of (rs_runs (snd (commandSyncRun c s1))) rid =
        Some (?r1\<lparr>sr_status := RunQueued, sr_finished_at := None, sr_updated_at := cr_now c\<rparr>)"
    and work: "rs_work (snd (commandSyncRun c s1)) = rs_work s1"
    using assms(8-10) by (simp_all add: commandSyncRun_def r1 syncRunIsClaimable_def Let_def)
  have "Some rid \<notin> wr_run_id ` set us"
    if claim: "claimSyncWork lc cl (snd (commandSyncRun c s1)) = (Inr us, t)" for cl us t
  proof
    assume "Some rid \<in> wr_run_id ` set us"
    then obtain e u where u: "(e, u) \<in> set (claim_entries lc cl (snd (commandSyncRun c s1)))" "wr_run_id u = Some rid"
      using claim by (auto simp: claimSyncWork_def Let_def split: sum.splits)
    then have "(e, u) \<in> set (rs_work s1)" "claimable cl (snd (commandSyncRun c s1)) u"
      using claim_entries_set[of lc cl "snd (commandSyncRun c s1)"] work by auto
    with assms(7) u(2) show False by (force simp: claimable_def open_work_def)
  qed
  with r2 f1(2) show ?thesis by simp
qed

definition run_row :: enqueue_sync_work where
  "run_row = \<lparr>eq_id = ''sync-run:r'', eq_run_id = Some ''r'', eq_installation_id = ''i'',
     eq_stream_key = ''__sync_run__:r'', eq_lane = LaneLive, eq_priority = None,
     eq_next_due_at = iso_string 0, eq_generation = 1, eq_now = iso_string 0\<rparr>"

definition with_run :: runtime_store where
  "with_run = fold (runtime_step (\<lambda>_ _. 0)) [OpCreateInstallation sample_installation, OpCreateRun sample_run] new_runtime_store"

definition claimed_run :: runtime_store where
  "claimed_run = fold (runtime_step (\<lambda>_ _. 0)) [OpEnqueue run_row, OpClaim (sample_claim ''a'' 1000)] with_run"

definition paused_run :: runtime_store where
  "paused_run = runtime_step (\<lambda>_ _. 0) (OpCommandRun (sample_command CommandPause)) claimed_run"

lemma with_run_fields:
  "rs_work with_run = []" "rs_workKeys with_run = []" "rs_runs with_run = [(''r'', new_run sample_run)]"
  by (simp_all add: with_run_def createInstallation_def new_runtime_store_def createSyncRun_def
      validateSyncRunOptions_def no_run_options_def own_installation_def sample_installation_def sample_run_def
      new_run_def Let_def)

lemma paused_run_reachable: "runtime_reachable (\<lambda>_ _. 0) paused_run"
proof -
  have "runtime_reachable (\<lambda>_ _. 0) with_run"
    unfolding with_run_def fold.simps comp_def id_def
    by (intro reachable_step reachable_new) (simp_all add: sample_run_def)
  moreover have "named_input with_run run_row"
    by (simp add: named_input_def run_row_def with_run_fields due_name_def starts_with_def plain_id_def no_nul_def)
  ultimately show ?thesis
    unfolding paused_run_def claimed_run_def fold.simps comp_def id_def
    by (intro reachable_step) simp_all
qed

lemma claimed_run_fields:
  "rs_work claimed_run = [(''sync-run:r'', claimed_work (sample_claim ''a'' 1000) (iso_string 61000) (new_work run_row))]"
  "rs_runs claimed_run = [(''r'', start_run (iso_string 1000)
     ((new_run sample_run)\<lparr>sr_total_work := 1, sr_updated_at := iso_string 0\<rparr>))]"
proof -
  define q' where "q' = snd (enqueueSyncWork run_row with_run)"
  have q: "rs_work q' = [(''sync-run:r'', new_work run_row)]"
    "rs_runs q' = [(''r'', (new_run sample_run)\<lparr>sr_total_work := 1, sr_updated_at := iso_string 0\<rparr>)]"
    by (simp_all add: q'_def enqueueSyncWork_def with_run_fields run_row_def new_run_def sample_run_def)
  have "iso_string 0 \<le> iso_string 1000" by (simp add: iso_string_less_iff four_digit_time_def less_imp_le)
  then have "claimable (sample_claim ''a'' 1000) q' (new_work run_row)"
    by (simp add: claimable_def sample_claim_def new_work_def q run_row_def new_run_def sample_run_def syncRunIsClaimable_def)
  then have "claim_entries (\<lambda>_ _. 0) (sample_claim ''a'' 1000) q' = [(''sync-run:r'', new_work run_row)]"
    by (simp add: claim_entries_def q js_sort_def sample_claim_def)
  then have "snd (claimSyncWork (\<lambda>_ _. 0) (sample_claim ''a'' 1000) q') = q'\<lparr>
      rs_work := [(''sync-run:r'', claimed_work (sample_claim ''a'' 1000) (iso_string 61000) (new_work run_row))],
      rs_runs := start_runs (iso_string 1000) [(''sync-run:r'', new_work run_row)] (rs_runs q')\<rparr>"
    by (simp add: claimSyncWork_def Let_def sample_claim_def add_ms_iso_string max_time_def q)
  then show "rs_work claimed_run = [(''sync-run:r'', claimed_work (sample_claim ''a'' 1000) (iso_string 61000) (new_work run_row))]"
    and "rs_runs claimed_run = [(''r'', start_run (iso_string 1000)
     ((new_run sample_run)\<lparr>sr_total_work := 1, sr_updated_at := iso_string 0\<rparr>))]"
    by (simp_all add: claimed_run_def start_runs_def q flip: q'_def) (simp add: new_work_def run_row_def)
qed

definition sample_success :: settle_sync_work where
  "sample_success = \<lparr>sx_id = ''sync-run:r'', sx_owner = ''a'', sx_now = iso_string 2000, sx_outcome = OutSucceeded,
     sx_accepted_count = None, sx_next_due_at = None, sx_error_code = None\<rparr>"

definition paused_record :: sync_run where
  "paused_record = (start_run (iso_string 1000) ((new_run sample_run)\<lparr>sr_total_work := 1, sr_updated_at := iso_string 0\<rparr>))
     \<lparr>sr_status := RunPaused, sr_updated_at := ''t1''\<rparr>"

lemma paused_run_fields:
  "rs_runs paused_run = [(''r'', paused_record)]" "rs_work paused_run = rs_work claimed_run"
  by (simp_all add: paused_run_def commandSyncRun_def claimed_run_fields sample_command_def paused_record_def
      start_run_def new_run_def sample_run_def syncRunIsClaimable_def Let_def)

theorem resumed_run_has_nothing_to_do_witness:
  "\<exists>r2. map_of (rs_runs (snd (commandSyncRun (sample_command CommandResume) (snd (settleSyncWork sample_success paused_run))))) ''r''
     = Some r2 \<and> sr_status r2 = RunQueued \<and> sr_completed_work r2 = 1"
proof -
  let ?w = "settled_work sample_success (claimed_work (sample_claim ''a'' 1000) (iso_string 61000) (new_work run_row))"
  have w: "settleSyncWork sample_success paused_run = (Some ?w, snd (settleSyncWork sample_success paused_run))"
    and work: "rs_work (snd (settleSyncWork sample_success paused_run)) = [(''sync-run:r'', ?w)]"
    by (simp_all add: settleSyncWork_def paused_run_fields claimed_run_fields sample_success_def sample_claim_def
        claimed_work_def Let_def)
  have "wr_run_id ?w = Some ''r''" "\<not> open_work ?w"
    by (simp_all add: settled_work_def claimed_work_def new_work_def run_row_def sample_success_def open_work_def)
  with resumed_run_has_nothing_to_do[OF paused_run_reachable _ _ w, of "''r''" paused_record "sample_command CommandResume"] work
  show ?thesis
    by (auto simp: paused_run_fields paused_record_def sample_success_def sample_command_def start_run_def new_run_def sample_run_def)
qed

end
