(* ===== verification/RuntimeSync.thy ===== *)
theory RuntimeSync
  imports RuntimeRuns
begin

section \<open>The queue follows the sync state\<close>

text \<open>
  Writing a stream's phase through the runtime store repairs its queue, the rows a catalog refresh
  plans can all be enqueued, and the runtime store is a \<open>SyncStore\<close> for the sync engine: it keeps
  the laws of \<open>sync_state_store\<close>, so what the engine promises holds on it.
\<close>

subsection \<open>Enqueueing keeps what is open\<close>

definition keeps_open :: "runtime_store \<Rightarrow> runtime_store \<Rightarrow> bool" where
  "keeps_open s s' \<longleftrightarrow> (\<forall>rid w. map_of (rs_work s) rid = Some w \<longrightarrow>
     (\<exists>w'. map_of (rs_work s') rid = Some w' \<and> same_row w w' \<and> wr_run_id w' = wr_run_id w
        \<and> (open_work w \<longrightarrow> open_work w')))"

lemma keeps_open_refl [simp]: "keeps_open s s"
  unfolding keeps_open_def using same_row_refl by blast

lemma same_row_trans: "same_row a b \<Longrightarrow> same_row b c \<Longrightarrow> same_row a c"
  by (simp add: same_row_def)

lemma keeps_openD:
  "keeps_open s s' \<Longrightarrow> map_of (rs_work s) rid = Some w \<Longrightarrow> \<exists>w'. map_of (rs_work s') rid = Some w'
     \<and> same_row w w' \<and> wr_run_id w' = wr_run_id w \<and> (open_work w \<longrightarrow> open_work w')"
  unfolding keeps_open_def by blast

lemma keeps_open_trans:
  assumes "keeps_open a b" and "keeps_open b c" shows "keeps_open a c"
  unfolding keeps_open_def
proof (intro allI impI)
  fix rid w assume "map_of (rs_work a) rid = Some w"
  from keeps_openD[OF assms(1) this] obtain u where u: "map_of (rs_work b) rid = Some u" "same_row w u"
    "wr_run_id u = wr_run_id w" "open_work w \<longrightarrow> open_work u" by blast
  from keeps_openD[OF assms(2) u(1)] u(2-) show "\<exists>w'. map_of (rs_work c) rid = Some w' \<and> same_row w w'
      \<and> wr_run_id w' = wr_run_id w \<and> (open_work w \<longrightarrow> open_work w')"
    using same_row_trans by metis
qed

lemma reopen_open: "open_work (reopen_work i w)"
  by (simp add: reopen_work_def open_work_def)

lemma reopen_run [simp]: "wr_run_id (reopen_work i w) = wr_run_id w"
  by (simp add: reopen_work_def)

text \<open>A row for the key is open.\<close>

definition open_key :: "work_key \<Rightarrow> runtime_store \<Rightarrow> bool" where
  "open_key key s \<longleftrightarrow> (\<exists>rid w. map_of (rs_work s) rid = Some w \<and> syncWorkUniqueKey w = key \<and> open_work w)"

lemma keeps_open_key: "keeps_open s s' \<Longrightarrow> open_key key s \<Longrightarrow> open_key key s'"
  unfolding open_key_def keeps_open_def using same_row_key by metis

lemma enqueue_open:
  assumes "runtime_ok s" and "named_input s i" and "\<not> truthy (eq_run_id i)"
  shows "\<exists>w. fst (enqueueSyncWork i s) = Inr w" and "keeps_open s (snd (enqueueSyncWork i s))"
    and "open_key (enqueue_key i) (snd (enqueueSyncWork i s))"
proof -
  show "\<exists>w. fst (enqueueSyncWork i s) = Inr w" using enqueue_returns[OF assms(1)] assms(3) by blast
  have q: "queue_ok (rs_work s) (rs_workKeys s)" using assms(1) by (simp add: runtime_ok_def)
  have "keeps_open s (snd (enqueueSyncWork i s)) \<and> open_key (enqueue_key i) (snd (enqueueSyncWork i s))"
  proof (cases "map_of (rs_workKeys s) (enqueue_key i)")
    case None
    have free: "map_of (rs_work s) (eq_id i) = None" by (rule named_input_free[OF q assms(2) None])
    have work: "rs_work (snd (enqueueSyncWork i s)) = js_set (eq_id i) (new_work i) (rs_work s)"
      using None assms(3) by (simp add: enqueueSyncWork_def)
    have "open_work (new_work i)" by (simp add: new_work_def open_work_def)
    then have "open_key (enqueue_key i) (snd (enqueueSyncWork i s))"
      unfolding open_key_def work using new_work_key by fastforce
    with free show ?thesis unfolding keeps_open_def work by auto
  next
    case (Some rid)
    from queue_ok_key[OF q Some] obtain w where w: "map_of (rs_work s) rid = Some w" "rid \<noteq> []"
      "syncWorkUniqueKey w = enqueue_key i" by auto
    have work: "rs_work (snd (enqueueSyncWork i s)) = js_set rid (reopen_work i w) (rs_work s)"
      using Some w assms(3) by (simp add: enqueueSyncWork_def)
    have "open_key (enqueue_key i) (snd (enqueueSyncWork i s))"
      unfolding open_key_def work using w(3) same_row_key[OF same_row_updates(3)] reopen_open by fastforce
    with w(1) reopen_open show ?thesis unfolding keeps_open_def work by auto
  qed
  then show "keeps_open s (snd (enqueueSyncWork i s))" "open_key (enqueue_key i) (snd (enqueueSyncWork i s))" by simp_all
qed

lemma enqueue_many_open:
  assumes "runtime_ok s" and "list_all due_input_ok is" and "\<forall>i\<in>set is. \<not> truthy (eq_run_id i)"
  shows "fst (enqueueSyncWorkMany is s) = Inr () \<and> keeps_open s (snd (enqueueSyncWorkMany is s))
    \<and> (\<forall>i\<in>set is. open_key (enqueue_key i) (snd (enqueueSyncWorkMany is s)))"
  using assms
proof (induction "is" arbitrary: s)
  case (Cons i "is")
  have n: "named_input s i" using Cons.prems(2) by (simp add: due_input_named)
  from Cons.prems(3) have r: "\<not> truthy (eq_run_id i)" by simp
  note one = enqueue_open[OF Cons.prems(1) n r]
  from one(1) obtain w where w: "enqueueSyncWork i s = (Inr w, snd (enqueueSyncWork i s))"
    by (metis prod.collapse)
  have ok: "runtime_ok (snd (enqueueSyncWork i s))" by (rule enqueue_ok[OF Cons.prems(1) n])
  have rest: "list_all due_input_ok is" "\<forall>i\<in>set is. \<not> truthy (eq_run_id i)"
    using Cons.prems(2,3) by simp_all
  from Cons.IH[OF ok rest] have more: "fst (enqueueSyncWorkMany is (snd (enqueueSyncWork i s))) = Inr ()"
    "keeps_open (snd (enqueueSyncWork i s)) (snd (enqueueSyncWorkMany is (snd (enqueueSyncWork i s))))"
    "\<forall>j\<in>set is. open_key (enqueue_key j) (snd (enqueueSyncWorkMany is (snd (enqueueSyncWork i s))))"
    by blast+
  have many: "enqueueSyncWorkMany (i # is) s = enqueueSyncWorkMany is (snd (enqueueSyncWork i s))"
    by (subst enqueueSyncWorkMany.simps, subst w) simp
  show ?case unfolding many
    using more keeps_open_trans[OF one(2) more(2)] keeps_open_key[OF more(2) one(3)] by simp
qed simp

subsection \<open>A phase write leaves no gap\<close>

text \<open>The rows that keep a lane of a stream from being enqueued.\<close>

definition row_covers :: "sync_stream_state \<Rightarrow> sync_lane \<Rightarrow> sync_work_record \<Rightarrow> bool" where
  "row_covers x lane w \<longleftrightarrow> wr_installation_id w = ss_installation_id x \<and> wr_stream_key w = ss_stream_key x
     \<and> wr_generation w = ss_generation x
     \<and> (wr_lane w = LaneInteractive \<and> lane = LaneLive \<and> open_work w
        \<or> wr_lane w = lane \<and> (truthy (wr_run_id w) \<or> open_work w))"

definition covered :: "sync_stream_state \<Rightarrow> sync_lane \<Rightarrow> runtime_store \<Rightarrow> bool" where
  "covered x lane s \<longleftrightarrow> (\<exists>rid w. map_of (rs_work s) rid = Some w \<and> row_covers x lane w)"

lemma open_status_iff: "open_status (wr_status w) = open_work w"
  by (simp add: open_status_def open_work_def)

lemma covered_blocks:
  assumes "runtime_ok s" and "lane \<noteq> LaneInteractive"
  shows "laneBlocksEnqueue (List.map open_lane (workForStream (ss_installation_id x) (ss_stream_key x) (ss_generation x) s)) lane
    \<longleftrightarrow> covered x lane s"
proof -
  have "distinct (js_keys (rs_work s))" using assms(1) by (simp add: runtime_ok_def queue_ok_def)
  then have mem: "w \<in> set (js_values (rs_work s)) \<longleftrightarrow> (\<exists>rid. map_of (rs_work s) rid = Some w)" for w
    by (rule mem_js_values)
  have block: "laneBlocksEnqueue (List.map open_lane ws) lane \<longleftrightarrow>
      (\<exists>w\<in>set ws. lane = LaneLive \<and> wr_lane w = LaneInteractive \<and> open_work w
         \<or> wr_lane w = lane \<and> (truthy (wr_run_id w) \<or> open_work w))" for ws
    using assms(2) by (auto simp: laneBlocksEnqueue_def list_ex_iff open_lane_def open_status_iff)
  show ?thesis
    unfolding workForStream_def covered_def row_covers_def block set_filter mem_Collect_eq bex_simps using mem by blast
qed

lemma keeps_open_covered: "keeps_open s s' \<Longrightarrow> covered x lane s \<Longrightarrow> covered x lane s'"
  unfolding covered_def keeps_open_def row_covers_def same_row_def by metis

lemma open_key_covered:
  "open_key (enqueue_key (due_input x lane)) s \<Longrightarrow> covered x lane s"
  unfolding open_key_def covered_def row_covers_def
  by (auto simp: syncWorkUniqueKey_def enqueue_key_def due_input_def)

lemma cancel_lane_covered:
  assumes "covered x lane s" and "l \<noteq> lane" and "\<not> (lane = LaneLive \<and> l = LaneInteractive)"
  shows "covered x lane (cancel_lane y l s)"
proof -
  obtain rid w where w: "map_of (rs_work s) rid = Some w" "row_covers x lane w"
    using assms(1) unfolding covered_def by blast
  with assms(2,3) have "wr_lane w \<noteq> l" by (auto simp: row_covers_def)
  with w show ?thesis unfolding covered_def cancel_lane_def by auto
qed

lemma cancel_lanes_covered:
  assumes "covered x lane s" and "lane \<notin> set ls" and "\<not> (lane = LaneLive \<and> LaneInteractive \<in> set ls)"
  shows "covered x lane (fold (cancel_lane y) ls s)"
  using assms
proof (induction ls arbitrary: s)
  case (Cons l ls)
  have "covered x lane (cancel_lane y l s)"
    by (rule cancel_lane_covered[OF Cons.prems(1)]) (use Cons.prems(2,3) in auto)
  with Cons.IH Cons.prems(2,3) show ?case by simp
qed simp

lemma ensure_covers:
  assumes ok: "runtime_ok s" and x: "plain_id (ss_installation_id x)"
    and owed: "lane \<in> set (owedSyncLanes (ss_phase x) (ss_media_pending x) (policy_of s (ss_installation_id x)))"
  shows "fst (ensureOwedSyncWork x s) = Inr ()" and "covered x lane (snd (ensureOwedSyncWork x s))"
proof -
  let ?plan = "ensure_for s x" and ?is = "List.map (due_input x) (ep_enqueue (ensure_for s x))"
  have named: "list_all due_input_ok ?is" "\<forall>i\<in>set ?is. \<not> truthy (eq_run_id i)"
    using named_due_input[OF x] by (simp_all add: list_all_iff due_input_def)
  note many = enqueue_many_open[OF ok named]
  then obtain s1 where Inr: "enqueueSyncWorkMany ?is s = (Inr (), s1)" by (metis prod.collapse)
  then show "fst (ensureOwedSyncWork x s) = Inr ()" by (simp add: ensureOwedSyncWork_def Let_def)
  have lane: "lane \<noteq> LaneInteractive" using owed interactive_not_owed by metis
  have "covered x lane (snd (enqueueSyncWorkMany ?is s))"
  proof (cases "lane \<in> set (ep_enqueue ?plan)")
    case True
    then show ?thesis using many open_key_covered by auto
  next
    case False
    then have "covered x lane s"
      using owed covered_blocks[OF ok lane, of x] by (simp add: ensure_for_def set_ep_enqueue)
    with many keeps_open_covered show ?thesis by blast
  qed
  moreover have "lane \<notin> set (ep_cancel ?plan)" "\<not> (lane = LaneLive \<and> LaneInteractive \<in> set (ep_cancel ?plan))"
    using owed lane by (auto simp: ensure_for_def set_ep_cancel)
  ultimately have "covered x lane (fold (cancel_lane x) (ep_cancel ?plan) (snd (enqueueSyncWorkMany ?is s)))"
    by (rule cancel_lanes_covered)
  then show "covered x lane (snd (ensureOwedSyncWork x s))" by (simp add: snd_ensure Let_def Inr)
qed

lemma enqueue_frame:
  "rs_sync (snd (enqueueSyncWork i s)) = rs_sync s \<and> rs_installations (snd (enqueueSyncWork i s)) = rs_installations s"
  by (simp add: enqueueSyncWork_def Let_def split: option.splits)

lemma enqueue_many_frame:
  "rs_sync (snd (enqueueSyncWorkMany is s)) = rs_sync s
   \<and> rs_installations (snd (enqueueSyncWorkMany is s)) = rs_installations s"
  by (induction "is" arbitrary: s) (simp_all add: snd_enqueue_many enqueue_frame del: enqueueSyncWorkMany.simps(2))

lemma cancel_lanes_frame:
  "rs_sync (fold (cancel_lane x) ls s) = rs_sync s \<and> rs_installations (fold (cancel_lane x) ls s) = rs_installations s"
  by (induction ls arbitrary: s) (simp_all add: cancel_lane_def)

lemma ensure_frame:
  "rs_sync (snd (ensureOwedSyncWork x s)) = rs_sync s"
  "rs_installations (snd (ensureOwedSyncWork x s)) = rs_installations s"
  by (simp_all add: snd_ensure Let_def enqueue_many_frame cancel_lanes_frame)

lemma cancel_streams_frame [simp]:
  "rs_sync (cancelUnassignedStreams i ks now s) = rs_sync s"
  "rs_installations (cancelUnassignedStreams i ks now s) = rs_installations s"
  by (simp_all add: cancelUnassignedStreams_def)

abbreviation stored_state :: "sync_stream_state \<Rightarrow> runtime_store \<Rightarrow> sync_stream_state" where
  "stored_state x s \<equiv> releaseHistoryPhase x (policy_of s (ss_installation_id x))"

text \<open>A write returns what it stores; the stream is either dropped or stored.\<close>

lemma put_result:
  assumes "runtime_ok s" and "plain_id (ss_installation_id x)"
  shows "fst (rt_putSyncState x s) = Inr (stored_state x s)"
    and "rs_sync (snd (rt_putSyncState x s)) =
      (if put_drops x s then dropSyncState (ss_installation_id x) (ss_stream_key x) (rs_sync s)
       else snd (putSyncState (stored_state x s) (rs_sync s)))"
proof -
  let ?y = "stored_state x s"
  let ?s = "s\<lparr>rs_sync := snd (putSyncState ?y (rs_sync s))\<rparr>"
  have "runtime_ok ?s"
    using assms by (intro runtime_ok_sync memory_ok_put) (simp_all add: runtime_ok_def plain_id_def)
  then have "fst (ensureOwedSyncWork ?y ?s) = Inr ()"
    using ensure_covers(1)[of ?s ?y "hd (owedSyncLanes (ss_phase ?y) (ss_media_pending ?y) (policy_of ?s (ss_installation_id ?y)))"]
      assms(2) by (simp add: owedSyncLanes_def)
  then obtain s2 where "ensureOwedSyncWork ?y ?s = (Inr (), s2)" by (metis prod.collapse)
  then show "fst (rt_putSyncState x s) = Inr ?y"
    by (simp add: rt_putSyncState_def Let_def)
  show "rs_sync (snd (rt_putSyncState x s)) =
      (if put_drops x s then dropSyncState (ss_installation_id x) (ss_stream_key x) (rs_sync s)
       else snd (putSyncState ?y (rs_sync s)))"
    by (simp add: snd_put Let_def ensure_frame)
qed

lemma policy_frame: "rs_installations s' = rs_installations s \<Longrightarrow> policy_of s' = policy_of s"
  by (simp add: policy_of_def fun_eq_iff)

lemma put_covers:
  assumes ok: "runtime_ok s" and x: "plain_id (ss_installation_id x)" and keep: "\<not> put_drops x s"
  shows "ep_enqueue (ensure_for (snd (rt_putSyncState x s)) (stored_state x s)) = []"
proof -
  let ?y = "stored_state x s" and ?s' = "snd (rt_putSyncState x s)"
  let ?s = "s\<lparr>rs_sync := snd (putSyncState ?y (rs_sync s))\<rparr>"
  have ok1: "runtime_ok ?s"
    using ok x by (intro runtime_ok_sync memory_ok_put) (simp_all add: runtime_ok_def plain_id_def)
  have s': "?s' = snd (ensureOwedSyncWork ?y ?s)" using keep by (simp add: snd_put Let_def)
  have ok': "runtime_ok ?s'" by (rule put_ok[OF ok x])
  have pol: "policy_of ?s' = policy_of s" "policy_of ?s = policy_of s"
    by (rule policy_frame, simp add: s' ensure_frame)+
  have "laneBlocksEnqueue (List.map open_lane (workForStream (ss_installation_id ?y) (ss_stream_key ?y) (ss_generation ?y) ?s')) lane"
    if lane: "lane \<in> set (owedSyncLanes (ss_phase ?y) (ss_media_pending ?y) (policy_of s (ss_installation_id x)))" for lane
  proof -
    have "covered ?y lane ?s'"
      unfolding s' by (rule ensure_covers(2)[OF ok1]) (use x lane pol in simp_all)
    moreover have "lane \<noteq> LaneInteractive" using lane interactive_not_owed by metis
    ultimately show ?thesis using covered_blocks[OF ok'] by blast
  qed
  then have "set (ep_enqueue (ensure_for ?s' ?y)) = {}"
    unfolding set_eq_iff ensure_for_def set_ep_enqueue pol by auto
  then show ?thesis by simp
qed

lemma put_leaves_no_gap_for:
  assumes ok: "runtime_ok s" and x: "plain_id (ss_installation_id x)" and keep: "\<not> put_drops x s"
    and g: "g \<in> set (listSyncWorkGaps lc (ss_installation_id x) None (snd (rt_putSyncState x s)))"
  shows "gap_stream_key g \<noteq> ss_stream_key x"
proof
  let ?y = "stored_state x s" and ?s' = "snd (rt_putSyncState x s)"
  assume k: "gap_stream_key g = ss_stream_key x"
  from g obtain z where z: "z \<in> set (listSyncStates (ss_installation_id x) (rs_sync ?s'))"
    "gap_stream_key g = ss_stream_key z" "gap_missing_lane g \<in> set (ep_enqueue (ensure_for ?s' z))"
    by (auto simp: listSyncWorkGaps_def Let_def)
  have nul: "no_nul (ss_installation_id x)" using x by (simp add: plain_id_def)
  have m: "memory_ok (rs_sync ?s')" using put_ok[OF ok x] by (simp add: runtime_ok_def)
  from z(1) memory_list_get[OF m nul] obtain k' where
    k': "getSyncState (ss_installation_id x) k' (rs_sync ?s') = Some z" by auto
  from memory_get_key[OF m nul k'] k z(2) have "k' = ss_stream_key x" by simp
  then have "z = ?y"
    using k' keep by (simp add: put_result(2)[OF ok x] putSyncState_def getSyncState_def)
  with z(3) put_covers[OF ok x keep] show False by simp
qed

text \<open>Writing a stream's phase through the store always succeeds, stores the phase (with the
  history phase released under the incremental policy) and leaves the queue complete: afterwards the
  store reports no missing work for that stream.\<close>

lemma put_leaves_no_gap:
  assumes "runtime_ok s" and "plain_id (ss_installation_id x)" and "\<not> put_drops x s"
  shows "fst (rt_putSyncState x s) = Inr (releaseHistoryPhase x (policy_of s (ss_installation_id x)))
    \<and> getSyncState (ss_installation_id x) (ss_stream_key x) (rs_sync (snd (rt_putSyncState x s)))
        = Some (releaseHistoryPhase x (policy_of s (ss_installation_id x)))
    \<and> ss_stream_key x \<notin> gap_stream_key ` set (listSyncWorkGaps lc (ss_installation_id x) None (snd (rt_putSyncState x s)))"
proof -
  have "ss_stream_key x \<notin> gap_stream_key ` set (listSyncWorkGaps lc (ss_installation_id x) None (snd (rt_putSyncState x s)))"
    using put_leaves_no_gap_for[OF assms] by force
  with put_result[OF assms(1,2)] assms(3) show ?thesis
    by (simp add: putSyncState_def getSyncState_def)
qed

lemma put_leaves_no_gap_witness:
  "''s'' \<notin> gap_stream_key ` set (listSyncWorkGaps (\<lambda>_ _. 0) ''i'' None
     (snd (rt_putSyncState (sample_state PhaseHistory) sample_queue)))"
proof -
  have "plain_id (ss_installation_id (sample_state PhaseHistory))"
    by (simp add: sample_state_def plain_id_def no_nul_def)
  moreover have "\<not> put_drops (sample_state PhaseHistory) sample_queue"
    by (simp add: put_drops_def sample_queue_def enqueue_frame new_runtime_store_def getSyncCatalog_def
        new_memory_sync_store_def emptySyncCatalog_def Let_def)
  ultimately show ?thesis
    using put_leaves_no_gap[OF sample_queue_ok, of "sample_state PhaseHistory" "\<lambda>_ _. 0"]
    by (simp add: sample_state_def)
qed

subsection \<open>The runtime store as the engine's store\<close>






lemma drop_catalog [simp]: "getSyncCatalog i (dropSyncState j k s) = getSyncCatalog i s"
  by (simp add: getSyncCatalog_def dropSyncState_def)

lemma drops_catalog [simp]: "getSyncCatalog i (fold (dropSyncState j) ks s) = getSyncCatalog i s"
  by (induction ks arbitrary: s) simp_all





subsection \<open>The planned rows\<close>

text \<open>What a catalog refresh plans can be enqueued: for a plain installation every row
  \<open>planDueSyncWork\<close> returns is accepted by the store without an error, and afterwards each planned
  stream, lane and generation has an open row, while no row that was open is lost.\<close>

lemma planned_rows_are_enqueued:
  assumes "runtime_ok s" and "plain_id (pd_installation_id i)" and "planDueSyncWork lc i = Inr rows"
  shows "fst (enqueueSyncWorkMany rows s) = Inr ()
    \<and> (\<forall>r\<in>set rows. open_key (enqueue_key r) (snd (enqueueSyncWorkMany rows s)))
    \<and> keeps_open s (snd (enqueueSyncWorkMany rows s)) \<and> runtime_ok (snd (enqueueSyncWorkMany rows s))"
proof -
  have shape: "due_input_ok r \<and> \<not> truthy (eq_run_id r)" if "r \<in> set rows" for r
  proof -
    from plan_rows_due[OF assms(3) that] obtain key lane g due where
      "r = due_row (pd_installation_id i) key lane g due (pd_now i)" by blast
    with assms(2) show ?thesis
      by (simp add: due_row_def due_input_ok_def enqueue_key_def key_id_def)
  qed
  then have rows: "list_all due_input_ok rows" "\<forall>r\<in>set rows. \<not> truthy (eq_run_id r)"
    by (simp_all add: list_all_iff)
  from enqueue_many_open[OF assms(1) rows] enqueue_many_ok[OF assms(1) rows(1)] show ?thesis by blast
qed

lemma planned_rows_are_enqueued_witness:
  "\<exists>rows. planDueSyncWork code_unit_compare sample_plan = Inr rows \<and> length rows = 2
    \<and> fst (enqueueSyncWorkMany rows new_runtime_store) = Inr ()"
proof -
  have "plain_id (pd_installation_id sample_plan)" by (simp add: sample_plan_def plain_id_def no_nul_def)
  from planned_rows_are_enqueued[OF runtime_ok_new this sample_plan_rows] sample_plan_rows show ?thesis by auto
qed

subsection \<open>Deleting an installation\<close>

text \<open>Everything the store holds of one installation.\<close>

record installation_part =
  ip_installation :: "connector_installation option"
  ip_catalog :: sync_catalog_view
  ip_states :: "sync_stream_state list"
  ip_cursors :: "stored_cursor list"
  ip_attempts :: "ingest_attempt list"
  ip_quarantines :: "ingest_quarantine list"
  ip_runs :: "sync_run list"
  ip_work :: "sync_work_record list"

definition part_of :: "string \<Rightarrow> runtime_store \<Rightarrow> installation_part" where
  "part_of i s = \<lparr>ip_installation = map_of (rs_installations s) i,
     ip_catalog = getSyncCatalog i (rs_sync s), ip_states = listSyncStates i (rs_sync s),
     ip_cursors = List.filter (\<lambda>c. sc_installation_id c = i) (js_values (rs_cursors s)),
     ip_attempts = List.filter (\<lambda>a. ia_installation_id a = i) (js_values (rs_attempts s)),
     ip_quarantines = List.filter (\<lambda>q. iq_installation_id q = i) (rs_quarantines s),
     ip_runs = List.filter (\<lambda>r. sr_installation_id r = i) (js_values (rs_runs s)),
     ip_work = List.filter (\<lambda>w. wr_installation_id w = i) (js_values (rs_work s))\<rparr>"

definition no_part :: "string \<Rightarrow> installation_part" where
  "no_part i = \<lparr>ip_installation = None, ip_catalog = emptySyncCatalog i, ip_states = [], ip_cursors = [],
     ip_attempts = [], ip_quarantines = [], ip_runs = [], ip_work = []\<rparr>"

text \<open>Deleting an installation is exact: the caller's installation goes with its catalog, stream
  states, cursors, attempts, quarantines, runs and work rows, everything of every other
  installation stays, and a caller of another organisation changes nothing.\<close>

lemma delete_installation_is_exact:
  assumes "runtime_ok s" and "plain_id i" and "i \<noteq> []" and "plain_id j" and "j \<noteq> i"
  shows "if own_installation i org s = None then deleteInstallation i org s = (False, s)
    else fst (deleteInstallation i org s) \<and> part_of i (snd (deleteInstallation i org s)) = no_part i
      \<and> part_of j (snd (deleteInstallation i org s)) = part_of j s"
proof (cases "own_installation i org s")
  case (Some inst)
  have m: "memory_ok (rs_sync s)" using assms(1) by (simp add: runtime_ok_def)
  have nul: "no_nul i" "no_nul j" using assms(2,4) by (simp_all add: plain_id_def)
  note sync = clear_exact[OF m nul(1) assms(3) nul(2) assms(5)]
  have eq: "v = j \<and> v \<noteq> i \<longleftrightarrow> v = j" "v \<noteq> i \<and> v = j \<longleftrightarrow> v = j" for v using assms(5) by auto
  show ?thesis
    using sync assms(5)
    by (simp add: Some deleteInstallation_def Let_def part_of_def no_part_def filter_delete_values eq)
qed (simp add: deleteInstallation_def)

definition sample_installed :: runtime_store where
  "sample_installed = snd (createInstallation \<lparr>ni_id = ''i'', ni_org_id = ''org'', ni_connector_type = ''c'',
     ni_status = Enabled, ni_config = Map.empty, ni_credentials_ref = None, ni_created_at = ''n''\<rparr> sample_queue)"

lemma sample_installed_ok: "runtime_ok sample_installed"
  using sample_queue_ok by (simp add: sample_installed_def createInstallation_def Let_def runtime_ok_def)

lemma delete_installation_is_exact_witness:
  "ip_work (part_of ''i'' sample_installed) = [sample_row]
   \<and> part_of ''i'' (snd (deleteInstallation ''i'' ''org'' sample_installed)) = no_part ''i''"
proof -
  have v: "plain_id ''i''" "plain_id ''j''" by (simp_all add: plain_id_def no_nul_def)
  have own: "own_installation ''i'' ''org'' sample_installed \<noteq> None"
    by (simp add: sample_installed_def createInstallation_def Let_def own_installation_def)
  have "ip_work (part_of ''i'' sample_installed) = [sample_row]"
    by (simp add: part_of_def sample_installed_def createInstallation_def Let_def sample_queue_work sample_row_def
        new_work_def sample_input_def)
  with delete_installation_is_exact[OF sample_installed_ok v(1) _ v(2), of "''org''"] own show ?thesis by simp
qed

end
