(* ===== verification/SlotPool.thy ===== *)
theory SlotPool
  imports SyncContracts
begin

section \<open>The pool of concurrency slots\<close>

text \<open>
  \<open>packages/domain/src/sync-budget.ts\<close>: \<open>SyncSlotPool\<close> with its reserved slots per lane and
  its queue of waiters. A waiter's promise is a number; \<open>release\<close> returns the promises it
  resolves, in order. The event loop runs one synchronous block at a time, so each operation is
  one step; the lane of the asynchronous context (\<open>runInSyncLane\<close>) is not modelled.
\<close>

record slot_pool_options =
  spo_total :: js_num
  spo_reserved :: "sync_lane \<Rightarrow> int option"

record slot_pool =
  sp_total :: int
  sp_reserved :: "sync_lane \<Rightarrow> int option"
  sp_active :: int
  sp_byLane :: "(sync_lane, int) js_map"
  sp_waiters :: "(sync_lane \<times> nat) list"

definition new_pool :: "slot_pool_options \<Rightarrow> js_error + slot_pool" where
  "new_pool opts =
     (case spo_total opts of
        Num q \<Rightarrow>
          if q = of_int \<lfloor>q\<rfloor> \<and> 1 \<le> q
          then Inr \<lparr>sp_total = \<lfloor>q\<rfloor>, sp_reserved = spo_reserved opts, sp_active = 0,
                    sp_byLane = [], sp_waiters = []\<rparr>
          else Inl (ErrorMsg ''SyncSlotPool total must be a positive integer'')
      | _ \<Rightarrow> Inl (ErrorMsg ''SyncSlotPool total must be a positive integer''))"

definition reservedFor :: "slot_pool \<Rightarrow> sync_lane \<Rightarrow> int" where
  "reservedFor s lane = max 0 (or_else (sp_reserved s lane) 0)"

definition held :: "slot_pool \<Rightarrow> sync_lane \<Rightarrow> int" where
  "held s lane = or_else (map_of (sp_byLane s) lane) 0"

definition protectedOthers :: "slot_pool \<Rightarrow> sync_lane \<Rightarrow> int" where
  "protectedOthers s lane =
     sum_list (List.map (\<lambda>other. max 0 (reservedFor s other - held s other))
       (List.filter (\<lambda>other. other \<noteq> lane) SYNC_LANES))"

definition canAcquire :: "slot_pool \<Rightarrow> sync_lane \<Rightarrow> bool" where
  "canAcquire s lane \<longleftrightarrow>
     (if sp_total s \<le> sp_active s then False
      else sp_active s + protectedOthers s lane < sp_total s)"

definition tryAcquire :: "sync_lane \<Rightarrow> slot_pool \<Rightarrow> bool \<times> slot_pool" where
  "tryAcquire lane s =
     (if \<not> canAcquire s lane then (False, s)
      else (True, s\<lparr>sp_active := sp_active s + 1,
                    sp_byLane := js_set lane (held s lane + 1) (sp_byLane s)\<rparr>))"

text \<open>\<open>True\<close> when the returned promise is already resolved.\<close>

definition acquire :: "sync_lane \<Rightarrow> nat \<Rightarrow> slot_pool \<Rightarrow> bool \<times> slot_pool" where
  "acquire lane promise s =
     (let (ok, s') = tryAcquire lane s
      in if ok then (True, s')
         else (False, s'\<lparr>sp_waiters := sp_waiters s' @ [(lane, promise)]\<rparr>))"

text \<open>
  The loop of \<open>flushWaiters\<close>: the waiters passed over so far, then those still to look at. A
  waiter that is served leaves the queue before \<open>tryAcquire\<close> runs.
\<close>

fun flush_loop ::
  "(sync_lane \<times> nat) list \<Rightarrow> (sync_lane \<times> nat) list \<Rightarrow> slot_pool \<Rightarrow> (sync_lane \<times> nat) list \<times> slot_pool"
where
  "flush_loop passed [] s = ([], s\<lparr>sp_waiters := passed\<rparr>)"
| "flush_loop passed ((lane, p) # ws) s =
     (if \<not> canAcquire s lane then flush_loop (passed @ [(lane, p)]) ws s
      else let (served, s') = flush_loop passed ws (snd (tryAcquire lane s))
           in ((lane, p) # served, s'))"

definition flushWaiters :: "slot_pool \<Rightarrow> (sync_lane \<times> nat) list \<times> slot_pool" where
  "flushWaiters s = flush_loop [] (sp_waiters s) s"

definition release_slot :: "sync_lane \<Rightarrow> slot_pool \<Rightarrow> slot_pool" where
  "release_slot lane s =
     (let cnt = held s lane
      in s\<lparr>sp_active := max 0 (sp_active s - 1),
           sp_byLane := (if cnt \<le> 1 then AList.delete lane (sp_byLane s)
                         else js_set lane (cnt - 1) (sp_byLane s))\<rparr>)"

definition release :: "sync_lane \<Rightarrow> slot_pool \<Rightarrow> (sync_lane \<times> nat) list \<times> slot_pool" where
  "release lane s = flushWaiters (release_slot lane s)"

definition pool_reset :: "slot_pool \<Rightarrow> slot_pool" where
  "pool_reset s = s\<lparr>sp_active := 0, sp_byLane := [], sp_waiters := []\<rparr>"

subsection \<open>Runs of the pool\<close>

text \<open>
  What the callers do: acquire for any lane at any time, release a slot they hold
  (\<open>withSlot\<close> releases exactly once after it acquired), reset.
\<close>

inductive pool_step :: "slot_pool \<Rightarrow> slot_pool \<Rightarrow> bool" where
  step_try: "pool_step s (snd (tryAcquire lane s))"
| step_acquire: "pool_step s (snd (acquire lane p s))"
| step_release: "0 < held s lane \<Longrightarrow> pool_step s (snd (release lane s))"
| step_reset: "pool_step s (pool_reset s)"

inductive pool_reachable :: "slot_pool_options \<Rightarrow> slot_pool \<Rightarrow> bool" for opts where
  start: "new_pool opts = Inr s \<Longrightarrow> pool_reachable opts s"
| step: "pool_reachable opts s \<Longrightarrow> pool_step s t \<Longrightarrow> pool_reachable opts t"

inductive_cases pool_stepE: "pool_step s t"

definition all_held :: "slot_pool \<Rightarrow> int" where
  "all_held s = sum_list (List.map (held s) SYNC_LANES)"

definition all_unused :: "slot_pool \<Rightarrow> int" where
  "all_unused s = sum_list (List.map (\<lambda>l. max 0 (reservedFor s l - held s l)) SYNC_LANES)"

definition all_reserved :: "slot_pool \<Rightarrow> int" where
  "all_reserved s = sum_list (List.map (reservedFor s) SYNC_LANES)"

definition pool_ok :: "slot_pool \<Rightarrow> bool" where
  "pool_ok s \<longleftrightarrow> distinct (js_keys (sp_byLane s)) \<and> (\<forall>l. 0 \<le> held s l)
     \<and> sp_active s = all_held s \<and> sp_active s \<le> sp_total s
     \<and> (all_reserved s \<le> sp_total s \<longrightarrow> sp_active s + all_unused s \<le> sp_total s)
     \<and> (\<forall>w \<in> set (sp_waiters s). \<not> canAcquire s (fst w))"

text \<open>The pool apart from its queue.\<close>

definition slots_ok :: "slot_pool \<Rightarrow> bool" where
  "slots_ok s \<longleftrightarrow> distinct (js_keys (sp_byLane s)) \<and> (\<forall>l. 0 \<le> held s l)
     \<and> sp_active s = all_held s \<and> sp_active s \<le> sp_total s
     \<and> (all_reserved s \<le> sp_total s \<longrightarrow> sp_active s + all_unused s \<le> sp_total s)"

lemma pool_ok_slots: "pool_ok s \<longleftrightarrow> slots_ok s \<and> (\<forall>w \<in> set (sp_waiters s). \<not> canAcquire s (fst w))"
  by (simp add: pool_ok_def slots_ok_def)

lemma sum_lanes_change:
  assumes "\<And>k. k \<noteq> l \<Longrightarrow> f k = g k"
  shows "sum_list (List.map f SYNC_LANES) - f l = sum_list (List.map g SYNC_LANES) - (g l :: int)"
  using assms by (cases l) (simp_all add: SYNC_LANES_def)

lemma protected_plus: "protectedOthers s l + max 0 (reservedFor s l - held s l) = all_unused s"
  by (cases l) (simp_all add: protectedOthers_def all_unused_def SYNC_LANES_def)

lemma sum_lanes_nonneg: "(\<And>l. 0 \<le> f l) \<Longrightarrow> 0 \<le> sum_list (List.map f SYNC_LANES :: int list)"
  by (rule sum_list_nonneg) auto

lemma all_unused_nonneg: "0 \<le> all_unused s"
  unfolding all_unused_def by (rule sum_lanes_nonneg) simp

lemma protected_nonneg: "0 \<le> protectedOthers s l"
  unfolding protectedOthers_def by (rule sum_list_nonneg) auto

lemma canAcquire_iff: "canAcquire s l \<longleftrightarrow> sp_active s + protectedOthers s l < sp_total s"
  using protected_nonneg[of s l] by (auto simp: canAcquire_def)

lemma held_set: "held (s\<lparr>sp_active := a, sp_byLane := js_set l v (sp_byLane s)\<rparr>) k = (if k = l then v else held s k)"
  by (simp add: held_def)

lemma reserved_frame [simp]:
  "reservedFor (s\<lparr>sp_active := a, sp_byLane := m\<rparr>) = reservedFor s"
  "reservedFor (s\<lparr>sp_waiters := ws\<rparr>) = reservedFor s"
  by (rule ext; simp add: reservedFor_def)+

lemma all_reserved_frame [simp]:
  "all_reserved (s\<lparr>sp_active := a, sp_byLane := m\<rparr>) = all_reserved s"
  "all_reserved (s\<lparr>sp_waiters := ws\<rparr>) = all_reserved s"
  by (simp_all add: all_reserved_def)

lemma held_frame [simp]: "held (s\<lparr>sp_waiters := ws\<rparr>) = held s"
  by (rule ext) (simp add: held_def)

lemma waiters_frame [simp]:
  "canAcquire (s\<lparr>sp_waiters := ws\<rparr>) = canAcquire s" "slots_ok (s\<lparr>sp_waiters := ws\<rparr>) = slots_ok s"
  by (simp_all add: canAcquire_def protectedOthers_def slots_ok_def all_held_def all_unused_def fun_eq_iff)

text \<open>Taking a slot for a lane that can have one.\<close>

definition take_slot :: "sync_lane \<Rightarrow> slot_pool \<Rightarrow> slot_pool" where
  "take_slot l s = s\<lparr>sp_active := sp_active s + 1, sp_byLane := js_set l (held s l + 1) (sp_byLane s)\<rparr>"

lemma tryAcquire_simps [simp]:
  "canAcquire s l \<Longrightarrow> tryAcquire l s = (True, take_slot l s)"
  "\<not> canAcquire s l \<Longrightarrow> tryAcquire l s = (False, s)"
  by (simp_all add: tryAcquire_def take_slot_def)

lemma take_slot_fields [simp]:
  "sp_active (take_slot l s) = sp_active s + 1" "sp_total (take_slot l s) = sp_total s"
  "sp_waiters (take_slot l s) = sp_waiters s" "reservedFor (take_slot l s) = reservedFor s"
  "all_reserved (take_slot l s) = all_reserved s"
  "held (take_slot l s) k = (if k = l then held s l + 1 else held s k)"
  by (simp_all add: take_slot_def held_set)

lemma take_slot_sums:
  "all_held (take_slot l s) = all_held s + 1"
  "all_unused (take_slot l s) = all_unused s - (if held s l < reservedFor s l then 1 else 0)"
  by (cases l; simp add: all_held_def all_unused_def SYNC_LANES_def max_def)+

lemma take_slot_ok:
  assumes "slots_ok s" and "canAcquire s l"
  shows "slots_ok (take_slot l s)"
proof -
  have d: "distinct (js_keys (sp_byLane (take_slot l s)))" using assms(1) by (simp add: take_slot_def slots_ok_def)
  have "sp_active s + protectedOthers s l < sp_total s" using assms(2) by (simp add: canAcquire_iff)
  then show ?thesis
    using assms(1) d protected_plus[of s l] protected_nonneg[of s l] unfolding slots_ok_def
    by (auto simp: take_slot_sums)
qed

text \<open>Once blocked, a lane stays blocked while others take slots.\<close>

lemma take_slot_blocks: "\<not> canAcquire s k \<Longrightarrow> \<not> canAcquire (take_slot l s) k"
  using protected_plus[of s k] protected_plus[of "take_slot l s" k] take_slot_sums(2)[of l s]
  by (auto simp: canAcquire_iff split: if_splits)

lemma release_slot_fields [simp]:
  "sp_waiters (release_slot l s) = sp_waiters s" "sp_total (release_slot l s) = sp_total s"
  "reservedFor (release_slot l s) = reservedFor s" "all_reserved (release_slot l s) = all_reserved s"
  by (simp_all add: release_slot_def Let_def)

lemma held_release_slot:
  assumes "0 < held s l"
  shows "held (release_slot l s) k = (if k = l then held s l - 1 else held s k)"
  using assms by (auto simp: release_slot_def held_def Let_def)

lemma release_slot_ok:
  assumes "slots_ok s" and "0 < held s l"
  shows "slots_ok (release_slot l s)"
proof -
  note h = held_release_slot[OF assms(2)]
  have sums: "all_held (release_slot l s) = all_held s - 1" "all_unused (release_slot l s) \<le> all_unused s + 1"
    using sum_lanes_change[of l "held (release_slot l s)" "held s"]
      sum_lanes_change[of l "\<lambda>k. max 0 (reservedFor (release_slot l s) k - held (release_slot l s) k)"
        "\<lambda>k. max 0 (reservedFor s k - held s k)"]
    by (simp_all add: h all_held_def all_unused_def)
  have "0 \<le> all_held s - held s l"
    using sum_lanes_nonneg[of "\<lambda>k. if k = l then 0 else held s k"] assms(1)
      sum_lanes_change[of l "\<lambda>k. if k = l then 0 else held s k" "held s"]
    by (simp add: all_held_def slots_ok_def)
  then have "sp_active (release_slot l s) = sp_active s - 1"
    using assms by (simp add: release_slot_def Let_def slots_ok_def)
  moreover have "distinct (js_keys (sp_byLane (release_slot l s)))"
    using assms(1) by (simp add: release_slot_def Let_def slots_ok_def)
  ultimately show ?thesis using assms sums h unfolding slots_ok_def by auto
qed

subsection \<open>Serving the waiters\<close>

lemma flush_loop_ok:
  assumes "slots_ok s" and "\<forall>w \<in> set passed. \<not> canAcquire s (fst w)"
  shows "pool_ok (snd (flush_loop passed ws s))"
  using assms
proof (induction passed ws s rule: flush_loop.induct)
  case (2 passed lane p ws s)
  show ?case
  proof (cases "canAcquire s lane")
    case True
    have "\<forall>w \<in> set passed. \<not> canAcquire (take_slot lane s) (fst w)"
      using 2(4) take_slot_blocks by blast
    with 2(2)[OF _ ] True take_slot_ok[OF 2(3) True] show ?thesis by (simp add: split_beta)
  qed (use 2 in auto)
qed (simp add: pool_ok_slots)

lemma flush_loop_blocked:
  "\<not> canAcquire s k \<Longrightarrow> \<forall>w \<in> set (fst (flush_loop passed ws s)). fst w \<noteq> k"
proof (induction passed ws s rule: flush_loop.induct)
  case (2 passed lane p ws s)
  show ?case
  proof (cases "canAcquire s lane")
    case True
    with 2(2)[OF _ ] take_slot_blocks[OF 2(3)] 2(3) show ?thesis by (auto simp: split_beta)
  qed (use 2 in auto)
qed simp

lemma flush_loop_fifo:
  "\<exists>rest. sp_waiters (snd (flush_loop passed ws s)) = passed @ rest \<and>
     (\<forall>k. List.filter (\<lambda>w. fst w = k) (fst (flush_loop passed ws s))
          @ List.filter (\<lambda>w. fst w = k) rest = List.filter (\<lambda>w. fst w = k) ws)"
proof (induction passed ws s rule: flush_loop.induct)
  case (2 passed lane p ws s)
  show ?case
  proof (cases "canAcquire s lane")
    case True
    from 2(2)[OF _ ] True obtain rest where
      "sp_waiters (snd (flush_loop passed ws (take_slot lane s))) = passed @ rest"
      "\<And>k. List.filter (\<lambda>w. fst w = k) (fst (flush_loop passed ws (take_slot lane s)))
          @ List.filter (\<lambda>w. fst w = k) rest = List.filter (\<lambda>w. fst w = k) ws"
      by auto
    with True show ?thesis by (intro exI[of _ rest]) (simp add: split_beta)
  next
    case False
    with 2(1) obtain rest where
      rest: "sp_waiters (snd (flush_loop (passed @ [(lane, p)]) ws s)) = passed @ (lane, p) # rest"
        "\<And>k. List.filter (\<lambda>w. fst w = k) (fst (flush_loop (passed @ [(lane, p)]) ws s))
          @ List.filter (\<lambda>w. fst w = k) rest = List.filter (\<lambda>w. fst w = k) ws"
      by auto
    have "List.filter (\<lambda>w. fst w = lane) (fst (flush_loop (passed @ [(lane, p)]) ws s)) = []"
      using flush_loop_blocked[OF False] by (simp add: filter_empty_conv)
    with rest False show ?thesis
      by (intro exI[of _ "(lane, p) # rest"]) (auto simp: rest(2)[symmetric])
  qed
qed simp

lemma flush_loop_consts:
  "sp_total (snd (flush_loop passed ws s)) = sp_total s"
  "reservedFor (snd (flush_loop passed ws s)) = reservedFor s"
  by (induction passed ws s rule: flush_loop.induct) (auto simp: split_beta)

lemma release_ok: "pool_ok s \<Longrightarrow> 0 < held s l \<Longrightarrow> pool_ok (snd (release l s))"
  using flush_loop_ok[of "release_slot l s" "[]"] release_slot_ok[of s l]
  by (simp add: release_def flushWaiters_def pool_ok_slots[of s])

lemma tryAcquire_ok: "pool_ok s \<Longrightarrow> pool_ok (snd (tryAcquire l s))"
  using take_slot_ok[of s l] take_slot_blocks[of s _ l]
  by (cases "canAcquire s l") (auto simp: pool_ok_slots)

lemma acquire_ok: "pool_ok s \<Longrightarrow> pool_ok (snd (acquire l p s))"
  using tryAcquire_ok[of s l] by (cases "canAcquire s l") (auto simp: acquire_def pool_ok_slots)

lemma empty_pool_ok: "0 \<le> sp_total s \<Longrightarrow> sp_active s = 0 \<Longrightarrow> sp_byLane s = [] \<Longrightarrow> sp_waiters s = [] \<Longrightarrow> pool_ok s"
  by (simp add: pool_ok_def held_def all_held_def all_unused_def all_reserved_def SYNC_LANES_def reservedFor_def)

lemma pool_ok_total: "pool_ok s \<Longrightarrow> 0 \<le> sp_total s"
  using sum_lanes_nonneg[of "held s"] by (auto simp: pool_ok_def all_held_def)

lemma pool_reset_ok: "pool_ok s \<Longrightarrow> pool_ok (pool_reset s)"
  by (rule empty_pool_ok) (use pool_ok_total in \<open>simp_all add: pool_reset_def\<close>)

lemma pool_step_ok: "pool_step s t \<Longrightarrow> pool_ok s \<Longrightarrow> pool_ok t"
  by (erule pool_stepE)
    (auto simp: tryAcquire_ok acquire_ok release_ok pool_reset_ok)

lemma pool_reachable_ok: "pool_reachable opts s \<Longrightarrow> pool_ok s"
proof (induction rule: pool_reachable.induct)
  case (start s)
  then show ?case by (intro empty_pool_ok) (auto simp: new_pool_def split: js_num.splits if_splits)
qed (rule pool_step_ok)

text \<open>C27. In every run of the pool the active count is the number of slots the lanes hold, it never
  exceeds the total, the reservations that are not used stay free (when they fit into the total at
  all), and no waiter that could have a slot is left waiting.\<close>

theorem pool_invariant:
  assumes "pool_reachable opts s"
  shows "sp_active s = sum_list (List.map (held s) SYNC_LANES) \<and> sp_active s \<le> sp_total s
    \<and> (all_reserved s \<le> sp_total s \<longrightarrow> sp_active s + all_unused s \<le> sp_total s)
    \<and> (\<forall>w \<in> set (sp_waiters s). \<not> canAcquire s (fst w))"
  using pool_reachable_ok[OF assms] unfolding pool_ok_def all_held_def by blast

definition sample_options :: slot_pool_options where
  "sample_options = \<lparr>spo_total = Num 2, spo_reserved = (\<lambda>_. None)(LaneInteractive \<mapsto> 1)\<rparr>"

definition sample_pool :: slot_pool where
  "sample_pool = \<lparr>sp_total = 2, sp_reserved = (\<lambda>_. None)(LaneInteractive \<mapsto> 1), sp_active = 1,
     sp_byLane = [(LaneLive, 1)], sp_waiters = [(LaneHistory, 7)]\<rparr>"

lemma sample_reachable: "pool_reachable sample_options sample_pool"
proof -
  let ?s = "\<lparr>sp_total = 2, sp_reserved = (\<lambda>_. None)(LaneInteractive \<mapsto> 1), sp_active = 0,
    sp_byLane = [], sp_waiters = []\<rparr>"
  have "new_pool sample_options = Inr ?s" by (simp add: new_pool_def sample_options_def)
  then have 1: "pool_reachable sample_options (snd (acquire LaneLive 3 ?s))"
    by (intro pool_reachable.step[OF pool_reachable.start step_acquire])
  have 2: "pool_reachable sample_options (snd (acquire LaneHistory 7 (snd (acquire LaneLive 3 ?s))))"
    by (rule pool_reachable.step[OF 1 step_acquire])
  have "snd (acquire LaneHistory 7 (snd (acquire LaneLive 3 ?s))) = sample_pool"
    by (simp add: acquire_def tryAcquire_def canAcquire_def protectedOthers_def SYNC_LANES_def
        reservedFor_def held_def sample_pool_def)
  with 2 show ?thesis by simp
qed

theorem pool_invariant_witness: "\<not> canAcquire sample_pool LaneHistory"
  using pool_invariant[OF sample_reachable] by (simp add: sample_pool_def)

text \<open>A lane that has not used up its reservation gets a slot at once, however busy the other
  lanes are: an interactive poll never queues behind backfill.\<close>

lemma reserved_slot_is_free:
  assumes "pool_reachable opts s" and "all_reserved s \<le> sp_total s"
    and "held s lane < reservedFor s lane"
  shows "fst (acquire lane p s)"
proof -
  have "canAcquire s lane"
    using pool_reachable_ok[OF assms(1)] assms(2,3) protected_plus[of s lane]
    by (auto simp: canAcquire_iff pool_ok_def)
  then show ?thesis by (simp add: acquire_def)
qed

lemma reserved_slot_is_free_witness: "fst (acquire LaneInteractive 9 sample_pool)"
  by (rule reserved_slot_is_free[OF sample_reachable])
    (simp_all add: sample_pool_def all_reserved_def reservedFor_def SYNC_LANES_def held_def)

text \<open>Releasing a slot serves each lane's waiters in the order they came: the promises it
  resolves for a lane are the first ones of that lane's queue, the others keep their places.\<close>

lemma release_serves_in_order:
  "List.filter (\<lambda>w. fst w = lane) (fst (release l s))
     @ List.filter (\<lambda>w. fst w = lane) (sp_waiters (snd (release l s)))
   = List.filter (\<lambda>w. fst w = lane) (sp_waiters s)"
  using flush_loop_fifo[of "[]" "sp_waiters s" "release_slot l s"]
  by (auto simp: release_def flushWaiters_def)

text \<open>Nobody waits for ever in a drained pool: when every slot has been given back, a waiter can
  be left only if the reservations of the other lanes fill the whole pool.\<close>

lemma drained_pool_has_no_waiter:
  assumes "pool_reachable opts s" and "sp_active s = 0"
    and "\<forall>l. all_reserved s - reservedFor s l < sp_total s"
  shows "sp_waiters s = []"
proof (rule ccontr)
  assume "sp_waiters s \<noteq> []"
  then obtain w where w: "w \<in> set (sp_waiters s)" by (cases "sp_waiters s") auto
  have ok: "pool_ok s" by (rule pool_reachable_ok[OF assms(1)])
  have "all_unused s \<le> all_reserved s"
    unfolding all_unused_def all_reserved_def
    by (rule sum_list_mono) (use ok in \<open>auto simp: pool_ok_def reservedFor_def\<close>)
  moreover have "held s (fst w) = 0"
    using ok assms(2) sum_lanes_change[of "fst w" "\<lambda>k. if k = fst w then 0 else held s k" "held s"]
      sum_lanes_nonneg[of "\<lambda>k. if k = fst w then 0 else held s k"]
    by (auto simp: pool_ok_def all_held_def intro: antisym)
  then have "max 0 (reservedFor s (fst w) - held s (fst w)) = reservedFor s (fst w)" by (simp add: reservedFor_def)
  ultimately have "canAcquire s (fst w)"
    using assms(2,3) protected_plus[of s "fst w"] by (auto simp: canAcquire_iff dest: spec[of _ "fst w"])
  with ok w show False by (auto simp: pool_ok_def)
qed

lemma drained_pool_has_no_waiter_witness:
  "sp_waiters (snd (release LaneHistory (snd (release LaneLive sample_pool)))) = []"
proof (rule drained_pool_has_no_waiter)
  have h: "0 < held sample_pool LaneLive" by (simp add: sample_pool_def held_def)
  have e: "snd (release LaneLive sample_pool) = \<lparr>sp_total = 2, sp_reserved = (\<lambda>_. None)(LaneInteractive \<mapsto> 1),
     sp_active = 1, sp_byLane = [(LaneHistory, 1)], sp_waiters = []\<rparr>"
    by (simp add: release_def release_slot_def flushWaiters_def tryAcquire_def canAcquire_def
        protectedOthers_def SYNC_LANES_def reservedFor_def held_def sample_pool_def)
  have h2: "0 < held (snd (release LaneLive sample_pool)) LaneHistory" by (simp add: e held_def)
  show "pool_reachable sample_options (snd (release LaneHistory (snd (release LaneLive sample_pool))))"
    by (rule pool_reachable.step[OF pool_reachable.step[OF sample_reachable step_release[OF h]] step_release[OF h2]])
  have e2: "snd (release LaneHistory (snd (release LaneLive sample_pool))) =
     \<lparr>sp_total = 2, sp_reserved = (\<lambda>_. None)(LaneInteractive \<mapsto> 1),
     sp_active = 0, sp_byLane = [], sp_waiters = []\<rparr>"
    unfolding e by (simp add: release_def release_slot_def flushWaiters_def held_def)
  show "sp_active (snd (release LaneHistory (snd (release LaneLive sample_pool)))) = 0"
    by (simp add: e2)
  show "\<forall>l. all_reserved (snd (release LaneHistory (snd (release LaneLive sample_pool))))
      - reservedFor (snd (release LaneHistory (snd (release LaneLive sample_pool)))) l
      < sp_total (snd (release LaneHistory (snd (release LaneLive sample_pool))))"
    unfolding e2 by (auto simp: all_reserved_def reservedFor_def SYNC_LANES_def)
qed

text \<open>A lane is starved for good when the other lanes' reservations fill the pool; the constructor
  does not reject such options.\<close>

lemma overcommitted_lane_starves:
  assumes "pool_reachable opts s" and "sp_total s \<le> all_reserved s - reservedFor s lane"
  shows "\<not> canAcquire s lane"
proof -
  have ok: "pool_ok s" by (rule pool_reachable_ok[OF assms(1)])
  have "all_reserved s - reservedFor s lane
      \<le> (all_held s - held s lane) + (all_unused s - max 0 (reservedFor s lane - held s lane))"
    unfolding all_reserved_def all_held_def all_unused_def
    by (cases lane) (simp_all add: SYNC_LANES_def)
  moreover have "0 \<le> held s lane" using ok by (simp add: pool_ok_def)
  moreover have "sp_active s = all_held s" using ok by (simp add: pool_ok_def)
  ultimately have "sp_total s \<le> sp_active s + protectedOthers s lane"
    using assms(2) protected_plus[of s lane] by linarith
  then show ?thesis by (simp add: canAcquire_iff)
qed

end
