(* ===== verification/IngestTypes.thy ===== *)
theory IngestTypes
  imports RuntimeStore
begin

section \<open>Records, events and conversations\<close>

text \<open>
  The ingest contract (\<open>packages/connector-contract/src/ingest.ts\<close>, \<open>message.ts\<close>,
  \<open>egress.ts\<close>) and the event types of \<open>packages/domain/src/ingestion.ts\<close>: what a connector
  delivers, what the authority store keeps of it, and how the id of a conversation is read off the
  source id of a message. Bytes are strings (one \<^typ>\<open>char\<close> per byte); numbers of a JSON value
  are finite.
\<close>

subsection \<open>Values\<close>

text \<open>\<open>[...new Set(xs)]\<close>: the first occurrence of each element, in order.\<close>

definition js_unique :: "'a list \<Rightarrow> 'a list" where
  "js_unique xs = rev (remdups (rev xs))"

lemma set_js_unique [simp]: "set (js_unique xs) = set xs"
  by (simp add: js_unique_def)

lemma distinct_js_unique [simp]: "distinct (js_unique xs)"
  by (simp add: js_unique_def)

datatype json =
  JNull | JBool bool | JNum rat | JStr string | JArr "json list" | JObj "(string \<times> json) list"

datatype content_role = RoleBody | RoleAttachment | RoleTranscript | RoleMetadata

record content_part =
  cp_role :: content_role
  cp_media_type :: string
  cp_source_filename :: "string option"
  cp_bytes :: "string option"
  cp_text :: "string option"
  cp_external_locator :: "string option"

record weight_hints =
  wh_urgency :: "rat option"
  wh_importance :: "rat option"
  wh_evidence_class :: "string option"
  wh_role_tier :: "rat option"

datatype ingest_operation = OpCreate | OpRevise | OpTombstone

datatype message_kind = KindUser | KindAssistant | KindSystem

datatype message_direction = Inbound | Outbound

subsection \<open>What a connector delivers\<close>

record ingest_record =
  ir_operation :: ingest_operation
  ir_source :: string
  ir_external_id :: string
  ir_revision_id :: "string option"
  ir_occurred_at :: string
  ir_actor_id :: string
  ir_actor_name :: "string option"
  ir_scope_id :: string
  ir_scope_name :: "string option"
  ir_type :: string
  ir_thread_id :: "string option"
  ir_parent_external_id :: "string option"
  ir_content :: "content_part list option"
  ir_direction_tags :: "string list option"
  ir_weight_hints :: "weight_hints option"
  ir_attrs :: "(string \<times> json) list option"

record delivery_receipt =
  dr_accepted :: bool
  dr_rpc_id :: "string option"
  dr_channel_message_ids :: "string list option"

subsection \<open>What the store keeps\<close>

record source_identity =
  sid_org_id :: string
  sid_source :: string
  sid_external_id :: string

record event_record =
  ev_id :: string
  ev_org_id :: string
  ev_source :: string
  ev_external_id :: string
  ev_operation :: ingest_operation
  ev_content_hash :: "string option"
  ev_parent_event_id :: "string option"
  ev_thread_id :: "string option"
  ev_actor_id :: "string option"
  ev_required_scope_ids :: "string list option"
  ev_direction_tags :: "string list option"
  ev_weight_hints :: "weight_hints option"
  ev_attrs :: "(string \<times> json) list option"
  ev_occurred_at :: string
  ev_ingested_at :: string

definition event_identity :: "event_record \<Rightarrow> source_identity" where
  "event_identity e = \<lparr>sid_org_id = ev_org_id e, sid_source = ev_source e, sid_external_id = ev_external_id e\<rparr>"

subsection \<open>Conversations\<close>

fun index_of :: "string \<Rightarrow> string \<Rightarrow> nat option" where
  "index_of p [] = (if p = [] then Some 0 else None)"
| "index_of p (c # s) = (if starts_with p (c # s) then Some 0 else map_option Suc (index_of p s))"

definition last_index :: "char \<Rightarrow> string \<Rightarrow> nat option" where
  "last_index c s =
     (if c \<in> set s then Some (length s - Suc (length (takeWhile (\<lambda>d. d \<noteq> c) (rev s)))) else None)"

definition isLocalOutboundId :: "string \<Rightarrow> bool" where
  "isLocalOutboundId externalId = js_includes '':out:'' externalId"

definition normalizeUtterance :: "string option \<Rightarrow> string" where
  "normalizeUtterance text = js_trim (squash_spaces (or_else text []))"

definition or_nonempty :: "string \<Rightarrow> string \<Rightarrow> string" where
  "or_nonempty s fallback = (if s = [] then fallback else s)"

definition conversationId :: "string \<Rightarrow> string \<Rightarrow> string \<Rightarrow> string" where
  "conversationId source externalId fallbackId =
     (case index_of '':out:'' externalId of
        Some k \<Rightarrow> source @ '':'' @ or_nonempty (js_trim (take k externalId)) fallbackId
      | None \<Rightarrow>
          (case last_index (CHR '':'') externalId of
             Some (Suc n) \<Rightarrow> source @ '':'' @ take (Suc n) externalId
           | _ \<Rightarrow> source @ '':'' @ or_nonempty externalId fallbackId))"

definition eventThreadId :: "event_record \<Rightarrow> string" where
  "eventThreadId e = or_else (ev_thread_id e) (conversationId (ev_source e) (ev_external_id e) (ev_id e))"

lemma last_index_split:
  "c \<notin> set r \<Longrightarrow> last_index c (l @ c # r) = Some (length l)"
  by (simp add: last_index_def takeWhile_append)

lemma last_index_None [simp]: "last_index c s = None \<longleftrightarrow> c \<notin> set s"
  by (simp add: last_index_def)

lemma index_of_None: "index_of p s = None \<longleftrightarrow> \<not> js_includes p s"
  by (induction s) auto

lemma index_of_local: "isLocalOutboundId s \<longleftrightarrow> index_of '':out:'' s \<noteq> None"
  by (simp add: isLocalOutboundId_def index_of_None)

end
