(* ===== verification/WorkTypes.thy ===== *)
theory WorkTypes
  imports IngestTypes
begin

section \<open>Recipes, work items, runs and deliveries\<close>

text \<open>
  The types of \<open>packages/domain/src/work.ts\<close>, the classes and facets of records
  (\<open>record-class.ts\<close>, \<open>thread-facet.ts\<close>, \<open>unit-kind.ts\<close>) and the run record of
  \<open>packages/connector-contract/src/executor.ts\<close>. The names of the statuses carry a prefix per
  union. \<open>executor_config\<close> is only copied.
\<close>

subsection \<open>Record classes and thread facets\<close>

datatype record_class = ClassUtterance | ClassTask | ClassStatus | ClassPrompt

datatype thread_facet = FacetChat | FacetAgent | FacetTicket

definition recordClassFromType :: "string option \<Rightarrow> record_class option" where
  "recordClassFromType type =
     (if \<not> truthy type then Some ClassUtterance
      else let t = or_else type [] in
        if t = ''message'' \<or> t = ''thread_reply'' then Some ClassUtterance
        else if t = ''task'' then Some ClassTask
        else if t = ''thread_status'' then Some ClassStatus
        else if t = ''prompt'' then Some ClassPrompt
        else None)"

record facet_input =
  fi_record_class :: "record_class option"
  fi_type :: "string option"
  fi_prompts :: bool
  fi_hint :: "thread_facet option"

definition projectThreadFacet :: "facet_input \<Rightarrow> thread_facet" where
  "projectThreadFacet i =
     (let recordClass = or_opt (fi_record_class i) (recordClassFromType (fi_type i))
      in if recordClass = Some ClassTask then FacetTicket
         else case fi_hint i of Some hint \<Rightarrow> hint
           | None \<Rightarrow> if fi_prompts i then FacetAgent else FacetChat)"

definition mergeThreadFacet :: "thread_facet option \<Rightarrow> thread_facet \<Rightarrow> thread_facet" where
  "mergeThreadFacet current next =
     (if current = Some FacetTicket \<or> next = FacetTicket then FacetTicket
      else if current = Some FacetAgent \<or> next = FacetAgent then FacetAgent
      else FacetChat)"

definition normalizeUnitKind :: "string option \<Rightarrow> string option" where
  "normalizeUnitKind value = trim_opt value"

subsection \<open>Recipes\<close>

datatype trigger_kind = TriggerPush | TriggerPull | TriggerManual

record recipe_match =
  rm_record_class :: "record_class option"
  rm_thread_facet :: "thread_facet option"
  rm_source :: "string option"
  rm_thread_id :: "string option"
  rm_unit_kind :: "string option"
  rm_text_contains :: "string option"
  rm_text_excludes :: "string option"

record recipe_trigger =
  tg_kind :: trigger_kind
  tg_interval_ms :: "js_num option"
  tg_at_minute :: "js_num option"
  tg_weekdays :: "js_num list option"
  tg_timezone :: "string option"
  tg_coalesce :: "bool option"

record recipe =
  re_id :: string
  re_org_id :: string
  re_name :: string
  re_match :: recipe_match
  re_trigger :: recipe_trigger
  re_executor_type :: string
  re_executor_config :: "(string \<times> json) list"
  re_can_write_back :: bool
  re_write_back_thread_id :: "string option"
  re_include_context :: bool
  re_max_concurrent :: "int option"
  re_enabled :: bool
  re_next_run_at :: "string option"
  re_created_at :: string
  re_updated_at :: string

definition PULL_INTERVAL_MIN_MS :: int where "PULL_INTERVAL_MIN_MS = 60 * 1000"

definition PULL_INTERVAL_MAX_MS :: int where "PULL_INTERVAL_MAX_MS = 7 * 24 * 60 * 60 * 1000"

definition PULL_INTERVAL_1H :: int where "PULL_INTERVAL_1H = 60 * 60 * 1000"

subsection \<open>Work items and runs\<close>

datatype item_status = ItemOpen | ItemRunning | ItemWaiting | ItemDone | ItemFailed | ItemSkipped

definition isActiveWorkStatus :: "item_status \<Rightarrow> bool" where
  "isActiveWorkStatus status \<longleftrightarrow> status \<in> {ItemOpen, ItemRunning, ItemWaiting}"

record work_item =
  wi_id :: string
  wi_org_id :: string
  wi_thread_id :: string
  wi_unit_key :: string
  wi_head_event_id :: "string option"
  wi_record_class :: record_class
  wi_thread_facet :: thread_facet
  wi_status :: item_status
  wi_recipe_id :: "string option"
  wi_created_at :: string
  wi_updated_at :: string

datatype exec_status = ExecRunning | ExecWaiting | ExecCompleted | ExecFailed | ExecCancelled

datatype start_state = StartPending | StartSubmitted | StartUncertain

record result_envelope =
  rv_summary :: string
  rv_content :: "content_part list option"
  rv_evidence_event_ids :: "string list option"

record work_run =
  wn_id :: string
  wn_org_id :: string
  wn_work_item_id :: string
  wn_recipe_id :: string
  wn_executor_type :: string
  wn_external_run_id :: "string option"
  wn_agent_thread_id :: "string option"
  wn_status :: exec_status
  wn_start_state :: "start_state option"
  wn_result :: "result_envelope option"
  wn_created_at :: string
  wn_updated_at :: string

text \<open>A claim reserves an open item for a run that is created running, its start pending.\<close>

record run_start_claim =
  wc_run :: work_run
  wc_max_concurrent :: "int option"

subsection \<open>Deliveries\<close>

datatype delivery_status = DelQueued | DelRunning | DelWriteBack | DelAcked | DelDead

datatype write_back_state = BackPending | BackSent | BackSkipped | BackFailed

record delivery_payload =
  py_summary :: string
  py_content :: "content_part list option"

record channel_receipt =
  cr_accepted :: bool
  cr_rpc_id :: "string option"

record work_delivery =
  wd_id :: string
  wd_org_id :: string
  wd_work_item_id :: string
  wd_recipe_id :: string
  wd_kind :: trigger_kind
  wd_unit_key :: string
  wd_event_id :: "string option"
  wd_status :: delivery_status
  wd_write_back :: write_back_state
  wd_attempts :: int
  wd_payload :: "delivery_payload option"
  wd_idempotency_key :: "string option"
  wd_channel_receipt :: "channel_receipt option"
  wd_last_error :: "string option"
  wd_next_retry_at :: "string option"
  wd_lease_expires_at :: "string option"
  wd_created_at :: string
  wd_updated_at :: string

end
