(* ===== verification/WorkStore.thy ===== *)
theory WorkStore
  imports WorkTypes
begin

section \<open>The work store\<close>

text \<open>
  \<open>MemoryWorkStore\<close> of \<open>packages/domain/src/memory-work-store.ts\<close>: recipes, work items, runs,
  deliveries, interface preferences, search answers and executor installations of every
  organisation, with \<open>currentJobOnSession\<close> of \<open>job-control.ts\<close>. The core is
  \<open>claimWorkRunStart\<close>, which reserves an open item for one run within the cap of its recipe. The
  deliveries a flush may send are in theory \<open>WorkDelivery\<close>.
\<close>

subsection \<open>The state\<close>

record search_answer_record =
  sa_id :: string
  sa_org_id :: string
  sa_work_item_id :: string
  sa_query :: string
  sa_event_ids :: "string list"
  sa_outcome :: "string option"
  sa_created_at :: string
  sa_updated_at :: string

datatype executor_kind = ExecutorLocal | ExecutorHttp

datatype executor_status = ExecutorEnabled | ExecutorDisabled

record executor_installation =
  xi_id :: string
  xi_org_id :: string
  xi_kind :: executor_kind
  xi_name :: string
  xi_status :: executor_status
  xi_config :: "(string \<times> json) list"
  xi_created_at :: string
  xi_updated_at :: string

record work_store =
  ws_recipes :: "(string, recipe) js_map"
  ws_items :: "(string, work_item) js_map"
  ws_runs :: "(string, work_run) js_map"
  ws_deliveries :: "(string, work_delivery) js_map"
  ws_uiPrefs :: "(string, string) js_map"
  ws_searchAnswers :: "(string, search_answer_record) js_map"
  ws_executors :: "(string, executor_installation) js_map"

definition new_work_store :: work_store where
  "new_work_store = \<lparr>ws_recipes = [], ws_items = [], ws_runs = [], ws_deliveries = [], ws_uiPrefs = [],
     ws_searchAnswers = [], ws_executors = []\<rparr>"

text \<open>\<open>const x = map.get(id); return x \<and> x.org_id === orgId ? x : null\<close>\<close>

definition get_own :: "('v \<Rightarrow> string) \<Rightarrow> string \<Rightarrow> string \<Rightarrow> (string, 'v) js_map \<Rightarrow> 'v option" where
  "get_own org orgId key m =
     (case map_of m key of None \<Rightarrow> None | Some v \<Rightarrow> if org v = orgId then Some v else None)"

definition list_own :: "('v \<Rightarrow> string) \<Rightarrow> string \<Rightarrow> (string, 'v) js_map \<Rightarrow> 'v list" where
  "list_own org orgId m = List.filter (\<lambda>v. org v = orgId) (js_values m)"

lemma get_own_Some: "get_own org orgId key m = Some v \<longleftrightarrow> map_of m key = Some v \<and> org v = orgId"
  by (auto simp: get_own_def split: option.splits)

subsection \<open>Recipes\<close>

definition listRecipes :: "string \<Rightarrow> work_store \<Rightarrow> recipe list" where
  "listRecipes orgId s = list_own re_org_id orgId (ws_recipes s)"

definition getRecipe :: "string \<Rightarrow> string \<Rightarrow> work_store \<Rightarrow> recipe option" where
  "getRecipe orgId rid s = get_own re_org_id orgId rid (ws_recipes s)"

definition putRecipe :: "recipe \<Rightarrow> work_store \<Rightarrow> recipe \<times> work_store" where
  "putRecipe r s = (r, s\<lparr>ws_recipes := js_set (re_id r) r (ws_recipes s)\<rparr>)"

definition deleteRecipe :: "string \<Rightarrow> string \<Rightarrow> work_store \<Rightarrow> bool \<times> work_store" where
  "deleteRecipe orgId rid s =
     (case getRecipe orgId rid s of
        None \<Rightarrow> (False, s)
      | Some _ \<Rightarrow> (True, s\<lparr>ws_recipes := AList.delete rid (ws_recipes s)\<rparr>))"

subsection \<open>Work items\<close>

definition listWorkItems :: "string \<Rightarrow> item_status list option \<Rightarrow> work_store \<Rightarrow> work_item list" where
  "listWorkItems orgId statuses s =
     List.filter (\<lambda>w. wi_org_id w = orgId
       \<and> (case statuses of None \<Rightarrow> True | Some allowed \<Rightarrow> wi_status w \<in> set allowed)) (js_values (ws_items s))"

definition getWorkItem :: "string \<Rightarrow> string \<Rightarrow> work_store \<Rightarrow> work_item option" where
  "getWorkItem orgId i s = get_own wi_org_id orgId i (ws_items s)"

text \<open>The newest job first, then the larger id.\<close>

definition byJobForeground :: "work_item \<Rightarrow> work_item \<Rightarrow> int" where
  "byJobForeground l r =
     (if wi_created_at l \<noteq> wi_created_at r then if wi_created_at l < wi_created_at r then 1 else -1
      else if wi_id l < wi_id r then 1 else -1)"

definition currentJobOnSession :: "work_item list \<Rightarrow> string \<Rightarrow> work_item option" where
  "currentJobOnSession items threadId =
     (let onSession = List.filter (\<lambda>w. wi_thread_id w = threadId) items;
          active = List.filter (\<lambda>w. isActiveWorkStatus (wi_status w)) onSession;
          pool = (if active \<noteq> [] then active else onSession)
      in case js_sort byJobForeground pool of [] \<Rightarrow> None | w # _ \<Rightarrow> Some w)"

definition getWorkItemByThread :: "string \<Rightarrow> string \<Rightarrow> work_store \<Rightarrow> work_item option" where
  "getWorkItemByThread orgId threadId s = currentJobOnSession (list_own wi_org_id orgId (ws_items s)) threadId"

definition getWorkItemByUnitKey :: "string \<Rightarrow> string \<Rightarrow> string \<Rightarrow> work_store \<Rightarrow> work_item option" where
  "getWorkItemByUnitKey orgId threadId unitKey s =
     List.find (\<lambda>w. wi_org_id w = orgId \<and> wi_thread_id w = threadId \<and> wi_unit_key w = unitKey) (js_values (ws_items s))"

definition putWorkItem :: "work_item \<Rightarrow> work_store \<Rightarrow> work_item \<times> work_store" where
  "putWorkItem w s = (w, s\<lparr>ws_items := js_set (wi_id w) w (ws_items s)\<rparr>)"

subsection \<open>Runs\<close>

definition listWorkRuns :: "string \<Rightarrow> string option \<Rightarrow> work_store \<Rightarrow> work_run list" where
  "listWorkRuns orgId workItemId s =
     List.filter (\<lambda>r. wn_org_id r = orgId
       \<and> (case workItemId of None \<Rightarrow> True | Some i \<Rightarrow> wn_work_item_id r = i)) (js_values (ws_runs s))"

definition getWorkRun :: "string \<Rightarrow> string \<Rightarrow> work_store \<Rightarrow> work_run option" where
  "getWorkRun orgId i s = get_own wn_org_id orgId i (ws_runs s)"

definition active_run :: "work_run \<Rightarrow> bool" where
  "active_run r \<longleftrightarrow> wn_status r = ExecRunning \<or> wn_status r = ExecWaiting"

definition getActiveWorkRun :: "string \<Rightarrow> string \<Rightarrow> work_store \<Rightarrow> work_run option" where
  "getActiveWorkRun orgId workItemId s =
     (let active = List.filter (\<lambda>r. wn_org_id r = orgId \<and> wn_work_item_id r = workItemId \<and> active_run r)
            (js_values (ws_runs s))
      in case js_sort (\<lambda>l r. if wn_updated_at l < wn_updated_at r then 1 else -1) active of
           [] \<Rightarrow> None | r # _ \<Rightarrow> Some r)"

definition putWorkRun :: "work_run \<Rightarrow> work_store \<Rightarrow> work_run \<times> work_store" where
  "putWorkRun r s = (r, s\<lparr>ws_runs := js_set (wn_id r) r (ws_runs s)\<rparr>)"

definition occupied_status :: "item_status \<Rightarrow> bool" where
  "occupied_status status \<longleftrightarrow> status = ItemRunning \<or> status = ItemWaiting"

definition occupied :: "string \<Rightarrow> string \<Rightarrow> work_store \<Rightarrow> int" where
  "occupied orgId recipeId s =
     int (length (List.filter (\<lambda>w. wi_org_id w = orgId \<and> wi_recipe_id w = Some recipeId \<and> occupied_status (wi_status w))
       (js_values (ws_items s))))"

text \<open>The guard of a claim: everything that makes it answer \<open>false\<close>.\<close>

definition claim_refused :: "run_start_claim \<Rightarrow> work_store \<Rightarrow> bool" where
  "claim_refused c s =
     (let run = wc_run c
      in (case map_of (ws_items s) (wn_work_item_id run) of
            None \<Rightarrow> True
          | Some item \<Rightarrow> wi_org_id item \<noteq> wn_org_id run \<or> wi_status item \<noteq> ItemOpen
              \<or> wi_recipe_id item \<noteq> Some (wn_recipe_id run)
              \<or> map_option re_org_id (map_of (ws_recipes s) (wn_recipe_id run)) \<noteq> Some (wn_org_id run)
              \<or> list_ex (\<lambda>r. wn_org_id r = wn_org_id run \<and> wn_work_item_id r = wi_id item \<and> active_run r)
                   (js_values (ws_runs s)))
         \<or> (case wc_max_concurrent c of None \<Rightarrow> False
              | Some m \<Rightarrow> m \<le> occupied (wn_org_id run) (wn_recipe_id run) s))"

definition claimWorkRunStart :: "run_start_claim \<Rightarrow> work_store \<Rightarrow> (js_error + bool) \<times> work_store" where
  "claimWorkRunStart c s =
     (let run = wc_run c
      in if claim_refused c s then (Inr False, s)
         else case map_of (ws_items s) (wn_work_item_id run) of
             None \<Rightarrow> (Inr False, s)
           | Some item \<Rightarrow>
               if map_of (ws_runs s) (wn_id run) \<noteq> None
               then (Inl (ErrorMsg (''Work run already exists: '' @ wn_id run)), s)
               else (Inr True,
                 s\<lparr>ws_runs := js_set (wn_id run) run (ws_runs s),
                   ws_items := js_set (wi_id item)
                     (item\<lparr>wi_status := ItemRunning, wi_updated_at := wn_updated_at run\<rparr>) (ws_items s)\<rparr>))"

definition listHiddenExecutorThreadIds :: "string \<Rightarrow> work_store \<Rightarrow> string list" where
  "listHiddenExecutorThreadIds orgId s =
     (let sources = List.map wi_thread_id (list_own wi_org_id orgId (ws_items s))
      in js_unique (List.map (\<lambda>r. or_else (wn_agent_thread_id r) [])
           (List.filter (\<lambda>r. wn_org_id r = orgId \<and> truthy (wn_agent_thread_id r)
              \<and> or_else (wn_agent_thread_id r) [] \<notin> set sources) (js_values (ws_runs s)))))"

subsection \<open>Deliveries\<close>

definition listWorkDeliveries :: "string \<Rightarrow> work_store \<Rightarrow> work_delivery list" where
  "listWorkDeliveries orgId s = list_own wd_org_id orgId (ws_deliveries s)"

definition getWorkDelivery :: "string \<Rightarrow> string \<Rightarrow> work_store \<Rightarrow> work_delivery option" where
  "getWorkDelivery orgId i s = get_own wd_org_id orgId i (ws_deliveries s)"

definition getWorkDeliveryByItem :: "string \<Rightarrow> string \<Rightarrow> work_store \<Rightarrow> work_delivery option" where
  "getWorkDeliveryByItem orgId workItemId s =
     List.find (\<lambda>d. wd_org_id d = orgId \<and> wd_work_item_id d = workItemId) (js_values (ws_deliveries s))"

definition putWorkDelivery :: "work_delivery \<Rightarrow> work_store \<Rightarrow> work_delivery \<times> work_store" where
  "putWorkDelivery d s = (d, s\<lparr>ws_deliveries := js_set (wd_id d) d (ws_deliveries s)\<rparr>)"

subsection \<open>Preferences, answers, executors\<close>

definition pref_key :: "string \<Rightarrow> string \<Rightarrow> string" where
  "pref_key orgId key = orgId @ CHR 0x00 # key"

definition getUiPref :: "string \<Rightarrow> string \<Rightarrow> work_store \<Rightarrow> string option" where
  "getUiPref orgId key s = map_of (ws_uiPrefs s) (pref_key orgId key)"

definition putUiPref :: "string \<Rightarrow> string \<Rightarrow> string \<Rightarrow> work_store \<Rightarrow> work_store" where
  "putUiPref orgId key v s = s\<lparr>ws_uiPrefs := js_set (pref_key orgId key) v (ws_uiPrefs s)\<rparr>"

definition getSearchAnswer :: "string \<Rightarrow> string \<Rightarrow> work_store \<Rightarrow> search_answer_record option" where
  "getSearchAnswer orgId i s = get_own sa_org_id orgId i (ws_searchAnswers s)"

definition putSearchAnswer :: "search_answer_record \<Rightarrow> work_store \<Rightarrow> search_answer_record \<times> work_store" where
  "putSearchAnswer r s = (r, s\<lparr>ws_searchAnswers := js_set (sa_id r) r (ws_searchAnswers s)\<rparr>)"

definition deleteSearchAnswer :: "string \<Rightarrow> string \<Rightarrow> work_store \<Rightarrow> bool \<times> work_store" where
  "deleteSearchAnswer orgId i s =
     (case getSearchAnswer orgId i s of
        None \<Rightarrow> (False, s)
      | Some _ \<Rightarrow> (True, s\<lparr>ws_searchAnswers := AList.delete i (ws_searchAnswers s)\<rparr>))"

definition listExecutorInstallations :: "string \<Rightarrow> work_store \<Rightarrow> executor_installation list" where
  "listExecutorInstallations orgId s = list_own xi_org_id orgId (ws_executors s)"

definition getExecutorInstallation :: "string \<Rightarrow> string \<Rightarrow> work_store \<Rightarrow> executor_installation option" where
  "getExecutorInstallation orgId i s = get_own xi_org_id orgId i (ws_executors s)"

definition putExecutorInstallation ::
  "executor_installation \<Rightarrow> work_store \<Rightarrow> executor_installation \<times> work_store" where
  "putExecutorInstallation x s = (x, s\<lparr>ws_executors := js_set (xi_id x) x (ws_executors s)\<rparr>)"

definition deleteExecutorInstallation :: "string \<Rightarrow> string \<Rightarrow> work_store \<Rightarrow> bool \<times> work_store" where
  "deleteExecutorInstallation orgId i s =
     (case getExecutorInstallation orgId i s of
        None \<Rightarrow> (False, s)
      | Some _ \<Rightarrow> (True, s\<lparr>ws_executors := AList.delete i (ws_executors s)\<rparr>))"

subsection \<open>Dropping and counting\<close>

definition dropOperationalWork :: "string \<Rightarrow> work_store \<Rightarrow> nat \<times> work_store" where
  "dropOperationalWork orgId s =
     (length (list_own wi_org_id orgId (ws_items s)),
      s\<lparr>ws_items := delete_where (\<lambda>_ w. wi_org_id w = orgId) (ws_items s),
        ws_runs := delete_where (\<lambda>_ r. wn_org_id r = orgId) (ws_runs s),
        ws_deliveries := delete_where (\<lambda>_ d. wd_org_id d = orgId) (ws_deliveries s)\<rparr>)"

definition workItemCount :: "string \<Rightarrow> work_store \<Rightarrow> nat" where
  "workItemCount orgId s = length (list_own wi_org_id orgId (ws_items s))"

definition recipeCount :: "string \<Rightarrow> work_store \<Rightarrow> nat" where
  "recipeCount orgId s = length (list_own re_org_id orgId (ws_recipes s))"

definition executorCount :: "string \<Rightarrow> work_store \<Rightarrow> nat" where
  "executorCount orgId s = length (list_own xi_org_id orgId (ws_executors s))"

definition activeItems :: "string \<Rightarrow> work_store \<Rightarrow> work_item list" where
  "activeItems orgId s =
     List.filter (\<lambda>w. wi_org_id w = orgId \<and> isActiveWorkStatus (wi_status w)) (js_values (ws_items s))"

end
