(* ===== verification/WorkClaims.thy ===== *)
theory WorkClaims
  imports WorkStore
begin

section \<open>Starting work is exclusive and bounded\<close>

text \<open>
  The operations of the work store as steps, the shape of its maps as an invariant, and what
  \<open>claimWorkRunStart\<close> promises over every interleaving of steps: an item has at most one active run,
  a claimed item is claimed by nobody else, and a recipe never runs more items than its cap.
\<close>

subsection \<open>Steps\<close>

datatype work_op =
  WPutRecipe recipe | WDeleteRecipe string string | WPutItem work_item | WPutRun work_run
| WClaim run_start_claim | WPutDelivery work_delivery | WPutUiPref string string string
| WPutSearchAnswer search_answer_record | WDeleteSearchAnswer string string
| WPutExecutor executor_installation | WDeleteExecutor string string | WDropOperational string

fun work_step :: "work_op \<Rightarrow> work_store \<Rightarrow> work_store" where
  "work_step (WPutRecipe r) s = snd (putRecipe r s)"
| "work_step (WDeleteRecipe org i) s = snd (deleteRecipe org i s)"
| "work_step (WPutItem w) s = snd (putWorkItem w s)"
| "work_step (WPutRun r) s = snd (putWorkRun r s)"
| "work_step (WClaim c) s = snd (claimWorkRunStart c s)"
| "work_step (WPutDelivery d) s = snd (putWorkDelivery d s)"
| "work_step (WPutUiPref org k v) s = putUiPref org k v s"
| "work_step (WPutSearchAnswer r) s = snd (putSearchAnswer r s)"
| "work_step (WDeleteSearchAnswer org i) s = snd (deleteSearchAnswer org i s)"
| "work_step (WPutExecutor x) s = snd (putExecutorInstallation x s)"
| "work_step (WDeleteExecutor org i) s = snd (deleteExecutorInstallation org i s)"
| "work_step (WDropOperational org) s = snd (dropOperationalWork org s)"

abbreviation work_steps :: "work_op list \<Rightarrow> work_store \<Rightarrow> work_store" where
  "work_steps ops s \<equiv> fold work_step ops s"

text \<open>Items and runs are kept under their ids.\<close>

definition work_ok :: "work_store \<Rightarrow> bool" where
  "work_ok s \<longleftrightarrow> distinct (js_keys (ws_items s)) \<and> distinct (js_keys (ws_runs s))
     \<and> (\<forall>k w. map_of (ws_items s) k = Some w \<longrightarrow> wi_id w = k)
     \<and> (\<forall>k r. map_of (ws_runs s) k = Some r \<longrightarrow> wn_id r = k)"

lemma work_ok_new: "work_ok new_work_store"
  by (simp add: work_ok_def new_work_store_def)

lemma work_ok_item: "work_ok s \<Longrightarrow> map_of (ws_items s) k = Some w \<Longrightarrow> wi_id w = k"
  by (simp add: work_ok_def)

lemma claim_cases:
  obtains (refused) "claim_refused c s" "claimWorkRunStart c s = (Inr False, s)"
  | (exists) "\<not> claim_refused c s" "map_of (ws_runs s) (wn_id (wc_run c)) \<noteq> None" "\<exists>e. claimWorkRunStart c s = (Inl e, s)"
  | (claimed) item where "\<not> claim_refused c s" "map_of (ws_items s) (wn_work_item_id (wc_run c)) = Some item"
      "map_of (ws_runs s) (wn_id (wc_run c)) = None"
      "claimWorkRunStart c s = (Inr True,
         s\<lparr>ws_runs := js_set (wn_id (wc_run c)) (wc_run c) (ws_runs s),
           ws_items := js_set (wi_id item)
             (item\<lparr>wi_status := ItemRunning, wi_updated_at := wn_updated_at (wc_run c)\<rparr>) (ws_items s)\<rparr>)"
proof (cases "claim_refused c s")
  case True
  then show ?thesis using refused by (simp add: claimWorkRunStart_def)
next
  case False
  then obtain item where item: "map_of (ws_items s) (wn_work_item_id (wc_run c)) = Some item"
    by (auto simp: claim_refused_def Let_def split: option.splits)
  show ?thesis
  proof (cases "map_of (ws_runs s) (wn_id (wc_run c))")
    case None
    then show ?thesis using claimed[OF False item] False item by (simp add: claimWorkRunStart_def Let_def)
  next
    case (Some r)
    then show ?thesis using exists[OF False] False item by (simp add: claimWorkRunStart_def Let_def)
  qed
qed

lemma claim_granted:
  assumes "\<not> claim_refused c s" and "map_of (ws_items s) (wn_work_item_id (wc_run c)) = Some item"
  shows "wi_org_id item = wn_org_id (wc_run c)" and "wi_status item = ItemOpen"
    and "wi_recipe_id item = Some (wn_recipe_id (wc_run c))"
    and "r \<in> set (js_values (ws_runs s)) \<Longrightarrow> wn_org_id r = wn_org_id (wc_run c) \<Longrightarrow>
      wn_work_item_id r = wi_id item \<Longrightarrow> \<not> active_run r"
    and "wc_max_concurrent c = Some m \<Longrightarrow> occupied (wn_org_id (wc_run c)) (wn_recipe_id (wc_run c)) s < m"
  using assms by (auto simp: claim_refused_def Let_def list_ex_iff split: option.splits)

lemma work_ok_step: "work_ok s \<Longrightarrow> work_ok (work_step op s)"
proof (cases op)
  case (WClaim c)
  assume ok: "work_ok s"
  then show ?thesis
    by (cases rule: claim_cases[of c s]) (auto simp: WClaim work_ok_def split: if_splits)
next
  case (WDropOperational org)
  assume "work_ok s"
  then show ?thesis by (auto simp: WDropOperational dropOperationalWork_def work_ok_def split: option.splits if_splits)
qed (auto simp: work_ok_def putRecipe_def deleteRecipe_def putWorkItem_def putWorkRun_def putWorkDelivery_def
    putUiPref_def putSearchAnswer_def deleteSearchAnswer_def putExecutorInstallation_def
    deleteExecutorInstallation_def split: option.splits if_splits)

lemma work_ok_steps: "work_ok s \<Longrightarrow> work_ok (work_steps ops s)"
  by (induction ops arbitrary: s) (simp_all add: work_ok_step)

text \<open>Steps that leave the items and the runs alone.\<close>

lemma side_steps [simp]:
  "ws_items (snd (putRecipe r s)) = ws_items s" "ws_runs (snd (putRecipe r s)) = ws_runs s"
  "ws_items (snd (deleteRecipe org i s)) = ws_items s" "ws_runs (snd (deleteRecipe org i s)) = ws_runs s"
  "ws_items (snd (putWorkDelivery d s)) = ws_items s" "ws_runs (snd (putWorkDelivery d s)) = ws_runs s"
  "ws_items (putUiPref org i v s) = ws_items s" "ws_runs (putUiPref org i v s) = ws_runs s"
  "ws_items (snd (putSearchAnswer a s)) = ws_items s" "ws_runs (snd (putSearchAnswer a s)) = ws_runs s"
  "ws_items (snd (deleteSearchAnswer org i s)) = ws_items s" "ws_runs (snd (deleteSearchAnswer org i s)) = ws_runs s"
  "ws_items (snd (putExecutorInstallation x s)) = ws_items s" "ws_runs (snd (putExecutorInstallation x s)) = ws_runs s"
  "ws_items (snd (deleteExecutorInstallation org i s)) = ws_items s"
  "ws_runs (snd (deleteExecutorInstallation org i s)) = ws_runs s"
  "ws_runs (snd (putWorkItem w s)) = ws_runs s" "ws_items (snd (putWorkRun wr s)) = ws_items s"
  by (simp_all add: putRecipe_def deleteRecipe_def putWorkDelivery_def putUiPref_def putSearchAnswer_def
      deleteSearchAnswer_def putExecutorInstallation_def deleteExecutorInstallation_def putWorkItem_def
      putWorkRun_def split: option.splits)

subsection \<open>The cap of a recipe\<close>

definition occupies :: "string \<Rightarrow> string \<Rightarrow> work_item \<Rightarrow> bool" where
  "occupies orgId recipeId w \<longleftrightarrow> wi_org_id w = orgId \<and> wi_recipe_id w = Some recipeId \<and> occupied_status (wi_status w)"

lemma occupied_count:
  "occupied orgId recipeId s = int (length (List.filter (occupies orgId recipeId) (js_values (ws_items s))))"
  unfolding occupied_def occupies_def by simp

lemma count_js_set:
  "length (List.filter P (js_values (js_set k v m))) + (case map_of m k of None \<Rightarrow> 0 | Some u \<Rightarrow> if P u then 1 else 0)
    = length (List.filter P (js_values m)) + (if P v then 1 else 0)"
  by (induction m) (auto split: option.splits)

text \<open>What keeps a cap: whoever writes an item does not make it occupy a slot (it may release one or
  keep its own), and whoever claims for the recipe names a cap within \<open>m\<close>.\<close>

definition slot_ok :: "string \<Rightarrow> string \<Rightarrow> int \<Rightarrow> work_op \<Rightarrow> work_store \<Rightarrow> bool" where
  "slot_ok orgId recipeId m op s =
     (case op of
        WPutItem w \<Rightarrow> occupies orgId recipeId w \<longrightarrow>
          (case map_of (ws_items s) (wi_id w) of None \<Rightarrow> False | Some w0 \<Rightarrow> occupies orgId recipeId w0)
      | WClaim c \<Rightarrow> wn_org_id (wc_run c) = orgId \<and> wn_recipe_id (wc_run c) = recipeId \<longrightarrow>
          (case wc_max_concurrent c of None \<Rightarrow> False | Some k \<Rightarrow> k \<le> m)
      | _ \<Rightarrow> True)"

fun slots_ok :: "string \<Rightarrow> string \<Rightarrow> int \<Rightarrow> work_op list \<Rightarrow> work_store \<Rightarrow> bool" where
  "slots_ok orgId recipeId m [] s = True"
| "slots_ok orgId recipeId m (op # ops) s =
     (slot_ok orgId recipeId m op s \<and> slots_ok orgId recipeId m ops (work_step op s))"

lemma occupied_put:
  assumes "occupies org rid w \<Longrightarrow> \<exists>w0. map_of (ws_items s) (wi_id w) = Some w0 \<and> occupies org rid w0"
  shows "occupied org rid (snd (putWorkItem w s)) \<le> occupied org rid s"
  using count_js_set[of "occupies org rid" "wi_id w" w "ws_items s"] assms
  by (auto simp: occupied_count putWorkItem_def split: option.splits if_splits)

lemma occupied_drop:
  "occupied org rid (snd (dropOperationalWork org' s)) \<le> occupied org rid s"
proof -
  have le: "length (List.filter (\<lambda>v. P v \<and> \<not> Q v) xs) \<le> length (List.filter P xs)" for P Q and xs :: "work_item list"
    by (induction xs) auto
  have "ws_items (snd (dropOperationalWork org' s)) = delete_where (\<lambda>_ w. wi_org_id w = org') (ws_items s)"
    by (simp add: dropOperationalWork_def)
  then show ?thesis unfolding occupied_count by (simp only: filter_delete_values le of_nat_le_iff)
qed

lemma occupied_claim:
  assumes ok: "work_ok s"
    and cap: "wn_org_id (wc_run c) = org \<Longrightarrow> wn_recipe_id (wc_run c) = rid \<Longrightarrow> \<exists>k\<le>m. wc_max_concurrent c = Some k"
    and m: "occupied org rid s \<le> m"
  shows "occupied org rid (snd (claimWorkRunStart c s)) \<le> m"
proof (cases rule: claim_cases[of c s])
  case (claimed item)
  let ?w = "item\<lparr>wi_status := ItemRunning, wi_updated_at := wn_updated_at (wc_run c)\<rparr>"
  have i: "wi_id item = wn_work_item_id (wc_run c)" by (rule work_ok_item[OF ok claimed(2)])
  note g = claim_granted(1-3)[OF claimed(1,2)]
  have eq: "occupied org rid (snd (claimWorkRunStart c s))
      = occupied org rid s + (if occupies org rid ?w then 1 else 0)"
    using count_js_set[of "occupies org rid" "wi_id item" ?w "ws_items s"] claimed(2) g i
    by (simp add: occupied_count claimed(4) occupies_def occupied_status_def)
  show ?thesis
  proof (cases "occupies org rid ?w")
    case True
    then have "wn_org_id (wc_run c) = org" "wn_recipe_id (wc_run c) = rid" using g by (simp_all add: occupies_def)
    with cap obtain k where "k \<le> m" "wc_max_concurrent c = Some k" by blast
    with claim_granted(5)[OF claimed(1,2), of k] \<open>_ = org\<close> \<open>_ = rid\<close> eq show ?thesis by simp
  next
    case False
    with eq m show ?thesis by simp
  qed
next
  case exists
  then show ?thesis using m by auto
qed (use m in simp)

lemma occupied_step:
  assumes "work_ok s" and "occupied org rid s \<le> m" and "slot_ok org rid m op s"
  shows "occupied org rid (work_step op s) \<le> m"
proof (cases op)
  case (WPutItem w)
  have "occupied org rid (snd (putWorkItem w s)) \<le> occupied org rid s"
    by (rule occupied_put) (use assms(3) WPutItem in \<open>auto simp: slot_ok_def split: option.splits\<close>)
  with WPutItem assms(2) show ?thesis by simp
next
  case (WClaim c)
  with assms show ?thesis
    using occupied_claim[OF assms(1) _ assms(2), of c] by (auto simp: slot_ok_def split: option.splits)
next
  case (WDropOperational org')
  with assms(2) occupied_drop[of org rid org' s] show ?thesis by simp
qed (use assms(2) in \<open>simp_all add: occupied_count\<close>)

text \<open>C2. A recipe never runs more items than its cap: over every interleaving of claims (each naming
  a cap within \<open>m\<close>) and writes that release or keep slots, at most \<open>m\<close> items of the recipe are
  running or waiting for a human.\<close>

theorem recipe_cap_holds:
  assumes "work_ok s" and "occupied org rid s \<le> m" and "slots_ok org rid m ops s"
  shows "occupied org rid (work_steps ops s) \<le> m"
  using assms
proof (induction ops arbitrary: s)
  case (Cons op ops)
  from Cons.IH[OF work_ok_step[OF Cons.prems(1)] occupied_step[OF Cons.prems(1,2)]] Cons.prems(3)
  show ?case by simp
qed simp

definition sample_recipe :: recipe where
  "sample_recipe = \<lparr>re_id = ''r'', re_org_id = ''o'', re_name = ''n'',
     re_match = \<lparr>rm_record_class = Some ClassTask, rm_thread_facet = None, rm_source = None, rm_thread_id = None,
       rm_unit_kind = None, rm_text_contains = None, rm_text_excludes = None\<rparr>,
     re_trigger = \<lparr>tg_kind = TriggerPush, tg_interval_ms = None, tg_at_minute = None, tg_weekdays = None,
       tg_timezone = None, tg_coalesce = None\<rparr>,
     re_executor_type = ''x'', re_executor_config = [], re_can_write_back = False, re_write_back_thread_id = None,
     re_include_context = False, re_max_concurrent = Some 1, re_enabled = True, re_next_run_at = None,
     re_created_at = ''t'', re_updated_at = ''t''\<rparr>"

definition sample_item :: "string \<Rightarrow> work_item" where
  "sample_item i = \<lparr>wi_id = i, wi_org_id = ''o'', wi_thread_id = ''th'', wi_unit_key = i, wi_head_event_id = None,
     wi_record_class = ClassTask, wi_thread_facet = FacetTicket, wi_status = ItemOpen,
     wi_recipe_id = Some ''r'', wi_created_at = ''t'', wi_updated_at = ''t''\<rparr>"

definition sample_run :: "string \<Rightarrow> string \<Rightarrow> work_run" where
  "sample_run r i = \<lparr>wn_id = r, wn_org_id = ''o'', wn_work_item_id = i, wn_recipe_id = ''r'',
     wn_executor_type = ''x'', wn_external_run_id = None, wn_agent_thread_id = None, wn_status = ExecRunning,
     wn_start_state = Some StartPending, wn_result = None, wn_created_at = ''t'', wn_updated_at = ''t''\<rparr>"

definition sample_start :: "string \<Rightarrow> string \<Rightarrow> run_start_claim" where
  "sample_start r i = \<lparr>wc_run = sample_run r i, wc_max_concurrent = Some 1\<rparr>"

definition sample_work :: work_store where
  "sample_work = new_work_store\<lparr>ws_recipes := [(''r'', sample_recipe)],
     ws_items := [(''a'', sample_item ''a''), (''b'', sample_item ''b'')]\<rparr>"

lemma sample_work_ok: "work_ok sample_work"
  by (auto simp: work_ok_def sample_work_def new_work_store_def sample_item_def split: if_splits)

lemmas sample_work_defs = sample_work_def new_work_store_def sample_item_def sample_start_def sample_run_def
  sample_recipe_def

lemma sample_claim_a:
  "claimWorkRunStart (sample_start ''1'' ''a'') sample_work = (Inr True, snd (claimWorkRunStart (sample_start ''1'' ''a'') sample_work))"
  by (simp add: sample_work_defs claimWorkRunStart_def claim_refused_def occupied_def occupied_status_def Let_def)

theorem recipe_cap_holds_witness:
  "fst (claimWorkRunStart (sample_start ''1'' ''a'') sample_work) = Inr True
   \<and> occupied ''o'' ''r'' (work_steps [WClaim (sample_start ''1'' ''a''), WClaim (sample_start ''2'' ''b'')] sample_work) \<le> 1"
proof -
  have "occupied ''o'' ''r'' sample_work \<le> 1"
    by (simp add: sample_work_defs occupied_def occupied_status_def)
  moreover have "slots_ok ''o'' ''r'' 1 [WClaim (sample_start ''1'' ''a''), WClaim (sample_start ''2'' ''b'')] sample_work"
    by (simp add: slot_ok_def sample_start_def)
  ultimately show ?thesis
    using recipe_cap_holds[OF sample_work_ok] sample_claim_a by (metis fst_conv)
qed

subsection \<open>One run per item\<close>

definition single_active :: "work_store \<Rightarrow> bool" where
  "single_active s \<longleftrightarrow> (\<forall>k r l t. map_of (ws_runs s) k = Some r \<and> map_of (ws_runs s) l = Some t
     \<and> active_run r \<and> active_run t \<and> wn_org_id r = wn_org_id t \<and> wn_work_item_id r = wn_work_item_id t \<longrightarrow> k = l)"

text \<open>A run is written as finished, or as the update of a run of the same item that is still active.\<close>

definition run_put_ok :: "work_op \<Rightarrow> work_store \<Rightarrow> bool" where
  "run_put_ok op s =
     (case op of
        WPutRun r \<Rightarrow> active_run r \<longrightarrow>
          (case map_of (ws_runs s) (wn_id r) of None \<Rightarrow> False
           | Some r0 \<Rightarrow> active_run r0 \<and> wn_org_id r0 = wn_org_id r \<and> wn_work_item_id r0 = wn_work_item_id r)
      | _ \<Rightarrow> True)"

fun run_puts_ok :: "work_op list \<Rightarrow> work_store \<Rightarrow> bool" where
  "run_puts_ok [] s = True"
| "run_puts_ok (op # ops) s = (run_put_ok op s \<and> run_puts_ok ops (work_step op s))"

lemma single_activeD:
  "single_active s \<Longrightarrow> map_of (ws_runs s) k = Some r \<Longrightarrow> map_of (ws_runs s) l = Some t \<Longrightarrow>
   active_run r \<Longrightarrow> active_run t \<Longrightarrow> wn_org_id r = wn_org_id t \<Longrightarrow> wn_work_item_id r = wn_work_item_id t \<Longrightarrow> k = l"
  unfolding single_active_def by blast

lemma single_active_claim:
  assumes ok: "work_ok s" and one: "single_active s"
  shows "single_active (snd (claimWorkRunStart c s))"
proof (cases rule: claim_cases[of c s])
  case (claimed item)
  have i: "wi_id item = wn_work_item_id (wc_run c)" by (rule work_ok_item[OF ok claimed(2)])
  have free: "\<not> active_run r" if "map_of (ws_runs s) k = Some r" "wn_org_id r = wn_org_id (wc_run c)"
    "wn_work_item_id r = wn_work_item_id (wc_run c)" for k r
    using claim_granted(4)[OF claimed(1,2), of r] map_of_SomeD[OF that(1)] that(2,3) i by force
  show ?thesis
    unfolding single_active_def using single_activeD[OF one] free by (auto simp: claimed(4) split: if_splits)
next
  case exists
  then show ?thesis using one by auto
qed (use one in simp)

lemma single_active_put:
  assumes one: "single_active s" and put: "run_put_ok (WPutRun r) s"
  shows "single_active (snd (putWorkRun r s))"
proof -
  have runs: "ws_runs (snd (putWorkRun r s)) = js_set (wn_id r) r (ws_runs s)" by (simp add: putWorkRun_def)
  have old: "\<exists>r0. map_of (ws_runs s) (wn_id r) = Some r0 \<and> active_run r0 \<and> wn_org_id r0 = wn_org_id r
      \<and> wn_work_item_id r0 = wn_work_item_id r" if "active_run r"
    using put that by (auto simp: run_put_ok_def split: option.splits)
  show ?thesis
    unfolding single_active_def runs map_of_js_set using single_activeD[OF one] old
    by (auto split: if_splits)
qed

lemma single_active_mono:
  assumes "single_active s" and "\<And>k r. map_of (ws_runs s') k = Some r \<Longrightarrow> map_of (ws_runs s) k = Some r"
  shows "single_active s'"
  unfolding single_active_def using single_activeD[OF assms(1) assms(2) assms(2)] by blast

lemma single_active_same: "ws_runs s' = ws_runs s \<Longrightarrow> single_active s \<Longrightarrow> single_active s'"
  by (rule single_active_mono) simp_all

lemma drop_runs:
  assumes "work_ok s" and "map_of (ws_runs (snd (dropOperationalWork org s))) k = Some r"
  shows "map_of (ws_runs s) k = Some r \<and> wn_org_id r \<noteq> org"
proof -
  have d: "distinct (js_keys (ws_runs s))" using assms(1) by (simp add: work_ok_def)
  have "map_of (delete_where (\<lambda>_ r. wn_org_id r = org) (ws_runs s)) k = Some r"
    using assms(2) by (simp add: dropOperationalWork_def)
  then show ?thesis unfolding map_of_delete_where[OF d] by (cases "map_of (ws_runs s) k") (auto split: if_splits)
qed

lemma single_active_step:
  assumes "work_ok s" and "single_active s" and "run_put_ok op s"
  shows "single_active (work_step op s)"
proof (cases op)
  case (WPutRun r)
  with single_active_put assms(2,3) show ?thesis by simp
next
  case (WClaim c)
  with single_active_claim[OF assms(1,2)] show ?thesis by simp
next
  case (WDropOperational org)
  have "single_active (snd (dropOperationalWork org s))"
    by (rule single_active_mono[OF assms(2)]) (use drop_runs[OF assms(1)] in blast)
  then show ?thesis by (simp add: WDropOperational)
qed (simp_all add: single_active_same[OF _ assms(2)])

text \<open>C9. An item has at most one active run: over every sequence of steps in which runs are created by
  claims only (a run written by \<open>putWorkRun\<close> is finished, or updates an active run of its item), no
  two active runs belong to the same item.\<close>

theorem one_active_run_per_item:
  assumes "work_ok s" and "single_active s" and "run_puts_ok ops s"
  shows "single_active (work_steps ops s)"
  using assms
proof (induction ops arbitrary: s)
  case (Cons op ops)
  from Cons.IH[OF work_ok_step[OF Cons.prems(1)] single_active_step[OF Cons.prems(1,2)]] Cons.prems(3)
  show ?case by simp
qed simp

theorem one_active_run_per_item_witness:
  "single_active (work_steps [WClaim (sample_start ''1'' ''a''), WPutItem (sample_item ''a''),
     WClaim (sample_start ''2'' ''a'')] sample_work)"
proof (rule one_active_run_per_item[OF sample_work_ok])
  show "single_active sample_work" by (simp add: single_active_def sample_work_defs)
qed (simp add: run_put_ok_def)

subsection \<open>A claim is exclusive\<close>

definition leaves_item :: "string \<Rightarrow> string \<Rightarrow> work_op \<Rightarrow> bool" where
  "leaves_item orgId itemId op =
     (case op of WPutItem w \<Rightarrow> wi_id w \<noteq> itemId | WDropOperational org \<Rightarrow> org \<noteq> orgId | _ \<Rightarrow> True)"

definition leaves_run :: "string \<Rightarrow> string \<Rightarrow> work_op \<Rightarrow> bool" where
  "leaves_run orgId runId op =
     (case op of WPutRun r \<Rightarrow> wn_id r \<noteq> runId | WDropOperational org \<Rightarrow> org \<noteq> orgId | _ \<Rightarrow> True)"

definition item_taken :: "string \<Rightarrow> string \<Rightarrow> work_store \<Rightarrow> bool" where
  "item_taken orgId itemId s \<longleftrightarrow>
     (\<exists>w. map_of (ws_items s) itemId = Some w \<and> wi_status w \<noteq> ItemOpen \<and> wi_org_id w = orgId)"

definition run_active :: "string \<Rightarrow> string \<Rightarrow> string \<Rightarrow> work_store \<Rightarrow> bool" where
  "run_active orgId itemId runId s \<longleftrightarrow>
     (\<exists>r. map_of (ws_runs s) runId = Some r \<and> active_run r \<and> wn_org_id r = orgId \<and> wn_work_item_id r = itemId)"

lemma taken_refuses:
  "item_taken orgId (wn_work_item_id (wc_run c)) s \<Longrightarrow> claimWorkRunStart c s = (Inr False, s)"
  by (auto simp: item_taken_def claimWorkRunStart_def claim_refused_def Let_def)

lemma active_refuses:
  assumes "work_ok s" and "run_active (wn_org_id (wc_run c)) (wn_work_item_id (wc_run c)) runId s"
  shows "claimWorkRunStart c s = (Inr False, s)"
proof (cases rule: claim_cases[of c s])
  case (claimed item)
  from assms(2) obtain r where r: "map_of (ws_runs s) runId = Some r" "active_run r"
    "wn_org_id r = wn_org_id (wc_run c)" "wn_work_item_id r = wn_work_item_id (wc_run c)"
    unfolding run_active_def by blast
  have "wi_id item = wn_work_item_id (wc_run c)" by (rule work_ok_item[OF assms(1) claimed(2)])
  with claim_granted(4)[OF claimed(1,2), of r] r map_of_SomeD[OF r(1)] show ?thesis by force
next
  case exists
  then obtain item where item: "map_of (ws_items s) (wn_work_item_id (wc_run c)) = Some item"
    by (auto simp: claim_refused_def Let_def split: option.splits)
  from assms(2) obtain r where r: "map_of (ws_runs s) runId = Some r" "active_run r"
    "wn_org_id r = wn_org_id (wc_run c)" "wn_work_item_id r = wn_work_item_id (wc_run c)"
    unfolding run_active_def by blast
  have "wi_id item = wn_work_item_id (wc_run c)" by (rule work_ok_item[OF assms(1) item])
  with claim_granted(4)[OF exists(1) item, of r] r map_of_SomeD[OF r(1)] show ?thesis by force
qed

lemma item_taken_step:
  assumes ok: "work_ok s" and taken: "item_taken orgId itemId s" and op: "leaves_item orgId itemId op"
  shows "item_taken orgId itemId (work_step op s)"
proof (cases op)
  case (WPutItem w)
  with taken op show ?thesis by (auto simp: item_taken_def leaves_item_def putWorkItem_def)
next
  case (WClaim c)
  show ?thesis
  proof (cases "wn_work_item_id (wc_run c) = itemId")
    case True
    with taken taken_refuses[of orgId c s] WClaim show ?thesis by simp
  next
    case False
    from taken obtain w where w: "map_of (ws_items s) itemId = Some w" "wi_status w \<noteq> ItemOpen" "wi_org_id w = orgId"
      unfolding item_taken_def by blast
    show ?thesis
    proof (cases rule: claim_cases[of c s])
      case (claimed item)
      have "wi_id item \<noteq> itemId" using work_ok_item[OF ok claimed(2)] False by simp
      with w show ?thesis by (simp add: WClaim claimed(4) item_taken_def)
    next
      case exists
      then show ?thesis using taken by (auto simp: WClaim)
    qed (use taken in \<open>simp add: WClaim\<close>)
  qed
next
  case (WDropOperational org)
  have d: "distinct (js_keys (ws_items s))" using ok by (simp add: work_ok_def)
  from taken op WDropOperational show ?thesis
    unfolding item_taken_def leaves_item_def
    by (auto simp: dropOperationalWork_def map_of_delete_where[OF d] simp del: map_of_eq_Some_iff)
qed (use taken in \<open>simp_all add: item_taken_def\<close>)

lemma run_active_step:
  assumes ok: "work_ok s" and act: "run_active orgId itemId runId s" and op: "leaves_run orgId runId op"
  shows "run_active orgId itemId runId (work_step op s)"
proof (cases op)
  case (WPutRun r)
  with act op show ?thesis by (auto simp: run_active_def leaves_run_def putWorkRun_def)
next
  case (WClaim c)
  show ?thesis
  proof (cases rule: claim_cases[of c s])
    case (claimed item)
    have "wn_id (wc_run c) \<noteq> runId" using claimed(3) act by (auto simp: run_active_def)
    with act show ?thesis by (simp add: WClaim claimed(4) run_active_def)
  next
    case exists
    then show ?thesis using act by (auto simp: WClaim)
  qed (use act in \<open>simp add: WClaim\<close>)
next
  case (WDropOperational org)
  have d: "distinct (js_keys (ws_runs s))" using ok by (simp add: work_ok_def)
  from act op WDropOperational show ?thesis
    unfolding run_active_def leaves_run_def
    by (auto simp: dropOperationalWork_def map_of_delete_where[OF d] simp del: map_of_eq_Some_iff)
qed (use act in \<open>simp_all add: run_active_def\<close>)

lemma item_taken_steps:
  "work_ok s \<Longrightarrow> item_taken orgId itemId s \<Longrightarrow> list_all (leaves_item orgId itemId) ops \<Longrightarrow>
   item_taken orgId itemId (work_steps ops s)"
  by (induction ops arbitrary: s) (simp_all add: work_ok_step item_taken_step)

lemma run_active_steps:
  "work_ok s \<Longrightarrow> run_active orgId itemId runId s \<Longrightarrow> list_all (leaves_run orgId runId) ops \<Longrightarrow>
   run_active orgId itemId runId (work_steps ops s)"
  by (induction ops arbitrary: s) (simp_all add: work_ok_step run_active_step)

text \<open>A start is claimed once: after a claim of an item succeeds, every later claim of that item by
  the organisation is refused, over any interleaving of steps, as long as nobody writes the item or as
  long as nobody writes the run.\<close>

lemma start_claim_is_exclusive:
  assumes "work_ok s" and "claimWorkRunStart c s = (Inr True, s1)" and "active_run (wc_run c)"
    and "list_all (leaves_item (wn_org_id (wc_run c)) (wn_work_item_id (wc_run c))) ops
      \<or> list_all (leaves_run (wn_org_id (wc_run c)) (wn_id (wc_run c))) ops"
    and "wn_work_item_id (wc_run d) = wn_work_item_id (wc_run c)" and "wn_org_id (wc_run d) = wn_org_id (wc_run c)"
  shows "claimWorkRunStart d (work_steps ops s1) = (Inr False, work_steps ops s1)"
proof -
  from assms(2) obtain item where c: "\<not> claim_refused c s"
    "map_of (ws_items s) (wn_work_item_id (wc_run c)) = Some item"
    "s1 = s\<lparr>ws_runs := js_set (wn_id (wc_run c)) (wc_run c) (ws_runs s),
       ws_items := js_set (wi_id item)
         (item\<lparr>wi_status := ItemRunning, wi_updated_at := wn_updated_at (wc_run c)\<rparr>) (ws_items s)\<rparr>"
    by (cases rule: claim_cases[of c s]) auto
  have ok: "work_ok s1" using work_ok_step[OF assms(1), of "WClaim c"] assms(2) by simp
  have i: "wi_id item = wn_work_item_id (wc_run c)" by (rule work_ok_item[OF assms(1) c(2)])
  have taken: "item_taken (wn_org_id (wc_run c)) (wn_work_item_id (wc_run c)) s1"
    using claim_granted(1)[OF c(1,2)] i by (simp add: c(3) item_taken_def)
  have act: "run_active (wn_org_id (wc_run c)) (wn_work_item_id (wc_run c)) (wn_id (wc_run c)) s1"
    using assms(3) by (simp add: c(3) run_active_def)
  from assms(4) show ?thesis
  proof
    assume "list_all (leaves_item (wn_org_id (wc_run c)) (wn_work_item_id (wc_run c))) ops"
    from item_taken_steps[OF ok taken this] taken_refuses assms(5) show ?thesis by metis
  next
    assume "list_all (leaves_run (wn_org_id (wc_run c)) (wn_id (wc_run c))) ops"
    from run_active_steps[OF ok act this] active_refuses[OF work_ok_steps[OF ok]] assms(5,6) show ?thesis by metis
  qed
qed

lemma start_claim_is_exclusive_witness:
  "fst (claimWorkRunStart (sample_start ''2'' ''a'')
     (work_steps [WPutItem (sample_item ''a'')] (snd (claimWorkRunStart (sample_start ''1'' ''a'') sample_work)))) = Inr False"
proof -
  let ?c = "sample_start ''1'' ''a''" and ?d = "sample_start ''2'' ''a''"
  have a: "active_run (wc_run ?c)" by (simp add: sample_start_def sample_run_def active_run_def)
  have l: "list_all (leaves_item (wn_org_id (wc_run ?c)) (wn_work_item_id (wc_run ?c))) [WPutItem (sample_item ''a'')]
      \<or> list_all (leaves_run (wn_org_id (wc_run ?c)) (wn_id (wc_run ?c))) [WPutItem (sample_item ''a'')]"
    by (simp add: leaves_run_def)
  have d: "wn_work_item_id (wc_run ?d) = wn_work_item_id (wc_run ?c)" "wn_org_id (wc_run ?d) = wn_org_id (wc_run ?c)"
    by (simp_all add: sample_start_def sample_run_def)
  from start_claim_is_exclusive[OF sample_work_ok sample_claim_a a l d] show ?thesis by simp
qed

end
