(* ===== verification/WorkDelivery.thy ===== *)
theory WorkDelivery
  imports WorkClaims
begin

section \<open>Writing results back\<close>

text \<open>
  The delivery of a result to its conversation: the state changes of
  \<open>packages/domain/src/work-delivery.ts\<close>, \<open>listDueWorkDeliveries\<close> of the work store, and
  \<open>PersonalWorkFlush\<close> of \<open>apps/api/src/personal-work-flush.ts\<close>: \<open>flushOne\<close> sends one delivery (a
  guard and a claim, then the channel call and how it settles), \<open>flushDeliveries\<close> the due ones of an
  organisation in batches.
  The channel is a parameter: what its \<open>writeBack\<close> reports before it settles, and how it settles.
  SHA-256 and fresh ids are parameters too. A stamp that does not parse makes the code throw; such a
  step returns the error.
\<close>

subsection \<open>The text and its key\<close>

definition WORK_DELIVERY_RETRY_DELAYS_MS :: "int list" where
  "WORK_DELIVERY_RETRY_DELAYS_MS = [30000, 120000, 480000]"

definition WORK_DELIVERY_MAX_ATTEMPTS :: int where "WORK_DELIVERY_MAX_ATTEMPTS = 3"

definition WORK_DELIVERY_LEASE_MS :: int where "WORK_DELIVERY_LEASE_MS = 60000"

definition writeBackPayloadText :: "delivery_payload option \<Rightarrow> string" where
  "writeBackPayloadText payload =
     (case payload of None \<Rightarrow> []
      | Some p \<Rightarrow>
          let texts = List.map (\<lambda>part. or_else (cp_text part) []) (or_else (py_content p) []);
              fromContent = (case List.find (\<lambda>t. js_trim t \<noteq> []) texts of None \<Rightarrow> [] | Some t \<Rightarrow> js_trim t)
          in or_nonempty fromContent (js_trim (py_summary p)))"

definition writeBackIdempotencyKey :: "(string \<Rightarrow> string) \<Rightarrow> string \<Rightarrow> delivery_payload \<Rightarrow> string" where
  "writeBackIdempotencyKey sha workItemId payload =
     ''work-back:'' @ workItemId @ '':'' @ take 16 (sha (writeBackPayloadText (Some payload)))"

definition deliveryPayloadKey :: "(string \<Rightarrow> string) \<Rightarrow> work_delivery \<Rightarrow> string option" where
  "deliveryPayloadKey sha d =
     (if truthy (wd_idempotency_key d) then wd_idempotency_key d
      else map_option (writeBackIdempotencyKey sha (wd_work_item_id d)) (wd_payload d))"

subsection \<open>The states of a delivery\<close>

record write_back_input =
  wb_org_id :: string
  wb_work_item_id :: string
  wb_recipe_id :: string
  wb_kind :: trigger_kind
  wb_unit_key :: string
  wb_event_id :: "string option"
  wb_payload :: delivery_payload
  wb_now :: string
  wb_existing :: "work_delivery option"

text \<open>\<open>fresh\<close> is the id the code makes from \<open>randomUUID\<close>.\<close>

definition enqueueWriteBack :: "(string \<Rightarrow> string) \<Rightarrow> string \<Rightarrow> write_back_input \<Rightarrow> work_delivery" where
  "enqueueWriteBack sha fresh i =
     (let key = writeBackIdempotencyKey sha (wb_work_item_id i) (wb_payload i);
          new = \<lparr>wd_id = (case wb_existing i of None \<Rightarrow> fresh | Some e \<Rightarrow> wd_id e),
            wd_org_id = wb_org_id i, wd_work_item_id = wb_work_item_id i, wd_recipe_id = wb_recipe_id i,
            wd_kind = wb_kind i, wd_unit_key = wb_unit_key i, wd_event_id = wb_event_id i,
            wd_status = DelQueued, wd_write_back = BackPending, wd_attempts = 0,
            wd_payload = Some (wb_payload i), wd_idempotency_key = Some key, wd_channel_receipt = None,
            wd_last_error = None, wd_next_retry_at = None, wd_lease_expires_at = None,
            wd_created_at = (case wb_existing i of None \<Rightarrow> wb_now i | Some e \<Rightarrow> wd_created_at e),
            wd_updated_at = wb_now i\<rparr>
      in case wb_existing i of
           Some e \<Rightarrow> if deliveryPayloadKey sha e = Some key
                     then if truthy (wd_idempotency_key e) then e else e\<lparr>wd_idempotency_key := Some key\<rparr>
                     else new
         | None \<Rightarrow> new)"

definition deliveryChannelReceipt :: "work_delivery option \<Rightarrow> channel_receipt option" where
  "deliveryChannelReceipt d =
     (case Option.bind d wd_channel_receipt of
        None \<Rightarrow> None
      | Some r \<Rightarrow> if cr_accepted r then Some \<lparr>cr_accepted = True, cr_rpc_id = Option.bind (cr_rpc_id r) to_truthy\<rparr> else None)"

definition deliveryRecordReceipt :: "work_delivery \<Rightarrow> delivery_receipt \<Rightarrow> string \<Rightarrow> work_delivery" where
  "deliveryRecordReceipt d r now =
     d\<lparr>wd_channel_receipt := Some \<lparr>cr_accepted = dr_accepted r, cr_rpc_id = Option.bind (dr_rpc_id r) to_truthy\<rparr>,
       wd_updated_at := now\<rparr>"

definition deliveryAbandoned :: "work_delivery \<Rightarrow> string \<Rightarrow> work_delivery" where
  "deliveryAbandoned d now =
     d\<lparr>wd_status := DelAcked, wd_write_back := BackSkipped, wd_last_error := None, wd_next_retry_at := None,
       wd_lease_expires_at := None, wd_updated_at := now\<rparr>"

definition deliveryClaimSend :: "work_delivery \<Rightarrow> string \<Rightarrow> js_error + work_delivery" where
  "deliveryClaimSend d now =
     (case add_ms now WORK_DELIVERY_LEASE_MS of
        Inl e \<Rightarrow> Inl e
      | Inr lease \<Rightarrow> Inr (d\<lparr>wd_status := DelWriteBack, wd_write_back := BackPending,
          wd_attempts := wd_attempts d + 1, wd_last_error := None, wd_next_retry_at := None,
          wd_lease_expires_at := Some lease, wd_updated_at := now\<rparr>))"

definition deliveryAcked :: "work_delivery \<Rightarrow> write_back_state \<Rightarrow> string \<Rightarrow> work_delivery" where
  "deliveryAcked d write_back now =
     d\<lparr>wd_status := DelAcked, wd_write_back := write_back, wd_last_error := None, wd_next_retry_at := None,
       wd_lease_expires_at := None, wd_updated_at := now\<rparr>"

definition nextDeliveryRetryAt :: "int \<Rightarrow> string \<Rightarrow> js_error + string" where
  "nextDeliveryRetryAt attempts now =
     add_ms now (WORK_DELIVERY_RETRY_DELAYS_MS !
       nat (min (max attempts 1 - 1) (int (length WORK_DELIVERY_RETRY_DELAYS_MS) - 1)))"

definition deliveryWriteBackFailed :: "work_delivery \<Rightarrow> string \<Rightarrow> string \<Rightarrow> js_error + work_delivery" where
  "deliveryWriteBackFailed d error now =
     (let attempts = max (wd_attempts d) 1;
          dead = WORK_DELIVERY_MAX_ATTEMPTS \<le> attempts;
          failed = d\<lparr>wd_status := (if dead then DelDead else DelWriteBack), wd_write_back := BackFailed,
            wd_attempts := attempts, wd_last_error := Some error, wd_next_retry_at := None,
            wd_lease_expires_at := None, wd_updated_at := now\<rparr>
      in if dead then Inr failed
         else case nextDeliveryRetryAt attempts now of
             Inl e \<Rightarrow> Inl e
           | Inr retry \<Rightarrow> Inr (failed\<lparr>wd_next_retry_at := Some retry\<rparr>))"

definition deliverySendTimedOut :: "work_delivery \<Rightarrow> string \<Rightarrow> work_delivery" where
  "deliverySendTimedOut d now = d\<lparr>wd_attempts := max 0 (wd_attempts d - 1), wd_updated_at := now\<rparr>"

definition deliveryRetryNow :: "work_delivery \<Rightarrow> string \<Rightarrow> work_delivery" where
  "deliveryRetryNow d now =
     d\<lparr>wd_status := DelQueued, wd_write_back := BackPending,
       wd_attempts := (if wd_status d = DelDead then 0 else wd_attempts d),
       wd_last_error := None, wd_next_retry_at := None, wd_lease_expires_at := None, wd_updated_at := now\<rparr>"

text \<open>\<open>Date.parse(a) >= Date.parse(b)\<close>: a stamp that does not parse is NaN.\<close>

definition parsed_ge :: "string \<Rightarrow> string \<Rightarrow> bool" where
  "parsed_ge a b = (case (date_parse a, date_parse b) of (Some x, Some y) \<Rightarrow> y \<le> x | _ \<Rightarrow> False)"

definition isDeliveryLeaseExpired :: "work_delivery \<Rightarrow> string \<Rightarrow> bool" where
  "isDeliveryLeaseExpired d now =
     (if wd_write_back d = BackFailed then False
      else if wd_status d \<noteq> DelWriteBack \<and> wd_status d \<noteq> DelRunning then False
      else if \<not> truthy (wd_lease_expires_at d) then True
      else parsed_ge now (or_else (wd_lease_expires_at d) []))"

definition reclaimDeliveryLease :: "work_delivery \<Rightarrow> string \<Rightarrow> work_delivery" where
  "reclaimDeliveryLease d now =
     (if \<not> isDeliveryLeaseExpired d now then d
      else if wd_payload d \<noteq> None
      then d\<lparr>wd_status := DelQueued, wd_write_back := BackPending, wd_lease_expires_at := None, wd_updated_at := now\<rparr>
      else deliveryAbandoned d now)"

definition shouldFlushDelivery :: "work_delivery \<Rightarrow> string \<Rightarrow> bool" where
  "shouldFlushDelivery d now =
     (let current = reclaimDeliveryLease d now
      in if wd_status current = DelAcked \<or> wd_status current = DelDead then False
         else if wd_payload current = None then False
         else if wd_write_back current = BackFailed
         then \<not> truthy (wd_next_retry_at current) \<or> parsed_ge now (or_else (wd_next_retry_at current) [])
         else if wd_status current = DelWriteBack \<or> wd_status current = DelRunning then isDeliveryLeaseExpired d now
         else wd_status current = DelQueued)"

definition listDueWorkDeliveries :: "string \<Rightarrow> string \<Rightarrow> work_store \<Rightarrow> work_delivery list" where
  "listDueWorkDeliveries orgId now s =
     List.filter (\<lambda>d. wd_org_id d = orgId \<and> shouldFlushDelivery d now) (js_values (ws_deliveries s))"

definition deliveryNeedsAttention :: "(delivery_status \<times> write_back_state) option \<Rightarrow> bool" where
  "deliveryNeedsAttention d = (case d of None \<Rightarrow> False | Some (status, back) \<Rightarrow> status = DelDead \<or> back = BackFailed)"

definition isDeadLetter :: "work_delivery option \<Rightarrow> bool" where
  "isDeadLetter d = (map_option wd_status d = Some DelDead)"

record delivery_face =
  df_status :: delivery_status
  df_write_back :: write_back_state
  df_attempts :: int
  df_last_error :: "string option"

definition deliveryFaceOf :: "work_delivery option \<Rightarrow> delivery_face option" where
  "deliveryFaceOf d = map_option (\<lambda>d. \<lparr>df_status = wd_status d, df_write_back = wd_write_back d,
     df_attempts = wd_attempts d, df_last_error = Option.bind (wd_last_error d) to_truthy\<rparr>) d"

subsection \<open>Sending one delivery\<close>

text \<open>
  What one call of the channel's \<open>writeBack\<close> does: the receipts it reports on the way (each with its
  stamp), then how it settles. \<open>SendTimedOut\<close> is the rejection of \<open>withTimeout\<close>; its work may report
  receipts later (\<open>late_receipt\<close>).
\<close>

datatype send_end = SendDone write_back_state | SendTimedOut | SendFailed string

record channel_call =
  cc_receipts :: "(delivery_receipt \<times> string) list"
  cc_end :: send_end

text \<open>\<open>(await getWorkDeliveryByItem(item.org_id, item.id)) ?? current\<close>\<close>

definition latest_delivery :: "work_item \<Rightarrow> work_delivery \<Rightarrow> work_store \<Rightarrow> work_delivery" where
  "latest_delivery item current s = or_else (getWorkDeliveryByItem (wi_org_id item) (wi_id item) s) current"

fun record_receipts ::
  "work_item \<Rightarrow> (delivery_receipt \<times> string) list \<Rightarrow> work_delivery \<Rightarrow> work_store \<Rightarrow> work_delivery \<times> work_store" where
  "record_receipts item [] current s = (current, s)"
| "record_receipts item ((r, t) # rs) current s =
     (let current' = deliveryRecordReceipt (latest_delivery item current s) r t
      in record_receipts item rs current' (snd (putWorkDelivery current' s)))"

text \<open>
  \<open>flushOne\<close> up to the channel call: the guard, then the claimed row, written to the store
  (\<^term>\<open>None\<close> when the channel is not called). A forced flush skips the guard; either way the
  decision is on the row the caller passes.
\<close>

definition flush_start ::
  "string \<Rightarrow> work_item \<Rightarrow> work_delivery \<Rightarrow> bool \<Rightarrow> work_store
   \<Rightarrow> (js_error + work_delivery option) \<times> work_store" where
  "flush_start now item delivery force s =
     (let reclaimed = reclaimDeliveryLease delivery now;
          current = (if force then deliveryRetryNow reclaimed now else reclaimed)
      in if \<not> force \<and> \<not> shouldFlushDelivery reclaimed now then (Inr None, s)
         else if wd_payload current = None
         then case deliveryWriteBackFailed current ''Write-back has no payload'' now of
             Inl e \<Rightarrow> (Inl e, s)
           | Inr d \<Rightarrow> (Inr None, snd (putWorkDelivery d s))
         else case deliveryClaimSend current now of
             Inl e \<Rightarrow> (Inl e, s)
           | Inr claimed \<Rightarrow> (Inr (Some claimed), snd (putWorkDelivery claimed s)))"

text \<open>The channel call of a claimed row and how it settles, with the stamp of the claim.\<close>

definition flush_settle ::
  "channel_call \<Rightarrow> string \<Rightarrow> work_item \<Rightarrow> work_delivery \<Rightarrow> bool \<Rightarrow> work_store \<Rightarrow> (js_error + bool) \<times> work_store" where
  "flush_settle call now item claimed force s =
     (let (current, s) = record_receipts item (cc_receipts call) claimed s;
          latest = latest_delivery item current s
      in case cc_end call of
           SendDone outcome \<Rightarrow> (Inr True, snd (putWorkDelivery (deliveryAcked latest outcome now) s))
         | SendTimedOut \<Rightarrow> (Inr True, snd (putWorkDelivery (deliverySendTimedOut latest now) s))
         | SendFailed e \<Rightarrow>
             (case deliveryWriteBackFailed latest e now of
                Inl err \<Rightarrow> (Inl err, s)
              | Inr d \<Rightarrow> (if force then Inl (ErrorMsg e) else Inr True, snd (putWorkDelivery d s))))"

text \<open>The result says whether the channel was called, or what was thrown.\<close>

definition flushOne ::
  "(work_delivery \<Rightarrow> channel_call) \<Rightarrow> string \<Rightarrow> work_item \<Rightarrow> work_delivery \<Rightarrow> bool \<Rightarrow> work_store
   \<Rightarrow> (js_error + bool) \<times> work_store" where
  "flushOne channel now item delivery force s =
     (case flush_start now item delivery force s of
        (Inl e, s1) \<Rightarrow> (Inl e, s1)
      | (Inr None, s1) \<Rightarrow> (Inr False, s1)
      | (Inr (Some claimed), s1) \<Rightarrow> flush_settle (channel claimed) now item claimed force s1)"

definition late_receipt :: "work_item \<Rightarrow> delivery_receipt \<Rightarrow> string \<Rightarrow> work_delivery \<Rightarrow> work_store \<Rightarrow> work_store" where
  "late_receipt item r t current s = snd (record_receipts item [(r, t)] current s)"

text \<open>The first pass of \<open>flushDeliveries\<close>: which due deliveries the flush sends.\<close>

fun flush_pending :: "string \<Rightarrow> string \<Rightarrow> work_delivery list \<Rightarrow> work_store
   \<Rightarrow> (work_item \<times> recipe \<times> work_delivery) list \<times> work_store" where
  "flush_pending orgId now [] s = ([], s)"
| "flush_pending orgId now (d # ds) s =
     (let reclaimed = reclaimDeliveryLease d now;
          s1 = (if reclaimed \<noteq> d then snd (putWorkDelivery reclaimed s) else s);
          item = getWorkItem orgId (wd_work_item_id reclaimed) s1
      in if map_option wi_status item = Some ItemSkipped \<and> wd_status reclaimed \<noteq> DelAcked
         then flush_pending orgId now ds (snd (putWorkDelivery (deliveryAbandoned reclaimed now) s1))
         else let (rest, s2) = flush_pending orgId now ds s1
           in case (item, List.find (\<lambda>r. re_id r = wd_recipe_id reclaimed) (rev (listRecipes orgId s))) of
                (Some i, Some r) \<Rightarrow> (if shouldFlushDelivery reclaimed now then (i, r, reclaimed) # rest else rest, s2)
              | _ \<Rightarrow> (rest, s2))"

definition WRITE_BACK_CONCURRENCY :: nat where "WRITE_BACK_CONCURRENCY = 4"

text \<open>
  The second pass: the rows of a batch all run (here one after the other, one of the
  interleavings of \<open>Promise.all\<close>), each with its own clock, and a batch with an error is the last.
\<close>

fun flush_batch :: "(work_delivery \<Rightarrow> channel_call) \<Rightarrow> (work_delivery \<Rightarrow> string)
    \<Rightarrow> (work_item \<times> recipe \<times> work_delivery) list \<Rightarrow> work_store \<Rightarrow> js_error option \<times> work_store" where
  "flush_batch channel clock [] s = (None, s)"
| "flush_batch channel clock ((item, _, d) # rows) s =
     (let (result, s1) = flushOne channel (clock d) item d False s;
          (err, s2) = flush_batch channel clock rows s1
      in (case result of Inl e \<Rightarrow> Some e | Inr _ \<Rightarrow> err, s2))"

function flush_batches :: "(work_delivery \<Rightarrow> channel_call) \<Rightarrow> (work_delivery \<Rightarrow> string)
    \<Rightarrow> (work_item \<times> recipe \<times> work_delivery) list \<Rightarrow> work_store \<Rightarrow> js_error option \<times> work_store" where
  "flush_batches channel clock rows s =
     (if rows = [] then (None, s)
      else case flush_batch channel clock (take WRITE_BACK_CONCURRENCY rows) s of
             (Some e, s1) \<Rightarrow> (Some e, s1)
           | (None, s1) \<Rightarrow> flush_batches channel clock (drop WRITE_BACK_CONCURRENCY rows) s1)"
  by pat_completeness auto
termination
  by (relation "measure (\<lambda>(channel, clock, rows, s). length rows)")
    (auto simp: WRITE_BACK_CONCURRENCY_def)

declare flush_batches.simps [simp del]

definition flushDeliveries :: "(work_delivery \<Rightarrow> channel_call) \<Rightarrow> (work_delivery \<Rightarrow> string)
    \<Rightarrow> string \<Rightarrow> string \<Rightarrow> work_store \<Rightarrow> js_error option \<times> work_store" where
  "flushDeliveries channel clock orgId now s =
     (let (pending, s1) = flush_pending orgId now (listDueWorkDeliveries orgId now s) s
      in flush_batches channel clock pending s1)"

lemma flush_batch_append:
  "flush_batch channel clock xs s = (None, s1) \<Longrightarrow>
     flush_batch channel clock (xs @ ys) s = flush_batch channel clock ys s1"
proof (induction xs arbitrary: s)
  case (Cons p xs)
  obtain item r d where p: "p = (item, r, d)" by (cases p)
  obtain result s' where f: "flushOne channel (clock d) item d False s = (result, s')" by fastforce
  from Cons.prems p f have "flush_batch channel clock xs s' = (None, s1)" and "\<exists>x. result = Inr x"
    by (auto split: prod.splits sum.splits)
  with Cons.IH p f show ?case by auto
qed simp

text \<open>Without an error the batches make no difference: every pending row is flushed, in order.\<close>

lemma flush_batches_all:
  "flush_batches channel clock rows s = (None, t) \<Longrightarrow> flush_batch channel clock rows s = (None, t)"
proof (induction channel clock rows s rule: flush_batches.induct)
  case (1 channel clock rows s)
  show ?case
  proof (cases "rows = []")
    case False
    with "1.prems" obtain s1 where s1:
      "flush_batch channel clock (take WRITE_BACK_CONCURRENCY rows) s = (None, s1)"
      "flush_batches channel clock (drop WRITE_BACK_CONCURRENCY rows) s1 = (None, t)"
      by (subst (asm) flush_batches.simps) (auto split: prod.splits option.splits)
    from "1.IH"[OF False s1(1)[symmetric] refl s1(2)]
    have "flush_batch channel clock (drop WRITE_BACK_CONCURRENCY rows) s1 = (None, t)" .
    with flush_batch_append[OF s1(1), of "drop WRITE_BACK_CONCURRENCY rows"] show ?thesis by simp
  qed (use "1.prems" in \<open>simp add: flush_batches.simps\<close>)
qed

subsection \<open>When a delivery is due\<close>

lemma parsed_ge_iso [simp]:
  "\<bar>t\<bar> \<le> max_time \<Longrightarrow> \<bar>u\<bar> \<le> max_time \<Longrightarrow> parsed_ge (iso_string t) (iso_string u) \<longleftrightarrow> u \<le> t"
  by (simp add: parsed_ge_def date_parse_iso_string)

lemma truthy_iso [simp]: "truthy (Some (iso_string t))"
  by (simp add: iso_string_neq_Nil)

lemma claim_send:
  assumes "\<bar>t\<bar> \<le> max_time" and "\<bar>t + 60000\<bar> \<le> max_time"
  shows "deliveryClaimSend d (iso_string t) = Inr (d\<lparr>wd_status := DelWriteBack, wd_write_back := BackPending,
      wd_attempts := wd_attempts d + 1, wd_last_error := None, wd_next_retry_at := None,
      wd_lease_expires_at := Some (iso_string (t + 60000)), wd_updated_at := iso_string t\<rparr>)"
  using assms by (simp add: deliveryClaimSend_def WORK_DELIVERY_LEASE_MS_def add_ms_iso_string)

text \<open>The fields the flush decides on.\<close>

definition same_due :: "work_delivery \<Rightarrow> work_delivery \<Rightarrow> bool" where
  "same_due d e \<longleftrightarrow> wd_status e = wd_status d \<and> wd_write_back e = wd_write_back d
     \<and> wd_lease_expires_at e = wd_lease_expires_at d \<and> wd_next_retry_at e = wd_next_retry_at d
     \<and> (wd_payload e = None \<longleftrightarrow> wd_payload d = None)"

lemma should_flush_cong:
  assumes "same_due d e" shows "shouldFlushDelivery e now = shouldFlushDelivery d now"
proof -
  have "isDeliveryLeaseExpired e now = isDeliveryLeaseExpired d now"
    using assms by (simp add: isDeliveryLeaseExpired_def same_due_def)
  then show ?thesis
    using assms by (simp add: shouldFlushDelivery_def reclaimDeliveryLease_def same_due_def Let_def deliveryAbandoned_def)
qed

subsection \<open>The delivery of an item\<close>

definition deliveries_ok :: "work_store \<Rightarrow> bool" where
  "deliveries_ok s \<longleftrightarrow> (\<forall>(k, d) \<in> set (ws_deliveries s). wd_id d = k) \<and> distinct (js_keys (ws_deliveries s))"

lemma deliveries_ok_put: "deliveries_ok s \<Longrightarrow> deliveries_ok (snd (putWorkDelivery d s))"
  by (auto simp: deliveries_ok_def putWorkDelivery_def set_js_set)

lemma find_js_set:
  assumes "List.find P (js_values m) = Some d" and "\<forall>(k, x) \<in> set m. f x = k" and "distinct (js_keys m)" and "P e" and "f e = f d"
  shows "List.find P (js_values (js_set (f d) e m)) = Some e"
  using assms
proof (induction m)
  case (Cons p m)
  obtain k x where p: "p = (k, x)" by (cases p)
  show ?case
  proof (cases "P x")
    case True
    with Cons.prems p show ?thesis by auto
  next
    case False
    then have d: "List.find P (js_values m) = Some d" using Cons.prems(1) p by simp
    then have "d \<in> set (js_values m)" by (metis find_Some_iff nth_mem)
    with Cons.prems(2,3) p have "k \<noteq> f d" by force
    with Cons.IH[OF d] Cons.prems False p show ?thesis by simp
  qed
qed simp

lemma put_delivery_by_item:
  assumes "deliveries_ok s" and "getWorkDeliveryByItem org i s = Some d"
    and "wd_id e = wd_id d" and "wd_org_id e = org" and "wd_work_item_id e = i"
  shows "getWorkDeliveryByItem org i (snd (putWorkDelivery e s)) = Some e"
  using assms find_js_set[of "\<lambda>d. wd_org_id d = org \<and> wd_work_item_id d = i" "ws_deliveries s" d wd_id e]
  by (simp add: getWorkDeliveryByItem_def putWorkDelivery_def deliveries_ok_def)

lemma delivery_of_item:
  "getWorkDeliveryByItem org i s = Some d \<Longrightarrow> wd_org_id d = org \<and> wd_work_item_id d = i"
  by (auto simp: getWorkDeliveryByItem_def find_Some_iff)

text \<open>Flushes of the delivery of one item, each with its stamp and what the channel would do; the number
  of sends.\<close>

fun flushes :: "work_item \<Rightarrow> (int \<times> channel_call) list \<Rightarrow> work_store \<Rightarrow> nat \<times> work_store" where
  "flushes item [] s = (0, s)"
| "flushes item ((t, call) # rest) s =
     (case getWorkDeliveryByItem (wi_org_id item) (wi_id item) s of
        None \<Rightarrow> flushes item rest s
      | Some d \<Rightarrow>
          (let (result, s1) = flushOne (\<lambda>_. call) (iso_string t) item d False s;
               (n, s2) = flushes item rest s1
           in (if result = Inr True then Suc n else n, s2)))"

text \<open>Receipts change neither what the flush decides on nor the number of attempts.\<close>

definition same_send :: "work_delivery \<Rightarrow> work_delivery \<Rightarrow> bool" where
  "same_send d e \<longleftrightarrow> same_due d e \<and> wd_attempts e = wd_attempts d \<and> wd_id e = wd_id d
     \<and> wd_org_id e = wd_org_id d \<and> wd_work_item_id e = wd_work_item_id d
     \<and> wd_idempotency_key e = wd_idempotency_key d \<and> wd_payload e = wd_payload d"

lemma same_send_receipt: "same_send d e \<Longrightarrow> same_send d (deliveryRecordReceipt e r now)"
  by (simp add: same_send_def same_due_def deliveryRecordReceipt_def)

lemma receipts_kept:
  assumes "deliveries_ok s" and "getWorkDeliveryByItem (wi_org_id item) (wi_id item) s = Some c" and "same_send d c"
  shows "\<exists>c' s'. record_receipts item rs c s = (c', s') \<and> deliveries_ok s'
    \<and> getWorkDeliveryByItem (wi_org_id item) (wi_id item) s' = Some c' \<and> same_send d c'"
  using assms
proof (induction rs arbitrary: c s)
  case (Cons p rs)
  obtain r t where p: "p = (r, t)" by (cases p)
  let ?e = "deliveryRecordReceipt c r t"
  have "latest_delivery item c s = c" using Cons.prems(2) by (simp add: latest_delivery_def)
  moreover have "getWorkDeliveryByItem (wi_org_id item) (wi_id item) (snd (putWorkDelivery ?e s)) = Some ?e"
    by (rule put_delivery_by_item[OF Cons.prems(1,2)])
      (use delivery_of_item[OF Cons.prems(2)] in \<open>simp_all add: deliveryRecordReceipt_def\<close>)
  ultimately show ?case
    using Cons.IH[OF deliveries_ok_put[OF Cons.prems(1)] _ same_send_receipt[OF Cons.prems(3)]] p
    by (simp add: Let_def)
qed simp

text \<open>One flush, up to how the channel settles.\<close>

lemma flush_sends:
  assumes ok: "deliveries_ok s" and d: "getWorkDeliveryByItem (wi_org_id item) (wi_id item) s = Some d"
    and t: "\<bar>t\<bar> \<le> max_time" "\<bar>t + 60000\<bar> \<le> max_time"
    and due: "shouldFlushDelivery (reclaimDeliveryLease d (iso_string t)) (iso_string t)"
  obtains c s1 where "deliveries_ok s1" "getWorkDeliveryByItem (wi_org_id item) (wi_id item) s1 = Some c"
    "wd_attempts c = wd_attempts d + 1" "wd_payload c = wd_payload d" "wd_idempotency_key c = wd_idempotency_key d"
    "wd_id c = wd_id d" "wd_status c = DelWriteBack" "wd_write_back c = BackPending"
    "wd_lease_expires_at c = Some (iso_string (t + 60000))"
    "flushOne (\<lambda>_. call) (iso_string t) item d False s =
      (case cc_end call of
         SendDone outcome \<Rightarrow> (Inr True, snd (putWorkDelivery (deliveryAcked c outcome (iso_string t)) s1))
       | SendTimedOut \<Rightarrow> (Inr True, snd (putWorkDelivery (deliverySendTimedOut c (iso_string t)) s1))
       | SendFailed e \<Rightarrow>
           (case deliveryWriteBackFailed c e (iso_string t) of
              Inl err \<Rightarrow> (Inl err, s1) | Inr x \<Rightarrow> (Inr True, snd (putWorkDelivery x s1))))"
proof -
  let ?r = "reclaimDeliveryLease d (iso_string t)"
  have pay: "wd_payload ?r \<noteq> None"
    using due by (auto simp: shouldFlushDelivery_def reclaimDeliveryLease_def deliveryAbandoned_def Let_def split: if_splits)
  have same: "wd_payload ?r = wd_payload d" "wd_attempts ?r = wd_attempts d" "wd_id ?r = wd_id d"
    "wd_org_id ?r = wd_org_id d" "wd_work_item_id ?r = wd_work_item_id d" "wd_idempotency_key ?r = wd_idempotency_key d"
    by (simp_all add: reclaimDeliveryLease_def deliveryAbandoned_def)
  note claim = claim_send[OF t, of ?r]
  let ?c = "?r\<lparr>wd_status := DelWriteBack, wd_write_back := BackPending,
      wd_attempts := wd_attempts ?r + 1, wd_last_error := None, wd_next_retry_at := None,
      wd_lease_expires_at := Some (iso_string (t + 60000)), wd_updated_at := iso_string t\<rparr>"
  have get: "getWorkDeliveryByItem (wi_org_id item) (wi_id item) (snd (putWorkDelivery ?c s)) = Some ?c"
    by (rule put_delivery_by_item[OF ok d]) (use delivery_of_item[OF d] same in simp_all)
  have "same_send ?c ?c" by (simp add: same_send_def same_due_def)
  from receipts_kept[OF deliveries_ok_put[OF ok] get this, of "cc_receipts call"] obtain c s1 where
    c: "record_receipts item (cc_receipts call) ?c (snd (putWorkDelivery ?c s)) = (c, s1)" "deliveries_ok s1"
    "getWorkDeliveryByItem (wi_org_id item) (wi_id item) s1 = Some c" "same_send ?c c" by blast
  have latest: "latest_delivery item c s1 = c" using c(3) by (simp add: latest_delivery_def)
  from pay obtain p where p: "wd_payload ?r = Some p" by blast
  have "flushOne (\<lambda>_. call) (iso_string t) item d False s =
      (case cc_end call of
         SendDone outcome \<Rightarrow> (Inr True, snd (putWorkDelivery (deliveryAcked c outcome (iso_string t)) s1))
       | SendTimedOut \<Rightarrow> (Inr True, snd (putWorkDelivery (deliverySendTimedOut c (iso_string t)) s1))
       | SendFailed e \<Rightarrow>
           (case deliveryWriteBackFailed c e (iso_string t) of
              Inl err \<Rightarrow> (Inl err, s1) | Inr x \<Rightarrow> (Inr True, snd (putWorkDelivery x s1))))"
    by (simp only: flushOne_def flush_start_def flush_settle_def Let_def due p claim c(1) latest if_False if_True
        simp_thms option.distinct sum.case prod.case option.case)
  moreover have "wd_attempts c = wd_attempts d + 1" "wd_payload c = wd_payload d"
    "wd_idempotency_key c = wd_idempotency_key d" "wd_id c = wd_id d" "wd_status c = DelWriteBack"
    "wd_write_back c = BackPending" "wd_lease_expires_at c = Some (iso_string (t + 60000))"
    using c(4) same by (simp_all add: same_send_def same_due_def)
  ultimately show thesis using that[OF c(2,3)] by blast
qed

lemma flush_not_due:
  "\<not> shouldFlushDelivery (reclaimDeliveryLease d now) now \<Longrightarrow> flushOne ch now item d False s = (Inr False, s)"
  by (simp add: flushOne_def flush_start_def Let_def)

definition final_delivery :: "work_delivery \<Rightarrow> bool" where
  "final_delivery d \<longleftrightarrow> wd_status d = DelAcked \<or> wd_status d = DelDead"

lemma final_not_due:
  assumes "final_delivery d" shows "\<not> shouldFlushDelivery (reclaimDeliveryLease d now) now"
proof -
  have "wd_status d \<noteq> DelWriteBack" "wd_status d \<noteq> DelRunning" using assms by (auto simp: final_delivery_def)
  then have "reclaimDeliveryLease d now = d" by (simp add: reclaimDeliveryLease_def isDeliveryLeaseExpired_def)
  with assms show ?thesis by (auto simp: shouldFlushDelivery_def Let_def final_delivery_def)
qed

lemma flush_final: "final_delivery d \<Longrightarrow> flushOne ch now item d False s = (Inr False, s)"
  by (rule flush_not_due[OF final_not_due])

subsection \<open>Failed sends are bounded\<close>

definition valid_flush :: "int \<Rightarrow> bool" where
  "valid_flush t \<longleftrightarrow> \<bar>t\<bar> \<le> max_time \<and> \<bar>t + 480000\<bar> \<le> max_time"

lemma valid_flush_iso: "valid_flush t \<Longrightarrow> 0 \<le> ms \<Longrightarrow> ms \<le> 480000 \<Longrightarrow> \<bar>t + ms\<bar> \<le> max_time"
  by (auto simp: valid_flush_def)

lemma write_back_failed:
  assumes "valid_flush t"
  shows "\<exists>x. deliveryWriteBackFailed c e (iso_string t) = Inr x \<and> wd_attempts x = max (wd_attempts c) 1
    \<and> wd_status x = (if 3 \<le> max (wd_attempts c) 1 then DelDead else DelWriteBack)
    \<and> wd_id x = wd_id c \<and> wd_org_id x = wd_org_id c \<and> wd_work_item_id x = wd_work_item_id c"
proof -
  have "\<bar>t\<bar> \<le> max_time" "\<bar>t + 30000\<bar> \<le> max_time" "\<bar>t + 120000\<bar> \<le> max_time" "\<bar>t + 480000\<bar> \<le> max_time"
    using assms valid_flush_iso[OF assms] by (simp_all add: valid_flush_def)
  moreover have "nat (min (max (max a 1) 1 - 1) 2) = (if a \<le> 1 then 0 else if a = 2 then 1 else 2)" for a :: int
    by (auto simp: max_def min_def)
  ultimately have "\<exists>s. nextDeliveryRetryAt (max a 1) (iso_string t) = Inr s" for a
    by (simp add: nextDeliveryRetryAt_def WORK_DELIVERY_RETRY_DELAYS_MS_def add_ms_iso_string)
  then obtain s where "nextDeliveryRetryAt (max (wd_attempts c) 1) (iso_string t) = Inr s" by blast
  then show ?thesis
    by (simp add: deliveryWriteBackFailed_def Let_def WORK_DELIVERY_MAX_ATTEMPTS_def)
qed

lemma flush_fails:
  assumes "deliveries_ok s" and "getWorkDeliveryByItem (wi_org_id item) (wi_id item) s = Some d"
    and "valid_flush t" and "cc_end call = SendFailed e"
    and "shouldFlushDelivery (reclaimDeliveryLease d (iso_string t)) (iso_string t)"
  shows "\<exists>x s1. flushOne (\<lambda>_. call) (iso_string t) item d False s = (Inr True, s1) \<and> deliveries_ok s1
    \<and> getWorkDeliveryByItem (wi_org_id item) (wi_id item) s1 = Some x \<and> wd_attempts x = max (wd_attempts d + 1) 1
    \<and> wd_status x = (if 3 \<le> wd_attempts x then DelDead else DelWriteBack)"
proof -
  have t: "\<bar>t\<bar> \<le> max_time" "\<bar>t + 60000\<bar> \<le> max_time" using valid_flush_iso[OF assms(3)] assms(3) by (simp_all add: valid_flush_def)
  obtain c s1 where c: "deliveries_ok s1" "getWorkDeliveryByItem (wi_org_id item) (wi_id item) s1 = Some c"
    "wd_attempts c = wd_attempts d + 1"
    "flushOne (\<lambda>_. call) (iso_string t) item d False s =
      (case deliveryWriteBackFailed c e (iso_string t) of
         Inl err \<Rightarrow> (Inl err, s1) | Inr x \<Rightarrow> (Inr True, snd (putWorkDelivery x s1)))"
    by (rule flush_sends[OF assms(1,2) t assms(5), of call]) (simp add: assms(4))
  obtain x where x: "deliveryWriteBackFailed c e (iso_string t) = Inr x" "wd_attempts x = max (wd_attempts c) 1"
    "wd_status x = (if 3 \<le> max (wd_attempts c) 1 then DelDead else DelWriteBack)"
    "wd_id x = wd_id c" "wd_org_id x = wd_org_id c" "wd_work_item_id x = wd_work_item_id c"
    using write_back_failed[OF assms(3)] by blast
  have "getWorkDeliveryByItem (wi_org_id item) (wi_id item) (snd (putWorkDelivery x s1)) = Some x"
    by (rule put_delivery_by_item[OF c(1,2)]) (use x delivery_of_item[OF c(2)] in simp_all)
  moreover have "flushOne (\<lambda>_. call) (iso_string t) item d False s = (Inr True, snd (putWorkDelivery x s1))"
    using c(4) x(1) by simp
  ultimately show ?thesis using deliveries_ok_put[OF c(1)] x(2,3) c(3) by metis
qed

text \<open>C11. Failing sends are bounded: however often the flush runs, a delivery whose sends all fail is sent
  at most three times, counting the attempts it starts with; it is dead as soon as the bound is
  reached, and a dead or acknowledged delivery is never sent.\<close>

theorem failing_delivery_is_bounded:
  assumes "deliveries_ok s" and "getWorkDeliveryByItem (wi_org_id item) (wi_id item) s = Some d"
    and "0 \<le> wd_attempts d" and "wd_attempts d < 3 \<or> final_delivery d"
    and "\<forall>(t, call) \<in> set fs. valid_flush t \<and> (\<exists>e. cc_end call = SendFailed e)"
  shows "\<exists>x. getWorkDeliveryByItem (wi_org_id item) (wi_id item) (snd (flushes item fs s)) = Some x
    \<and> (if final_delivery d then fst (flushes item fs s) = 0 \<and> x = d
       else wd_attempts x = wd_attempts d + int (fst (flushes item fs s)) \<and> wd_attempts x \<le> 3
         \<and> (wd_attempts x = 3 \<longrightarrow> wd_status x = DelDead))"
  using assms
proof (induction fs arbitrary: s d)
  case (Cons f fs)
  obtain t call where f: "f = (t, call)" by (cases f)
  from Cons.prems(5) f obtain e where v: "valid_flush t" "cc_end call = SendFailed e" by auto
  have rest: "\<forall>(t, call) \<in> set fs. valid_flush t \<and> (\<exists>e. cc_end call = SendFailed e)" using Cons.prems(5) by simp
  show ?case
  proof (cases "shouldFlushDelivery (reclaimDeliveryLease d (iso_string t)) (iso_string t)")
    case False
    then have "flushes item (f # fs) s = flushes item fs s"
      using Cons.prems(2) f by (simp add: flush_not_due split_beta)
    then show ?thesis using Cons.IH[OF Cons.prems(1-4) rest] by (simp only:)
  next
    case True
    then have nf: "\<not> final_delivery d" using final_not_due by blast
    from flush_fails[OF Cons.prems(1,2) v True] obtain x s1 where x:
      "flushOne (\<lambda>_. call) (iso_string t) item d False s = (Inr True, s1)" "deliveries_ok s1"
      "getWorkDeliveryByItem (wi_org_id item) (wi_id item) s1 = Some x" "wd_attempts x = max (wd_attempts d + 1) 1"
      "wd_status x = (if 3 \<le> wd_attempts x then DelDead else DelWriteBack)" by blast
    have a: "wd_attempts x = wd_attempts d + 1" "0 \<le> wd_attempts x" using x(4) Cons.prems(3) by simp_all
    have fin: "wd_attempts x < 3 \<or> final_delivery x" "final_delivery x \<longleftrightarrow> 3 \<le> wd_attempts x"
      using x(5) by (auto simp: final_delivery_def)
    have eq: "flushes item (f # fs) s = (Suc (fst (flushes item fs s1)), snd (flushes item fs s1))"
      using Cons.prems(2) f x(1) by (simp add: split_beta)
    obtain y where y: "getWorkDeliveryByItem (wi_org_id item) (wi_id item) (snd (flushes item fs s1)) = Some y"
      "if final_delivery x then fst (flushes item fs s1) = 0 \<and> y = x
       else wd_attempts y = wd_attempts x + int (fst (flushes item fs s1)) \<and> wd_attempts y \<le> 3
         \<and> (wd_attempts y = 3 \<longrightarrow> wd_status y = DelDead)"
      using Cons.IH[OF x(2,3) a(2) fin(1) rest] by blast
    show ?thesis
    proof (cases "final_delivery x")
      case True
      then have "wd_attempts x = 3" using fin(2) a(1) nf Cons.prems(4) by simp
      with True y nf a(1) x(5) show ?thesis unfolding eq by simp
    next
      case False
      with y nf a(1) show ?thesis unfolding eq by simp
    qed
  qed
qed auto

definition sample_delivery :: work_delivery where
  "sample_delivery = \<lparr>wd_id = ''d'', wd_org_id = ''o'', wd_work_item_id = ''a'', wd_recipe_id = ''r'',
     wd_kind = TriggerPush, wd_unit_key = ''u'', wd_event_id = None, wd_status = DelQueued,
     wd_write_back = BackPending, wd_attempts = 0, wd_payload = Some \<lparr>py_summary = ''s'', py_content = None\<rparr>,
     wd_idempotency_key = Some ''key'', wd_channel_receipt = None, wd_last_error = None, wd_next_retry_at = None,
     wd_lease_expires_at = None, wd_created_at = ''t'', wd_updated_at = ''t''\<rparr>"

definition sample_delivering :: work_store where
  "sample_delivering = snd (putWorkDelivery sample_delivery sample_work)"

lemma sample_delivering_ok:
  "deliveries_ok sample_delivering"
  "getWorkDeliveryByItem (wi_org_id (sample_item ''a'')) (wi_id (sample_item ''a'')) sample_delivering = Some sample_delivery"
  by (simp_all add: sample_delivering_def deliveries_ok_def putWorkDelivery_def sample_work_defs
      getWorkDeliveryByItem_def sample_delivery_def)

definition failing_call :: channel_call where
  "failing_call = \<lparr>cc_receipts = [], cc_end = SendFailed ''down''\<rparr>"

theorem failing_delivery_is_bounded_witness:
  "\<exists>x. getWorkDeliveryByItem ''o'' ''a'' (snd (flushes (sample_item ''a'') [(0, failing_call), (30000, failing_call)] sample_delivering)) = Some x
   \<and> wd_attempts x = int (fst (flushes (sample_item ''a'') [(0, failing_call), (30000, failing_call)] sample_delivering))"
proof -
  have a: "0 \<le> wd_attempts sample_delivery" "wd_attempts sample_delivery < 3 \<or> final_delivery sample_delivery"
    by (simp_all add: sample_delivery_def)
  have f: "\<forall>(t, call) \<in> set [(0, failing_call), (30000, failing_call)]. valid_flush t \<and> (\<exists>e. cc_end call = SendFailed e)"
    by (simp add: failing_call_def valid_flush_def max_time_def)
  have nf: "\<not> final_delivery sample_delivery" by (simp add: final_delivery_def sample_delivery_def)
  from failing_delivery_is_bounded[OF sample_delivering_ok a f] nf show ?thesis
    by (auto simp: sample_item_def sample_delivery_def)
qed

subsection \<open>Timeouts and acknowledgements\<close>

text \<open>A send that times out costs no attempt: the delivery can be sent again after its lease, however
  often that happens.\<close>

lemma timed_out_send_does_not_count:
  assumes "deliveries_ok s" and "getWorkDeliveryByItem (wi_org_id item) (wi_id item) s = Some d"
    and "\<bar>t\<bar> \<le> max_time" and "\<bar>t + 60000\<bar> \<le> max_time" and "0 \<le> wd_attempts d" and "cc_end call = SendTimedOut"
    and "shouldFlushDelivery (reclaimDeliveryLease d (iso_string t)) (iso_string t)"
  shows "\<exists>x s1. flushOne (\<lambda>_. call) (iso_string t) item d False s = (Inr True, s1)
    \<and> getWorkDeliveryByItem (wi_org_id item) (wi_id item) s1 = Some x \<and> wd_attempts x = wd_attempts d
    \<and> wd_status x = DelWriteBack \<and> wd_write_back x = BackPending"
proof -
  obtain c s1 where c: "deliveries_ok s1" "getWorkDeliveryByItem (wi_org_id item) (wi_id item) s1 = Some c"
    "wd_attempts c = wd_attempts d + 1" "wd_status c = DelWriteBack" "wd_write_back c = BackPending"
    "flushOne (\<lambda>_. call) (iso_string t) item d False s
      = (Inr True, snd (putWorkDelivery (deliverySendTimedOut c (iso_string t)) s1))"
    by (rule flush_sends[OF assms(1-4,7), of call]) (simp add: assms(6))
  let ?x = "deliverySendTimedOut c (iso_string t)"
  have "getWorkDeliveryByItem (wi_org_id item) (wi_id item) (snd (putWorkDelivery ?x s1)) = Some ?x"
    by (rule put_delivery_by_item[OF c(1,2)])
      (use delivery_of_item[OF c(2)] in \<open>simp_all add: deliverySendTimedOut_def\<close>)
  with c assms(5) show ?thesis by (auto simp: deliverySendTimedOut_def)
qed

text \<open>What happens around the delivery of an item: automatic flushes, which read the stored row, a
  receipt or a timeout of a send that is still on its way, and a result handed in again.\<close>

datatype delivery_op = DoFlush int channel_call | DoReceipt delivery_receipt string | DoTimeout string
  | DoEnqueue write_back_input

fun delivery_op_run ::
  "(string \<Rightarrow> string) \<Rightarrow> string \<Rightarrow> work_item \<Rightarrow> delivery_op \<Rightarrow> work_store \<Rightarrow> bool \<times> work_store" where
  "delivery_op_run sha fresh item (DoFlush t call) s =
     (case getWorkDeliveryByItem (wi_org_id item) (wi_id item) s of
        None \<Rightarrow> (False, s)
      | Some d \<Rightarrow> let (r, s') = flushOne (\<lambda>_. call) (iso_string t) item d False s in (r \<noteq> Inr False, s'))"
| "delivery_op_run sha fresh item (DoReceipt r t) s =
     (False, case getWorkDeliveryByItem (wi_org_id item) (wi_id item) s of
        None \<Rightarrow> s | Some d \<Rightarrow> late_receipt item r t d s)"
| "delivery_op_run sha fresh item (DoTimeout t) s =
     (False, case getWorkDeliveryByItem (wi_org_id item) (wi_id item) s of
        None \<Rightarrow> s | Some d \<Rightarrow> snd (putWorkDelivery (deliverySendTimedOut d t) s))"
| "delivery_op_run sha fresh item (DoEnqueue i) s =
     (False, snd (putWorkDelivery (enqueueWriteBack sha fresh
        (i\<lparr>wb_existing := getWorkDeliveryByItem (wi_org_id item) (wi_id item) s\<rparr>)) s))"

fun delivery_ops_run ::
  "(string \<Rightarrow> string) \<Rightarrow> string \<Rightarrow> work_item \<Rightarrow> delivery_op list \<Rightarrow> work_store \<Rightarrow> nat \<times> work_store" where
  "delivery_ops_run sha fresh item [] s = (0, s)"
| "delivery_ops_run sha fresh item (x # xs) s =
     (let (sent, s1) = delivery_op_run sha fresh item x s;
          (n, s2) = delivery_ops_run sha fresh item xs s1
      in (if sent then Suc n else n, s2))"

text \<open>The same result: its key is the one the delivery was made for.\<close>

definition same_result :: "(string \<Rightarrow> string) \<Rightarrow> string \<Rightarrow> work_item \<Rightarrow> delivery_op \<Rightarrow> bool" where
  "same_result sha key item op =
     (case op of DoEnqueue i \<Rightarrow> wb_work_item_id i = wi_id item
        \<and> writeBackIdempotencyKey sha (wb_work_item_id i) (wb_payload i) = key | _ \<Rightarrow> True)"

lemma acked_op:
  assumes ok: "deliveries_ok s" and get: "getWorkDeliveryByItem (wi_org_id item) (wi_id item) s = Some d"
    and d: "wd_status d = DelAcked" "deliveryPayloadKey sha d = Some key" and op: "same_result sha key item op"
  shows "\<exists>e s'. delivery_op_run sha fresh item op s = (False, s') \<and> deliveries_ok s'
    \<and> getWorkDeliveryByItem (wi_org_id item) (wi_id item) s' = Some e
    \<and> wd_status e = DelAcked \<and> wd_write_back e = wd_write_back d \<and> deliveryPayloadKey sha e = Some key"
proof (cases op)
  case (DoFlush t call)
  have "final_delivery d" using d(1) by (simp add: final_delivery_def)
  from flush_final[OF this] show ?thesis using ok get d by (simp add: DoFlush)
next
  case (DoReceipt r t)
  let ?e = "deliveryRecordReceipt d r t"
  have "getWorkDeliveryByItem (wi_org_id item) (wi_id item) (snd (putWorkDelivery ?e s)) = Some ?e"
    by (rule put_delivery_by_item[OF ok get]) (use delivery_of_item[OF get] in \<open>simp_all add: deliveryRecordReceipt_def\<close>)
  moreover have "deliveryPayloadKey sha ?e = deliveryPayloadKey sha d"
    by (simp add: deliveryPayloadKey_def deliveryRecordReceipt_def)
  ultimately show ?thesis
    using d get deliveries_ok_put[OF ok, of ?e]
    by (simp add: DoReceipt late_receipt_def latest_delivery_def Let_def) (simp add: deliveryRecordReceipt_def)
next
  case (DoTimeout t)
  let ?e = "deliverySendTimedOut d t"
  have "getWorkDeliveryByItem (wi_org_id item) (wi_id item) (snd (putWorkDelivery ?e s)) = Some ?e"
    by (rule put_delivery_by_item[OF ok get]) (use delivery_of_item[OF get] in \<open>simp_all add: deliverySendTimedOut_def\<close>)
  moreover have "deliveryPayloadKey sha ?e = deliveryPayloadKey sha d"
    by (simp add: deliveryPayloadKey_def deliverySendTimedOut_def)
  ultimately show ?thesis
    using d get deliveries_ok_put[OF ok, of ?e] by (simp add: DoTimeout) (simp add: deliverySendTimedOut_def)
next
  case (DoEnqueue i)
  let ?i = "i\<lparr>wb_existing := Some d\<rparr>" and ?e = "if truthy (wd_idempotency_key d) then d else d\<lparr>wd_idempotency_key := Some key\<rparr>"
  have k: "writeBackIdempotencyKey sha (wb_work_item_id i) (wb_payload i) = key"
    using op unfolding DoEnqueue same_result_def delivery_op.case by (rule conjunct2)
  have e: "enqueueWriteBack sha fresh ?i = ?e"
    using d(2) by (simp add: enqueueWriteBack_def Let_def k)
  have "getWorkDeliveryByItem (wi_org_id item) (wi_id item) (snd (putWorkDelivery ?e s)) = Some ?e"
    by (rule put_delivery_by_item[OF ok get]) (use delivery_of_item[OF get] in simp_all)
  moreover have "deliveryPayloadKey sha ?e = Some key"
    using d(2) by (auto simp: deliveryPayloadKey_def writeBackIdempotencyKey_def split: if_splits)
  ultimately show ?thesis
    using d(1) deliveries_ok_put[OF ok, of ?e] by (simp add: DoEnqueue get e)
qed

text \<open>An acknowledged result is not sent again: over every sequence of flushes, late receipts and
  re-submissions of the same result, the channel is never called and the delivery stays acknowledged
  with the outcome it had.\<close>

lemma acked_result_is_not_resent:
  assumes "deliveries_ok s" and "getWorkDeliveryByItem (wi_org_id item) (wi_id item) s = Some d"
    and "wd_status d = DelAcked" and "deliveryPayloadKey sha d = Some key"
    and "list_all (same_result sha key item) ops"
  shows "fst (delivery_ops_run sha fresh item ops s) = 0
    \<and> (\<exists>e. getWorkDeliveryByItem (wi_org_id item) (wi_id item) (snd (delivery_ops_run sha fresh item ops s)) = Some e
         \<and> wd_status e = DelAcked \<and> wd_write_back e = wd_write_back d)"
  using assms
proof (induction ops arbitrary: s d)
  case (Cons op ops)
  from acked_op[OF Cons.prems(1-4)] Cons.prems(5) obtain e s1 where e:
    "delivery_op_run sha fresh item op s = (False, s1)" "deliveries_ok s1"
    "getWorkDeliveryByItem (wi_org_id item) (wi_id item) s1 = Some e"
    "wd_status e = DelAcked" "wd_write_back e = wd_write_back d" "deliveryPayloadKey sha e = Some key" by fastforce
  from Cons.IH[OF e(2,3,4,6)] Cons.prems(5) e(5)
  show ?case by (simp add: e(1) split_beta)
qed simp

definition sample_acked :: work_store where
  "sample_acked = snd (putWorkDelivery (deliveryAcked sample_delivery BackSent ''t'') sample_work)"

lemma acked_result_is_not_resent_witness:
  "fst (delivery_ops_run (\<lambda>x. x) ''id'' (sample_item ''a'')
     [DoFlush 0 failing_call, DoReceipt \<lparr>dr_accepted = True, dr_rpc_id = None, dr_channel_message_ids = None\<rparr> ''t'', DoTimeout ''t'',
      DoFlush 60000 failing_call] sample_acked) = 0"
proof -
  let ?d = "deliveryAcked sample_delivery BackSent ''t''"
  have ok: "deliveries_ok sample_acked"
    "getWorkDeliveryByItem (wi_org_id (sample_item ''a'')) (wi_id (sample_item ''a'')) sample_acked = Some ?d"
    by (simp_all add: sample_acked_def deliveries_ok_def putWorkDelivery_def sample_work_defs
        getWorkDeliveryByItem_def sample_delivery_def deliveryAcked_def)
  have d: "wd_status ?d = DelAcked" "deliveryPayloadKey (\<lambda>x. x) ?d = Some ''key''"
    by (simp_all add: deliveryAcked_def deliveryPayloadKey_def sample_delivery_def)
  show ?thesis by (rule acked_result_is_not_resent[OF ok d, THEN conjunct1]) (simp add: same_result_def)
qed

subsection \<open>A send has its window to itself\<close>

lemma flush_start_claims:
  assumes t: "\<bar>t\<bar> \<le> max_time" "\<bar>t + 60000\<bar> \<le> max_time"
    and start: "flush_start (iso_string t) item d False s = (Inr (Some c), s1)"
  shows "s1 = snd (putWorkDelivery c s)"
    and "c = (reclaimDeliveryLease d (iso_string t))\<lparr>wd_status := DelWriteBack, wd_write_back := BackPending,
      wd_attempts := wd_attempts d + 1, wd_last_error := None, wd_next_retry_at := None,
      wd_lease_expires_at := Some (iso_string (t + 60000)), wd_updated_at := iso_string t\<rparr>"
    and "wd_payload c \<noteq> None"
proof -
  let ?r = "reclaimDeliveryLease d (iso_string t)"
  have "wd_attempts ?r = wd_attempts d" by (simp add: reclaimDeliveryLease_def deliveryAbandoned_def)
  with start claim_send[OF t, of ?r] show "s1 = snd (putWorkDelivery c s)"
    "c = ?r\<lparr>wd_status := DelWriteBack, wd_write_back := BackPending,
      wd_attempts := wd_attempts d + 1, wd_last_error := None, wd_next_retry_at := None,
      wd_lease_expires_at := Some (iso_string (t + 60000)), wd_updated_at := iso_string t\<rparr>"
    "wd_payload c \<noteq> None"
    by (auto simp: flush_start_def Let_def split: if_splits sum.splits)
qed

text \<open>A row whose send is on its way until \<open>till\<close>, for the result with the key \<open>key\<close>.\<close>

definition being_sent :: "(string \<Rightarrow> string) \<Rightarrow> string \<Rightarrow> int \<Rightarrow> work_delivery \<Rightarrow> bool" where
  "being_sent sha key till x \<longleftrightarrow> wd_status x = DelWriteBack \<and> wd_write_back x = BackPending
     \<and> wd_lease_expires_at x = Some (iso_string till) \<and> wd_payload x \<noteq> None
     \<and> deliveryPayloadKey sha x = Some key"

lemma being_sent_due:
  assumes "being_sent sha key till x" and "\<bar>till\<bar> \<le> max_time" and "\<bar>u\<bar> \<le> max_time"
  shows "shouldFlushDelivery x (iso_string u) \<longleftrightarrow> till \<le> u"
    and "shouldFlushDelivery (reclaimDeliveryLease x (iso_string u)) (iso_string u) \<longleftrightarrow> till \<le> u"
  using assms by (auto simp: being_sent_def shouldFlushDelivery_def reclaimDeliveryLease_def isDeliveryLeaseExpired_def)

text \<open>Operations that come before the end of the window.\<close>

definition before_end :: "int \<Rightarrow> delivery_op \<Rightarrow> bool" where
  "before_end till op = (case op of DoFlush u _ \<Rightarrow> \<bar>u\<bar> \<le> max_time \<and> u < till | _ \<Rightarrow> True)"

lemma sending_op:
  assumes ok: "deliveries_ok s" and get: "getWorkDeliveryByItem (wi_org_id item) (wi_id item) s = Some x"
    and x: "being_sent sha key till x" "\<bar>till\<bar> \<le> max_time"
    and op: "same_result sha key item op" "before_end till op"
  shows "\<exists>e s'. delivery_op_run sha fresh item op s = (False, s') \<and> deliveries_ok s'
    \<and> getWorkDeliveryByItem (wi_org_id item) (wi_id item) s' = Some e \<and> being_sent sha key till e"
proof -
  have put: "deliveries_ok (snd (putWorkDelivery e s))
      \<and> getWorkDeliveryByItem (wi_org_id item) (wi_id item) (snd (putWorkDelivery e s)) = Some e"
    if "wd_id e = wd_id x" "wd_org_id e = wd_org_id x" "wd_work_item_id e = wd_work_item_id x" for e
    using deliveries_ok_put[OF ok] put_delivery_by_item[OF ok get that(1)] that delivery_of_item[OF get] by simp
  show ?thesis
  proof (cases op)
    case (DoFlush u call)
    with op(2) have "\<bar>u\<bar> \<le> max_time" "u < till" by (simp_all add: before_end_def)
    with being_sent_due(2)[OF x] have "\<not> shouldFlushDelivery (reclaimDeliveryLease x (iso_string u)) (iso_string u)" by simp
    from flush_not_due[OF this] show ?thesis using ok get x by (simp add: DoFlush)
  next
    case (DoReceipt r u)
    have "being_sent sha key till (deliveryRecordReceipt x r u)"
      using x(1) by (auto simp: being_sent_def deliveryRecordReceipt_def deliveryPayloadKey_def split: if_splits)
    with put[of "deliveryRecordReceipt x r u"] show ?thesis
      by (simp add: DoReceipt get late_receipt_def latest_delivery_def Let_def) (simp add: deliveryRecordReceipt_def)
  next
    case (DoTimeout u)
    have "being_sent sha key till (deliverySendTimedOut x u)"
      using x(1) by (auto simp: being_sent_def deliverySendTimedOut_def deliveryPayloadKey_def split: if_splits)
    with put[of "deliverySendTimedOut x u"] show ?thesis by (simp add: DoTimeout get) (simp add: deliverySendTimedOut_def)
  next
    case (DoEnqueue i)
    let ?e = "if truthy (wd_idempotency_key x) then x else x\<lparr>wd_idempotency_key := Some key\<rparr>"
    have k: "writeBackIdempotencyKey sha (wb_work_item_id i) (wb_payload i) = key"
      using op(1) unfolding DoEnqueue same_result_def delivery_op.case by (rule conjunct2)
    have "enqueueWriteBack sha fresh (i\<lparr>wb_existing := Some x\<rparr>) = ?e"
      using x(1) by (simp add: enqueueWriteBack_def Let_def k being_sent_def)
    moreover have "being_sent sha key till ?e"
      using x(1) by (auto simp: being_sent_def deliveryPayloadKey_def writeBackIdempotencyKey_def split: if_splits)
    ultimately show ?thesis using put[of ?e] by (simp add: DoEnqueue get)
  qed
qed

lemma sending_ops:
  assumes "\<bar>till\<bar> \<le> max_time"
  shows "deliveries_ok s \<Longrightarrow> getWorkDeliveryByItem (wi_org_id item) (wi_id item) s = Some x \<Longrightarrow>
    being_sent sha key till x \<Longrightarrow> list_all (\<lambda>op. same_result sha key item op \<and> before_end till op) ops \<Longrightarrow>
    \<exists>e. fst (delivery_ops_run sha fresh item ops s) = 0
      \<and> getWorkDeliveryByItem (wi_org_id item) (wi_id item) (snd (delivery_ops_run sha fresh item ops s)) = Some e
      \<and> being_sent sha key till e"
proof (induction ops arbitrary: s x)
  case (Cons op ops)
  from sending_op[OF Cons.prems(1-3) assms] Cons.prems(4) obtain e s1 where e:
    "delivery_op_run sha fresh item op s = (False, s1)" "deliveries_ok s1"
    "getWorkDeliveryByItem (wi_org_id item) (wi_id item) s1 = Some e" "being_sent sha key till e" by fastforce
  from Cons.IH[OF e(2-4)] Cons.prems(4) show ?case by (simp add: e(1) split_beta)
qed simp

lemma flush_calls_when_due:
  assumes "wd_payload d \<noteq> None" "wd_status d \<noteq> DelAcked"
    and "shouldFlushDelivery (reclaimDeliveryLease d now) now"
  shows "fst (flushOne channel now item d False s) \<noteq> Inr False"
proof -
  have "wd_payload (reclaimDeliveryLease d now) \<noteq> None"
    using assms(1) by (simp add: reclaimDeliveryLease_def)
  with assms(3) show ?thesis
    by (auto simp: flushOne_def flush_start_def flush_settle_def Let_def split_beta split: sum.splits send_end.splits)
qed

text \<open>C10. A send has its window to itself. Once a flush at \<open>t\<close> has claimed the stored delivery of an item,
  then until that send ends as acknowledged or failed, over any sequence of automatic flushes before \<open>t\<close> plus the
  lease (each reads the stored row), of receipts of the send, of its timing out and of the same result being handed
  in again, the channel is never called a second time; and afterwards the row is listed as due, and a flush of it
  calls the channel, exactly at the times from \<open>t\<close> plus the lease on. A forced resend, a different result, and a
  flush of a row that was read before the claim are not covered: \<open>flushOne\<close> decides on the row it is given.\<close>

theorem send_window_is_exclusive:
  assumes "deliveries_ok s" and "getWorkDeliveryByItem (wi_org_id item) (wi_id item) s = Some d"
    and "\<bar>t\<bar> \<le> max_time" and "\<bar>t + 60000\<bar> \<le> max_time"
    and "flush_start (iso_string t) item d False s = (Inr (Some c), s1)"
    and "deliveryPayloadKey sha c = Some key"
    and "list_all (\<lambda>op. same_result sha key item op
      \<and> (case op of DoFlush u _ \<Rightarrow> \<bar>u\<bar> \<le> max_time \<and> u < t + 60000 | _ \<Rightarrow> True)) ops"
  shows "fst (delivery_ops_run sha fresh item ops s1) = 0
    \<and> (\<exists>x. getWorkDeliveryByItem (wi_org_id item) (wi_id item) (snd (delivery_ops_run sha fresh item ops s1)) = Some x
      \<and> (\<forall>u. \<bar>u\<bar> \<le> max_time \<longrightarrow>
          (x \<in> set (listDueWorkDeliveries (wi_org_id item) (iso_string u) (snd (delivery_ops_run sha fresh item ops s1)))
            \<longleftrightarrow> t + 60000 \<le> u)
        \<and> (fst (flushOne channel (iso_string u) item x False (snd (delivery_ops_run sha fresh item ops s1))) \<noteq> Inr False
            \<longleftrightarrow> t + 60000 \<le> u)))"
proof -
  note c = flush_start_claims[OF assms(3-5)]
  have ident: "wd_id c = wd_id d" "wd_org_id c = wd_org_id d" "wd_work_item_id c = wd_work_item_id d"
    by (simp_all add: c(2) reclaimDeliveryLease_def deliveryAbandoned_def)
  have sent: "being_sent sha key (t + 60000) c"
    using assms(6) c(3) by (simp add: being_sent_def) (simp add: c(2))
  have get: "getWorkDeliveryByItem (wi_org_id item) (wi_id item) s1 = Some c"
    unfolding c(1) by (rule put_delivery_by_item[OF assms(1,2)]) (use ident delivery_of_item[OF assms(2)] in simp_all)
  have ops: "list_all (\<lambda>op. same_result sha key item op \<and> before_end (t + 60000) op) ops"
    using assms(7) by (simp add: before_end_def)
  from sending_ops[OF assms(4) deliveries_ok_put[OF assms(1), of c, folded c(1)] get sent ops, of fresh]
  obtain x where run: "fst (delivery_ops_run sha fresh item ops s1) = 0"
    and x: "getWorkDeliveryByItem (wi_org_id item) (wi_id item) (snd (delivery_ops_run sha fresh item ops s1)) = Some x"
      "being_sent sha key (t + 60000) x" by blast
  have stored: "x \<in> set (js_values (ws_deliveries (snd (delivery_ops_run sha fresh item ops s1))))"
    "wd_org_id x = wi_org_id item"
    using x(1) delivery_of_item[OF x(1)] by (auto simp: getWorkDeliveryByItem_def find_Some_iff intro: nth_mem)
  have "(x \<in> set (listDueWorkDeliveries (wi_org_id item) (iso_string u) (snd (delivery_ops_run sha fresh item ops s1)))
        \<longleftrightarrow> t + 60000 \<le> u)
      \<and> (fst (flushOne channel (iso_string u) item x False (snd (delivery_ops_run sha fresh item ops s1))) \<noteq> Inr False
        \<longleftrightarrow> t + 60000 \<le> u)" if "\<bar>u\<bar> \<le> max_time" for u
  proof (cases "t + 60000 \<le> u")
    case True
    with being_sent_due[OF x(2) assms(4) that] stored flush_calls_when_due[of x] x(2) show ?thesis
      by (simp add: listDueWorkDeliveries_def being_sent_def)
  next
    case False
    with being_sent_due[OF x(2) assms(4) that] show ?thesis by (simp add: listDueWorkDeliveries_def flush_not_due)
  qed
  with run x(1) show ?thesis by blast
qed

definition sample_receipt :: delivery_receipt where
  "sample_receipt = \<lparr>dr_accepted = True, dr_rpc_id = None, dr_channel_message_ids = None\<rparr>"

text \<open>A flush at 0 claims the delivery; a receipt, a second flush at 30 s and the timeout at 45 s leave the
  send alone; the row is due again at 60 s and not before.\<close>

theorem send_window_is_exclusive_witness:
  "\<exists>c s1 x. flush_start (iso_string 0) (sample_item ''a'') sample_delivery False sample_delivering = (Inr (Some c), s1)
     \<and> (let run = delivery_ops_run (\<lambda>x. x) ''id'' (sample_item ''a'')
          [DoReceipt sample_receipt ''t'', DoFlush 30000 failing_call, DoTimeout ''t''] s1
        in fst run = 0 \<and> getWorkDeliveryByItem ''o'' ''a'' (snd run) = Some x
          \<and> x \<notin> set (listDueWorkDeliveries ''o'' (iso_string 59999) (snd run))
          \<and> fst (flushOne (\<lambda>_. failing_call) (iso_string 60000) (sample_item ''a'') x False (snd run)) \<noteq> Inr False)"
proof -
  let ?item = "sample_item ''a''"
  let ?ops = "[DoReceipt sample_receipt ''t'', DoFlush 30000 failing_call, DoTimeout ''t'']"
  have t: "\<bar>0::int\<bar> \<le> max_time" "\<bar>0 + 60000::int\<bar> \<le> max_time" "\<bar>59999::int\<bar> \<le> max_time"
    by (simp_all add: max_time_def)
  obtain c s1 where start: "flush_start (iso_string 0) ?item sample_delivery False sample_delivering = (Inr (Some c), s1)"
    using claim_send[OF t(1,2), of sample_delivery]
    by (simp add: flush_start_def reclaimDeliveryLease_def isDeliveryLeaseExpired_def shouldFlushDelivery_def sample_delivery_def)
  note c = flush_start_claims[OF t(1,2) start]
  have key: "deliveryPayloadKey (\<lambda>x. x) c = Some ''key''"
    by (simp add: c(2) deliveryPayloadKey_def reclaimDeliveryLease_def deliveryAbandoned_def sample_delivery_def)
  have ops: "list_all (\<lambda>op. same_result (\<lambda>x. x) ''key'' ?item op
      \<and> (case op of DoFlush u _ \<Rightarrow> \<bar>u\<bar> \<le> max_time \<and> u < 0 + 60000 | _ \<Rightarrow> True)) ?ops"
    by (simp add: same_result_def max_time_def)
  let ?run = "delivery_ops_run (\<lambda>x. x) ''id'' ?item ?ops s1"
  from send_window_is_exclusive[OF sample_delivering_ok t(1,2) start key ops, where channel = "\<lambda>_. failing_call" and fresh = "''id''"]
  obtain x where x: "fst ?run = 0" "getWorkDeliveryByItem (wi_org_id ?item) (wi_id ?item) (snd ?run) = Some x"
    "\<forall>u. \<bar>u\<bar> \<le> max_time \<longrightarrow>
       (x \<in> set (listDueWorkDeliveries (wi_org_id ?item) (iso_string u) (snd ?run)) \<longleftrightarrow> 0 + 60000 \<le> u)
       \<and> (fst (flushOne (\<lambda>_. failing_call) (iso_string u) ?item x False (snd ?run)) \<noteq> Inr False \<longleftrightarrow> 0 + 60000 \<le> u)"
    by blast
  have ident: "wi_org_id ?item = ''o''" "wi_id ?item = ''a''" by (simp_all add: sample_item_def)
  have "x \<notin> set (listDueWorkDeliveries ''o'' (iso_string 59999) (snd ?run))"
    "fst (flushOne (\<lambda>_. failing_call) (iso_string 60000) ?item x False (snd ?run)) \<noteq> Inr False"
    using x(3)[rule_format, of 59999] x(3)[rule_format, of 60000] t unfolding ident by simp_all
  with start x(1,2) show ?thesis unfolding Let_def ident by blast
qed

end
