(* ===== verification/RecipeMatch.thy ===== *)
theory RecipeMatch
  imports WorkTypes
begin

section \<open>Which recipe takes a message\<close>

text \<open>
  \<open>packages/domain/src/recipe-match.ts\<close>: the specificity of a match, which recipe takes a subject,
  and which recipe would always be preempted by another one.
\<close>

record recipe_subject =
  sj_record_class :: record_class
  sj_thread_facet :: thread_facet
  sj_source :: string
  sj_thread_id :: string
  sj_unit_kind :: "string option"
  sj_body_text :: "string option"

definition weight_if :: "int \<Rightarrow> bool \<Rightarrow> int" where
  "weight_if w b = (if b then w else 0)"

definition recipeSpecificity :: "recipe_match \<Rightarrow> int" where
  "recipeSpecificity m =
     weight_if 16 (truthy (rm_thread_id m)) + weight_if 8 (truthy (rm_unit_kind m))
     + weight_if 4 (truthy (rm_source m)) + weight_if 2 (rm_record_class m \<noteq> None)
     + weight_if 1 (rm_thread_facet m \<noteq> None)"

definition recipeTextMatches :: "recipe_match \<Rightarrow> string option \<Rightarrow> bool" where
  "recipeTextMatches m text =
     (if \<not> truthy (rm_text_contains m) \<and> \<not> truthy (rm_text_excludes m) then True
      else case text of None \<Rightarrow> False
        | Some t \<Rightarrow>
            (\<not> truthy (rm_text_contains m) \<or> js_includes (to_lower (or_else (rm_text_contains m) [])) (to_lower t))
          \<and> (\<not> truthy (rm_text_excludes m) \<or> \<not> js_includes (to_lower (or_else (rm_text_excludes m) [])) (to_lower t)))"

definition recipeMatches :: "recipe_match \<Rightarrow> recipe_subject \<Rightarrow> trigger_kind \<Rightarrow> bool" where
  "recipeMatches m s kind =
     (if recipeSpecificity m = 0 then False
      else if truthy (rm_thread_id m) \<and> rm_thread_id m \<noteq> Some (sj_thread_id s) then False
      else if truthy (rm_unit_kind m) \<and> rm_unit_kind m \<noteq> sj_unit_kind s then False
      else if truthy (rm_source m) \<and> rm_source m \<noteq> Some (sj_source s) then False
      else if rm_record_class m \<noteq> None \<and> rm_record_class m \<noteq> Some (sj_record_class s) then False
      else if rm_thread_facet m \<noteq> None \<and> rm_thread_facet m \<noteq> Some (sj_thread_facet s) then False
      else kind \<noteq> TriggerPush \<or> recipeTextMatches m (sj_body_text s))"

text \<open>\<open>a \<and> b \<and> a !== b\<close> on two optional strings.\<close>

definition both_differ :: "string option \<Rightarrow> string option \<Rightarrow> bool" where
  "both_differ a b \<longleftrightarrow> truthy a \<and> truthy b \<and> a \<noteq> b"

text \<open>\<open>a.text_contains\<close> includes \<open>b.text_excludes\<close>, letter case aside.\<close>

definition contradicts :: "recipe_match \<Rightarrow> recipe_match \<Rightarrow> bool" where
  "contradicts a b \<longleftrightarrow> truthy (rm_text_contains a) \<and> truthy (rm_text_excludes b)
     \<and> js_includes (to_lower (or_else (rm_text_excludes b) [])) (to_lower (or_else (rm_text_contains a) []))"

definition recipesCanShareSubject :: "recipe_match \<Rightarrow> recipe_match \<Rightarrow> trigger_kind \<Rightarrow> trigger_kind \<Rightarrow> bool" where
  "recipesCanShareSubject l r lk rk =
     (if lk = TriggerPush \<and> rk = TriggerPush \<and> (contradicts l r \<or> contradicts r l) then False
      else if both_differ (rm_thread_id l) (rm_thread_id r) then False
      else if both_differ (rm_unit_kind l) (rm_unit_kind r) then False
      else if both_differ (rm_source l) (rm_source r) then False
      else if rm_record_class l \<noteq> None \<and> rm_record_class r \<noteq> None \<and> rm_record_class l \<noteq> rm_record_class r then False
      else if rm_thread_facet l \<noteq> None \<and> rm_thread_facet r \<noteq> None \<and> rm_thread_facet l \<noteq> rm_thread_facet r then False
      else True)"

definition recipeRanksBefore :: "recipe \<Rightarrow> recipe \<Rightarrow> bool" where
  "recipeRanksBefore l r =
     (let bySpec = recipeSpecificity (re_match l) - recipeSpecificity (re_match r)
      in if bySpec \<noteq> 0 then 0 < bySpec else re_id l < re_id r)"

definition recipePreemptedBy :: "recipe \<Rightarrow> recipe list \<Rightarrow> recipe option" where
  "recipePreemptedBy r recipes =
     (if \<not> re_enabled r then None
      else List.find (\<lambda>x. re_id x \<noteq> re_id r \<and> re_enabled x
         \<and> recipesCanShareSubject (re_match r) (re_match x) (tg_kind (re_trigger r)) (tg_kind (re_trigger x))
         \<and> recipeRanksBefore x r) recipes)"

text \<open>The order of the candidates: the more specific first, then the smaller id.\<close>

definition compare_recipes :: "recipe \<Rightarrow> recipe \<Rightarrow> int" where
  "compare_recipes l r =
     (let bySpec = recipeSpecificity (re_match r) - recipeSpecificity (re_match l)
      in if bySpec \<noteq> 0 then bySpec else if re_id l < re_id r then -1 else 1)"

definition recipe_hit :: "recipe_subject \<Rightarrow> recipe \<Rightarrow> bool" where
  "recipe_hit s r \<longleftrightarrow> re_enabled r \<and> recipeMatches (re_match r) s (tg_kind (re_trigger r))"

definition matchRecipe :: "recipe list \<Rightarrow> recipe_subject \<Rightarrow> recipe option" where
  "matchRecipe recipes s =
     (case js_sort compare_recipes (List.filter (recipe_hit s) recipes) of [] \<Rightarrow> None | r # _ \<Rightarrow> Some r)"

subsection \<open>The recipe that takes a message\<close>

text \<open>
  \<open>compare_recipes\<close> never answers 0, so it is no comparator; on recipes with distinct ids it agrees with
  the total order \<open>recipeRanksBefore\<close>, which is what the sort needs.
\<close>

lemma compare_recipes_less:
  "re_id l \<noteq> re_id r \<Longrightarrow> compare_recipes l r < 0 \<longleftrightarrow> recipeRanksBefore l r"
  by (auto simp: compare_recipes_def recipeRanksBefore_def Let_def)

lemma ranks_before_trans: "recipeRanksBefore a b \<Longrightarrow> recipeRanksBefore b c \<Longrightarrow> recipeRanksBefore a c"
  by (auto simp: recipeRanksBefore_def Let_def split: if_splits)

lemma ranks_before_total: "re_id a \<noteq> re_id b \<Longrightarrow> recipeRanksBefore a b \<or> recipeRanksBefore b a"
  by (auto simp: recipeRanksBefore_def Let_def)

lemma match_best:
  assumes "distinct (List.map re_id recipes)" and "matchRecipe recipes s = Some r"
  shows "r \<in> set recipes" and "recipe_hit s r"
    and "x \<in> set recipes \<Longrightarrow> recipe_hit s x \<Longrightarrow> x \<noteq> r \<Longrightarrow> recipeRanksBefore r x"
proof -
  let ?hits = "List.filter (recipe_hit s) recipes"
  from assms(2) obtain rest where sort: "js_sort compare_recipes ?hits = r # rest"
    by (auto simp: matchRecipe_def split: list.splits)
  then have r: "r \<in> set ?hits" by (metis list.set_intros(1) set_js_sort)
  then show "r \<in> set recipes" "recipe_hit s r" by simp_all
  have inj: "re_id a \<noteq> re_id b" if "a \<in> set ?hits" "b \<in> set ?hits" "a \<noteq> b" for a b
    using assms(1) that by (auto simp: distinct_map inj_on_def)
  have "sorted_wrt recipeRanksBefore (js_sort compare_recipes ?hits)"
  proof (rule js_sort_by_order)
    fix a b assume "a \<in> set ?hits" "b \<in> set ?hits" "a \<noteq> b"
    note id = inj[OF this]
    show "compare_recipes a b < 0 \<longleftrightarrow> recipeRanksBefore a b" by (rule compare_recipes_less[OF id])
    show "recipeRanksBefore a b \<or> recipeRanksBefore b a" by (rule ranks_before_total[OF id])
  next
    show "distinct ?hits" using assms(1) by (simp add: distinct_map)
  qed (rule ranks_before_trans)
  with sort have best: "\<forall>x \<in> set rest. recipeRanksBefore r x" by simp
  show "recipeRanksBefore r x" if "x \<in> set recipes" "recipe_hit s x" "x \<noteq> r"
  proof -
    from that have "x \<in> set (r # rest)" using sort set_js_sort[of compare_recipes ?hits] by auto
    with that(3) best show ?thesis by auto
  qed
qed

subsection \<open>Preemption is complete\<close>

lemma js_includes_trans:
  assumes "js_includes a b" and "js_includes b c"
  shows "js_includes a c"
proof -
  from assms obtain l r l' r' where "b = l @ a @ r" "c = l' @ b @ r'" by (auto simp: js_includes_iff)
  then have "c = (l' @ l) @ a @ (r @ r')" by simp
  then show ?thesis unfolding js_includes_iff by blast
qed

lemma text_contradiction:
  assumes "recipeTextMatches a t" and "recipeTextMatches b t"
  shows "\<not> contradicts a b"
proof
  assume c: "contradicts a b"
  then have some: "truthy (rm_text_contains a)" "truthy (rm_text_excludes b)" by (simp_all add: contradicts_def)
  with assms obtain u where "t = Some u" by (auto simp: recipeTextMatches_def split: option.splits)
  with assms some have "js_includes (to_lower (or_else (rm_text_contains a) [])) (to_lower u)"
    and "\<not> js_includes (to_lower (or_else (rm_text_excludes b) [])) (to_lower u)"
    by (simp_all add: recipeTextMatches_def)
  moreover have "js_includes (to_lower (or_else (rm_text_excludes b) [])) (to_lower (or_else (rm_text_contains a) []))"
    using c by (simp add: contradicts_def)
  ultimately show False using js_includes_trans by blast
qed

lemma recipeMatchesD:
  assumes "recipeMatches m s kind"
  shows "truthy (rm_thread_id m) \<Longrightarrow> rm_thread_id m = Some (sj_thread_id s)"
    and "truthy (rm_unit_kind m) \<Longrightarrow> rm_unit_kind m = sj_unit_kind s"
    and "truthy (rm_source m) \<Longrightarrow> rm_source m = Some (sj_source s)"
    and "rm_record_class m \<noteq> None \<Longrightarrow> rm_record_class m = Some (sj_record_class s)"
    and "rm_thread_facet m \<noteq> None \<Longrightarrow> rm_thread_facet m = Some (sj_thread_facet s)"
    and "kind = TriggerPush \<Longrightarrow> recipeTextMatches m (sj_body_text s)"
  using assms by (simp_all add: recipeMatches_def split: if_splits)

lemma matches_share:
  assumes l: "recipeMatches l s lk" and r: "recipeMatches r s rk"
  shows "recipesCanShareSubject l r lk rk"
proof -
  have "\<not> (lk = TriggerPush \<and> rk = TriggerPush \<and> (contradicts l r \<or> contradicts r l))"
    using text_contradiction recipeMatchesD(6)[OF l] recipeMatchesD(6)[OF r] by blast
  moreover have "\<not> both_differ (rm_thread_id l) (rm_thread_id r)" "\<not> both_differ (rm_unit_kind l) (rm_unit_kind r)"
    "\<not> both_differ (rm_source l) (rm_source r)"
    unfolding both_differ_def using recipeMatchesD(1-3)[OF l] recipeMatchesD(1-3)[OF r] by metis+
  moreover have "\<not> (rm_record_class l \<noteq> None \<and> rm_record_class r \<noteq> None \<and> rm_record_class l \<noteq> rm_record_class r)"
    "\<not> (rm_thread_facet l \<noteq> None \<and> rm_thread_facet r \<noteq> None \<and> rm_thread_facet l \<noteq> rm_thread_facet r)"
    using recipeMatchesD(4,5)[OF l] recipeMatchesD(4,5)[OF r] by metis+
  ultimately show ?thesis unfolding recipesCanShareSubject_def by simp
qed

text \<open>C32. A message goes to the best recipe, and losing recipes are reported: the recipe that takes a
  subject ranks before every other enabled recipe that matches it, and for each of those the
  preemption check names some recipe.\<close>

theorem preemption_is_complete:
  assumes "distinct (List.map re_id recipes)" and "matchRecipe recipes s = Some r"
    and "x \<in> set recipes" and "re_enabled x" and "recipeMatches (re_match x) s (tg_kind (re_trigger x))" and "x \<noteq> r"
  shows "recipeRanksBefore r x \<and> recipePreemptedBy x recipes \<noteq> None"
proof -
  note best = match_best[OF assms(1,2)]
  have x: "recipe_hit s x" using assms(4,5) by (simp add: recipe_hit_def)
  have before: "recipeRanksBefore r x" by (rule best(3)[OF assms(3) x assms(6)])
  have "re_id r \<noteq> re_id x" using assms(1,3,6) best(1) by (auto simp: distinct_map inj_on_def)
  moreover have "recipesCanShareSubject (re_match x) (re_match r) (tg_kind (re_trigger x)) (tg_kind (re_trigger r))"
    using matches_share[OF assms(5)] best(2) by (simp add: recipe_hit_def)
  moreover have "re_enabled r" using best(2) by (simp add: recipe_hit_def)
  ultimately have "\<exists>y \<in> set recipes. re_id y \<noteq> re_id x \<and> re_enabled y
      \<and> recipesCanShareSubject (re_match x) (re_match y) (tg_kind (re_trigger x)) (tg_kind (re_trigger y))
      \<and> recipeRanksBefore y x"
    using before best(1) by blast
  then show ?thesis using before assms(4) by (auto simp: recipePreemptedBy_def find_None_iff)
qed

definition sample_hit :: recipe_match where
  "sample_hit = \<lparr>rm_record_class = Some ClassTask, rm_thread_facet = None, rm_source = Some ''feishu'', rm_thread_id = None,
     rm_unit_kind = None, rm_text_contains = None, rm_text_excludes = None\<rparr>"

definition sample_recipe_at :: "string \<Rightarrow> recipe_match \<Rightarrow> recipe" where
  "sample_recipe_at i m = \<lparr>re_id = i, re_org_id = ''o'', re_name = ''n'', re_match = m,
     re_trigger = \<lparr>tg_kind = TriggerPush, tg_interval_ms = None, tg_at_minute = None, tg_weekdays = None,
       tg_timezone = None, tg_coalesce = None\<rparr>,
     re_executor_type = ''x'', re_executor_config = [], re_can_write_back = False, re_write_back_thread_id = None,
     re_include_context = False, re_max_concurrent = None, re_enabled = True, re_next_run_at = None,
     re_created_at = ''c'', re_updated_at = ''u''\<rparr>"

definition sample_subject :: recipe_subject where
  "sample_subject = \<lparr>sj_record_class = ClassTask, sj_thread_facet = FacetTicket, sj_source = ''feishu'',
     sj_thread_id = ''t'', sj_unit_kind = None, sj_body_text = Some ''Pay the bill''\<rparr>"

definition sample_recipes :: "recipe list" where
  "sample_recipes = [sample_recipe_at ''b'' sample_hit, sample_recipe_at ''a'' sample_hit]"

lemmas sample_defs = sample_hit_def sample_recipe_at_def sample_subject_def sample_recipes_def

theorem preemption_is_complete_witness:
  "recipeRanksBefore (sample_recipe_at ''a'' sample_hit) (sample_recipe_at ''b'' sample_hit)
   \<and> recipePreemptedBy (sample_recipe_at ''b'' sample_hit) sample_recipes \<noteq> None"
  by (rule preemption_is_complete[where s = sample_subject])
    (simp_all add: sample_defs matchRecipe_def recipe_hit_def recipeMatches_def recipeSpecificity_def weight_if_def
      js_sort_def compare_recipes_def recipeTextMatches_def Let_def)

end
