(* ===== verification/JsNumber.thy ===== *)
theory JsNumber
  imports JsDate
begin

section \<open>Numbers and lists in text\<close>

text \<open>
  \<open>Number(s)\<close> and \<open>Number.isInteger\<close>, \<open>split\<close> and \<open>join\<close> on one separator character, and the round trips
  between a number or a list and its text that the stored forms of schedules and digests rely on.
\<close>

subsection \<open>Numbers read from text\<close>

text \<open>\<open>Number.isInteger\<close>, and the value.\<close>

fun js_integer :: "js_num \<Rightarrow> int option" where
  "js_integer (Num q) = (if of_int \<lfloor>q\<rfloor> = q then Some \<lfloor>q\<rfloor> else None)"
| "js_integer _ = None"

lemma js_integer_int_num [simp]: "js_integer (int_num n) = Some n"
  by (simp add: int_num_def)

lemma js_integer_eq_Some: "js_integer x = Some n \<longleftrightarrow> x = int_num n"
  by (cases x) (auto simp: int_num_def)

text \<open>\<open>Number(s)\<close>: a decimal literal with an optional sign, fraction and exponent, or \<open>Infinity\<close>;
  the empty string is 0. (The prefixed literals \<open>0x\<close>, \<open>0o\<close> and \<open>0b\<close> are not read.)\<close>

definition digits_of :: "string \<Rightarrow> nat option" where
  "digits_of s = (if s = [] then None else read_decimal 0 s)"

definition split_at :: "char set \<Rightarrow> string \<Rightarrow> string \<times> string option" where
  "split_at cs s = (takeWhile (\<lambda>c. c \<notin> cs) s, case dropWhile (\<lambda>c. c \<notin> cs) s of [] \<Rightarrow> None | _ # r \<Rightarrow> Some r)"

definition mantissa_of :: "string \<Rightarrow> rat option" where
  "mantissa_of s =
     (case split_at {CHR ''.''} s of
        (a, None) \<Rightarrow> map_option of_nat (digits_of a)
      | (a, Some f) \<Rightarrow> map_option (\<lambda>n. of_nat n / 10 ^ length f) (digits_of (a @ f)))"

definition exponent_of :: "string \<Rightarrow> rat option" where
  "exponent_of s =
     (if s = [] then None
      else if hd s = CHR ''-'' then map_option (\<lambda>n. 1 / 10 ^ n) (digits_of (tl s))
      else map_option (\<lambda>n. 10 ^ n) (digits_of (if hd s = CHR ''+'' then tl s else s)))"

definition unsigned_number :: "string \<Rightarrow> rat option" where
  "unsigned_number s =
     (case split_at {CHR ''e'', CHR ''E''} s of
        (m, None) \<Rightarrow> mantissa_of m
      | (m, Some e) \<Rightarrow> (case (mantissa_of m, exponent_of e) of (Some x, Some y) \<Rightarrow> Some (x * y) | _ \<Rightarrow> None))"

definition js_number :: "string \<Rightarrow> js_num" where
  "js_number s =
     (let t = js_trim s; num = (\<lambda>g r. case unsigned_number r of None \<Rightarrow> NaN | Some x \<Rightarrow> Num (g * x))
      in if t = [] then Num 0
         else if t = ''Infinity'' \<or> t = ''+Infinity'' then PosInf
         else if t = ''-Infinity'' then NegInf
         else if hd t = CHR ''-'' then num (-1) (tl t)
         else if hd t = CHR ''+'' then num 1 (tl t)
         else num 1 t)"

text \<open>\<open>s.split(x)\<close> and \<open>xs.join(x)\<close> on a separator of one character.\<close>

fun js_split :: "char \<Rightarrow> string \<Rightarrow> string list" where
  "js_split x [] = [[]]"
| "js_split x (c # s) =
     (if c = x then [] # js_split x s
      else case js_split x s of [] \<Rightarrow> [[c]] | p # ps \<Rightarrow> (c # p) # ps)"

fun js_join :: "char \<Rightarrow> string list \<Rightarrow> string" where
  "js_join x [] = []"
| "js_join x [s] = s"
| "js_join x (s # t # ss) = s @ x # js_join x (t # ss)"

lemma js_split_plain: "x \<notin> set s \<Longrightarrow> js_split x s = [s]"
  by (induction s) auto

lemma js_split_append: "x \<notin> set s \<Longrightarrow> js_split x (s @ x # u) = s # js_split x u"
  by (induction s) auto

lemma split_join:
  "ss \<noteq> [] \<Longrightarrow> \<forall>s \<in> set ss. x \<notin> set s \<Longrightarrow> js_split x (js_join x ss) = ss"
  by (induction x ss rule: js_join.induct) (simp_all add: js_split_plain js_split_append)

subsection \<open>Text without white space\<close>

definition no_space :: "string \<Rightarrow> bool" where
  "no_space s \<longleftrightarrow> (\<forall>c \<in> set s. \<not> js_space c)"

lemma no_space_simps [simp]:
  "no_space []" "no_space (c # s) \<longleftrightarrow> \<not> js_space c \<and> no_space s" "no_space (s @ t) \<longleftrightarrow> no_space s \<and> no_space t"
  by (auto simp: no_space_def)

lemma js_trim_no_space: "no_space s \<Longrightarrow> js_trim s = s"
proof -
  have id: "no_space t \<Longrightarrow> dropWhile js_space t = t" for t by (cases t) auto
  show "no_space s \<Longrightarrow> js_trim s = s" by (simp add: js_trim_def id no_space_def)
qed

lemma squash_no_space: "no_space s \<Longrightarrow> squash_spaces s = s"
  by (induction s) auto

subsection \<open>The digits of a number\<close>

lemma digit_string_read: "read_decimal 0 (digit_string n) = Some n"
proof -
  have val: "d < 10 \<Longrightarrow> digit_value (char_of (48 + d)) = Some d" for d :: nat
    using digit_value_digit[of d] by (simp add: digit_def)
  have "\<forall>d \<in> set ds. d < 10 \<Longrightarrow> read_decimal acc (List.map (\<lambda>d. char_of (48 + d)) ds) = Some (foldl (\<lambda>a d. 10 * a + d) acc ds)"
    for ds acc by (induction ds arbitrary: acc) (simp_all add: val)
  from this[OF nat_digits_bound, of 0 n] show ?thesis by (simp add: digit_string_def nat_digits_value)
qed

lemma digit_string_no:
  assumes "digit_value c = None" shows "c \<notin> set (digit_string n)"
proof
  assume c: "c \<in> set (digit_string n)"
  from digit_string_chars[OF c] assms show False by (simp add: digit_value_def Let_def split: if_splits)
qed

lemma digit_string_no_space: "no_space (digit_string n)"
proof -
  have "\<not> js_space c" if "c \<in> set (digit_string n)" for c
    using digit_string_chars[OF that] by (auto simp: js_space_def)
  then show ?thesis by (simp add: no_space_def)
qed

lemma split_at_none: "\<forall>c \<in> cs. c \<notin> set s \<Longrightarrow> split_at cs s = (s, None)"
proof -
  assume "\<forall>c \<in> cs. c \<notin> set s"
  then have "\<forall>c \<in> set s. c \<notin> cs" by blast
  then have "takeWhile (\<lambda>c. c \<notin> cs) s = s" "dropWhile (\<lambda>c. c \<notin> cs) s = []"
    by (simp_all only: takeWhile_eq_all_conv dropWhile_eq_Nil_conv)
  then show ?thesis by (simp only: split_at_def list.case)
qed

lemma js_number_digits: "js_number (digit_string n) = int_num (int n)"
proof -
  let ?s = "digit_string n"
  have no: "CHR ''e'' \<notin> set ?s" "CHR ''E'' \<notin> set ?s" "CHR ''.'' \<notin> set ?s" "CHR ''-'' \<notin> set ?s"
    "CHR ''+'' \<notin> set ?s" "CHR ''I'' \<notin> set ?s"
    by (rule digit_string_no, simp add: digit_value_def)+
  have "split_at {CHR ''e'', CHR ''E''} ?s = (?s, None)" "split_at {CHR ''.''} ?s = (?s, None)"
    using no by (auto intro!: split_at_none)
  then have un: "unsigned_number ?s = Some (of_nat n)"
    using digit_string_neq_Nil[of n]
    by (simp add: unsigned_number_def mantissa_of_def digits_of_def digit_string_read)
  have hd: "hd ?s \<in> set ?s" using digit_string_neq_Nil by simp
  then have "hd ?s \<noteq> CHR ''-''" "hd ?s \<noteq> CHR ''+''" using no by metis+
  moreover have "?s \<noteq> ''Infinity''" "?s \<noteq> ''+Infinity''" "?s \<noteq> ''-Infinity''" using no by auto
  ultimately show ?thesis
    unfolding js_number_def js_trim_no_space[OF digit_string_no_space] Let_def
    by (simp add: un digit_string_neq_Nil int_num_def)
qed

lemma js_number_int_string: "0 \<le> n \<Longrightarrow> js_number (int_string n) = int_num n"
  using js_number_digits[of "nat n"] by (simp add: int_string_def)

lemma int_string_no: "digit_value c = None \<Longrightarrow> c \<noteq> CHR ''-'' \<Longrightarrow> c \<notin> set (int_string n)"
  using digit_string_no by (simp add: int_string_def)

lemma int_string_neq_Nil [simp]: "int_string n \<noteq> []"
  by (simp add: int_string_def digit_string_neq_Nil)

end
