(* ===== verification/PullClock.thy ===== *)
theory PullClock
  imports WorkTypes JsNumber
begin

section \<open>When a timed recipe fires\<close>

text \<open>
  \<open>packages/domain/src/pull-clock.ts\<close>: the validation of a schedule, the columns it is stored in, and
  the search for the next wall-clock time in a time zone. The time zone data of the host
  (\<open>Intl.DateTimeFormat\<close>) is the parameter \<open>z\<close>: which names it knows, and the fields it formats
  an instant to. A calendar date is \<^term>\<open>None\<close> when its fields are \<open>NaN\<close>.
\<close>

type_synonym calendar_date = "(int \<times> int \<times> int) option"

record zoned_parts =
  zp_date :: calendar_date
  zp_hour :: int
  zp_minute :: int
  zp_second :: int

record zone_data =
  iz_known :: "string \<Rightarrow> bool"
  iz_parts :: "string \<Rightarrow> int \<Rightarrow> zoned_parts"

subsection \<open>The schedule of a trigger\<close>

definition isPullIntervalMs :: "js_num option \<Rightarrow> bool" where
  "isPullIntervalMs value =
     (case value of None \<Rightarrow> False
      | Some x \<Rightarrow> (case js_integer x of None \<Rightarrow> False
          | Some n \<Rightarrow> PULL_INTERVAL_MIN_MS \<le> n \<and> n \<le> PULL_INTERVAL_MAX_MS \<and> n mod PULL_INTERVAL_MIN_MS = 0))"

definition isAtMinute :: "js_num option \<Rightarrow> bool" where
  "isAtMinute value =
     (case value of None \<Rightarrow> False
      | Some x \<Rightarrow> (case js_integer x of None \<Rightarrow> False | Some n \<Rightarrow> 0 \<le> n \<and> n \<le> 1439))"

definition isTimeZone :: "zone_data \<Rightarrow> string option \<Rightarrow> bool" where
  "isTimeZone z value =
     (case value of None \<Rightarrow> False
      | Some v \<Rightarrow> let zone = js_trim v in if zone = [] \<or> 100 < length zone then False else iz_known z zone)"

definition weekday_of :: "js_num \<Rightarrow> int option" where
  "weekday_of day =
     (case js_integer day of None \<Rightarrow> None | Some n \<Rightarrow> if 1 \<le> n \<and> n \<le> 7 then Some n else None)"

definition normalizeWeekdays :: "js_num list option \<Rightarrow> int list option" where
  "normalizeWeekdays value =
     (case value of None \<Rightarrow> None
      | Some xs \<Rightarrow> let days = js_sort (\<lambda>l r. l - r) (js_unique (List.map_filter weekday_of xs))
                   in if days = [] then None else Some days)"

record pull_clock =
  pc_at_minute :: int
  pc_timezone :: string
  pc_weekdays :: "int list option"

definition readPullClock ::
  "zone_data \<Rightarrow> js_num option \<Rightarrow> string option \<Rightarrow> js_num list option \<Rightarrow> pull_clock option" where
  "readPullClock z at_minute timezone weekdays =
     (if \<not> isAtMinute at_minute \<or> \<not> isTimeZone z timezone then None
      else case (at_minute, timezone) of
          (Some a, Some tz) \<Rightarrow> Some \<lparr>pc_at_minute = or_else (js_integer a) 0, pc_timezone = js_trim tz,
                                pc_weekdays = normalizeWeekdays weekdays\<rparr>
        | _ \<Rightarrow> None)"

definition trigger_clock :: "zone_data \<Rightarrow> recipe_trigger \<Rightarrow> pull_clock option" where
  "trigger_clock z t = readPullClock z (tg_at_minute t) (tg_timezone t) (tg_weekdays t)"

record schedule_row =
  sr_interval_ms :: "js_num option"
  sr_at_minute :: "js_num option"
  sr_weekdays :: "string option"
  sr_timezone :: "string option"

definition pullScheduleColumns :: "zone_data \<Rightarrow> recipe_trigger \<Rightarrow> schedule_row" where
  "pullScheduleColumns z t =
     (if tg_kind t \<noteq> TriggerPull
      then \<lparr>sr_interval_ms = None, sr_at_minute = None, sr_weekdays = None, sr_timezone = None\<rparr>
      else let clock = trigger_clock z t in
        \<lparr>sr_interval_ms = (if isPullIntervalMs (tg_interval_ms t) then tg_interval_ms t else None),
         sr_at_minute = map_option (\<lambda>c. int_num (pc_at_minute c)) clock,
         sr_weekdays = (case clock of None \<Rightarrow> None | Some c \<Rightarrow>
            (case pc_weekdays c of None \<Rightarrow> None
             | Some ds \<Rightarrow> if ds = [] then None else Some (js_join (CHR '','') (List.map int_string ds)))),
         sr_timezone = map_option pc_timezone clock\<rparr>)"

definition parseWeekdayColumn :: "string option \<Rightarrow> js_num list option" where
  "parseWeekdayColumn value =
     (if \<not> truthy value then None else Some (List.map js_number (js_split (CHR '','') (or_else value []))))"

text \<open>The fields a row gives back to its trigger.\<close>

record pull_schedule =
  ps_interval_ms :: "js_num option"
  ps_at_minute :: "int option"
  ps_timezone :: "string option"
  ps_weekdays :: "int list option"

definition pullScheduleFromColumns :: "zone_data \<Rightarrow> schedule_row \<Rightarrow> pull_schedule" where
  "pullScheduleFromColumns z row =
     (let interval_ms = if isPullIntervalMs (sr_interval_ms row) then sr_interval_ms row else None;
          clock = readPullClock z (sr_at_minute row) (sr_timezone row) (parseWeekdayColumn (sr_weekdays row))
      in \<lparr>ps_interval_ms = interval_ms, ps_at_minute = map_option pc_at_minute clock,
          ps_timezone = map_option pc_timezone clock,
          ps_weekdays = (case clock of None \<Rightarrow> None | Some c \<Rightarrow> pc_weekdays c)\<rparr>)"

subsection \<open>Calendar and time zone\<close>

text \<open>\<open>Date.UTC\<close>: the month counts from 0, a year from 0 to 99 means 19xx, and an out-of-range time is
  \<open>NaN\<close>.\<close>

definition date_utc :: "int \<Rightarrow> int \<Rightarrow> int \<Rightarrow> int \<Rightarrow> int \<Rightarrow> int \<Rightarrow> int option" where
  "date_utc year month day hour minute second =
     (let y = if 0 \<le> year \<and> year \<le> 99 then 1900 + year else year;
          t = make_day y month day * ms_per_day + ((hour * 60 + minute) * 60 + second) * 1000
      in if \<bar>t\<bar> \<le> max_time then Some t else None)"

definition date_of :: "int \<Rightarrow> int \<times> int \<times> int" where
  "date_of t = (case civil_from_day (t div ms_per_day) of (y, m, d) \<Rightarrow> (y, m + 1, d))"

definition addCalendarDays :: "calendar_date \<Rightarrow> int \<Rightarrow> calendar_date" where
  "addCalendarDays date days =
     (case date of None \<Rightarrow> None
      | Some (year, month, day) \<Rightarrow> map_option date_of (date_utc year (month - 1) (day + days) 0 0 0))"

definition calendarWeekday :: "calendar_date \<Rightarrow> int option" where
  "calendarWeekday date =
     (case date of None \<Rightarrow> None
      | Some (year, month, day) \<Rightarrow>
          map_option (\<lambda>t. let sun0 = (t div ms_per_day + 4) mod 7 in if sun0 = 0 then 7 else sun0)
            (date_utc year (month - 1) day 0 0 0))"

definition zonedParts :: "zone_data \<Rightarrow> int \<Rightarrow> string \<Rightarrow> js_error + zoned_parts" where
  "zonedParts z utcMs timeZone =
     (if \<not> iz_known z timeZone \<or> max_time < \<bar>utcMs\<bar> then Inl RangeError
      else let bag = iz_parts z timeZone utcMs
        in Inr (if zp_hour bag = 24 then bag\<lparr>zp_hour := 0, zp_date := addCalendarDays (zp_date bag) 1\<rparr> else bag))"

text \<open>A \<open>NaN\<close> offset makes the next \<open>zonedParts\<close> of the caller throw its \<open>RangeError\<close>.\<close>

definition tzOffsetMs :: "zone_data \<Rightarrow> int \<Rightarrow> string \<Rightarrow> js_error + int" where
  "tzOffsetMs z utcMs timeZone =
     (case zonedParts z utcMs timeZone of Inl e \<Rightarrow> Inl e
      | Inr parts \<Rightarrow> (case zp_date parts of None \<Rightarrow> Inl RangeError
          | Some (year, month, day) \<Rightarrow>
              (case date_utc year (month - 1) day (zp_hour parts) (zp_minute parts) (zp_second parts) of
                 None \<Rightarrow> Inl RangeError | Some asUtc \<Rightarrow> Inr (asUtc - utcMs))))"

definition zonedTimeToUtc :: "zone_data \<Rightarrow> calendar_date \<Rightarrow> int \<Rightarrow> int \<Rightarrow> string \<Rightarrow> js_error + int option" where
  "zonedTimeToUtc z date hour minute timeZone =
     (case date of None \<Rightarrow> Inl RangeError
      | Some (year, month, day) \<Rightarrow>
         (case date_utc year (month - 1) day hour minute 0 of None \<Rightarrow> Inl RangeError
          | Some guess \<Rightarrow>
             (case tzOffsetMs z guess timeZone of Inl e \<Rightarrow> Inl e
              | Inr offset \<Rightarrow>
                 (case tzOffsetMs z (guess - offset) timeZone of Inl e \<Rightarrow> Inl e
                  | Inr offset2 \<Rightarrow>
                     let utc = if offset2 \<noteq> offset then guess - offset2 else guess - offset
                     in (case zonedParts z utc timeZone of Inl e \<Rightarrow> Inl e
                         | Inr parts \<Rightarrow>
                             if zp_date parts \<noteq> Some (year, month, day) \<or> zp_hour parts \<noteq> hour
                                \<or> zp_minute parts \<noteq> minute
                             then Inr None else Inr (Some utc))))))"

text \<open>The loop over the days, from \<open>offset\<close> for \<open>n\<close> more days.\<close>

fun clock_search ::
  "zone_data \<Rightarrow> pull_clock \<Rightarrow> int \<Rightarrow> calendar_date \<Rightarrow> nat \<Rightarrow> int \<Rightarrow> js_error + int" where
  "clock_search z spec earliestMs start 0 offset =
     Inl (ErrorMsg (''No clock occurrence for '' @ pc_timezone spec))"
| "clock_search z spec earliestMs start (Suc n) offset =
     (let date = addCalendarDays start offset;
          allowed = (case pc_weekdays spec of None \<Rightarrow> True
            | Some ds \<Rightarrow> ds = [] \<or> (case calendarWeekday date of None \<Rightarrow> False | Some w \<Rightarrow> w \<in> set ds))
      in if \<not> allowed then clock_search z spec earliestMs start n (offset + 1)
         else (case zonedTimeToUtc z date (pc_at_minute spec div 60) (pc_at_minute spec mod 60) (pc_timezone spec) of
             Inl e \<Rightarrow> Inl e
           | Inr (Some utc) \<Rightarrow>
               if earliestMs \<le> utc then Inr utc else clock_search z spec earliestMs start n (offset + 1)
           | Inr None \<Rightarrow> clock_search z spec earliestMs start n (offset + 1)))"

definition nextClockAtOrAfter :: "zone_data \<Rightarrow> pull_clock \<Rightarrow> int \<Rightarrow> js_error + int" where
  "nextClockAtOrAfter z spec earliestMs =
     (case zonedParts z earliestMs (pc_timezone spec) of Inl e \<Rightarrow> Inl e
      | Inr start \<Rightarrow> clock_search z spec earliestMs (zp_date start) 22 0)"

subsection \<open>Round trip of a schedule\<close>

lemma weekday_text:
  assumes "1 \<le> d" and "d \<le> 7"
  shows "js_number (int_string d) = int_num d" and "CHR '','' \<notin> set (int_string d)"
  using assms js_number_int_string int_string_no[of "CHR '',''"] by (simp_all add: digit_value_def)

interpretation numbers: comparator "\<lambda>l r :: int. l - r"
  by (rule comparator_int[where f = id, simplified])

lemma weekdays_shape:
  assumes "normalizeWeekdays value = Some ds"
  shows "ds \<noteq> []" and "sorted_wrt (\<lambda>x y. \<not> y - x < (0 :: int)) ds" and "distinct ds" and "\<forall>d \<in> set ds. 1 \<le> d \<and> d \<le> 7"
proof -
  from assms obtain xs where ds: "ds = js_sort (\<lambda>l r. l - r) (js_unique (List.map_filter weekday_of xs))" "ds \<noteq> []"
    by (auto simp: normalizeWeekdays_def Let_def split: option.splits if_splits)
  then show "ds \<noteq> []" "distinct ds" by simp_all
  have "sorted_wrt (\<lambda>x y. x - y \<le> 0) ds" unfolding ds(1) by (rule numbers.sorted_js_sort)
  then show "sorted_wrt (\<lambda>x y. \<not> y - x < (0 :: int)) ds"
    by (rule sorted_wrt_mono_rel[rotated]) auto
  show "\<forall>d \<in> set ds. 1 \<le> d \<and> d \<le> 7"
    by (auto simp: ds(1) List.map_filter_def weekday_of_def split: option.splits if_splits)
qed

lemma normalize_weekdays_idem:
  assumes n: "normalizeWeekdays value = Some ds"
  shows "normalizeWeekdays (Some (List.map int_num ds)) = Some ds"
proof -
  note w = weekdays_shape[OF n]
  have "List.map_filter weekday_of (List.map int_num ds) = ds"
    using w(4) by (induction ds) (auto simp: List.map_filter_def weekday_of_def)
  moreover have "js_unique ds = ds" using w(3) by (simp add: js_unique_def distinct_remdups_id)
  ultimately show ?thesis using js_sort_sorted[OF w(2)] w(1) by (simp add: normalizeWeekdays_def)
qed

lemma weekday_column:
  assumes "normalizeWeekdays value = Some ds"
  shows "parseWeekdayColumn (Some (js_join (CHR '','') (List.map int_string ds))) = Some (List.map int_num ds)"
proof -
  note w = weekdays_shape[OF assms]
  have "js_split (CHR '','') (js_join (CHR '','') (List.map int_string ds)) = List.map int_string ds"
    using w(1,4) weekday_text(2) by (intro split_join) auto
  moreover have "js_join (CHR '','') (List.map int_string ds) \<noteq> []"
  proof (cases ds)
    case (Cons d ds')
    then show ?thesis by (cases ds') auto
  qed (use w(1) in simp)
  ultimately show ?thesis using w(4) weekday_text(1) by (simp add: parseWeekdayColumn_def)
qed

lemma readPullClock_stored:
  assumes "readPullClock z a tz ws = Some c"
  shows "readPullClock z (Some (int_num (pc_at_minute c))) (Some (pc_timezone c)) (map_option (List.map int_num) (pc_weekdays c)) = Some c"
proof -
  from assms obtain x v where c: "a = Some x" "tz = Some v" "isAtMinute a" "isTimeZone z tz"
    "c = \<lparr>pc_at_minute = or_else (js_integer x) 0, pc_timezone = js_trim v, pc_weekdays = normalizeWeekdays ws\<rparr>"
    by (auto simp: readPullClock_def split: if_splits option.splits)
  have "isAtMinute (Some (int_num (or_else (js_integer x) 0)))"
    using c(1,3) by (auto simp: isAtMinute_def split: option.splits)
  moreover have "isTimeZone z (Some (js_trim v))"
    using c(2,4) by (simp add: isTimeZone_def Let_def)
  moreover have "normalizeWeekdays (map_option (List.map int_num) (normalizeWeekdays ws)) = normalizeWeekdays ws"
    using normalize_weekdays_idem by (cases "normalizeWeekdays ws") (auto simp: normalizeWeekdays_def)
  ultimately show ?thesis by (simp add: readPullClock_def c(5))
qed

text \<open>C33. What is stored of a timed recipe is read back as it was understood: the columns of a pull trigger,
  parsed again, give its interval when that is legal and exactly the clock the program reads off the
  trigger (the minute, the trimmed zone, the sorted weekdays without duplicates).\<close>

theorem pull_schedule_round_trip:
  assumes "tg_kind t = TriggerPull"
  shows "pullScheduleFromColumns z (pullScheduleColumns z t) =
    \<lparr>ps_interval_ms = if isPullIntervalMs (tg_interval_ms t) then tg_interval_ms t else None,
     ps_at_minute = map_option pc_at_minute (trigger_clock z t),
     ps_timezone = map_option pc_timezone (trigger_clock z t),
     ps_weekdays = (case trigger_clock z t of None \<Rightarrow> None | Some c \<Rightarrow> pc_weekdays c)\<rparr>"
proof (cases "trigger_clock z t")
  case None
  have "readPullClock z None None w = None" for w by (simp add: readPullClock_def isAtMinute_def)
  with None assms show ?thesis by (simp add: pullScheduleColumns_def pullScheduleFromColumns_def Let_def)
next
  case (Some c)
  have stored: "readPullClock z (Some (int_num (pc_at_minute c))) (Some (pc_timezone c))
      (map_option (List.map int_num) (pc_weekdays c)) = Some c"
    using Some unfolding trigger_clock_def by (rule readPullClock_stored)
  have days: "pc_weekdays c = normalizeWeekdays (tg_weekdays t)"
    using Some by (auto simp: trigger_clock_def readPullClock_def split: if_splits option.splits)
  have "parseWeekdayColumn (case pc_weekdays c of None \<Rightarrow> None
      | Some ds \<Rightarrow> if ds = [] then None else Some (js_join (CHR '','') (List.map int_string ds)))
    = map_option (List.map int_num) (pc_weekdays c)"
  proof (cases "pc_weekdays c")
    case (Some ds)
    then have n: "normalizeWeekdays (tg_weekdays t) = Some ds" using days by simp
    show ?thesis using weekdays_shape(1)[OF n] weekday_column[OF n] Some by simp
  qed (simp add: parseWeekdayColumn_def)
  with stored Some assms show ?thesis by (simp add: pullScheduleColumns_def pullScheduleFromColumns_def Let_def)
qed
definition sample_trigger :: recipe_trigger where
  "sample_trigger = \<lparr>tg_kind = TriggerPull, tg_interval_ms = Some (int_num 3600000), tg_at_minute = Some (int_num 540),
     tg_weekdays = Some [int_num 5, int_num 1, int_num 5, NaN], tg_timezone = Some '' UTC '', tg_coalesce = None\<rparr>"

definition utc_names :: zone_data where
  "utc_names = \<lparr>iz_known = (\<lambda>n. n = ''UTC''),
     iz_parts = (\<lambda>_ _. \<lparr>zp_date = None, zp_hour = 0, zp_minute = 0, zp_second = 0\<rparr>)\<rparr>"

theorem pull_schedule_round_trip_witness:
  "pullScheduleFromColumns utc_names
      (pullScheduleColumns utc_names sample_trigger)
    = \<lparr>ps_interval_ms = Some (int_num 3600000), ps_at_minute = Some 540, ps_timezone = Some ''UTC'', ps_weekdays = Some [1, 5]\<rparr>"
proof -
  have c: "trigger_clock utc_names sample_trigger
    = Some \<lparr>pc_at_minute = 540, pc_timezone = ''UTC'', pc_weekdays = Some [1, 5]\<rparr>"
    by (simp add: trigger_clock_def utc_names_def sample_trigger_def readPullClock_def isAtMinute_def isTimeZone_def js_trim_def
        js_space_def normalizeWeekdays_def weekday_of_def List.map_filter_def js_unique_def js_sort_def Let_def)
  have "tg_kind sample_trigger = TriggerPull" "isPullIntervalMs (tg_interval_ms sample_trigger)"
    "tg_interval_ms sample_trigger = Some (int_num 3600000)"
    by (simp_all add: sample_trigger_def isPullIntervalMs_def PULL_INTERVAL_MIN_MS_def PULL_INTERVAL_MAX_MS_def)
  with pull_schedule_round_trip[OF this(1)] c show ?thesis by simp
qed

end
