(* ===== verification/PullZone.thy ===== *)
theory PullZone
  imports PullClock
begin

section \<open>The next time of a clock is right\<close>

text \<open>
  \<open>nextClockAtOrAfter\<close> of \<open>pull-clock.ts\<close>, against the specification its comment gives: whatever the
  time zone data say, an answer shows the asked wall clock; in a zone whose offset does not change
  there is always an answer, and it is the first such instant.
\<close>

subsection \<open>Any time zone\<close>

lemma zoned_time_shows:
  assumes "zonedTimeToUtc z date hour minute tz = Inr (Some utc)"
  shows "\<exists>parts. zonedParts z utc tz = Inr parts \<and> zp_date parts = date \<and> zp_hour parts = hour \<and> zp_minute parts = minute"
  using assms by (auto simp: zonedTimeToUtc_def Let_def split: option.splits sum.splits if_splits prod.splits)

definition allowed_weekday :: "pull_clock \<Rightarrow> calendar_date \<Rightarrow> bool" where
  "allowed_weekday spec date \<longleftrightarrow>
     (case pc_weekdays spec of None \<Rightarrow> True
      | Some ds \<Rightarrow> ds = [] \<or> (case calendarWeekday date of None \<Rightarrow> False | Some w \<Rightarrow> w \<in> set ds))"

lemma clock_search_step:
  "clock_search z spec e start (Suc n) k =
     (if \<not> allowed_weekday spec (addCalendarDays start k) then clock_search z spec e start n (k + 1)
      else case zonedTimeToUtc z (addCalendarDays start k) (pc_at_minute spec div 60) (pc_at_minute spec mod 60)
             (pc_timezone spec) of
          Inl err \<Rightarrow> Inl err
        | Inr (Some utc) \<Rightarrow> if e \<le> utc then Inr utc else clock_search z spec e start n (k + 1)
        | Inr None \<Rightarrow> clock_search z spec e start n (k + 1))"
  by (simp add: allowed_weekday_def Let_def)

lemma clock_search_found:
  "clock_search z spec e start n k = Inr utc \<Longrightarrow>
   e \<le> utc \<and> (\<exists>date. allowed_weekday spec date
     \<and> zonedTimeToUtc z date (pc_at_minute spec div 60) (pc_at_minute spec mod 60) (pc_timezone spec) = Inr (Some utc))"
proof (induction n arbitrary: k)
  case (Suc n)
  from Suc.prems show ?case
    unfolding clock_search_step using Suc.IH[of "k + 1"]
    by (auto split: if_splits sum.splits option.splits)
qed simp

text \<open>The next time of a clock is never early and never shows the wrong wall clock: whatever the time
  zone data say, an answer lies at or after the asked time, and formatting it in the zone gives the minute
  of the day and one of the weekdays of the clock.\<close>

lemma clock_answer_is_sound:
  assumes "nextClockAtOrAfter z spec earliest = Inr utc"
  shows "earliest \<le> utc \<and> (\<exists>parts. zonedParts z utc (pc_timezone spec) = Inr parts
    \<and> zp_hour parts * 60 + zp_minute parts = pc_at_minute spec \<and> allowed_weekday spec (zp_date parts))"
proof -
  from assms obtain start where "clock_search z spec earliest start 22 0 = Inr utc"
    by (auto simp: nextClockAtOrAfter_def split: sum.splits)
  from clock_search_found[OF this] obtain date where late: "earliest \<le> utc" and day: "allowed_weekday spec date"
    and at: "zonedTimeToUtc z date (pc_at_minute spec div 60) (pc_at_minute spec mod 60) (pc_timezone spec)
      = Inr (Some utc)" by blast
  from zoned_time_shows[OF at] late day show ?thesis by auto
qed

subsection \<open>A zone with a fixed offset\<close>

text \<open>The fields of a local time, and a zone that is always \<open>off\<close> milliseconds ahead.\<close>

definition local_fields :: "int \<Rightarrow> zoned_parts" where
  "local_fields t = (let r = t mod ms_per_day
     in \<lparr>zp_date = Some (date_of t), zp_hour = r div 3600000, zp_minute = r div 60000 mod 60, zp_second = r div 1000 mod 60\<rparr>)"

definition fixed_zone :: "zone_data \<Rightarrow> string \<Rightarrow> int \<Rightarrow> bool" where
  "fixed_zone z tz off \<longleftrightarrow> iz_known z tz \<and> (\<forall>t. iz_parts z tz t = local_fields (t + off))
     \<and> off mod 1000 = 0 \<and> \<bar>off\<bar> \<le> ms_per_day"

text \<open>A local time whose year the calendar functions read literally.\<close>

definition plain_time :: "int \<Rightarrow> bool" where
  "plain_time t \<longleftrightarrow> 0 \<le> t \<and> t \<le> 253402300799999"

lemma plain_year:
  assumes "plain_time t" and "civil_from_day (t div ms_per_day) = (y, m, d)"
  shows "100 \<le> y"
proof -
  have "year_from_day 0 = 1970" by (rule year_from_day_unique) (simp_all add: day_from_year_def)
  moreover have "0 \<le> t div ms_per_day" using assms(1) by (simp add: plain_time_def ms_per_day_def pos_imp_zdiv_nonneg_iff)
  ultimately have "1970 \<le> y"
    using year_from_day_mono[of 0 "t div ms_per_day"] civil_from_day(1)[OF assms(2)] by simp
  then show ?thesis by simp
qed

lemma date_utc_of:
  assumes "plain_time t" and "date_of t = (y, mo, d)"
    and "\<bar>(t div ms_per_day + k) * ms_per_day + ((h * 60 + mi) * 60 + s) * 1000\<bar> \<le> max_time"
  shows "date_utc y (mo - 1) (d + k) h mi s = Some ((t div ms_per_day + k) * ms_per_day + ((h * 60 + mi) * 60 + s) * 1000)"
proof -
  from assms(2) obtain m where c: "civil_from_day (t div ms_per_day) = (y, m, d)" and mo: "mo = m + 1"
    by (auto simp: date_of_def split: prod.splits)
  have y: "\<not> y \<le> 99" using plain_year[OF assms(1) c] by simp
  have "make_day y m (d + k) = t div ms_per_day + k"
    using civil_from_day(7)[OF c] by (simp add: make_day_def Let_def)
  then show ?thesis using assms(3) y by (simp add: date_utc_def mo Let_def)
qed

lemma day_in_range:
  assumes "plain_time t" and "0 \<le> k" and "k \<le> 30" and "0 \<le> r" and "r < ms_per_day"
  shows "\<bar>(t div ms_per_day + k) * ms_per_day + r\<bar> \<le> max_time"
  using assms div_bounds[of 86400000 t]
  by (auto simp: plain_time_def ms_per_day_def max_time_def algebra_simps abs_le_iff)

lemma add_days_of:
  assumes "plain_time t" and "0 \<le> k" and "k \<le> 30"
  shows "addCalendarDays (Some (date_of t)) k = Some (date_of (t + k * ms_per_day))"
proof -
  obtain y mo d where c: "date_of t = (y, mo, d)" by (metis prod_cases3)
  have "date_utc y (mo - 1) (d + k) 0 0 0 = Some ((t div ms_per_day + k) * ms_per_day)"
    using date_utc_of[OF assms(1) c, of k 0 0 0] day_in_range[OF assms, of 0] by (simp add: ms_per_day_def)
  moreover have "date_of ((t div ms_per_day + k) * ms_per_day) = date_of (t + k * ms_per_day)"
    by (simp add: date_of_def ms_per_day_def add.commute)
  ultimately show ?thesis by (simp add: addCalendarDays_def c)
qed

definition day_name :: "int \<Rightarrow> int" where
  "day_name day = (day + 3) mod 7 + 1"

lemma sunday_last: "(if (x + 4) mod 7 = 0 then 7 else (x + 4) mod 7) = day_name x"
proof -
  define r where "r = (x + 3) mod 7"
  have e: "x + 4 = x + 3 + 1" by simp
  have "(x + 4) mod 7 = (r + 1) mod 7" unfolding r_def e by (simp only: mod_add_left_eq)
  moreover have "0 \<le> r" "r < 7" by (simp_all add: r_def)
  ultimately show ?thesis unfolding day_name_def r_def[symmetric]
    by (cases "r = 6") (simp_all add: mod_pos_pos_trivial)
qed

lemma weekday_of_date:
  assumes "plain_time t"
  shows "calendarWeekday (Some (date_of t)) = Some (day_name (t div ms_per_day))"
proof -
  obtain y mo d where c: "date_of t = (y, mo, d)" by (metis prod_cases3)
  have "date_utc y (mo - 1) d 0 0 0 = Some (t div ms_per_day * ms_per_day)"
    using date_utc_of[OF assms(1) c, of 0 0 0 0] day_in_range[OF assms, of 0 0] by (simp add: ms_per_day_def)
  then have "calendarWeekday (Some (date_of t)) =
      Some (let s = (t div ms_per_day * ms_per_day div ms_per_day + 4) mod 7 in if s = 0 then 7 else s)"
    by (simp only: calendarWeekday_def c option.case prod.case option.map)
  moreover have "t div ms_per_day * ms_per_day div ms_per_day = t div ms_per_day" by (simp add: ms_per_day_def)
  ultimately show ?thesis by (simp only: Let_def sunday_last)
qed

lemma time_of_local:
  fixes r :: int
  assumes "0 \<le> r"
  shows "((r div 3600000 * 60 + r div 60000 mod 60) * 60 + r div 1000 mod 60) * 1000 = r - r mod 1000"
proof -
  obtain n where r: "r = int n" using assms nonneg_int_cases by blast
  have "int (((n div 3600000 * 60 + n div 60000 mod 60) * 60 + n div 1000 mod 60) * 1000) + int (n mod 1000) = int n"
    unfolding of_nat_add[symmetric] time_of_day ..
  then show ?thesis unfolding r by (simp only: of_nat_simps zdiv_int zmod_int of_nat_numeral)
qed

lemma fixed_offset:
  assumes "fixed_zone z tz off" and "plain_time (t + off)" and "(t + off) mod 1000 = 0"
  shows "tzOffsetMs z t tz = Inr off" and "zonedParts z t tz = Inr (local_fields (t + off))"
proof -
  let ?l = "t + off" let ?r = "?l mod ms_per_day"
  have bound: "\<not> max_time < \<bar>t\<bar>"
    using assms(1,2) by (auto simp: fixed_zone_def plain_time_def max_time_def ms_per_day_def)
  have r: "0 \<le> ?r" "?r < ms_per_day" by (simp_all add: ms_per_day_def)
  have "?r div 3600000 \<noteq> 24" using r by (simp add: ms_per_day_def)
  then show parts: "zonedParts z t tz = Inr (local_fields ?l)"
    using assms(1) bound by (simp add: zonedParts_def fixed_zone_def local_fields_def Let_def)
  obtain y mo d where c: "date_of ?l = (y, mo, d)" by (metis prod_cases3)
  have thousand: "?r mod 1000 = 0" using assms(3) by (simp add: ms_per_day_def mod_mod_cancel)
  then have local: "((?r div 3600000 * 60 + ?r div 60000 mod 60) * 60 + ?r div 1000 mod 60) * 1000 = ?r"
    by (simp only: time_of_local[OF r(1)] diff_zero)
  have "date_utc y (mo - 1) (d + 0) (?r div 3600000) (?r div 60000 mod 60) (?r div 1000 mod 60) = Some ?l"
    using date_utc_of[OF assms(2) c, where k = 0 and h = "?r div 3600000" and mi = "?r div 60000 mod 60"
        and s = "?r div 1000 mod 60"] day_in_range[OF assms(2) _ _ r, of 0]
    unfolding local add_0_right div_mult_mod_eq by (simp only: simp_thms order_refl zero_le_numeral)
  then have "date_utc y (mo - 1) d (?r div 3600000) (?r div 60000 mod 60) (?r div 1000 mod 60) = Some ?l"
    by (simp only: add_0_right)
  then show "tzOffsetMs z t tz = Inr off"
    by (simp only: tzOffsetMs_def parts) (simp add: local_fields_def c Let_def)
qed
subsection \<open>The first occurrence\<close>

text \<open>The local clock of day \<open>j\<close> counted from the local time \<open>l\<close>, as an instant.\<close>

definition clock_on_day :: "pull_clock \<Rightarrow> int \<Rightarrow> int \<Rightarrow> int \<Rightarrow> int" where
  "clock_on_day spec off l j = (l div ms_per_day + j) * ms_per_day + pc_at_minute spec * 60000 - off"

definition day_allowed :: "pull_clock \<Rightarrow> int \<Rightarrow> bool" where
  "day_allowed spec day \<longleftrightarrow> (case pc_weekdays spec of None \<Rightarrow> True | Some ds \<Rightarrow> ds = [] \<or> day_name day \<in> set ds)"

text \<open>The wall clock of a zone \<open>off\<close> ahead shows the start of the asked minute on an allowed weekday.\<close>

definition clock_strikes :: "pull_clock \<Rightarrow> int \<Rightarrow> int \<Rightarrow> bool" where
  "clock_strikes spec off t \<longleftrightarrow>
     (t + off) mod ms_per_day = pc_at_minute spec * 60000 \<and> day_allowed spec ((t + off) div ms_per_day)"

definition mid_time :: "int \<Rightarrow> bool" where
  "mid_time t \<longleftrightarrow> 2 * ms_per_day \<le> t \<and> t + 33 * ms_per_day \<le> 253402300799999"

lemma fixed_zone_time:
  assumes "fixed_zone z tz off" and "mid_time l"
    and "0 \<le> k" and "k \<le> 30" and "0 \<le> m" and "m < 1440"
  shows "zonedTimeToUtc z (Some (date_of (l + k * ms_per_day))) (m div 60) (m mod 60) tz
    = Inr (Some ((l div ms_per_day + k) * ms_per_day + m * 60000 - off))"
proof -
  let ?day = "l + k * ms_per_day" let ?t = "(l div ms_per_day + k) * ms_per_day + m * 60000"
  have div: "?day div ms_per_day = l div ms_per_day + k" by (simp add: ms_per_day_def)
  have l: "ms_per_day * (l div ms_per_day) \<le> l" "l < ms_per_day * (l div ms_per_day) + ms_per_day"
    using div_bounds[of ms_per_day l] by (simp_all add: ms_per_day_def)
  have plain: "plain_time ?day" "plain_time ?t"
    using assms l by (auto simp: plain_time_def mid_time_def ms_per_day_def algebra_simps)
  obtain y mo d where c: "date_of ?day = (y, mo, d)" by (metis prod_cases3)
  have r: "0 \<le> m * 60000" "m * 60000 < ms_per_day" using assms(5,6) by (simp_all add: ms_per_day_def)
  have sum: "((m div 60 * 60 + m mod 60) * 60 + 0) * 1000 = m * 60000" by (simp add: div_mult_mod_eq)
  have date: "date_utc y (mo - 1) d (m div 60) (m mod 60) 0 = Some ?t"
    using date_utc_of[OF plain(1) c, where k = 0 and h = "m div 60" and mi = "m mod 60" and s = 0]
      day_in_range[OF plain(1) _ _ r, of 0] div sum by simp
  have t: "?t div ms_per_day = l div ms_per_day + k" "?t mod ms_per_day = m * 60000"
    using r by (simp_all add: div_mult_self3 mod_mult_self3)
  have fields: "local_fields ?t = \<lparr>zp_date = Some (y, mo, d), zp_hour = m div 60, zp_minute = m mod 60, zp_second = 0\<rparr>"
  proof -
    have "date_of ?t = (y, mo, d)" using c div t(1) by (simp add: date_of_def)
    moreover have "m * 60000 div 3600000 = m div 60" "m * 60000 div 60000 mod 60 = m mod 60"
      "m * 60000 div 1000 mod 60 = 0" by simp_all
    ultimately show ?thesis by (simp only: local_fields_def Let_def t(2))
  qed
  have thousand: "?t mod 1000 = 0" by (simp add: ms_per_day_def mod_eq_0_iff_dvd)
  have off: "off mod 1000 = 0" using assms(1) by (simp add: fixed_zone_def)
  have first: "tzOffsetMs z (?t - off) tz = Inr off" "zonedParts z (?t - off) tz = Inr (local_fields ?t)"
    using fixed_offset[OF assms(1), of "?t - off"] plain(2) thousand by simp_all
  have "plain_time (?t + off)"
    using assms(1,2,3,4,5,6) l by (auto simp: plain_time_def mid_time_def fixed_zone_def ms_per_day_def algebra_simps)
  then have guess: "tzOffsetMs z ?t tz = Inr off"
    by (rule fixed_offset(1)[OF assms(1)]) (use thousand off in \<open>simp add: mod_eq_0_iff_dvd\<close>)
  show ?thesis
    by (simp only: zonedTimeToUtc_def c date guess first fields option.case prod.case sum.case Let_def if_False
        not_True_eq_False zoned_parts.simps simp_thms)
qed

lemma fixed_zone_search:
  assumes z: "fixed_zone z (pc_timezone spec) off" and l: "mid_time l" and m: "0 \<le> pc_at_minute spec" "pc_at_minute spec < 1440"
  shows "0 \<le> k \<Longrightarrow> k + int n \<le> 30 \<Longrightarrow> k \<le> j \<Longrightarrow> j < k + int n
    \<Longrightarrow> day_allowed spec (l div ms_per_day + j) \<Longrightarrow> e \<le> clock_on_day spec off l j
    \<Longrightarrow> \<exists>i. clock_search z spec e (Some (date_of l)) n k = Inr (clock_on_day spec off l i)
      \<and> k \<le> i \<and> i \<le> j \<and> day_allowed spec (l div ms_per_day + i) \<and> e \<le> clock_on_day spec off l i
      \<and> (\<forall>h. k \<le> h \<and> h < i \<longrightarrow> \<not> (day_allowed spec (l div ms_per_day + h) \<and> e \<le> clock_on_day spec off l h))"
proof (induction n arbitrary: k)
  case (Suc n)
  have plain: "plain_time l" "plain_time (l + k * ms_per_day)"
    using l Suc.prems(1,2) by (auto simp: mid_time_def plain_time_def ms_per_day_def)
  have day: "addCalendarDays (Some (date_of l)) k = Some (date_of (l + k * ms_per_day))"
    using Suc.prems(1,2) plain(1) by (intro add_days_of) simp_all
  have "(l + k * ms_per_day) div ms_per_day = l div ms_per_day + k" by (simp add: ms_per_day_def)
  then have allowed: "allowed_weekday spec (Some (date_of (l + k * ms_per_day))) = day_allowed spec (l div ms_per_day + k)"
    by (cases "pc_weekdays spec") (simp_all add: allowed_weekday_def day_allowed_def weekday_of_date[OF plain(2)])
  have time: "zonedTimeToUtc z (Some (date_of (l + k * ms_per_day))) (pc_at_minute spec div 60) (pc_at_minute spec mod 60)
      (pc_timezone spec) = Inr (Some (clock_on_day spec off l k))"
    unfolding clock_on_day_def by (rule fixed_zone_time[OF z l]) (use Suc.prems(1,2) m in simp_all)
  let ?hit = "\<lambda>h. day_allowed spec (l div ms_per_day + h) \<and> e \<le> clock_on_day spec off l h"
  have step: "clock_search z spec e (Some (date_of l)) (Suc n) k =
      (if ?hit k then Inr (clock_on_day spec off l k) else clock_search z spec e (Some (date_of l)) n (k + 1))"
    unfolding clock_search_step day allowed time by simp
  show ?case
  proof (cases "?hit k")
    case True
    then show ?thesis using Suc.prems(3) step by auto
  next
    case False
    then have "j \<noteq> k" using Suc.prems(5,6) by auto
    then have "\<exists>i. clock_search z spec e (Some (date_of l)) n (k + 1) = Inr (clock_on_day spec off l i)
        \<and> k + 1 \<le> i \<and> i \<le> j \<and> ?hit i \<and> (\<forall>h. k + 1 \<le> h \<and> h < i \<longrightarrow> \<not> ?hit h)"
      using Suc.IH[of "k + 1"] Suc.prems by simp
    then obtain i where i: "clock_search z spec e (Some (date_of l)) n (k + 1) = Inr (clock_on_day spec off l i)"
      "k + 1 \<le> i" "i \<le> j" "?hit i" "\<forall>h. k + 1 \<le> h \<and> h < i \<longrightarrow> \<not> ?hit h" by blast
    have "\<not> ?hit h" if "k \<le> h" "h < i" for h
      using that False i(5) by (cases "h = k") simp_all
    with i False step show ?thesis by (intro exI[of _ i]) simp
  qed
qed simp

lemma some_day_allowed:
  assumes "case pc_weekdays spec of None \<Rightarrow> True | Some ds \<Rightarrow> \<forall>d \<in> set ds. 1 \<le> d \<and> d \<le> 7"
  shows "\<exists>j. 1 \<le> j \<and> j \<le> 7 \<and> day_allowed spec (d0 + j)"
proof (cases "pc_weekdays spec = None \<or> pc_weekdays spec = Some []")
  case True
  then show ?thesis by (intro exI[of _ 1]) (auto simp: day_allowed_def)
next
  case False
  then obtain w ds where ds: "pc_weekdays spec = Some (w # ds)" by (cases "pc_weekdays spec"; cases "the (pc_weekdays spec)") auto
  with assms have w: "1 \<le> w" "w \<le> 7" by simp_all
  let ?k = "(w - 1 - (d0 + 4)) mod 7"
  have "(d0 + 4 + ?k) mod 7 = (w - 1) mod 7" unfolding mod_add_right_eq by simp
  then have "day_name (d0 + (1 + ?k)) = w" using w by (simp add: day_name_def add.assoc add.commute add.left_commute)
  moreover have "0 \<le> ?k" "?k < 7" by simp_all
  ultimately show ?thesis using ds by (intro exI[of _ "1 + ?k"]) (simp add: day_allowed_def)
qed

text \<open>C34. In a time zone whose offset does not change, the search for the next time of a clock always succeeds and
  is exact: the answer strikes the clock, comes at most eight days after the asked time, and no earlier instant
  from the asked time on does.\<close>

theorem clock_answer_is_first:
  assumes z: "fixed_zone z (pc_timezone spec) off" and l: "mid_time (earliest + off)" and e: "\<bar>earliest\<bar> \<le> max_time"
    and m: "0 \<le> pc_at_minute spec" "pc_at_minute spec < 1440"
    and w: "case pc_weekdays spec of None \<Rightarrow> True | Some ds \<Rightarrow> \<forall>d \<in> set ds. 1 \<le> d \<and> d \<le> 7"
  shows "\<exists>u. nextClockAtOrAfter z spec earliest = Inr u \<and> clock_strikes spec off u
    \<and> earliest \<le> u \<and> u < earliest + 8 * ms_per_day
    \<and> (\<forall>t. earliest \<le> t \<and> clock_strikes spec off t \<longrightarrow> u \<le> t)"
proof -
  let ?l = "earliest + off" let ?d = "?l div ms_per_day"
  have d: "ms_per_day * ?d \<le> ?l" "?l < ms_per_day * ?d + ms_per_day"
    using div_bounds[of ms_per_day ?l] by (simp_all add: ms_per_day_def)
  have r: "0 \<le> pc_at_minute spec * 60000" "pc_at_minute spec * 60000 < ms_per_day"
    using m by (simp_all add: ms_per_day_def)
  have "?l mod ms_per_day div 3600000 \<noteq> 24"
    using pos_mod_bound[of ms_per_day ?l] by (simp add: ms_per_day_def)
  then have start: "zonedParts z earliest (pc_timezone spec) = Inr (local_fields ?l)"
    using z e by (simp add: zonedParts_def fixed_zone_def local_fields_def Let_def)
  obtain j where j: "1 \<le> j" "j \<le> 7" "day_allowed spec (?d + j)" using some_day_allowed[OF w] by blast
  have later: "earliest \<le> clock_on_day spec off ?l j"
    using j(1) d(2) r mult_right_mono[of 1 j ms_per_day] by (simp add: clock_on_day_def ms_per_day_def algebra_simps)
  obtain i where i: "clock_search z spec earliest (Some (date_of ?l)) 22 0 = Inr (clock_on_day spec off ?l i)"
    "0 \<le> i" "i \<le> j" "day_allowed spec (?d + i)" "earliest \<le> clock_on_day spec off ?l i"
    and none: "\<forall>h. 0 \<le> h \<and> h < i \<longrightarrow> \<not> (day_allowed spec (?d + h) \<and> earliest \<le> clock_on_day spec off ?l h)"
    using fixed_zone_search[OF z l m, of 0 22 j earliest] j later by auto
  have answer: "nextClockAtOrAfter z spec earliest = Inr (clock_on_day spec off ?l i)"
    using start i(1) by (simp add: nextClockAtOrAfter_def local_fields_def Let_def)
  have local: "clock_on_day spec off ?l h + off = (?d + h) * ms_per_day + pc_at_minute spec * 60000" for h
    by (simp add: clock_on_day_def)
  have "clock_strikes spec off (clock_on_day spec off ?l i)"
    unfolding clock_strikes_def local using r i(4) by (simp add: div_mult_self3 mod_mult_self3)
  moreover have "clock_on_day spec off ?l i < earliest + 8 * ms_per_day"
    using i(3) j(2) d(1) r mult_right_mono[of i 7 ms_per_day]
    by (simp add: clock_on_day_def ms_per_day_def algebra_simps)
  moreover have "clock_on_day spec off ?l i \<le> t" if t: "earliest \<le> t" "clock_strikes spec off t" for t
  proof (rule ccontr)
    assume less: "\<not> ?thesis"
    define h where "h = (t + off) div ms_per_day - ?d"
    have t_is: "t = clock_on_day spec off ?l h"
      using t(2) div_mult_mod_eq[of "t + off" ms_per_day] by (simp add: clock_strikes_def clock_on_day_def h_def)
    have "0 \<le> h" using t(1) by (simp add: h_def ms_per_day_def zdiv_mono1)
    moreover have "h < i" using less unfolding t_is by (simp add: clock_on_day_def ms_per_day_def)
    moreover have "day_allowed spec (?d + h)" using t(2) by (simp add: clock_strikes_def h_def)
    ultimately show False using none t(1) t_is by blast
  qed
  ultimately show ?thesis using answer i(5) by blast
qed
subsection \<open>Witnesses\<close>

definition sample_zone :: zone_data where
  "sample_zone = \<lparr>iz_known = (\<lambda>_. True), iz_parts = (\<lambda>_ t. local_fields (t + 28800000))\<rparr>"

definition sample_clock :: pull_clock where
  "sample_clock = \<lparr>pc_at_minute = 540, pc_timezone = ''Asia/Shanghai'', pc_weekdays = Some [1, 5]\<rparr>"

lemma sample_answer: "nextClockAtOrAfter sample_zone sample_clock 1767225600000 = Inr 1767315600000"
  by code_simp

lemma clock_answer_is_sound_witness:
  "1767225600000 \<le> (1767315600000 :: int) \<and> (\<exists>parts. zonedParts sample_zone 1767315600000 (pc_timezone sample_clock) = Inr parts
    \<and> zp_hour parts * 60 + zp_minute parts = pc_at_minute sample_clock \<and> allowed_weekday sample_clock (zp_date parts))"
  by (rule clock_answer_is_sound[OF sample_answer])

theorem clock_answer_is_first_witness:
  "\<exists>u. nextClockAtOrAfter sample_zone sample_clock 1767225600000 = Inr u \<and> clock_strikes sample_clock 28800000 u
    \<and> 1767225600000 \<le> u \<and> u < 1767225600000 + 8 * ms_per_day
    \<and> (\<forall>t. 1767225600000 \<le> t \<and> clock_strikes sample_clock 28800000 t \<longrightarrow> u \<le> t)"
  by (rule clock_answer_is_first)
    (simp_all add: fixed_zone_def sample_zone_def sample_clock_def mid_time_def ms_per_day_def max_time_def)

end
