(* ===== verification/RecipeTrigger.thy ===== *)
theory RecipeTrigger
  imports PullZone
begin

section \<open>When a recipe may start\<close>

text \<open>
  \<open>packages/domain/src/recipe-trigger.ts\<close>: what kind of trigger a recipe has, which messages start a
  pushed recipe, when a timed one is due and when it fires next, and how many starts the cap of a recipe
  leaves. A call that does not return is \<^term>\<open>None\<close>.
\<close>

subsection \<open>Triggers\<close>

definition recipeMatchIsSpecific :: "recipe_match \<Rightarrow> bool" where
  "recipeMatchIsSpecific m =
     (if trim_opt (rm_thread_id m) \<noteq> None then True
      else if trim_opt (rm_unit_kind m) \<noteq> None then True
      else if rm_record_class m = Some ClassTask then True
      else trim_opt (rm_source m) \<noteq> None \<and> rm_record_class m \<noteq> None \<and> rm_record_class m \<noteq> Some ClassUtterance)"

definition bare_trigger :: "trigger_kind \<Rightarrow> recipe_trigger" where
  "bare_trigger kind = \<lparr>tg_kind = kind, tg_interval_ms = None, tg_at_minute = None, tg_weekdays = None,
     tg_timezone = None, tg_coalesce = None\<rparr>"

definition inferLegacyRecipeTrigger :: "recipe_match \<Rightarrow> recipe_trigger" where
  "inferLegacyRecipeTrigger m =
     (if recipeMatchIsSpecific m then (bare_trigger TriggerPush)\<lparr>tg_coalesce := Some True\<rparr> else bare_trigger TriggerManual)"

definition recipeTriggerOf :: "recipe_match \<Rightarrow> recipe_trigger option \<Rightarrow> recipe_trigger" where
  "recipeTriggerOf m t = or_else t (inferLegacyRecipeTrigger m)"

abbreviation trigger_of :: "recipe \<Rightarrow> recipe_trigger" where
  "trigger_of r \<equiv> recipeTriggerOf (re_match r) (Some (re_trigger r))"

definition with_clock :: "pull_clock \<Rightarrow> recipe_trigger \<Rightarrow> recipe_trigger" where
  "with_clock c t = t\<lparr>tg_at_minute := Some (int_num (pc_at_minute c)), tg_timezone := Some (pc_timezone c),
     tg_weekdays := map_option (List.map int_num) (pc_weekdays c)\<rparr>"

definition normalizeRecipeTrigger :: "zone_data \<Rightarrow> recipe_trigger option \<Rightarrow> recipe_match \<Rightarrow> recipe_trigger" where
  "normalizeRecipeTrigger z input m =
     (let kind = (case input of Some t \<Rightarrow> tg_kind t | None \<Rightarrow> tg_kind (inferLegacyRecipeTrigger m));
          t = or_else input (bare_trigger kind)
      in case kind of
           TriggerPull \<Rightarrow>
             let interval_ms = (if isPullIntervalMs (tg_interval_ms t) then tg_interval_ms t else Some (int_num PULL_INTERVAL_1H));
                 pull = (bare_trigger TriggerPull)\<lparr>tg_interval_ms := interval_ms\<rparr>
             in (case trigger_clock z t of Some c \<Rightarrow> with_clock c pull | None \<Rightarrow> pull)
         | TriggerManual \<Rightarrow> bare_trigger TriggerManual
         | TriggerPush \<Rightarrow> (bare_trigger TriggerPush)\<lparr>tg_coalesce := Some (tg_coalesce t \<noteq> Some False)\<rparr>)"

definition recipeAllowsPushDispatch :: "recipe \<Rightarrow> bool" where
  "recipeAllowsPushDispatch r \<longleftrightarrow> re_enabled r \<and> tg_kind (trigger_of r) = TriggerPush \<and> recipeMatchIsSpecific (re_match r)"

definition recipeAllowsBind :: "recipe \<Rightarrow> bool" where
  "recipeAllowsBind r \<longleftrightarrow> re_enabled r \<and> recipeMatchIsSpecific (re_match r)
     \<and> (tg_kind (trigger_of r) = TriggerPush \<or> tg_kind (trigger_of r) = TriggerManual)"

definition recipeWantsCoalesce :: "recipe option \<Rightarrow> bool" where
  "recipeWantsCoalesce r =
     (case r of None \<Rightarrow> True
      | Some x \<Rightarrow> tg_kind (trigger_of x) \<noteq> TriggerPush \<or> tg_coalesce (trigger_of x) \<noteq> Some False)"

definition recipeAllowsPullDispatch :: "recipe \<Rightarrow> bool" where
  "recipeAllowsPullDispatch r \<longleftrightarrow> re_enabled r \<and> tg_kind (trigger_of r) = TriggerPull
     \<and> trim_opt (rm_thread_id (re_match r)) \<noteq> None \<and> isPullIntervalMs (tg_interval_ms (trigger_of r))"

definition recipeWantsWriteBack :: "bool option \<Rightarrow> recipe_trigger option \<Rightarrow> bool" where
  "recipeWantsWriteBack can_write_back trigger =
     (if map_option tg_kind trigger = Some TriggerPull then can_write_back \<noteq> Some False else can_write_back = Some True)"

definition recipeWantsContext :: "bool option \<Rightarrow> recipe_trigger option \<Rightarrow> bool" where
  "recipeWantsContext include_context trigger =
     (map_option tg_kind trigger = Some TriggerPull \<or> include_context = Some True)"

subsection \<open>The cap of a recipe\<close>

text \<open>A cap comes as a number or as text.\<close>

datatype cap_value = CapNumber js_num | CapText string

definition normalizeRecipeMaxConcurrent :: "cap_value option \<Rightarrow> int option" where
  "normalizeRecipeMaxConcurrent value =
     (case value of None \<Rightarrow> None
      | Some v \<Rightarrow> if v = CapText [] then None
          else let n = (case v of CapNumber x \<Rightarrow> x | CapText s \<Rightarrow> js_number s)
            in case n of Num q \<Rightarrow> if q < 1 then None else Some (min \<lfloor>q\<rfloor> 1000) | _ \<Rightarrow> None)"

definition isOccupiedRecipeSlot :: "item_status \<Rightarrow> bool" where
  "isOccupiedRecipeSlot status \<longleftrightarrow> status \<in> {ItemRunning, ItemWaiting}"

definition occupiedRecipeSlots :: "work_item list \<Rightarrow> string \<Rightarrow> string option \<Rightarrow> int" where
  "occupiedRecipeSlots items recipeId exceptItemId =
     int (length (List.filter (\<lambda>w. wi_recipe_id w = Some recipeId \<and> Some (wi_id w) \<noteq> exceptItemId
       \<and> isOccupiedRecipeSlot (wi_status w)) items))"

text \<open>Local reservations are pairs of an item and a recipe.\<close>

definition recipeStartInflight :: "string \<Rightarrow> (string \<times> string) list \<Rightarrow> string list \<Rightarrow> string option \<Rightarrow> int" where
  "recipeStartInflight recipeId starting occupiedItemIds exceptItemId =
     int (length (List.filter (\<lambda>(item, recipe). recipe = recipeId \<and> Some item \<noteq> exceptItemId
       \<and> item \<notin> set occupiedItemIds) starting))"

definition recipeHasStartCapacity :: "recipe \<Rightarrow> work_item list \<Rightarrow> string option \<Rightarrow> int option \<Rightarrow> bool" where
  "recipeHasStartCapacity r items exceptItemId inflight =
     (case re_max_concurrent r of None \<Rightarrow> True
      | Some m \<Rightarrow> occupiedRecipeSlots items (re_id r) exceptItemId + or_else inflight 0 < m)"

subsection \<open>Pushed records\<close>

definition shouldAcceptPushRecord ::
  "message_kind option \<Rightarrow> message_direction option \<Rightarrow> string option \<Rightarrow> string option \<Rightarrow> bool" where
  "shouldAcceptPushRecord kind direction external_id type =
     (if direction = Some Outbound then False
      else if truthy external_id \<and> isLocalOutboundId (or_else external_id []) then False
      else if recordClassFromType type = Some ClassTask then True
      else if kind = Some KindAssistant \<or> kind = Some KindSystem then False
      else True)"

definition pushUnitKey :: "string \<Rightarrow> string" where
  "pushUnitKey eventId = eventId"

subsection \<open>The time of a pull\<close>

text \<open>Addition of numbers, and \<open>new Date(x).toISOString()\<close> of one.\<close>

fun js_add :: "js_num \<Rightarrow> js_num \<Rightarrow> js_num" where
  "js_add (Num a) (Num b) = Num (a + b)"
| "js_add NaN _ = NaN"
| "js_add _ NaN = NaN"
| "js_add PosInf NegInf = NaN"
| "js_add NegInf PosInf = NaN"
| "js_add PosInf _ = PosInf"
| "js_add _ PosInf = PosInf"
| "js_add NegInf _ = NegInf"
| "js_add _ NegInf = NegInf"

fun num_iso :: "js_num \<Rightarrow> js_error + string" where
  "num_iso (Num q) =
     (if \<bar>q\<bar> \<le> of_int max_time then to_iso (if 0 \<le> q then \<lfloor>q\<rfloor> else \<lceil>q\<rceil>) else Inl RangeError)"
| "num_iso _ = Inl RangeError"

definition pullPeriodKey :: "int \<Rightarrow> int \<Rightarrow> js_error + string" where
  "pullPeriodKey nowMs intervalMs =
     (if intervalMs = 0 then Inl RangeError else to_iso (nowMs div intervalMs * intervalMs))"

definition pullUnitKey :: "string \<Rightarrow> string \<Rightarrow> string" where
  "pullUnitKey recipeId periodKey = ''pull:'' @ recipeId @ '':'' @ periodKey"

definition isPullDue :: "recipe \<Rightarrow> string \<Rightarrow> bool" where
  "isPullDue r now =
     (if \<not> recipeAllowsPullDispatch r then False
      else if \<not> truthy (re_next_run_at r) then True
      else case (date_parse now, date_parse (or_else (re_next_run_at r) [])) of
          (Some t, Some u) \<Rightarrow> u \<le> t | _ \<Rightarrow> False)"

text \<open>The joined text of \<open>weekdayKey\<close> determines the sorted list, and is determined by it: the model compares
  the lists.\<close>

definition compare_numbers :: "js_num \<Rightarrow> js_num \<Rightarrow> int" where
  "compare_numbers l r =
     (if l = NaN \<or> r = NaN \<or> l = r then 0 else if js_le l r then -1 else 1)"

definition weekdayKey :: "js_num list option \<Rightarrow> js_num list" where
  "weekdayKey days = js_sort compare_numbers (or_else days [])"

definition shouldKeepPullSchedule :: "recipe option \<Rightarrow> recipe_match \<Rightarrow> recipe_trigger \<Rightarrow> bool" where
  "shouldKeepPullSchedule existing m next =
     (case existing of None \<Rightarrow> False
      | Some r \<Rightarrow>
          if tg_kind (re_trigger r) \<noteq> TriggerPull \<or> tg_kind next \<noteq> TriggerPull then False
          else tg_interval_ms (re_trigger r) = tg_interval_ms next \<and> tg_interval_ms next \<noteq> Some NaN
             \<and> or_else (rm_thread_id (re_match r)) [] = or_else (rm_thread_id m) []
             \<and> tg_at_minute (re_trigger r) = tg_at_minute next \<and> tg_at_minute next \<noteq> Some NaN
             \<and> or_else (tg_timezone (re_trigger r)) [] = or_else (tg_timezone next) []
             \<and> weekdayKey (tg_weekdays (re_trigger r)) = weekdayKey (tg_weekdays next))"

text \<open>The clock of a timed trigger, and the next time of it; \<open>None\<close> is the \<open>catch\<close>.\<close>

definition clock_of :: "zone_data \<Rightarrow> recipe_trigger \<Rightarrow> pull_clock option" where
  "clock_of z t = (if tg_kind t = TriggerPull then trigger_clock z t else None)"

definition next_clock_iso :: "zone_data \<Rightarrow> pull_clock \<Rightarrow> int \<Rightarrow> string option" where
  "next_clock_iso z c earliest =
     (case nextClockAtOrAfter z c earliest of Inl _ \<Rightarrow> None
      | Inr t \<Rightarrow> (case to_iso t of Inl _ \<Rightarrow> None | Inr s \<Rightarrow> Some s))"

definition initialPullNextRun :: "zone_data \<Rightarrow> int \<Rightarrow> recipe_trigger \<Rightarrow> string \<Rightarrow> string" where
  "initialPullNextRun z wall t now =
     (case clock_of z t of None \<Rightarrow> now
      | Some c \<Rightarrow> or_else (next_clock_iso z c (or_else (date_parse now) wall)) now)"

partial_function (option) advance_loop :: "js_num \<Rightarrow> js_num \<Rightarrow> js_num \<Rightarrow> js_num option" where
  "advance_loop nowMs intervalMs next =
     (if js_le next nowMs then advance_loop nowMs intervalMs (js_add next intervalMs) else Some next)"

definition advancePullNextRun :: "string \<Rightarrow> js_num \<Rightarrow> string \<Rightarrow> (js_error + string) option" where
  "advancePullNextRun from intervalMs now =
     (let nowMs = date_parse now;
          start = (case or_opt (date_parse from) nowMs of None \<Rightarrow> NaN | Some t \<Rightarrow> int_num t);
          next = js_add start intervalMs
      in case nowMs of None \<Rightarrow> Some (num_iso next)
         | Some n \<Rightarrow> map_option num_iso (advance_loop (int_num n) intervalMs next))"

definition advanceRecipePull :: "zone_data \<Rightarrow> recipe_trigger \<Rightarrow> string \<Rightarrow> string \<Rightarrow> (js_error + string) option" where
  "advanceRecipePull z t from now =
     (let step = advancePullNextRun from (or_else (tg_interval_ms t) (int_num PULL_INTERVAL_1H)) now
      in case clock_of z t of None \<Rightarrow> step
         | Some c \<Rightarrow>
             (case next_clock_iso z c (max (or_else (date_parse from) 0) (or_else (date_parse now) 0) + 1) of
                Some s \<Rightarrow> Some (Inr s) | None \<Rightarrow> step))"

subsection \<open>Retries of a pushed start\<close>

definition PUSH_RETRY_DELAYS_MS :: "int list" where
  "PUSH_RETRY_DELAYS_MS = [30000, 120000, 480000]"

definition findWorkItemByUnitKey :: "work_item list \<Rightarrow> string \<Rightarrow> string \<Rightarrow> work_item option" where
  "findWorkItemByUnitKey items threadId unitKey =
     List.find (\<lambda>w. wi_thread_id w = threadId \<and> wi_unit_key w = unitKey) items"

definition shouldRetryFailedPush :: "item_status \<Rightarrow> string \<Rightarrow> nat \<Rightarrow> string \<Rightarrow> bool" where
  "shouldRetryFailedPush status updated_at attempts now =
     (if status \<noteq> ItemFailed then False
      else if 3 \<le> attempts then False
      else case (date_parse now, date_parse updated_at) of
          (Some t, Some u) \<Rightarrow>
            if t - u < 0 then False else PUSH_RETRY_DELAYS_MS ! min attempts (length PUSH_RETRY_DELAYS_MS - 1) \<le> t - u
        | _ \<Rightarrow> False)"
subsection \<open>The search for the next time ends\<close>

text \<open>With a positive interval \<open>n + 1\<close> steps bridge a gap of \<open>n\<close> intervals; with another one the loop, once
  entered, is never left.\<close>

lemma advance_loop_stops: "\<not> js_le next nowMs \<Longrightarrow> advance_loop nowMs step next = Some next"
  by (subst advance_loop.simps) simp

lemma advance_loop_ends:
  fixes x n q :: rat
  assumes q: "0 < q"
  shows "n - x < of_nat m * q \<Longrightarrow> \<exists>y. advance_loop (Num n) (Num q) (Num x) = Some (Num y)
    \<and> n < y \<and> (y = x \<or> y \<le> n + q) \<and> (\<exists>k. y = x + of_nat k * q)"
proof (induction m arbitrary: x)
  case 0
  then show ?case by (auto simp: advance_loop_stops intro: exI[of _ 0])
next
  case (Suc m)
  show ?case
  proof (cases "x \<le> n")
    case True
    then have step: "advance_loop (Num n) (Num q) (Num x) = advance_loop (Num n) (Num q) (Num (x + q))"
      by (subst advance_loop.simps) simp
    have "n - (x + q) < of_nat m * q" using Suc.prems by (simp add: algebra_simps)
    from Suc.IH[OF this] obtain y where "advance_loop (Num n) (Num q) (Num (x + q)) = Some (Num y)"
      "n < y" "y = x + q \<or> y \<le> n + q" and "\<exists>k. y = (x + q) + of_nat k * q" by blast
    moreover from this(4) obtain k where "y = (x + q) + of_nat k * q" ..
    then have "y = x + of_nat (Suc k) * q" by (simp add: algebra_simps)
    moreover have "y \<le> n + q" using True calculation(3) by auto
    ultimately show ?thesis unfolding step by blast
  qed (auto simp: advance_loop_stops intro: exI[of _ 0])
qed

lemma advance_loop_returns:
  fixes x n q :: rat
  assumes "0 < q"
  shows "\<exists>y. advance_loop (Num n) (Num q) (Num x) = Some (Num y) \<and> n < y
    \<and> (y = x \<or> y \<le> n + q) \<and> (\<exists>k. y = x + of_nat k * q)"
proof -
  obtain m :: nat where "(n - x) / q < of_nat m" using reals_Archimedean2 by blast
  then have "n - x < of_nat m * q" using assms by (simp add: pos_divide_less_eq)
  then show ?thesis by (rule advance_loop_ends[OF assms])
qed

definition stuck :: "js_num \<Rightarrow> js_num \<Rightarrow> js_num \<Rightarrow> bool" where
  "stuck nowMs step next \<longleftrightarrow> (\<exists>n q x. nowMs = Num n \<and> step = Num q \<and> next = Num x \<and> q \<le> 0 \<and> x \<le> n)"

lemma stuck_step: "stuck nowMs step next \<Longrightarrow> js_le next nowMs \<and> stuck nowMs step (js_add next step)"
  by (auto simp: stuck_def)

lemma advance_loop_stuck:
  assumes "advance_loop nowMs step next = Some y"
  shows "\<not> stuck nowMs step next"
proof (rule advance_loop.raw_induct[of "\<lambda>w st nx _. \<not> stuck w st nx", OF _ assms])
  fix loop w st nx z
  assume IH: "\<And>w st nx z. loop w st nx = Some z \<Longrightarrow> \<not> stuck w st nx"
    and eq: "(if js_le nx w then loop w st (js_add nx st) else Some nx) = Some z"
  show "\<not> stuck w st nx"
  proof
    assume s: "stuck w st nx"
    then have "loop w st (js_add nx st) = Some z" using eq stuck_step by simp
    from IH[OF this] stuck_step[OF s] show False by simp
  qed
qed

text \<open>\<open>advancePullNextRun\<close> returns exactly when the interval is positive or one step already passes the
  present: with any other interval the loop never ends.\<close>

lemma advance_returns_iff:
  assumes "date_parse from = Some f" and "date_parse now = Some n"
  shows "advancePullNextRun from (Num q) now \<noteq> None \<longleftrightarrow> 0 < q \<or> of_int n < of_int f + q"
proof -
  have split: "advancePullNextRun from (Num q) now = map_option num_iso (advance_loop (Num (of_int n)) (Num q) (Num (of_int f + q)))"
    using assms by (simp add: advancePullNextRun_def int_num_def Let_def)
  show ?thesis
  proof (cases "0 < q")
    case True
    then show ?thesis using advance_loop_returns[OF True, of "of_int n" "of_int f + q"] split by auto
  next
    case False
    show ?thesis
    proof (cases "of_int f + q \<le> (of_int n :: rat)")
      case True
      then have "advance_loop (Num (of_int n)) (Num q) (Num (of_int f + q)) = None"
        using False advance_loop_stuck[of "Num (of_int n)" "Num q" "Num (of_int f + q)"]
        by (cases "advance_loop (Num (of_int n)) (Num q) (Num (of_int f + q))") (auto simp: stuck_def)
      with True False split show ?thesis by simp
    next
      case later: False
      then show ?thesis using split False by (simp add: advance_loop_stops)
    qed
  qed
qed

subsection \<open>A timed recipe always moves on\<close>

lemma legal_interval:
  assumes "isPullIntervalMs i"
  shows "\<exists>n. i = Some (int_num n) \<and> 60000 \<le> n \<and> n \<le> 604800000"
  using assms by (auto simp: isPullIntervalMs_def js_integer_eq_Some PULL_INTERVAL_MIN_MS_def PULL_INTERVAL_MAX_MS_def
      split: option.splits)

lemma num_iso_int [simp]: "\<bar>t\<bar> \<le> max_time \<Longrightarrow> num_iso (int_num t) = Inr (iso_string t)"
proof -
  assume t: "\<bar>t\<bar> \<le> max_time"
  then have "\<bar>of_int t :: rat\<bar> \<le> of_int max_time" by (simp only: of_int_le_iff flip: of_int_abs)
  then show ?thesis using t unfolding int_num_def num_iso.simps floor_of_int ceiling_of_int to_iso_def by simp
qed

lemma date_parse_bound: "date_parse s = Some t \<Longrightarrow> \<bar>t\<bar> \<le> max_time"
  by (simp add: date_parse_def Let_def split: option.splits prod.splits if_splits)

lemma step_moves_on:
  assumes parse: "date_parse from = Some f" "date_parse now = Some n" and i: "60000 \<le> i"
    and range: "max f n + i \<le> max_time"
  shows "\<exists>t. advancePullNextRun from (int_num i) now = Some (Inr (iso_string t)) \<and> \<bar>t\<bar> \<le> max_time
    \<and> f < t \<and> n < t \<and> t \<le> max f n + i"
proof -
  have pos: "0 < (of_int i :: rat)" using i by simp
  obtain y k where y: "advance_loop (Num (of_int n)) (Num (of_int i)) (Num (of_int f + of_int i)) = Some (Num y)"
    "of_int n < y" "y = of_int f + of_int i \<or> y \<le> of_int n + of_int i" "y = (of_int f + of_int i) + of_nat k * of_int i"
    using advance_loop_returns[OF pos, of "of_int n" "of_int f + of_int i"] by blast
  define t where "t = f + i + int k * i"
  have t: "Num y = int_num t" unfolding y(4) by (simp add: t_def int_num_def)
  then have y_is: "y = of_int t" by (simp add: int_num_def)
  have "0 \<le> int k * i" using i by simp
  then have "f < t" using i unfolding t_def by linarith
  moreover have "n < t" using y(2) y_is by simp
  moreover have "t \<le> max f n + i"
    using y(3) unfolding y_is of_int_add[symmetric] of_int_eq_iff of_int_le_iff by linarith
  moreover have "\<bar>f\<bar> \<le> max_time" by (rule date_parse_bound[OF parse(1)])
  ultimately have "\<bar>t\<bar> \<le> max_time" and bounds: "f < t" "n < t" "t \<le> max f n + i" using range by linarith+
  moreover have "advancePullNextRun from (int_num i) now = Some (num_iso (int_num t))"
    using parse y(1) t by (simp add: advancePullNextRun_def int_num_def Let_def)
  ultimately show ?thesis by auto
qed

lemma zoned_range: "zonedParts z t tz = Inr p \<Longrightarrow> \<bar>t\<bar> \<le> max_time"
  by (simp add: zonedParts_def split: if_splits)

lemma next_clock_iso_later:
  assumes "next_clock_iso z c e = Some s"
  shows "\<exists>t. s = iso_string t \<and> \<bar>t\<bar> \<le> max_time \<and> e \<le> t"
proof -
  from assms obtain t where t: "nextClockAtOrAfter z c e = Inr t" "to_iso t = Inr s"
    by (auto simp: next_clock_iso_def split: sum.splits)
  then obtain start where "clock_search z c e start 22 0 = Inr t"
    by (auto simp: nextClockAtOrAfter_def split: sum.splits)
  from clock_search_found[OF this] t(2) show ?thesis by (auto simp: to_iso_def split: if_splits)
qed

lemma normal_interval:
  assumes "tg_kind (normalizeRecipeTrigger z input m) = TriggerPull"
  shows "\<exists>i. tg_interval_ms (normalizeRecipeTrigger z input m) = Some (int_num i) \<and> 60000 \<le> i \<and> i \<le> 604800000"
  using assms legal_interval
  by (auto simp: normalizeRecipeTrigger_def bare_trigger_def with_clock_def PULL_INTERVAL_1H_def Let_def
      split: trigger_kind.splits option.splits if_splits)

text \<open>C35. Every timed recipe as it is stored moves on: for any input the normalised trigger gives, without looping, a
  next time that is strictly later than both the time it fired for and the present.\<close>

theorem timed_recipe_moves_on:
  assumes kind: "tg_kind (normalizeRecipeTrigger z input m) = TriggerPull"
    and parse: "date_parse from = Some f" "date_parse now = Some n"
    and range: "0 \<le> f" "max f n + 604800000 \<le> max_time"
  shows "\<exists>s t. advanceRecipePull z (normalizeRecipeTrigger z input m) from now = Some (Inr s)
    \<and> date_parse s = Some t \<and> f < t \<and> n < t"
proof -
  let ?t = "normalizeRecipeTrigger z input m"
  obtain i where i: "tg_interval_ms ?t = Some (int_num i)" "60000 \<le> i" "i \<le> 604800000"
    using normal_interval[OF kind] by blast
  have step: "\<exists>s t. advancePullNextRun from (int_num i) now = Some (Inr s) \<and> date_parse s = Some t \<and> f < t \<and> n < t"
    using step_moves_on[OF parse i(2)] range(2) i(3) date_parse_iso_string by fastforce
  show ?thesis
  proof (cases "clock_of z ?t")
    case None
    then show ?thesis using step i(1) by (simp add: advanceRecipePull_def Let_def)
  next
    case (Some c)
    show ?thesis
    proof (cases "next_clock_iso z c (max f n + 1)")
      case None
      then show ?thesis using step i(1) Some parse by (simp add: advanceRecipePull_def Let_def)
    next
      case later: (Some s)
      from next_clock_iso_later[OF later] obtain t where "s = iso_string t" "\<bar>t\<bar> \<le> max_time" "max f n + 1 \<le> t" by blast
      moreover from this(3) have "f < t" "n < t" by linarith+
      ultimately show ?thesis using later i(1) Some parse date_parse_iso_string[of t]
        by (simp add: advanceRecipePull_def Let_def)
    qed
  qed
qed
subsection \<open>Witnesses\<close>

lemma advance_returns_iff_witness:
  "advancePullNextRun (iso_string 0) (Num 0) (iso_string 5) = None"
  using advance_returns_iff[of "iso_string 0" 0 "iso_string 5" 5 0]
  by (simp add: date_parse_iso_string max_time_def)

theorem timed_recipe_moves_on_witness:
  "\<exists>s t. advanceRecipePull utc_names (normalizeRecipeTrigger utc_names (Some sample_trigger)
       \<lparr>rm_record_class = None, rm_thread_facet = None, rm_source = None, rm_thread_id = Some ''t'', rm_unit_kind = None,
        rm_text_contains = None, rm_text_excludes = None\<rparr>) (iso_string 0) (iso_string 5) = Some (Inr s)
     \<and> date_parse s = Some t \<and> 0 < t \<and> 5 < t"
proof (rule timed_recipe_moves_on)
  show "tg_kind (normalizeRecipeTrigger utc_names (Some sample_trigger)
       \<lparr>rm_record_class = None, rm_thread_facet = None, rm_source = None, rm_thread_id = Some ''t'', rm_unit_kind = None,
        rm_text_contains = None, rm_text_excludes = None\<rparr>) = TriggerPull"
    by (simp add: normalizeRecipeTrigger_def sample_trigger_def with_clock_def bare_trigger_def Let_def split: option.splits)
qed (simp_all add: date_parse_iso_string max_time_def)

end
