(* ===== verification/Json.thy ===== *)
theory Json
  imports IngestTypes JsNumber
begin

section \<open>JSON\<close>

text \<open>
  \<open>JSON.parse\<close> and the use the program makes of \<open>JSON.stringify\<close> on an array of records of strings, on texts of
  code units below 256. The value of a number is exact. The parser runs on fuel: twice the length of
  the text and two is always enough, because a value and the list it stands in read a character together.
\<close>

subsection \<open>Writing\<close>

definition hex_digit :: "nat \<Rightarrow> char" where
  "hex_digit n = (if n < 10 then char_of (48 + n) else char_of (87 + n))"

definition json_escape :: "char \<Rightarrow> string" where
  "json_escape c =
     (let n = of_char c :: nat
      in if n = 34 then [CHR 0x5C, c]
         else if n = 92 then [CHR 0x5C, c]
         else if n = 8 then [CHR 0x5C, CHR ''b'']
         else if n = 9 then [CHR 0x5C, CHR ''t'']
         else if n = 10 then [CHR 0x5C, CHR ''n'']
         else if n = 12 then [CHR 0x5C, CHR ''f'']
         else if n = 13 then [CHR 0x5C, CHR ''r'']
         else if n < 32 then [CHR 0x5C, CHR ''u'', CHR ''0'', CHR ''0'', hex_digit (n div 16), hex_digit (n mod 16)]
         else [c])"

definition json_body :: "string \<Rightarrow> string" where
  "json_body s = List.concat (List.map json_escape s)"

definition json_quote :: "string \<Rightarrow> string" where
  "json_quote s = CHR 0x22 # json_body s @ [CHR 0x22]"

text \<open>\<open>JSON.stringify\<close>; the text of a number is the parameter \<open>num\<close>.\<close>

fun json_text :: "(rat \<Rightarrow> string) \<Rightarrow> json \<Rightarrow> string" where
  "json_text num JNull = ''null''"
| "json_text num (JBool b) = (if b then ''true'' else ''false'')"
| "json_text num (JNum q) = num q"
| "json_text num (JStr s) = json_quote s"
| "json_text num (JArr vs) = CHR ''['' # js_join (CHR '','') (List.map (json_text num) vs) @ [CHR '']'']"
| "json_text num (JObj fs) = CHR 0x7B # js_join (CHR '','') (List.map (\<lambda>(k, v). json_quote k @ CHR '':'' # json_text num v) fs) @ [CHR 0x7D]"

text \<open>Values without numbers and without repeated keys.\<close>

fun json_plain :: "json \<Rightarrow> bool" where
  "json_plain (JNum q) = False"
| "json_plain (JArr vs) = list_all json_plain vs"
| "json_plain (JObj fs) = (distinct (List.map fst fs) \<and> list_all (\<lambda>(k, v). json_plain v) fs)"
| "json_plain _ = True"

subsection \<open>Reading\<close>

definition json_ws :: "char \<Rightarrow> bool" where
  "json_ws c \<longleftrightarrow> of_char c \<in> {9, 10, 13, 32 :: nat}"

definition skip_ws :: "string \<Rightarrow> string" where
  "skip_ws s = dropWhile json_ws s"

definition hex_value :: "char \<Rightarrow> nat option" where
  "hex_value c =
     (let n = of_char c :: nat
      in if 48 \<le> n \<and> n \<le> 57 then Some (n - 48) else if 65 \<le> n \<and> n \<le> 70 then Some (n - 55)
         else if 97 \<le> n \<and> n \<le> 102 then Some (n - 87) else None)"

fun read_hex4 :: "string \<Rightarrow> (nat \<times> string) option" where
  "read_hex4 (a # b # c # d # s) =
     (case (hex_value a, hex_value b, hex_value c, hex_value d) of
        (Some x, Some y, Some z, Some w) \<Rightarrow> Some (((x * 16 + y) * 16 + z) * 16 + w, s)
      | _ \<Rightarrow> None)"
| "read_hex4 _ = None"

lemma read_hex4_length: "read_hex4 s = Some (n, r) \<Longrightarrow> length r < length s"
  by (induction s rule: read_hex4.induct) (auto split: option.splits)

text \<open>The escapes of one letter.\<close>

definition simple_escape :: "char \<Rightarrow> char option" where
  "simple_escape c =
     (if c = CHR 0x22 \<or> c = CHR 0x5C \<or> c = CHR ''/'' then Some c
      else if c = CHR ''b'' then Some (char_of (8 :: nat)) else if c = CHR ''f'' then Some (char_of (12 :: nat))
      else if c = CHR ''n'' then Some (char_of (10 :: nat)) else if c = CHR ''r'' then Some (char_of (13 :: nat))
      else if c = CHR ''t'' then Some (char_of (9 :: nat)) else None)"

text \<open>The rest of a string literal, after its opening quote.\<close>

function json_chars :: "string \<Rightarrow> (string \<times> string) option" where
  "json_chars [] = None"
| "json_chars (c # s) =
     (if c = CHR 0x22 then Some ([], s)
      else if c = CHR 0x5C then
        (case s of [] \<Rightarrow> None
         | e # t \<Rightarrow>
             if e = CHR ''u'' then
               (case read_hex4 t of None \<Rightarrow> None
                | Some (n, r) \<Rightarrow> map_option (\<lambda>(x, q). (char_of n # x, q)) (json_chars r))
             else (case simple_escape e of None \<Rightarrow> None
                   | Some d \<Rightarrow> map_option (\<lambda>(x, q). (d # x, q)) (json_chars t)))
      else if of_char c < (32 :: nat) then None
      else map_option (\<lambda>(x, q). (c # x, q)) (json_chars s))"
  by pat_completeness auto
termination
  by (relation "measure length") (auto dest: read_hex4_length)

definition all_digits :: "string \<Rightarrow> bool" where
  "all_digits s \<longleftrightarrow> s \<noteq> [] \<and> list_all (\<lambda>c. digit_value c \<noteq> None) s"

definition unsigned_part :: "char set \<Rightarrow> string \<Rightarrow> string" where
  "unsigned_part signs s = (if s \<noteq> [] \<and> hd s \<in> signs then tl s else s)"

definition json_number_form :: "string \<Rightarrow> bool" where
  "json_number_form s =
     (case split_at {CHR ''e'', CHR ''E''} (unsigned_part {CHR ''-''} s) of
        (m, e) \<Rightarrow> (case split_at {CHR ''.''} m of
           (i, f) \<Rightarrow> all_digits i \<and> (length i = 1 \<or> hd i \<noteq> CHR ''0'')
             \<and> (case f of None \<Rightarrow> True | Some d \<Rightarrow> all_digits d)
             \<and> (case e of None \<Rightarrow> True | Some x \<Rightarrow> all_digits (unsigned_part {CHR ''+'', CHR ''-''} x))))"

definition number_char :: "char \<Rightarrow> bool" where
  "number_char c \<longleftrightarrow> digit_value c \<noteq> None \<or> c \<in> {CHR ''+'', CHR ''-'', CHR ''.'', CHR ''e'', CHR ''E''}"

definition json_number :: "string \<Rightarrow> (json \<times> string) option" where
  "json_number s =
     (let tok = takeWhile number_char s
      in if \<not> json_number_form tok then None
         else case js_number tok of Num q \<Rightarrow> Some (JNum q, dropWhile number_char s) | _ \<Rightarrow> None)"

fun json_value :: "nat \<Rightarrow> string \<Rightarrow> (json \<times> string) option"
  and json_items :: "nat \<Rightarrow> string \<Rightarrow> (json list \<times> string) option"
  and json_members :: "nat \<Rightarrow> string \<Rightarrow> ((string \<times> json) list \<times> string) option" where
  "json_value 0 s = None"
| "json_value (Suc n) s =
     (let t = skip_ws s
      in if t = [] then None
         else if hd t = CHR 0x7B then
           (let u = skip_ws (tl t)
            in if u \<noteq> [] \<and> hd u = CHR 0x7D then Some (JObj [], tl u)
               else map_option (\<lambda>(ms, r). (JObj (js_map_of_list ms), r)) (json_members n (tl t)))
         else if hd t = CHR ''['' then
           (let u = skip_ws (tl t)
            in if u \<noteq> [] \<and> hd u = CHR '']'' then Some (JArr [], tl u)
               else map_option (\<lambda>(vs, r). (JArr vs, r)) (json_items n (tl t)))
         else if hd t = CHR 0x22 then map_option (\<lambda>(x, r). (JStr x, r)) (json_chars (tl t))
         else if starts_with ''true'' t then Some (JBool True, drop 4 t)
         else if starts_with ''false'' t then Some (JBool False, drop 5 t)
         else if starts_with ''null'' t then Some (JNull, drop 4 t)
         else json_number t)"
| "json_items 0 s = None"
| "json_items (Suc n) s =
     (case json_value n s of None \<Rightarrow> None
      | Some (v, r) \<Rightarrow>
          let u = skip_ws r
          in if u = [] then None
             else if hd u = CHR '']'' then Some ([v], tl u)
             else if hd u = CHR '','' then map_option (\<lambda>(vs, q). (v # vs, q)) (json_items n (tl u))
             else None)"
| "json_members 0 s = None"
| "json_members (Suc n) s =
     (let t = skip_ws s
      in if t = [] \<or> hd t \<noteq> CHR 0x22 then None
         else case json_chars (tl t) of None \<Rightarrow> None
              | Some (k, r) \<Rightarrow>
                  let c = skip_ws r
                  in if c = [] \<or> hd c \<noteq> CHR '':'' then None
                     else case json_value n (tl c) of None \<Rightarrow> None
                          | Some (v, q) \<Rightarrow>
                              let u = skip_ws q
                              in if u = [] then None
                                 else if hd u = CHR 0x7D then Some ([(k, v)], tl u)
                                 else if hd u = CHR '','' then map_option (\<lambda>(ms, p). ((k, v) # ms, p)) (json_members n (tl u))
                                 else None)"

definition json_parse :: "string \<Rightarrow> json option" where
  "json_parse s =
     (case json_value (2 * length s + 2) s of None \<Rightarrow> None
      | Some (v, r) \<Rightarrow> if skip_ws r = [] then Some v else None)"

declare json_value.simps [simp del] json_items.simps [simp del] json_members.simps [simp del]


subsection \<open>The fuel is enough\<close>

lemma skip_ws_length: "length (skip_ws s) \<le> length s"
  by (simp add: skip_ws_def length_dropWhile_le)

lemma json_chars_length: "json_chars s = Some (x, r) \<Longrightarrow> length r < length s"
proof (induction s arbitrary: x r rule: json_chars.induct)
  case (2 c s)
  then show ?case by (auto split: if_splits list.splits option.splits dest!: read_hex4_length) fastforce+
qed simp

lemma json_number_length: "json_number s = Some (v, r) \<Longrightarrow> length r < length s"
proof -
  assume a: "json_number s = Some (v, r)"
  then have r: "r = dropWhile number_char s" and f: "json_number_form (takeWhile number_char s)"
    by (auto simp: json_number_def Let_def split: if_splits js_num.splits)
  have "takeWhile number_char s \<noteq> []"
    using f by (auto simp: json_number_form_def unsigned_part_def split_at_def all_digits_def)
  then have "0 < length (takeWhile number_char s)" by simp
  moreover have "length (takeWhile number_char s) + length r = length s"
    unfolding r by (metis length_append takeWhile_dropWhile_id)
  ultimately show ?thesis by linarith
qed

lemma json_shorter:
  "json_value n s = Some (v, r) \<Longrightarrow> length r < length s"
  "json_items n s = Some (vs, r) \<Longrightarrow> length r < length s"
  "json_members n s = Some (ms, r) \<Longrightarrow> length r < length s"
proof (induction n arbitrary: s v vs ms r)
  case (Suc n)
  { case 1
    have l: "length (tl (skip_ws s)) < length s" if "skip_ws s \<noteq> []"
      using that skip_ws_length[of s] by (cases "skip_ws s") auto
    have u: "length (tl (skip_ws (tl (skip_ws s)))) \<le> length (tl (skip_ws s))"
      using skip_ws_length[of "tl (skip_ws s)"] by simp
    have d: "skip_ws s \<noteq> [] \<Longrightarrow> length (drop (Suc k) (skip_ws s)) < length s" for k
      using skip_ws_length[of s] by (cases "skip_ws s") auto
    from 1 show ?case
      using l u d[of 3] d[of 4] Suc.IH(2)[of "tl (skip_ws s)"] Suc.IH(3)[of "tl (skip_ws s)"] json_chars_length[of "tl (skip_ws s)"]
        json_number_length[of "skip_ws s"] skip_ws_length[of s]
      by (fastforce simp: json_value.simps Let_def eval_nat_numeral split: if_splits)
  next
    case 2
    then obtain w q where w: "json_value n s = Some (w, q)" by (auto simp: json_items.simps split: option.splits)
    have q: "length q < length s" by (rule Suc.IH(1)[OF w])
    have t: "length (tl (skip_ws q)) \<le> length q" using skip_ws_length[of q] by simp
    from 2 have "r = tl (skip_ws q) \<or> (\<exists>us. json_items n (tl (skip_ws q)) = Some (us, r))"
      by (auto simp: json_items.simps w Let_def split: if_splits)
    then show ?case using q t Suc.IH(2)[of "tl (skip_ws q)"] by fastforce
  next
    case 3
    then obtain k q where k: "json_chars (tl (skip_ws s)) = Some (k, q)" and ne: "skip_ws s \<noteq> []"
      by (auto simp: json_members.simps Let_def split: if_splits option.splits)
    have q: "length q < length s" using json_chars_length[OF k] skip_ws_length[of s] by simp
    from 3 k obtain w p where w: "json_value n (tl (skip_ws q)) = Some (w, p)"
      by (auto simp: json_members.simps Let_def split: if_splits option.splits)
    have p: "length p < length s" using Suc.IH(1)[OF w] skip_ws_length[of q] q by simp
    have t: "length (tl (skip_ws p)) \<le> length p" using skip_ws_length[of p] by simp
    from 3 have "r = tl (skip_ws p) \<or> (\<exists>us. json_members n (tl (skip_ws p)) = Some (us, r))"
      by (auto simp: json_members.simps k w Let_def split: if_splits)
    then show ?case using p t Suc.IH(3)[of "tl (skip_ws p)"] by fastforce
  }
qed (simp_all add: json_value.simps json_items.simps json_members.simps)


lemma json_fuel:
  "2 * length s < n \<Longrightarrow> json_value (Suc n) s = json_value n s"
  "2 * length s + 1 < n \<Longrightarrow> json_items (Suc n) s = json_items n s"
  "2 * length s + 1 < n \<Longrightarrow> json_members (Suc n) s = json_members n s"
proof (induction n arbitrary: s)
  case (Suc n)
  { case 1
    have l: "2 * length (tl (skip_ws s)) + 1 < n" if "skip_ws s \<noteq> []"
      using that skip_ws_length[of s] 1 by (cases "skip_ws s") auto
    then show ?case
      using Suc.IH(2)[of "tl (skip_ws s)"] Suc.IH(3)[of "tl (skip_ws s)"]
      by (simp add: json_value.simps(2)[of "Suc n"] json_value.simps(2)[of n] Let_def)
  next
    case 2
    then have v: "json_value (Suc n) s = json_value n s" by (intro Suc.IH(1)) simp
    show ?case
    proof (cases "json_value n s")
      case (Some wq)
      obtain w q where wq: "wq = (w, q)" by fastforce
      have "length (tl (skip_ws q)) < length s" using json_shorter(1)[of n s w q] Some wq skip_ws_length[of q] by simp
      then have "json_items (Suc n) (tl (skip_ws q)) = json_items n (tl (skip_ws q))" using 2 by (intro Suc.IH(2)) simp
      then show ?thesis using v Some wq by (simp add: json_items.simps(2)[of "Suc n"] json_items.simps(2)[of n] Let_def)
    qed (simp add: json_items.simps v)
  next
    case 3
    show ?case
    proof (cases "json_chars (tl (skip_ws s))")
      case (Some kq)
      obtain k q where kq: "kq = (k, q)" by fastforce
      have q: "length (tl (skip_ws q)) < length s" if "skip_ws s \<noteq> []"
        using json_chars_length[of "tl (skip_ws s)" k q] Some kq skip_ws_length[of s] skip_ws_length[of q] by simp
      have v: "json_value (Suc n) (tl (skip_ws q)) = json_value n (tl (skip_ws q))" if "skip_ws s \<noteq> []"
        using q[OF that] 3 by (intro Suc.IH(1)) simp
      have m: "json_members (Suc n) (tl (skip_ws p)) = json_members n (tl (skip_ws p))"
        if "skip_ws s \<noteq> []" "json_value n (tl (skip_ws q)) = Some (w, p)" for w p
        using json_shorter(1)[OF that(2)] q[OF that(1)] skip_ws_length[of p] 3 by (intro Suc.IH(3)) simp
      show ?thesis using Some kq v m
        by (auto simp: json_members.simps(2)[of "Suc n"] json_members.simps(2)[of n] Let_def split: option.split)
    qed (simp add: json_members.simps Let_def)
  }
qed simp_all

lemma json_fuel_enough: "2 * length s < n \<Longrightarrow> json_value (n + k) s = json_value n s"
  by (induction k) (simp_all add: json_fuel)


subsection \<open>Reading back what was written\<close>

lemma skip_ws_simps [simp]: "skip_ws [] = []" "\<not> json_ws c \<Longrightarrow> skip_ws (c # s) = c # s"
  by (simp_all add: skip_ws_def)

lemma no_ws [simp]: "\<not> json_ws (CHR 0x22)" "\<not> json_ws (CHR 0x7B)" "\<not> json_ws (CHR 0x7D)" "\<not> json_ws (CHR ''['')"
  "\<not> json_ws (CHR '']'')" "\<not> json_ws (CHR '','')" "\<not> json_ws (CHR '':'')"
  by (simp_all add: json_ws_def)

lemma hex_digit_value: "n < 16 \<Longrightarrow> hex_value (hex_digit n) = Some n"
  by (simp add: hex_value_def hex_digit_def Let_def)

lemma json_chars_escape: "json_chars (json_escape c @ s) = map_option (\<lambda>(x, r). (c # x, r)) (json_chars s)"
proof -
  let ?n = "of_char c :: nat"
  have c: "c = char_of ?n" by simp
  have simple: "simple_escape e = Some d \<Longrightarrow> e \<noteq> CHR ''u'' \<Longrightarrow>
      json_chars (CHR 0x5C # e # s) = map_option (\<lambda>(x, r). (d # x, r)) (json_chars s)" for e d by simp
  consider "?n = 34" | "?n = 92" | "?n = 8" | "?n = 9" | "?n = 10" | "?n = 12" | "?n = 13"
    | "?n < 32" "?n \<notin> {8, 9, 10, 12, 13}" | "32 \<le> ?n" "?n \<noteq> 34" "?n \<noteq> 92" by force
  then show ?thesis
  proof cases
    case 1
    then have "of_char c = (of_char (CHR 0x22) :: nat)" by simp
    then have "c = CHR 0x22" by (simp only: of_char_eq_iff)
    then show ?thesis by (simp add: json_escape_def Let_def simple_escape_def)
  next
    case 2
    then have "of_char c = (of_char (CHR 0x5C) :: nat)" by simp
    then have "c = CHR 0x5C" by (simp only: of_char_eq_iff)
    then show ?thesis by (simp add: json_escape_def Let_def simple_escape_def)
  next
    case 8
    have "read_hex4 (CHR ''0'' # CHR ''0'' # hex_digit (?n div 16) # hex_digit (?n mod 16) # s) = Some (?n, s)"
      using 8 by (simp add: hex_digit_value hex_value_def[of "CHR ''0''"])
    then show ?thesis using 8 by (simp add: json_escape_def Let_def)
  next
    case 9
    then have "c \<noteq> CHR 0x22" "c \<noteq> CHR 0x5C" by auto
    with 9 show ?thesis by (simp add: json_escape_def Let_def)
  qed (use c in \<open>simp_all add: json_escape_def Let_def simple_escape_def\<close>)
qed

lemma json_chars_body: "json_chars (json_body s @ CHR 0x22 # r) = Some (s, r)"
  by (induction s) (simp_all add: json_body_def json_chars_escape)

lemma json_read_string: "json_value (Suc n) (json_quote s @ r) = Some (JStr s, r)"
  by (simp add: json_value.simps json_quote_def json_chars_body Let_def)


definition json_string_field :: "string \<Rightarrow> (string \<times> json) list \<Rightarrow> string option" where
  "json_string_field k fs = (case map_of fs k of Some (JStr s) \<Rightarrow> Some s | _ \<Rightarrow> None)"

text \<open>The fields of a record of strings as JSON values.\<close>

definition string_fields :: "(string \<times> string) list \<Rightarrow> (string \<times> json) list" where
  "string_fields fs = List.map (\<lambda>(k, v). (k, JStr v)) fs"

lemma js_map_of_distinct: "distinct (List.map fst m) \<Longrightarrow> js_map_of_list m = m"
proof -
  have *: "distinct (List.map fst (a @ m)) \<Longrightarrow> fold (\<lambda>(k, v). js_set k v) m a = a @ m" for a
  proof (induction m arbitrary: a)
    case (Cons p m)
    obtain k v where p: "p = (k, v)" by fastforce
    have "k \<notin> fst ` set a" using Cons.prems by (auto simp: p)
    then have "js_set k v a = a @ [(k, v)]" by (induction a) auto
    then show ?case using Cons.IH[of "a @ [(k, v)]"] Cons.prems by (simp add: p)
  qed simp
  show "distinct (List.map fst m) \<Longrightarrow> js_map_of_list m = m" using *[of "[]"] by (simp add: js_map_of_list_def)
qed

lemma json_member: "json_members (Suc n) (json_quote k @ CHR '':'' # s) =
  (case json_value n s of None \<Rightarrow> None
   | Some (v, q) \<Rightarrow>
       let u = skip_ws q
       in if u = [] then None else if hd u = CHR 0x7D then Some ([(k, v)], tl u)
          else if hd u = CHR '','' then map_option (\<lambda>(ms, p). ((k, v) # ms, p)) (json_members n (tl u)) else None)"
  by (simp add: json_members.simps(2) json_quote_def json_chars_body Let_def)

text \<open>With enough fuel the text of a value reads as the value, whatever follows.\<close>

definition reads_as :: "string \<Rightarrow> json \<Rightarrow> bool" where
  "reads_as t v \<longleftrightarrow> (\<exists>N. \<forall>n \<ge> N. \<forall>r. json_value n (t @ r) = Some (v, r))"

lemma reads_asI: "(\<And>m r. N \<le> m \<Longrightarrow> json_value (Suc m) (t @ r) = Some (v, r)) \<Longrightarrow> reads_as t v"
  unfolding reads_as_def by (rule exI[of _ "Suc N"]) (auto simp: Suc_le_eq gr0_conv_Suc dest!: less_imp_Suc_add)

lemma items_read_as:
  "vs \<noteq> [] \<Longrightarrow> \<forall>v \<in> set vs. reads_as (f v) v \<Longrightarrow>
   \<exists>N. \<forall>n \<ge> N. \<forall>r. json_items n (js_join (CHR '','') (List.map f vs) @ CHR '']'' # r) = Some (vs, r)"
proof (induction vs)
  case (Cons v vs)
  have "reads_as (f v) v" using Cons.prems(2) by simp
  then obtain N where N: "json_value n (f v @ r) = Some (v, r)" if "N \<le> n" for n r unfolding reads_as_def by blast
  show ?case
  proof (cases vs)
    case Nil
    have "json_items (Suc m) (f v @ CHR '']'' # r) = Some ([v], r)" if "N \<le> m" for m r
      by (simp add: json_items.simps(2) N[OF that] Let_def)
    then show ?thesis using Nil by (intro exI[of _ "Suc N"]) (auto simp: Suc_le_eq dest!: less_imp_Suc_add)
  next
    case (Cons w ws)
    then obtain M where M: "json_items n (js_join (CHR '','') (List.map f vs) @ CHR '']'' # r) = Some (vs, r)" if "M \<le> n" for n r
      using Cons.IH Cons.prems(2) by auto
    have "json_items (Suc m) (f v @ CHR '','' # js_join (CHR '','') (List.map f vs) @ CHR '']'' # r) = Some (v # vs, r)"
      if "max N M \<le> m" for m r using that M[of m r] by (simp add: json_items.simps(2) N Let_def)
    then show ?thesis using Cons by (intro exI[of _ "Suc (max N M)"]) (auto simp: Suc_le_eq dest!: less_imp_Suc_add)
  qed
qed simp

lemma members_read_as:
  "fs \<noteq> [] \<Longrightarrow> \<forall>(k, v) \<in> set fs. reads_as (f v) v \<Longrightarrow>
   \<exists>N. \<forall>n \<ge> N. \<forall>r. json_members n (js_join (CHR '','') (List.map (\<lambda>(k, v). json_quote k @ CHR '':'' # f v) fs) @ CHR 0x7D # r) = Some (fs, r)"
proof (induction fs)
  case (Cons kv fs)
  obtain k v where kv: "kv = (k, v)" by fastforce
  have "reads_as (f v) v" using Cons.prems(2) by (simp add: kv)
  then obtain N where N: "json_value n (f v @ r) = Some (v, r)" if "N \<le> n" for n r unfolding reads_as_def by blast
  show ?case
  proof (cases fs)
    case Nil
    have "json_members (Suc m) (json_quote k @ CHR '':'' # f v @ CHR 0x7D # r) = Some ([(k, v)], r)" if "N \<le> m" for m r
      by (simp add: json_member N[OF that] Let_def)
    then show ?thesis using Nil kv by (intro exI[of _ "Suc N"]) (auto simp: Suc_le_eq dest!: less_imp_Suc_add)
  next
    case (Cons kw ks)
    let ?t = "js_join (CHR '','') (List.map (\<lambda>(k, v). json_quote k @ CHR '':'' # f v) fs)"
    obtain M where M: "json_members n (?t @ CHR 0x7D # r) = Some (fs, r)" if "M \<le> n" for n r
      using Cons Cons.IH Cons.prems(2) by auto
    have "json_members (Suc m) (json_quote k @ CHR '':'' # f v @ CHR '','' # ?t @ CHR 0x7D # r) = Some ((k, v) # fs, r)"
      if "max N M \<le> m" for m r using that M[of m r] by (simp add: json_member N Let_def)
    then show ?thesis using Cons kv by (intro exI[of _ "Suc (max N M)"]) (auto simp: Suc_le_eq dest!: less_imp_Suc_add)
  qed
qed simp

lemma json_words:
  "json_value (Suc n) (''null'' @ r) = Some (JNull, r)"
  "json_value (Suc n) (''true'' @ r) = Some (JBool True, r)"
  "json_value (Suc n) (''false'' @ r) = Some (JBool False, r)"
  by (simp_all add: json_value.simps(2) Let_def json_ws_def starts_with_def)

lemma json_text_start: "json_plain v \<Longrightarrow> \<exists>c s. json_text num v = c # s \<and> \<not> json_ws c \<and> c \<noteq> CHR '']''"
  by (cases v) (auto simp: json_quote_def json_ws_def)

lemma json_text_reads_as: "json_plain v \<Longrightarrow> reads_as (json_text num v) v"
proof (induction num v rule: json_text.induct)
  case (4 num s)
  show ?case by (rule reads_asI[of 0]) (simp add: json_read_string)
next
  case (5 num vs)
  show ?case
  proof (cases vs)
    case Nil
    show ?thesis by (rule reads_asI[of 0]) (simp add: Nil json_value.simps(2) Let_def)
  next
    case (Cons v ws)
    have "\<forall>v \<in> set vs. reads_as (json_text num v) v" using 5 by (auto simp: list_all_iff)
    from items_read_as[OF _ this] Cons obtain N where
      N: "json_items n (js_join (CHR '','') (List.map (json_text num) vs) @ CHR '']'' # r) = Some (vs, r)" if "N \<le> n" for n r by auto
    obtain c s where c: "json_text num v = c # s" "\<not> json_ws c" "c \<noteq> CHR '']''" using json_text_start[of v num] 5(2) Cons by auto
    then have "\<exists>s'. js_join (CHR '','') (List.map (json_text num) vs) @ x = c # s'" for x by (cases ws) (simp_all add: Cons)
    then have "skip_ws (js_join (CHR '','') (List.map (json_text num) vs) @ x) = js_join (CHR '','') (List.map (json_text num) vs) @ x"
      "hd (js_join (CHR '','') (List.map (json_text num) vs) @ x) \<noteq> CHR '']''" for x
      using c by (metis skip_ws_simps(2), metis list.sel(1))
    then show ?thesis by (intro reads_asI[of N]) (simp add: json_value.simps(2) Let_def N)
  qed
next
  case (6 num fs)
  let ?t = "js_join (CHR '','') (List.map (\<lambda>(k, v). json_quote k @ CHR '':'' # json_text num v) fs)"
  have d: "js_map_of_list fs = fs" using 6(2) by (intro js_map_of_distinct) simp
  show ?case
  proof (cases fs)
    case Nil
    show ?thesis by (rule reads_asI[of 0]) (simp add: Nil json_value.simps(2) Let_def)
  next
    case (Cons kv ks)
    have "\<forall>(k, v) \<in> set fs. reads_as (json_text num v) v" using 6 by (fastforce simp: list_all_iff)
    from members_read_as[OF _ this] Cons obtain N where N: "json_members n (?t @ CHR 0x7D # r) = Some (fs, r)" if "N \<le> n" for n r by auto
    have "\<exists>s. ?t @ x = CHR 0x22 # s" for x by (cases kv; cases ks) (simp_all add: Cons json_quote_def)
    then have "skip_ws (?t @ x) = ?t @ x" "hd (?t @ x) = CHR 0x22" for x by (metis no_ws(1) skip_ws_simps(2), metis list.sel(1))
    then show ?thesis by (intro reads_asI[of N]) (simp add: json_value.simps(2) Let_def N d)
  qed
next
  case (1 num)
  show ?case by (rule reads_asI[of 0]) (simp only: json_text.simps json_words)
next
  case (2 num b)
  show ?case by (rule reads_asI[of 0]) (cases b, simp_all only: json_text.simps json_words if_True if_False)
qed simp

lemma json_parse_text: "json_plain v \<Longrightarrow> json_parse (json_text num v) = Some v"
proof -
  assume "json_plain v"
  let ?s = "json_text num v" let ?n = "2 * length ?s + 2"
  from json_text_reads_as[OF \<open>json_plain v\<close>] obtain N where N: "\<And>n r. N \<le> n \<Longrightarrow> json_value n (?s @ r) = Some (v, r)"
    unfolding reads_as_def by blast
  have "json_value (?n + N) ?s = json_value ?n ?s" by (rule json_fuel_enough) simp
  then show ?thesis using N[of "?n + N" "[]"] by (simp add: json_parse_def)
qed

lemma string_fields_plain [simp]: "json_plain (JObj (string_fields fs)) \<longleftrightarrow> distinct (List.map fst fs)"
  by (auto simp: string_fields_def list_all_iff comp_def split_def)

text \<open>An array of records of strings.\<close>

definition json_envelope :: "(string \<times> string) list list \<Rightarrow> string" where
  "json_envelope es = json_text (\<lambda>_. []) (JArr (List.map (\<lambda>fs. JObj (string_fields fs)) es))"

lemma json_parse_envelope:
  "\<forall>fs \<in> set es. distinct (List.map fst fs) \<Longrightarrow>
   json_parse (json_envelope es) = Some (JArr (List.map (\<lambda>fs. JObj (string_fields fs)) es))"
  unfolding json_envelope_def by (rule json_parse_text) (simp add: list_all_iff del: json_plain.simps(3))

end
