(* ===== verification/Surface.thy ===== *)
theory Surface
  imports Json WorkTypes "HOL-Library.Sublist"
begin

section \<open>The surface of a message\<close>

text \<open>
  The metadata part that carries the channel, kind, direction and labels of a message:
  \<open>packages/connector-contract/src/message.ts\<close> builds it (\<open>channelRecord\<close>) and reads it back
  (\<open>surfaceFromParts\<close>); \<open>packages/domain/src/message-contract.ts\<close> reads a stored one again
  (\<open>resolveMessageSurface\<close>). Texts have code units below 256.
\<close>

subsection \<open>Data\<close>

definition SURFACE_MEDIA_TYPE :: string where
  "SURFACE_MEDIA_TYPE = ''application/vnd.regenic.surface+json''"

datatype thread_activity = AwaitingUser | Working

datatype turn_state = TurnOpen | TurnEnded

record message_turn =
  mt_state :: turn_state
  mt_ok :: "bool option"
  mt_reason :: "string option"

record forwarded_from =
  ff_thread_id :: string
  ff_event_ids :: "string list"
  ff_source :: string
  ff_channel_label :: "string option"

text \<open>The thread facet of a surface that was read is whatever the stored value holds.\<close>

record message_surface =
  ms_channel :: string
  ms_kind :: message_kind
  ms_direction :: message_direction
  ms_conversation_label :: "string option"
  ms_conversation_kind :: "string option"
  ms_unit_kind :: "string option"
  ms_actor_label :: "string option"
  ms_activity :: "thread_activity option"
  ms_thread_facet :: "json option"
  ms_type :: "string option"
  ms_turn :: "message_turn option"
  ms_forwarded_from :: "forwarded_from option"
  ms_forwarded_to :: "forwarded_from option"

text \<open>The input of \<open>channelRecord\<close>.\<close>

record channel_input =
  ci_channel :: string
  ci_kind :: message_kind
  ci_direction :: message_direction
  ci_external_id :: string
  ci_occurred_at :: string
  ci_actor_id :: string
  ci_actor_label :: "string option"
  ci_activity :: "thread_activity option"
  ci_turn :: "message_turn option"
  ci_scope_id :: string
  ci_scope_name :: "string option"
  ci_conversation_kind :: "string option"
  ci_unit_kind :: "string option"
  ci_thread_facet :: "thread_facet option"
  ci_type :: "string option"
  ci_parent_external_id :: "string option"
  ci_thread_id :: "string option"
  ci_text :: "string option"
  ci_media_type :: "string option"
  ci_content :: "content_part list option"
  ci_forwarded_from :: "forwarded_from option"
  ci_forwarded_to :: "forwarded_from option"

subsection \<open>Names\<close>

fun kind_name :: "message_kind \<Rightarrow> string" where
  "kind_name KindUser = ''user''"
| "kind_name KindAssistant = ''assistant''"
| "kind_name KindSystem = ''system''"

fun direction_name :: "message_direction \<Rightarrow> string" where
  "direction_name Inbound = ''inbound''"
| "direction_name Outbound = ''outbound''"

fun activity_name :: "thread_activity \<Rightarrow> string" where
  "activity_name AwaitingUser = ''awaiting_user''"
| "activity_name Working = ''working''"

fun facet_name :: "thread_facet \<Rightarrow> string" where
  "facet_name FacetChat = ''chat''"
| "facet_name FacetAgent = ''agent''"
| "facet_name FacetTicket = ''ticket''"

definition parse_kind :: "string option \<Rightarrow> message_kind option" where
  "parse_kind s = (if s = Some ''user'' then Some KindUser else if s = Some ''assistant'' then Some KindAssistant
     else if s = Some ''system'' then Some KindSystem else None)"

definition parse_direction :: "string option \<Rightarrow> message_direction option" where
  "parse_direction s = (if s = Some ''inbound'' then Some Inbound else if s = Some ''outbound'' then Some Outbound else None)"

definition parse_activity :: "string option \<Rightarrow> thread_activity option" where
  "parse_activity s = (if s = Some ''awaiting_user'' then Some AwaitingUser else if s = Some ''working'' then Some Working else None)"

lemma parse_names [simp]:
  "parse_kind (Some (kind_name k)) = Some k"
  "parse_direction (Some (direction_name d)) = Some d"
  "parse_activity (Some (activity_name a)) = Some a"
  by (cases k, simp_all add: parse_kind_def) (cases d, simp_all add: parse_direction_def, cases a, simp_all add: parse_activity_def)

subsection \<open>Building\<close>

text \<open>A field of an object literal that is present only when its value is.\<close>

definition present :: "string \<Rightarrow> ('a \<Rightarrow> json) \<Rightarrow> 'a option \<Rightarrow> (string \<times> json) list" where
  "present k f v = (case v of None \<Rightarrow> [] | Some x \<Rightarrow> [(k, f x)])"

fun turn_state_name :: "turn_state \<Rightarrow> string" where
  "turn_state_name TurnOpen = ''open''"
| "turn_state_name TurnEnded = ''ended''"

definition turn_json :: "message_turn \<Rightarrow> json" where
  "turn_json t = JObj ((''state'', JStr (turn_state_name (mt_state t))) # present ''ok'' JBool (mt_ok t) @ present ''reason'' JStr (mt_reason t))"

definition forwarded_json :: "forwarded_from \<Rightarrow> json" where
  "forwarded_json f = JObj ([(''thread_id'', JStr (ff_thread_id f)), (''event_ids'', JArr (List.map JStr (ff_event_ids f))),
     (''source'', JStr (ff_source f))] @ present ''channel_label'' JStr (ff_channel_label f))"

definition surface_json :: "message_surface \<Rightarrow> json" where
  "surface_json s = JObj ([(''channel'', JStr (ms_channel s)), (''kind'', JStr (kind_name (ms_kind s))),
       (''direction'', JStr (direction_name (ms_direction s)))]
     @ present ''conversation_label'' JStr (ms_conversation_label s) @ present ''conversation_kind'' JStr (ms_conversation_kind s)
     @ present ''unit_kind'' JStr (ms_unit_kind s) @ present ''actor_label'' JStr (ms_actor_label s)
     @ present ''activity'' (\<lambda>a. JStr (activity_name a)) (ms_activity s) @ present ''turn'' turn_json (ms_turn s)
     @ present ''thread_facet'' (\<lambda>v. v) (ms_thread_facet s) @ present ''type'' JStr (ms_type s)
     @ present ''forwarded_from'' forwarded_json (ms_forwarded_from s) @ present ''forwarded_to'' forwarded_json (ms_forwarded_to s))"

definition truthy_text :: "string option \<Rightarrow> string option" where
  "truthy_text v = Option.bind v to_truthy"

definition surface_of_input :: "channel_input \<Rightarrow> message_surface" where
  "surface_of_input i =
     \<lparr>ms_channel = ci_channel i, ms_kind = ci_kind i, ms_direction = ci_direction i,
      ms_conversation_label = truthy_text (ci_scope_name i), ms_conversation_kind = truthy_text (ci_conversation_kind i),
      ms_unit_kind = normalizeUnitKind (ci_unit_kind i), ms_actor_label = truthy_text (ci_actor_label i),
      ms_activity = ci_activity i, ms_thread_facet = map_option (\<lambda>f. JStr (facet_name f)) (ci_thread_facet i),
      ms_type = truthy_text (ci_type i), ms_turn = ci_turn i, ms_forwarded_from = ci_forwarded_from i,
      ms_forwarded_to = ci_forwarded_to i\<rparr>"

definition text_part :: "content_role \<Rightarrow> string \<Rightarrow> string \<Rightarrow> content_part" where
  "text_part role mediaType text = \<lparr>cp_role = role, cp_media_type = mediaType, cp_source_filename = None, cp_bytes = None,
     cp_text = Some text, cp_external_locator = None\<rparr>"

text \<open>\<open>JSON.stringify(surface)\<close>: the surface of an input holds no number.\<close>

definition surface_part :: "message_surface \<Rightarrow> content_part" where
  "surface_part s = text_part RoleMetadata SURFACE_MEDIA_TYPE (json_text (\<lambda>_. []) (surface_json s))"

definition channel_content :: "channel_input \<Rightarrow> content_part list" where
  "channel_content i =
     (let body = or_else (ci_content i) []; hasBody = list_ex (\<lambda>p. cp_role p = RoleBody) body;
          prefixed = (if hasBody then body else case ci_text i of None \<Rightarrow> body
            | Some text \<Rightarrow> text_part RoleBody (or_else (ci_media_type i) ''text/plain'') text # body)
      in prefixed @ [surface_part (surface_of_input i)])"

definition channelRecord :: "channel_input \<Rightarrow> ingest_record" where
  "channelRecord i =
     \<lparr>ir_operation = OpCreate, ir_source = ci_channel i, ir_external_id = ci_external_id i, ir_revision_id = None,
      ir_occurred_at = ci_occurred_at i, ir_actor_id = ci_actor_id i, ir_actor_name = truthy_text (ci_actor_label i),
      ir_scope_id = ci_scope_id i, ir_scope_name = ci_scope_name i, ir_type = or_else (ci_type i) ''message'',
      ir_thread_id = truthy_text (ci_thread_id i), ir_parent_external_id = ci_parent_external_id i,
      ir_content = Some (channel_content i), ir_direction_tags = Some [direction_name (ci_direction i)],
      ir_weight_hints = None, ir_attrs = None\<rparr>"

definition toReplyParts :: "string option \<Rightarrow> (string \<times> string \<times> string) list option \<Rightarrow> content_part list" where
  "toReplyParts text attachments =
     (case text of None \<Rightarrow> [] | Some t \<Rightarrow> if js_trim t = [] then [] else [text_part RoleBody ''text/markdown'' t])
     @ List.map (\<lambda>(filename, mediaType, bytes). \<lparr>cp_role = RoleAttachment, cp_media_type = mediaType, cp_source_filename = Some filename,
         cp_bytes = Some bytes, cp_text = None, cp_external_locator = None\<rparr>) (or_else attachments [])"

subsection \<open>Reading\<close>

definition optionalLabel :: "json option \<Rightarrow> string option" where
  "optionalLabel v = (case v of Some (JStr s) \<Rightarrow> to_truthy (js_trim s) | _ \<Rightarrow> None)"

definition json_truthy :: "json \<Rightarrow> bool" where
  "json_truthy v = (case v of JNull \<Rightarrow> False | JBool b \<Rightarrow> b | JNum q \<Rightarrow> q \<noteq> 0 | JStr s \<Rightarrow> s \<noteq> [] | _ \<Rightarrow> True)"

definition readTurn :: "json option \<Rightarrow> message_turn option" where
  "readTurn v =
     (case v of Some (JObj fs) \<Rightarrow>
          if map_of fs ''state'' = Some (JStr ''open'') then Some \<lparr>mt_state = TurnOpen, mt_ok = None, mt_reason = None\<rparr>
          else if map_of fs ''state'' \<noteq> Some (JStr ''ended'') then None
          else Some \<lparr>mt_state = TurnEnded, mt_ok = Some (map_of fs ''ok'' \<noteq> Some (JBool False)), mt_reason = optionalLabel (map_of fs ''reason'')\<rparr>
      | _ \<Rightarrow> None)"

definition event_id_text :: "json \<Rightarrow> string" where
  "event_id_text v = (case v of JStr s \<Rightarrow> js_trim s | _ \<Rightarrow> [])"

definition readForwardedFrom :: "json option \<Rightarrow> forwarded_from option" where
  "readForwardedFrom v =
     (case v of Some (JObj fs) \<Rightarrow>
          (case (optionalLabel (map_of fs ''thread_id''), optionalLabel (map_of fs ''source''), map_of fs ''event_ids'') of
             (Some threadId, Some source, Some (JArr ids)) \<Rightarrow>
               (let eventIds = List.filter (\<lambda>i. i \<noteq> []) (List.map event_id_text ids)
                in if eventIds = [] then None
                   else Some \<lparr>ff_thread_id = threadId, ff_event_ids = eventIds, ff_source = source, ff_channel_label = None\<rparr>)
           | _ \<Rightarrow> None)
      | _ \<Rightarrow> None)"

text \<open>\<open>readSurface\<close> of a value whose channel, kind and direction were checked.\<close>

definition readSurface :: "string \<Rightarrow> message_kind \<Rightarrow> message_direction \<Rightarrow> (string \<times> json) list \<Rightarrow> message_surface" where
  "readSurface channel kind direction fs =
     \<lparr>ms_channel = js_trim channel, ms_kind = kind, ms_direction = direction,
      ms_conversation_label = optionalLabel (map_of fs ''conversation_label''),
      ms_conversation_kind = optionalLabel (map_of fs ''conversation_kind''),
      ms_unit_kind = optionalLabel (map_of fs ''unit_kind''), ms_actor_label = optionalLabel (map_of fs ''actor_label''),
      ms_activity = parse_activity (json_string_field ''activity'' fs),
      ms_thread_facet = Option.bind (map_of fs ''thread_facet'') (\<lambda>v. if json_truthy v then Some v else None),
      ms_type = optionalLabel (map_of fs ''type''), ms_turn = readTurn (map_of fs ''turn''),
      ms_forwarded_from = readForwardedFrom (map_of fs ''forwarded_from''),
      ms_forwarded_to = readForwardedFrom (map_of fs ''forwarded_to'')\<rparr>"

definition parseSurface :: "string \<Rightarrow> message_surface option" where
  "parseSurface raw =
     (case json_parse raw of
        Some (JObj fs) \<Rightarrow>
          (case (json_string_field ''channel'' fs, parse_kind (json_string_field ''kind'' fs), parse_direction (json_string_field ''direction'' fs)) of
             (Some channel, Some kind, Some direction) \<Rightarrow>
               if js_trim channel = [] then None else Some (readSurface channel kind direction fs)
           | _ \<Rightarrow> None)
      | _ \<Rightarrow> None)"

text \<open>The first metadata part that parses.\<close>

definition surfaceFromParts :: "content_part list \<Rightarrow> message_surface option" where
  "surfaceFromParts parts =
     (case List.map_filter (\<lambda>p. if cp_role p \<noteq> RoleMetadata \<or> cp_media_type p \<noteq> SURFACE_MEDIA_TYPE then None
          else parseSurface (or_else (cp_text p) [])) parts of [] \<Rightarrow> None | s # _ \<Rightarrow> Some s)"

subsection \<open>Reading a stored surface again\<close>

definition clean_turn :: "message_turn \<Rightarrow> message_turn" where
  "clean_turn t = (if mt_state t = TurnOpen then \<lparr>mt_state = TurnOpen, mt_ok = None, mt_reason = None\<rparr>
     else \<lparr>mt_state = TurnEnded, mt_ok = Some (mt_ok t \<noteq> Some False), mt_reason = trim_opt (mt_reason t)\<rparr>)"

definition clean_forwarded :: "forwarded_from \<Rightarrow> forwarded_from option" where
  "clean_forwarded f =
     (let ids = List.filter (\<lambda>i. i \<noteq> []) (List.map js_trim (ff_event_ids f))
      in if js_trim (ff_thread_id f) = [] \<or> js_trim (ff_source f) = [] \<or> ids = [] then None
         else Some \<lparr>ff_thread_id = js_trim (ff_thread_id f), ff_event_ids = ids, ff_source = js_trim (ff_source f), ff_channel_label = None\<rparr>)"

definition readStoredSurface :: "message_surface \<Rightarrow> string \<Rightarrow> message_surface" where
  "readStoredSurface s fallbackChannel =
     \<lparr>ms_channel = or_nonempty (js_trim (ms_channel s)) (or_nonempty fallbackChannel (ms_channel s)), ms_kind = ms_kind s,
      ms_direction = ms_direction s, ms_conversation_label = trim_opt (ms_conversation_label s),
      ms_conversation_kind = trim_opt (ms_conversation_kind s), ms_unit_kind = trim_opt (ms_unit_kind s),
      ms_actor_label = trim_opt (ms_actor_label s), ms_activity = ms_activity s,
      ms_thread_facet = Option.bind (ms_thread_facet s) (\<lambda>v. if json_truthy v then Some v else None),
      ms_type = trim_opt (ms_type s), ms_turn = map_option clean_turn (ms_turn s),
      ms_forwarded_from = Option.bind (ms_forwarded_from s) clean_forwarded,
      ms_forwarded_to = Option.bind (ms_forwarded_to s) clean_forwarded\<rparr>"

definition inferLegacySurface :: "string \<Rightarrow> string \<Rightarrow> message_surface" where
  "inferLegacySurface source externalId =
     (let local = isLocalOutboundId externalId
      in \<lparr>ms_channel = source, ms_kind = (if local then KindUser else KindAssistant), ms_direction = (if local then Outbound else Inbound),
          ms_conversation_label = None, ms_conversation_kind = None, ms_unit_kind = None, ms_actor_label = None, ms_activity = None,
          ms_thread_facet = None, ms_type = None, ms_turn = None, ms_forwarded_from = None, ms_forwarded_to = None\<rparr>)"

definition resolveMessageSurface :: "string \<Rightarrow> string \<Rightarrow> message_surface option \<Rightarrow> message_surface" where
  "resolveMessageSurface source externalId stored =
     (case stored of Some s \<Rightarrow> readStoredSurface s source | None \<Rightarrow> inferLegacySurface source externalId)"

subsection \<open>What was built is read back\<close>

lemma map_of_present: "map_of (present k f v @ m) j = (if j = k \<and> v \<noteq> None then map_option f v else map_of m j)"
  by (simp add: present_def split: option.split)

lemma present_lookup: "map_of (present k f v) j = (if j = k then map_option f v else None)"
  by (simp add: present_def split: option.split)

lemma present_keys: "subseq (List.map fst (present k f v)) [k]"
  by (simp add: present_def split: option.split)

lemma present_plain: "list_all (\<lambda>(k, v). json_plain v) (present k f v) \<longleftrightarrow> (\<forall>x. v = Some x \<longrightarrow> json_plain (f x))"
  by (simp add: present_def split: option.split)

lemma keys_distinct: "subseq (List.map fst m) ks \<Longrightarrow> distinct ks \<Longrightarrow> distinct (List.map fst m)"
  by (auto simp: subseq_conv_nths)

lemma label_of_string [simp]: "optionalLabel (map_option JStr v) = trim_opt v"
  by (simp add: optionalLabel_def trim_opt_def split: option.split)

lemma label_None [simp]: "optionalLabel None = None"
  by (simp add: optionalLabel_def)

lemma turn_plain: "json_plain (turn_json t)"
  by (auto simp: turn_json_def present_def split: option.split)

lemma forwarded_plain: "json_plain (forwarded_json f)"
  by (auto simp: forwarded_json_def present_def list_all_iff split: option.split)

lemma surface_plain: "(\<And>v. ms_thread_facet s = Some v \<Longrightarrow> json_plain v) \<Longrightarrow> json_plain (surface_json s)"
proof -
  assume f: "\<And>v. ms_thread_facet s = Some v \<Longrightarrow> json_plain v"
  have "distinct (List.map fst (case surface_json s of JObj fs \<Rightarrow> fs | _ \<Rightarrow> []))"
  proof (rule keys_distinct)
    show "subseq (List.map fst (case surface_json s of JObj fs \<Rightarrow> fs | _ \<Rightarrow> []))
      ([''channel'', ''kind'', ''direction''] @ [''conversation_label''] @ [''conversation_kind''] @ [''unit_kind''] @ [''actor_label'']
        @ [''activity''] @ [''turn''] @ [''thread_facet''] @ [''type''] @ [''forwarded_from''] @ [''forwarded_to''])"
      unfolding surface_json_def json.case map_append list.map fst_conv
      by (intro list_emb_append_mono present_keys subseq_order.order_refl)
  qed simp
  then show ?thesis using f by (simp add: surface_json_def list_all_append present_plain turn_plain forwarded_plain)
qed

lemma turn_read [simp]: "readTurn (Some (turn_json t)) = Some (clean_turn t)"
  by (cases "mt_state t") (simp_all add: readTurn_def turn_json_def clean_turn_def map_of_present present_lookup del: map_of_append split: option.split, cases "mt_ok t", simp_all)

lemma forwarded_read [simp]: "readForwardedFrom (Some (forwarded_json f)) = clean_forwarded f"
proof -
  have "List.map event_id_text (List.map JStr ids) = List.map js_trim ids" for ids by (simp add: event_id_text_def)
  then show ?thesis
    by (simp add: readForwardedFrom_def forwarded_json_def clean_forwarded_def optionalLabel_def to_truthy_def Let_def del: List.map_map map_map)
qed

lemma reader_None [simp]: "readTurn None = None" "readForwardedFrom None = None"
  by (simp_all add: readTurn_def readForwardedFrom_def)

lemma turn_reads: "readTurn (map_option turn_json v) = map_option clean_turn v"
  by (cases v) simp_all

lemma forwarded_reads: "readForwardedFrom (map_option forwarded_json v) = Option.bind v clean_forwarded"
  by (cases v) simp_all

lemma parse_surface_json:
  assumes "js_trim (ms_channel s) \<noteq> []" and "\<And>v. ms_thread_facet s = Some v \<Longrightarrow> json_plain v"
  shows "parseSurface (json_text num (surface_json s)) = Some (readStoredSurface s other)"
proof -
  obtain fs where fs: "surface_json s = JObj fs" by (simp add: surface_json_def)
  have get: "map_of fs ''channel'' = Some (JStr (ms_channel s))" "map_of fs ''kind'' = Some (JStr (kind_name (ms_kind s)))"
    "map_of fs ''direction'' = Some (JStr (direction_name (ms_direction s)))"
    "map_of fs ''conversation_label'' = map_option JStr (ms_conversation_label s)"
    "map_of fs ''conversation_kind'' = map_option JStr (ms_conversation_kind s)"
    "map_of fs ''unit_kind'' = map_option JStr (ms_unit_kind s)" "map_of fs ''actor_label'' = map_option JStr (ms_actor_label s)"
    "map_of fs ''activity'' = map_option (\<lambda>a. JStr (activity_name a)) (ms_activity s)" "map_of fs ''turn'' = map_option turn_json (ms_turn s)"
    "map_of fs ''thread_facet'' = ms_thread_facet s" "map_of fs ''type'' = map_option JStr (ms_type s)"
    "map_of fs ''forwarded_from'' = map_option forwarded_json (ms_forwarded_from s)"
    "map_of fs ''forwarded_to'' = map_option forwarded_json (ms_forwarded_to s)"
    using fs by (auto simp: surface_json_def map_of_present present_lookup option.map_ident simp del: map_of_append)
  have "json_parse (json_text num (surface_json s)) = Some (JObj fs)"
    using json_parse_text[OF surface_plain, of s num] assms(2) unfolding fs by blast
  then show ?thesis using assms(1)
    by (cases "ms_activity s")
      (simp_all add: parseSurface_def json_string_field_def get readSurface_def readStoredSurface_def turn_reads forwarded_reads or_nonempty_def
        parse_activity_def[of None])
qed

lemma trim_opt_idem [simp]: "trim_opt (trim_opt v) = trim_opt v"
  by (auto simp: trim_opt_def to_truthy_def split: option.split)

lemma clean_forwarded_idem: "Option.bind (clean_forwarded f) clean_forwarded = clean_forwarded f"
proof -
  let ?ids = "List.filter (\<lambda>i. i \<noteq> []) (List.map js_trim (ff_event_ids f))"
  have "List.map js_trim ?ids = ?ids" by (rule map_idI) auto
  then have "List.filter (\<lambda>i. i \<noteq> []) (List.map js_trim ?ids) = ?ids" by simp
  then show ?thesis by (simp add: clean_forwarded_def Let_def)
qed

lemma stored_surface_again:
  "js_trim (ms_channel s) \<noteq> [] \<Longrightarrow> readStoredSurface (readStoredSurface s a) b = readStoredSurface s a"
proof -
  have "map_option clean_turn (map_option clean_turn t) = map_option clean_turn t" for t
    by (cases t) (auto simp: clean_turn_def)
  moreover have "Option.bind (Option.bind f clean_forwarded) clean_forwarded = Option.bind f clean_forwarded" for f
    by (cases f) (simp_all add: clean_forwarded_idem)
  moreover have "Option.bind (Option.bind f (\<lambda>v. if json_truthy v then Some v else None)) (\<lambda>v. if json_truthy v then Some v else None)
      = Option.bind f (\<lambda>v. if json_truthy v then Some v else None)" for f
    by (cases f) simp_all
  ultimately show "js_trim (ms_channel s) \<noteq> [] \<Longrightarrow> ?thesis" by (simp add: readStoredSurface_def or_nonempty_def)
qed

lemma map_filter_append: "List.map_filter f (xs @ ys) = List.map_filter f xs @ List.map_filter f ys"
  by (simp add: List.map_filter_def)

lemma no_surface_parts:
  "\<forall>p \<in> set ps. cp_role p \<noteq> RoleMetadata \<or> cp_media_type p \<noteq> SURFACE_MEDIA_TYPE \<Longrightarrow> surfaceFromParts (ps @ [q]) = surfaceFromParts [q]"
proof -
  assume "\<forall>p \<in> set ps. cp_role p \<noteq> RoleMetadata \<or> cp_media_type p \<noteq> SURFACE_MEDIA_TYPE"
  then have "List.map_filter (\<lambda>p. if cp_role p \<noteq> RoleMetadata \<or> cp_media_type p \<noteq> SURFACE_MEDIA_TYPE then None
      else parseSurface (or_else (cp_text p) [])) ps = []" by (induction ps) auto
  then show ?thesis unfolding surfaceFromParts_def map_filter_append by simp
qed

lemma surface_of_part: "surfaceFromParts [surface_part s] = parseSurface (json_text (\<lambda>_. []) (surface_json s))"
  by (simp add: surfaceFromParts_def surface_part_def text_part_def split: option.split)

text \<open>C19. The record a driver builds carries its surface through storage: when the channel is not blank and the
  content brings no surface part of its own, the parts of the record read back as the surface of the input with
  its labels trimmed, whatever characters the labels hold, and resolving the surface that was read changes
  nothing.\<close>

theorem channel_record_reads_back:
  assumes "js_trim (ci_channel i) \<noteq> []"
    and "\<forall>p \<in> set (or_else (ci_content i) []). cp_role p \<noteq> RoleMetadata \<or> cp_media_type p \<noteq> SURFACE_MEDIA_TYPE"
  shows "surfaceFromParts (or_else (ir_content (channelRecord i)) []) = Some (readStoredSurface (surface_of_input i) source)
    \<and> resolveMessageSurface source externalId (surfaceFromParts (or_else (ir_content (channelRecord i)) []))
      = readStoredSurface (surface_of_input i) source"
proof -
  have c: "js_trim (ms_channel (surface_of_input i)) \<noteq> []" using assms(1) by (simp add: surface_of_input_def)
  have f: "json_plain v" if "ms_thread_facet (surface_of_input i) = Some v" for v
    using that by (auto simp: surface_of_input_def)
  obtain ps where ps: "channel_content i = ps @ [surface_part (surface_of_input i)]"
    and none: "\<forall>p \<in> set ps. cp_role p \<noteq> RoleMetadata \<or> cp_media_type p \<noteq> SURFACE_MEDIA_TYPE"
  proof
    let ?body = "or_else (ci_content i) []"
    let ?ps = "if list_ex (\<lambda>p. cp_role p = RoleBody) ?body then ?body else case ci_text i of None \<Rightarrow> ?body
        | Some t \<Rightarrow> text_part RoleBody (or_else (ci_media_type i) ''text/plain'') t # ?body"
    show "channel_content i = ?ps @ [surface_part (surface_of_input i)]" by (simp add: channel_content_def Let_def)
    show "\<forall>p \<in> set ?ps. cp_role p \<noteq> RoleMetadata \<or> cp_media_type p \<noteq> SURFACE_MEDIA_TYPE"
      using assms(2) by (simp add: text_part_def split: option.split)
  qed
  have "surfaceFromParts (or_else (ir_content (channelRecord i)) []) = Some (readStoredSurface (surface_of_input i) source)"
    using no_surface_parts[OF none, of "surface_part (surface_of_input i)"] parse_surface_json[OF c f, of "\<lambda>_. []" source]
    by (simp add: channelRecord_def ps surface_of_part)
  then show ?thesis using stored_surface_again[OF c, of source source] by (simp add: resolveMessageSurface_def)
qed

definition sample_channel_input :: channel_input where
  "sample_channel_input = \<lparr>ci_channel = ''feishu'', ci_kind = KindUser, ci_direction = Inbound, ci_external_id = ''c:m'',
     ci_occurred_at = ''t'', ci_actor_id = ''u'', ci_actor_label = Some '' A '', ci_activity = Some Working,
     ci_turn = Some \<lparr>mt_state = TurnEnded, mt_ok = None, mt_reason = Some ''x''\<rparr>, ci_scope_id = ''s'', ci_scope_name = Some [CHR 0x22],
     ci_conversation_kind = None, ci_unit_kind = None, ci_thread_facet = Some FacetAgent, ci_type = None,
     ci_parent_external_id = None, ci_thread_id = None, ci_text = Some ''hi'', ci_media_type = None, ci_content = None,
     ci_forwarded_from = None, ci_forwarded_to = None\<rparr>"

lemma channel_record_reads_back_witness:
  "\<exists>s. surfaceFromParts (or_else (ir_content (channelRecord sample_channel_input)) []) = Some s \<and> ms_actor_label s = Some ''A''"
proof -
  have "js_trim (ci_channel sample_channel_input) \<noteq> []" by code_simp
  moreover have "\<forall>p \<in> set (or_else (ci_content sample_channel_input) []). cp_role p \<noteq> RoleMetadata \<or> cp_media_type p \<noteq> SURFACE_MEDIA_TYPE"
    by (simp add: sample_channel_input_def)
  moreover have "ms_actor_label (readStoredSurface (surface_of_input sample_channel_input) ''feishu'') = Some ''A''" by code_simp
  ultimately show ?thesis using channel_record_reads_back[of sample_channel_input "''feishu''" "''c:m''"] by simp
qed

end
