(* ===== verification/Inbox.thy ===== *)
theory Inbox
  imports IngestTypes JsNumber
begin

section \<open>The inbox\<close>

text \<open>
  \<open>packages/domain/src/inbox-query.ts\<close> with the decisions of \<open>arrangement.ts\<close>: which events a query
  matches, which event is the face of a conversation, which page of them is shown, and the digest by which
  a client sees that its inbox is out of date. A missing query is \<open>no_query\<close>: the code reads every field of
  a query through \<open>?.\<close>.
\<close>

subsection \<open>Decisions and items\<close>

datatype disposition = CurrentWork | OutsideCurrentWork | DispositionPending

datatype message_layer = L1Event

record arrangement_decision =
  ad_event_id :: string
  ad_org_id :: string
  ad_disposition :: disposition
  ad_layer :: message_layer
  ad_reason_codes :: "string list"
  ad_score :: rat
  ad_decided_at :: string

record inbox_item =
  ii_decision :: arrangement_decision
  ii_event :: event_record

definition isTaskInboxItem :: "inbox_item \<Rightarrow> bool" where
  "isTaskInboxItem i \<longleftrightarrow> ''task'' \<in> set (ad_reason_codes (ii_decision i))"

text \<open>An inbox item has no \<open>activity\<close>: only its reasons make it a status.\<close>

definition isThreadStatusItem :: "inbox_item \<Rightarrow> bool" where
  "isThreadStatusItem i \<longleftrightarrow> ''thread_status'' \<in> set (ad_reason_codes (ii_decision i))"

subsection \<open>Queries\<close>

datatype list_view = ListShown | ListHidden

record event_query =
  eq_source :: "string option"
  eq_target :: "string option"
  eq_since :: "string option"
  eq_since_id :: "string option"
  eq_before :: "string option"
  eq_before_id :: "string option"
  eq_occurred_since :: "string option"
  eq_thread_ids :: "string list option"
  eq_limit :: "js_num option"
  eq_recent :: bool

record inbox_query = event_query +
  iq_heads :: bool
  iq_needs_work :: bool
  iq_tasks :: bool
  iq_siblings :: bool
  iq_disposition :: "disposition option"
  iq_list :: "string option"

definition no_query :: inbox_query where
  "no_query = \<lparr>eq_source = None, eq_target = None, eq_since = None, eq_since_id = None, eq_before = None,
     eq_before_id = None, eq_occurred_since = None, eq_thread_ids = None, eq_limit = None, eq_recent = False,
     iq_heads = False, iq_needs_work = False, iq_tasks = False, iq_siblings = False, iq_disposition = None,
     iq_list = None\<rparr>"

definition normalizeInboxListView :: "string option \<Rightarrow> list_view" where
  "normalizeInboxListView value = (if value = Some ''hidden'' \<or> value = Some ''done'' then ListHidden else ListShown)"

definition isBeforeEvent :: "event_record \<Rightarrow> string \<Rightarrow> string \<Rightarrow> bool" where
  "isBeforeEvent e before beforeId =
     (if ev_occurred_at e < before then True else ev_occurred_at e = before \<and> ev_id e < beforeId)"

definition matchesEventQuery :: "event_record \<Rightarrow> string \<Rightarrow> 'a event_query_scheme \<Rightarrow> bool" where
  "matchesEventQuery e orgId q =
     (if ev_org_id e \<noteq> orgId then False
      else if truthy (eq_source q) \<and> Some (ev_source e) \<noteq> eq_source q then False
      else if truthy (eq_target q) \<and> Some (ev_external_id e) \<noteq> eq_target q
              \<and> \<not> starts_with (or_else (eq_target q) [] @ '':'') (ev_external_id e) then False
      else if (case eq_thread_ids q of None \<Rightarrow> False | Some ids \<Rightarrow> ids = [] \<or> eventThreadId e \<notin> set ids) then False
      else if truthy (eq_since q) \<and> ev_ingested_at e < or_else (eq_since q) [] then False
      else if truthy (eq_since q) \<and> Some (ev_ingested_at e) = eq_since q \<and> ev_id e \<le> or_else (eq_since_id q) [] then False
      else if truthy (eq_before q) \<and> \<not> isBeforeEvent e (or_else (eq_before q) []) (or_else (eq_before_id q) []) then False
      else if truthy (eq_occurred_since q) \<and> ev_occurred_at e < or_else (eq_occurred_since q) [] then False
      else True)"

definition INBOX_PAGE_MAX :: int where "INBOX_PAGE_MAX = 200"

definition normalizeInboxLimit :: "js_num option \<Rightarrow> int option" where
  "normalizeInboxLimit value =
     (case value of None \<Rightarrow> None
      | Some x \<Rightarrow> (case js_integer x of None \<Rightarrow> None | Some limit \<Rightarrow> if limit < 1 then None else Some (min limit INBOX_PAGE_MAX)))"

definition compareOccurredAt :: "event_record \<Rightarrow> event_record \<Rightarrow> int" where
  "compareOccurredAt l r =
     (if ev_occurred_at l \<noteq> ev_occurred_at r then if ev_occurred_at l < ev_occurred_at r then -1 else 1
      else if ev_id l < ev_id r then -1 else 1)"

text \<open>The rank of an item: its time, its id, and then its position.\<close>

definition compare_ranked :: "('a \<Rightarrow> event_record) \<Rightarrow> 'a \<times> nat \<Rightarrow> 'a \<times> nat \<Rightarrow> int" where
  "compare_ranked event l r = cmp_then (compareOccurredAt (event (fst l)) (event (fst r))) (int (snd l) - int (snd r))"

definition takeRecentInboxItems :: "('a \<Rightarrow> event_record) \<Rightarrow> 'q event_query_scheme \<Rightarrow> 'a list \<Rightarrow> 'a list" where
  "takeRecentInboxItems event q items =
     (let selected = (if truthy (eq_before q)
            then List.filter (\<lambda>i. isBeforeEvent (event i) (or_else (eq_before q) []) (or_else (eq_before_id q) [])) items
            else items)
      in case normalizeInboxLimit (eq_limit q) of
           None \<Rightarrow> selected
         | Some limit \<Rightarrow>
             if int (length selected) \<le> limit then selected
             else let ranked = js_sort (compare_ranked event) (List.zip selected [0..<length selected])
               in List.map fst (drop (length ranked - nat limit) ranked))"

definition headsScanQuery :: "inbox_query \<Rightarrow> inbox_query" where
  "headsScanQuery q =
     (if \<not> iq_heads q then q
      else q\<lparr>eq_before := None, eq_before_id := None, eq_since := None, eq_since_id := None, eq_limit := None\<rparr>)"

subsection \<open>The face of a conversation\<close>

definition isNewerEvent :: "event_record \<Rightarrow> event_record \<Rightarrow> bool" where
  "isNewerEvent l r \<longleftrightarrow> ev_occurred_at r < ev_occurred_at l \<or> ev_occurred_at l = ev_occurred_at r \<and> ev_id r < ev_id l"

definition latestByThread :: "('a \<Rightarrow> event_record) \<Rightarrow> 'a list \<Rightarrow> 'a list" where
  "latestByThread event items =
     js_values (fold (\<lambda>item best.
        let tid = eventThreadId (event item)
        in case map_of best tid of
             None \<Rightarrow> js_set tid item best
           | Some current \<Rightarrow> if isNewerEvent (event item) (event current) then js_set tid item best else best) items [])"

definition pick_face :: "('a \<Rightarrow> event_record) \<Rightarrow> ('a \<Rightarrow> bool) \<Rightarrow> 'a \<Rightarrow> 'a option \<Rightarrow> 'a option" where
  "pick_face event isStatus item face =
     (if \<not> isStatus item \<and> ev_operation (event item) \<noteq> OpTombstone
         \<and> (case face of None \<Rightarrow> True | Some f \<Rightarrow> isNewerEvent (event item) (event f))
      then Some item else face)"

definition headsByThread :: "('a \<Rightarrow> event_record) \<Rightarrow> ('a \<Rightarrow> bool) \<Rightarrow> 'a list \<Rightarrow> 'a list" where
  "headsByThread event isStatus items =
     List.map_filter (\<lambda>bucket. fold (pick_face event isStatus) bucket None)
       (js_values (js_group (\<lambda>i. eventThreadId (event i)) items))"

definition hasEventFilter :: "'a event_query_scheme \<Rightarrow> bool" where
  "hasEventFilter q \<longleftrightarrow> truthy (eq_source q) \<or> truthy (eq_target q) \<or> truthy (eq_since q) \<or> truthy (eq_before q)
     \<or> (case eq_thread_ids q of None \<Rightarrow> False | Some ids \<Rightarrow> ids \<noteq> [])"

definition selectInboxItems :: "inbox_query \<Rightarrow> inbox_item list \<Rightarrow> inbox_item list" where
  "selectInboxItems q items =
     (let s1 = (if hasEventFilter q
            then List.filter (\<lambda>i. matchesEventQuery (ii_event i) (ev_org_id (ii_event i)) q) items else items);
          s2 = (if \<not> iq_heads q then s1
            else if normalizeInboxListView (iq_list q) = ListHidden then headsByThread ii_event isThreadStatusItem s1
            else let openThreads = List.map (\<lambda>i. eventThreadId (ii_event i))
                       (List.filter (\<lambda>i. ad_disposition (ii_decision i) = CurrentWork) s1)
                 in headsByThread ii_event isThreadStatusItem
                      (List.filter (\<lambda>i. eventThreadId (ii_event i) \<in> set openThreads) s1));
          s3 = (if iq_tasks q then List.filter isTaskInboxItem s2 else s2)
      in takeRecentInboxItems ii_event q s3)"

subsection \<open>The digest\<close>

record digest_parts =
  dg_count :: int
  dg_latest_at :: string
  dg_latest_id :: string
  dg_pref_count :: int
  dg_pref_updated_at :: string
  dg_work_updated_at :: string
  dg_surface_generation :: string

definition squash_trim :: "string \<Rightarrow> string" where
  "squash_trim s = js_trim (squash_spaces s)"

definition formatInboxDigest ::
  "int \<Rightarrow> string option \<Rightarrow> string option \<Rightarrow> int option \<Rightarrow> string option \<Rightarrow> string option \<Rightarrow> string option \<Rightarrow> string" where
  "formatInboxDigest threads latest_at latest_id pref_count pref_updated_at work_updated_at surface_generation =
     (let base = int_string threads @ '':'' @ or_else latest_at [] @ '':'' @ or_else latest_id [] @ '':''
            @ int_string (or_else pref_count 0) @ '':'' @ or_else pref_updated_at [];
          work = (case work_updated_at of None \<Rightarrow> [] | Some w \<Rightarrow> squash_trim w);
          withWork = (if work \<noteq> [] then base @ ''&w='' @ work else base);
          surface = (case surface_generation of None \<Rightarrow> [] | Some s \<Rightarrow> squash_trim s)
      in if surface \<noteq> [] then withWork @ ''&s='' @ surface else withWork)"

text \<open>\<open>\d{4}-\d{2}-\d{2}T\d{2}:\d{2}:\d{2}(?:\.\d+)?Z\<close>\<close>

definition is_digit :: "char \<Rightarrow> bool" where
  "is_digit c \<longleftrightarrow> digit_value c \<noteq> None"

definition iso_form :: "string \<Rightarrow> bool" where
  "iso_form s \<longleftrightarrow> 20 \<le> length s
     \<and> (\<forall>i \<in> {0, 1, 2, 3, 5, 6, 8, 9, 11, 12, 14, 15, 17, 18}. is_digit (s ! i))
     \<and> s ! 4 = CHR ''-'' \<and> s ! 7 = CHR ''-'' \<and> s ! 10 = CHR ''T'' \<and> s ! 13 = CHR '':'' \<and> s ! 16 = CHR '':''
     \<and> last s = CHR ''Z''
     \<and> (let f = butlast (drop 19 s) in f = [] \<or> hd f = CHR ''.'' \<and> tl f \<noteq> [] \<and> list_all is_digit (tl f))"

text \<open>The greedy group of the match: the last colon that an ISO stamp follows.\<close>

fun peel_iso :: "string \<Rightarrow> (string \<times> string) option" where
  "peel_iso [] = None"
| "peel_iso (c # s) =
     (case peel_iso s of
        Some (h, t) \<Rightarrow> Some (c # h, t)
      | None \<Rightarrow> if c = CHR '':'' \<and> iso_form s then Some ([], s) else None)"

definition peelInboxDigestTail :: "string \<Rightarrow> string \<times> string" where
  "peelInboxDigestTail base =
     (if base \<noteq> [] \<and> last base = CHR '':'' then (butlast base, [])
      else case peel_iso base of
          Some p \<Rightarrow> p
        | None \<Rightarrow> (case last_index (CHR '':'') base of
              None \<Rightarrow> ([], base) | Some k \<Rightarrow> (take k base, drop (Suc k) base)))"

definition natural_number :: "string \<Rightarrow> int option" where
  "natural_number s = (case js_integer (js_number s) of None \<Rightarrow> None | Some n \<Rightarrow> if n < 0 then None else Some n)"

definition first_index :: "char \<Rightarrow> string \<Rightarrow> nat option" where
  "first_index c s = (if c \<in> set s then Some (length (takeWhile (\<lambda>d. d \<noteq> c) s)) else None)"

definition parseInboxDigestBase :: "string \<Rightarrow> (int \<times> string \<times> string \<times> int \<times> string \<times> string list) option" where
  "parseInboxDigestBase value =
     (let trimmed = squash_trim value
      in if trimmed = [] then None
         else let flags = js_split (CHR ''&'') trimmed; (head, tail) = peelInboxDigestTail (hd flags)
           in case last_index (CHR '':'') head of None \<Rightarrow> None
              | Some prefCountSep \<Rightarrow>
                  let prefCount = natural_number (drop (Suc prefCountSep) head); left = take prefCountSep head
                  in case first_index (CHR '':'') left of None \<Rightarrow> None
                     | Some countSep \<Rightarrow>
                         let threads = natural_number (take countSep left); middle = drop (Suc countSep) left
                         in case last_index (CHR '':'') middle of None \<Rightarrow> None
                            | Some idSep \<Rightarrow>
                                (case (threads, prefCount) of
                                   (Some c, Some p) \<Rightarrow> Some (c, take idSep middle, drop (Suc idSep) middle, p, tail, tl flags)
                                 | _ \<Rightarrow> None))"

definition flag_value :: "string \<Rightarrow> string list \<Rightarrow> string" where
  "flag_value name flags = fold (\<lambda>flag v. if starts_with name flag then drop 2 flag else v) flags []"

definition parseInboxDigest :: "string \<Rightarrow> digest_parts option" where
  "parseInboxDigest value =
     (case parseInboxDigestBase value of None \<Rightarrow> None
      | Some (threads, latest_at, latest_id, pref_count, pref_updated_at, flags) \<Rightarrow>
          Some \<lparr>dg_count = threads, dg_latest_at = latest_at, dg_latest_id = latest_id, dg_pref_count = pref_count,
            dg_pref_updated_at = pref_updated_at, dg_work_updated_at = flag_value ''w='' flags,
            dg_surface_generation = flag_value ''s='' flags\<rparr>)"

definition inboxDigestEventOrPrefChanged :: "digest_parts \<Rightarrow> digest_parts \<Rightarrow> bool" where
  "inboxDigestEventOrPrefChanged p n \<longleftrightarrow> dg_count p \<noteq> dg_count n \<or> dg_latest_at p \<noteq> dg_latest_at n
     \<or> dg_latest_id p \<noteq> dg_latest_id n \<or> dg_pref_count p \<noteq> dg_pref_count n
     \<or> dg_pref_updated_at p \<noteq> dg_pref_updated_at n"

text \<open>A map of strings by a literal escape for a \<open>LIKE\<close> pattern.\<close>

fun escapeLikeLiteral :: "string \<Rightarrow> string" where
  "escapeLikeLiteral [] = []"
| "escapeLikeLiteral (c # s) =
     (if c = CHR 0x5C \<or> c = CHR ''%'' \<or> c = CHR ''_'' then CHR 0x5C # c # escapeLikeLiteral s else c # escapeLikeLiteral s)"

definition threadExternalIdLike :: "string \<Rightarrow> string" where
  "threadExternalIdLike target = escapeLikeLiteral target @ '':%''"

definition threadKey :: "event_record \<Rightarrow> string" where
  "threadKey e =
     (if ev_source e \<noteq> [] \<and> ev_external_id e \<noteq> [] then conversationId (ev_source e) (ev_external_id e) (ev_id e) else ev_id e)"

text \<open>The loop over the items: the latest event and its id.\<close>

definition digest_latest :: "event_record list \<Rightarrow> string \<times> string" where
  "digest_latest events = fold (\<lambda>e (latestAt, latestId).
     if latestAt < ev_ingested_at e \<or> ev_ingested_at e = latestAt \<and> latestId < ev_id e
     then (ev_ingested_at e, ev_id e) else (latestAt, latestId)) events ([], [])"

definition digest_prefs :: "string list \<Rightarrow> string" where
  "digest_prefs updated = fold (\<lambda>u latest. if latest < u then u else latest) updated []"

definition inboxDigest :: "event_record list \<Rightarrow> string list \<Rightarrow> string" where
  "inboxDigest events prefs =
     (let threads = js_unique (List.map threadKey events); (latestAt, latestId) = digest_latest events
      in formatInboxDigest (int (length threads)) (Some latestAt) (Some latestId) (Some (int (length prefs)))
           (Some (digest_prefs prefs)) None None)"

record inbox_summary =
  is_count :: int
  is_hidden_count :: int
  is_digest :: string

definition summarizeInboxItems :: "inbox_item list \<Rightarrow> string list \<Rightarrow> inbox_summary" where
  "summarizeInboxItems items prefs =
     (let withFace = js_unique (List.map (\<lambda>i. eventThreadId (ii_event i))
            (List.filter (\<lambda>i. \<not> isThreadStatusItem i \<and> ev_operation (ii_event i) \<noteq> OpTombstone) items));
          listable = List.filter (\<lambda>i. eventThreadId (ii_event i) \<in> set withFace) items
      in \<lparr>is_count = int (length withFace), is_hidden_count = 0, is_digest = inboxDigest (List.map ii_event listable) prefs\<rparr>)"

subsection \<open>Heads are faces\<close>

text \<open>An event is newer than another in the order of times and ids: a strict order that is total on distinct ids.\<close>

lemma newer_trans: "isNewerEvent a b \<Longrightarrow> isNewerEvent b c \<Longrightarrow> isNewerEvent a c"
  by (auto simp: isNewerEvent_def)

lemma newer_irrefl [simp]: "\<not> isNewerEvent a a"
  by (simp add: isNewerEvent_def)

lemma newer_total: "ev_id a \<noteq> ev_id b \<Longrightarrow> isNewerEvent a b \<or> isNewerEvent b a"
  by (auto simp: isNewerEvent_def)

lemma newer_weak_trans: "isNewerEvent a b \<Longrightarrow> \<not> isNewerEvent c b \<Longrightarrow> \<not> isNewerEvent c a"
  by (auto simp: isNewerEvent_def)

abbreviation face_of :: "('a \<Rightarrow> event_record) \<Rightarrow> ('a \<Rightarrow> bool) \<Rightarrow> 'a list \<Rightarrow> 'a option" where
  "face_of event isStatus bucket \<equiv> fold (pick_face event isStatus) bucket None"

definition shows_face :: "('a \<Rightarrow> event_record) \<Rightarrow> ('a \<Rightarrow> bool) \<Rightarrow> 'a \<Rightarrow> bool" where
  "shows_face event isStatus i \<longleftrightarrow> \<not> isStatus i \<and> ev_operation (event i) \<noteq> OpTombstone"

lemma face_snoc: "face_of event isStatus (ys @ [y]) =
  (if shows_face event isStatus y
      \<and> (case face_of event isStatus ys of None \<Rightarrow> True | Some f \<Rightarrow> isNewerEvent (event y) (event f))
   then Some y else face_of event isStatus ys)"
  by (simp only: fold_append fold.simps comp_apply id_apply pick_face_def[of _ _ y] shows_face_def conj_assoc)

lemma face_newest:
  "case face_of event isStatus xs of
     None \<Rightarrow> \<forall>x \<in> set xs. \<not> shows_face event isStatus x
   | Some f \<Rightarrow> f \<in> set xs \<and> shows_face event isStatus f
       \<and> (\<forall>x \<in> set xs. shows_face event isStatus x \<longrightarrow> \<not> isNewerEvent (event x) (event f))"
proof (induction xs rule: rev_induct)
  case (snoc y ys)
  show ?case
  proof (cases "face_of event isStatus ys")
    case None
    with snoc.IH show ?thesis unfolding face_snoc by simp
  next
    case (Some f)
    with snoc.IH have f: "f \<in> set ys" "shows_face event isStatus f"
      "\<forall>x \<in> set ys. shows_face event isStatus x \<longrightarrow> \<not> isNewerEvent (event x) (event f)" by simp_all
    show ?thesis
    proof (cases "shows_face event isStatus y \<and> isNewerEvent (event y) (event f)")
      case True
      then have "face_of event isStatus (ys @ [y]) = Some y" unfolding face_snoc Some by simp
      moreover have "\<not> isNewerEvent (event x) (event y)" if "x \<in> set ys" "shows_face event isStatus x" for x
        using newer_weak_trans[OF conjunct2[OF True]] f(3) that by blast
      ultimately show ?thesis using True by auto
    next
      case False
      then have "face_of event isStatus (ys @ [y]) = Some f" unfolding face_snoc Some by (simp only: option.case if_False simp_thms)
      then show ?thesis using f False by auto
    qed
  qed
qed simp

lemma face_None: "face_of event isStatus xs = None \<longleftrightarrow> (\<forall>x \<in> set xs. \<not> shows_face event isStatus x)"
  using face_newest[of xs event isStatus] by (cases "face_of event isStatus xs") auto

lemma face_Some:
  assumes "inj_on (\<lambda>i. ev_id (event i)) (set xs)"
  shows "face_of event isStatus xs = Some f \<longleftrightarrow> f \<in> set xs \<and> shows_face event isStatus f
    \<and> (\<forall>x \<in> set xs. shows_face event isStatus x \<longrightarrow> x = f \<or> isNewerEvent (event f) (event x))" (is "?l \<longleftrightarrow> ?r")
proof
  have total: "x = f \<or> isNewerEvent (event f) (event x) \<or> isNewerEvent (event x) (event f)"
    if "x \<in> set xs" "f \<in> set xs" for x f
    using newer_total[of "event f" "event x"] inj_onD[OF assms, of f x] that by auto
  show ?r if ?l using face_newest[of xs event isStatus] that total by fastforce
  assume r: ?r
  then obtain g where g: "face_of event isStatus xs = Some g" using face_None[of event isStatus xs] by fastforce
  with face_newest[of xs event isStatus] have gs: "g \<in> set xs" "shows_face event isStatus g"
    "\<not> isNewerEvent (event f) (event g)" using r by auto
  with r show ?l using g by auto
qed

text \<open>The heads, conversation by conversation: the key of each group with its face.\<close>

lemma head_groups: "headsByThread event isStatus items =
  List.map_filter (\<lambda>t. face_of event isStatus (List.filter (\<lambda>i. eventThreadId (event i) = t) items))
    (js_keys (js_group (\<lambda>i. eventThreadId (event i)) items))"
proof -
  let ?g = "js_group (\<lambda>i. eventThreadId (event i)) items"
  have "snd p = List.filter (\<lambda>i. eventThreadId (event i) = fst p) items" if "p \<in> set ?g" for p
  proof -
    have "map_of ?g (fst p) = Some (snd p)" using that distinct_js_group by (simp add: map_of_is_SomeI)
    then show ?thesis unfolding map_of_js_group by (auto split: if_splits)
  qed
  then have values_eq: "js_values ?g = List.map (\<lambda>t. List.filter (\<lambda>i. eventThreadId (event i) = t) items) (js_keys ?g)"
    by (simp add: comp_def)
  show ?thesis unfolding headsByThread_def values_eq by (simp add: List.map_filter_def filter_map comp_def)
qed

lemma mem_map_filter: "y \<in> set (List.map_filter f xs) \<longleftrightarrow> (\<exists>x \<in> set xs. f x = Some y)"
  by (induction xs) (auto simp: List.map_filter_simps split: option.splits)

lemma image_filter_keys: "{k \<in> f ` A. \<exists>x \<in> A. P x \<and> f x = k} = f ` {x \<in> A. P x}"
proof (intro set_eqI iffI)
  fix k assume "k \<in> {k \<in> f ` A. \<exists>x \<in> A. P x \<and> f x = k}"
  then have "\<exists>x \<in> A. P x \<and> f x = k" by (simp only: mem_Collect_eq)
  then obtain x where x: "x \<in> A" "P x" "f x = k" by (elim bexE conjE)
  have "f x \<in> f ` {x \<in> A. P x}" using x(1,2) by (intro imageI CollectI conjI)
  then show "k \<in> f ` {x \<in> A. P x}" by (simp only: x(3))
qed auto

lemma face_thread:
  "face_of event isStatus (List.filter (\<lambda>i. key i = t) items) = Some f \<Longrightarrow> f \<in> set items \<and> key f = t"
  using face_newest[of "List.filter (\<lambda>i. key i = t) items" event isStatus] by simp

lemma head_threads: "List.map (\<lambda>i. eventThreadId (event i)) (headsByThread event isStatus items) =
  List.filter (\<lambda>t. \<exists>i \<in> set items. shows_face event isStatus i \<and> eventThreadId (event i) = t)
    (js_keys (js_group (\<lambda>i. eventThreadId (event i)) items))"
proof -
  let ?face = "\<lambda>t. face_of event isStatus (List.filter (\<lambda>i. eventThreadId (event i) = t) items)"
  have thread: "eventThreadId (event f) = t" if "?face t = Some f" for t f
    using face_thread[where key = "\<lambda>i. eventThreadId (event i)", OF that] by simp
  have "List.map (\<lambda>i. eventThreadId (event i)) (List.map_filter ?face ts) = List.filter (\<lambda>t. ?face t \<noteq> None) ts" for ts
  proof (induction ts)
    case (Cons t ts)
    then show ?case
    proof (cases "?face t")
      case (Some f)
      with Cons.IH show ?thesis
        by (simp only: List.map_filter_simps Some option.case list.map thread[OF Some] filter.simps option.distinct if_True not_False_eq_True)
    qed (simp only: List.map_filter_simps option.case filter.simps if_False simp_thms)
  qed (simp only: List.map_filter_simps list.map filter.simps)
  moreover have "?face t \<noteq> None \<longleftrightarrow> (\<exists>i \<in> set items. shows_face event isStatus i \<and> eventThreadId (event i) = t)" for t
    by (auto simp: face_None)
  ultimately show ?thesis unfolding head_groups by simp
qed

lemma distinct_head_threads: "distinct (List.map (\<lambda>i. eventThreadId (event i)) (headsByThread event isStatus items))"
  unfolding head_threads by simp

text \<open>C23. The heads of a list are its faces, one for each conversation that has one: when the events have
  distinct ids, an item is a head exactly when it is neither a status marker nor a tombstone and is newer than
  every other such item of its conversation, and no conversation has two heads.\<close>

theorem heads_are_faces:
  assumes ids: "distinct (List.map (\<lambda>i. ev_id (event i)) items)"
  shows "set (headsByThread event isStatus items) =
      {f \<in> set items. \<not> isStatus f \<and> ev_operation (event f) \<noteq> OpTombstone
        \<and> (\<forall>i \<in> set items. \<not> isStatus i \<and> ev_operation (event i) \<noteq> OpTombstone
             \<and> eventThreadId (event i) = eventThreadId (event f) \<longrightarrow> i = f \<or> isNewerEvent (event f) (event i))}
    \<and> distinct (List.map (\<lambda>i. eventThreadId (event i)) (headsByThread event isStatus items))"
proof -
  have inj: "inj_on (\<lambda>i. ev_id (event i)) (set (List.filter P items))" for P
    using ids by (auto simp: distinct_map intro: inj_on_subset)
  have "f \<in> set (headsByThread event isStatus items) \<longleftrightarrow> f \<in> set items \<and> shows_face event isStatus f
      \<and> (\<forall>i \<in> set items. shows_face event isStatus i \<and> eventThreadId (event i) = eventThreadId (event f)
           \<longrightarrow> i = f \<or> isNewerEvent (event f) (event i))" for f
  proof -
    have "f \<in> set (headsByThread event isStatus items) \<longleftrightarrow> (\<exists>t \<in> (\<lambda>i. eventThreadId (event i)) ` set items.
        face_of event isStatus (List.filter (\<lambda>i. eventThreadId (event i) = t) items) = Some f)"
      unfolding head_groups mem_map_filter js_group_keys by blast
    then show ?thesis unfolding face_Some[OF inj] by auto
  qed
  then show ?thesis using distinct_head_threads by (auto simp: shows_face_def)
qed

definition sample_event :: "string \<Rightarrow> string \<Rightarrow> string \<Rightarrow> event_record" where
  "sample_event i ext t = \<lparr>ev_id = i, ev_org_id = ''o'', ev_source = ''mail'', ev_external_id = ext, ev_operation = OpCreate,
     ev_content_hash = Some ''h'', ev_parent_event_id = None, ev_thread_id = None, ev_actor_id = None,
     ev_required_scope_ids = None, ev_direction_tags = None, ev_weight_hints = None, ev_attrs = None,
     ev_occurred_at = t, ev_ingested_at = t\<rparr>"

lemma heads_are_faces_witness:
  "set (headsByThread (\<lambda>e. e) (\<lambda>_. False) [sample_event ''1'' ''a:1'' ''t1'', sample_event ''2'' ''a:2'' ''t2'', sample_event ''3'' ''b:1'' ''t0''])
    = {sample_event ''2'' ''a:2'' ''t2'', sample_event ''3'' ''b:1'' ''t0''}"
proof -
  let ?es = "[sample_event ''1'' ''a:1'' ''t1'', sample_event ''2'' ''a:2'' ''t2'', sample_event ''3'' ''b:1'' ''t0'']"
  have ids: "distinct (List.map (\<lambda>e. ev_id e) ?es)" by (simp add: sample_event_def)
  have threads: "List.map eventThreadId ?es = [''mail:a'', ''mail:a'', ''mail:b'']"
    by (simp add: sample_event_def eventThreadId_def conversationId_def last_index_def starts_with_def)
  have newer: "isNewerEvent (sample_event ''2'' ''a:2'' ''t2'') (sample_event ''1'' ''a:1'' ''t1'')"
    "\<not> isNewerEvent (sample_event ''1'' ''a:1'' ''t1'') (sample_event ''2'' ''a:2'' ''t2'')"
    by (simp_all add: isNewerEvent_def sample_event_def less_char_def)
  have eqs: "sample_event ''1'' ''a:1'' ''t1'' \<noteq> sample_event ''2'' ''a:2'' ''t2''"
    "sample_event ''3'' ''b:1'' ''t0'' \<noteq> sample_event ''2'' ''a:2'' ''t2''" "sample_event ''1'' ''a:1'' ''t1'' \<noteq> sample_event ''3'' ''b:1'' ''t0''"
    by (simp_all add: sample_event_def)
  have created: "ev_operation (sample_event i x t) \<noteq> OpTombstone" for i x t by (simp add: sample_event_def)
  show ?thesis using conjunct1[OF heads_are_faces[OF ids, of "\<lambda>_. False"]] threads newer eqs created by auto
qed

text \<open>The summary of some items counts as many conversations as the list of their heads has rows.\<close>

lemma head_count: "length (headsByThread event isStatus items) =
  card ((\<lambda>i. eventThreadId (event i)) ` {i \<in> set items. shows_face event isStatus i})"
proof -
  have "length (headsByThread event isStatus items) = card (set (List.map (\<lambda>i. eventThreadId (event i)) (headsByThread event isStatus items)))"
    using distinct_head_threads[of event isStatus items] by (metis distinct_card length_map)
  then show ?thesis unfolding head_threads set_filter js_group_keys image_filter_keys .
qed

lemma summary_count: "is_count (summarizeInboxItems items prefs) =
  int (card ((\<lambda>i. eventThreadId (ii_event i)) ` {i \<in> set items. shows_face ii_event isThreadStatusItem i}))"
proof -
  have "length (js_unique (List.map f (List.filter P items))) = card (f ` {i \<in> set items. P i})" for P and f :: "inbox_item \<Rightarrow> string"
    by (metis distinct_card distinct_js_unique set_js_unique set_map set_filter)
  then show ?thesis by (simp add: summarizeInboxItems_def Let_def shows_face_def)
qed

subsection \<open>Reading a digest back\<close>

text \<open>The fields of a digest: no white space and no ampersand.\<close>

definition digest_text :: "string \<Rightarrow> bool" where
  "digest_text s \<longleftrightarrow> no_space s \<and> CHR ''&'' \<notin> set s"

lemma int_string_text: "digest_text (int_string n)"
proof -
  have "no_space (int_string n)" using digit_string_no_space by (simp add: int_string_def js_space_def)
  moreover have "CHR ''&'' \<notin> set (int_string n)" by (rule int_string_no) (simp_all add: digit_value_def)
  ultimately show ?thesis by (simp add: digest_text_def)
qed

lemma peel_iso_split: "peel_iso s = Some (h, t) \<Longrightarrow> s = h @ CHR '':'' # t \<and> iso_form t"
  by (induction s arbitrary: h) (auto split: option.splits prod.splits if_splits)

lemma peel_iso_append:
  assumes "iso_form t" and "peel_iso t = None"
  shows "peel_iso (h @ CHR '':'' # t) = Some (h, t)"
  by (induction h) (simp_all add: assms)

lemma is_digit_digit [simp]: "is_digit (digit n)"
  by (simp add: is_digit_def)

lemma iso_string_shape:
  assumes "four_digit_time t"
  shows "\<exists>a b c d e f g h i j k l m n p q r. iso_string t =
    [digit a, digit b, digit c, digit d, CHR ''-'', digit e, digit f, CHR ''-'', digit g, digit h, CHR ''T'',
     digit i, digit j, CHR '':'', digit k, digit l, CHR '':'', digit m, digit n, CHR ''.'', digit p, digit q, digit r, CHR ''Z'']"
proof -
  obtain y m d where c: "civil_from_day (t div ms_per_day) = (y, m, d)" by (metis prod_cases3)
  have y: "0 \<le> y" "y \<le> 9999" using four_digit_year[OF assms] civil_from_day(1)[OF c] by simp_all
  have four: "decimal 4 n = [digit (n div 10 div 10 div 10), digit (n div 10 div 10), digit (n div 10), digit n]" for n
    by (simp only: numeral_eq_Suc pred_numeral_simps arith_simps decimal.simps append_Nil append_Cons)
  have year: "year_string y = decimal 4 (nat y)" using y by (simp add: year_string_def)
  show ?thesis
    unfolding iso_string_def c prod.case year time_string_def decimal_2 decimal_3 four append_Cons append_Nil
    by (intro exI) (rule refl)
qed

lemma iso_string_form:
  assumes "four_digit_time t"
  shows "iso_form (iso_string t)" and "peel_iso (iso_string t) = None" and "digest_text (iso_string t)"
    and "last (iso_string t) = CHR ''Z''" and "iso_string t \<noteq> []"
proof -
  from iso_string_shape[OF assms] obtain a b c d e f g h i j k l m n p q r where s: "iso_string t =
    [digit a, digit b, digit c, digit d, CHR ''-'', digit e, digit f, CHR ''-'', digit g, digit h, CHR ''T'',
     digit i, digit j, CHR '':'', digit k, digit l, CHR '':'', digit m, digit n, CHR ''.'', digit p, digit q, digit r, CHR ''Z'']"
    by blast
  show "iso_form (iso_string t)" by (simp add: s iso_form_def Let_def)
  have short: "length u < 20 \<Longrightarrow> \<not> iso_form u" for u by (simp add: iso_form_def)
  have no: "digit x \<noteq> CHR '':''" "\<not> js_space (digit x)" "digit x \<noteq> CHR ''&''" for x
  proof -
    have "digit_value (CHR '':'') = None" "digit_value (CHR ''&'') = None" by (simp_all add: digit_value_def)
    moreover have "digit_value (digit x) \<noteq> None" by simp
    ultimately show "digit x \<noteq> CHR '':''" "digit x \<noteq> CHR ''&''" by metis+
    show "\<not> js_space (digit x)" by (auto simp: js_space_def of_char_digit)
  qed
  have plain: "\<not> js_space (CHR ''-'')" "\<not> js_space (CHR ''T'')" "\<not> js_space (CHR '':'')" "\<not> js_space (CHR ''.'')"
    "\<not> js_space (CHR ''Z'')" by (simp_all add: js_space_def)
  show "peel_iso (iso_string t) = None" by (simp add: s short no)
  show "digest_text (iso_string t)" using no(3)[symmetric] plain by (simp add: s digest_text_def no)
  show "last (iso_string t) = CHR ''Z''" "iso_string t \<noteq> []" by (simp_all add: s)
qed
lemma natural_int_string: "0 \<le> n \<Longrightarrow> natural_number (int_string n) = Some n"
  by (simp add: natural_number_def js_number_int_string)

lemma first_index_split: "c \<notin> set l \<Longrightarrow> first_index c (l @ c # r) = Some (length l)"
  by (simp add: first_index_def takeWhile_append)

lemma squash_trim_plain: "no_space s \<Longrightarrow> squash_trim s = s"
  by (simp add: squash_trim_def squash_no_space js_trim_no_space)

lemma peel_tail:
  assumes "pu = [] \<or> (\<exists>t. four_digit_time t \<and> pu = iso_string t)"
  shows "peelInboxDigestTail (head @ CHR '':'' # pu) = (head, pu)"
proof (cases "pu = []")
  case False
  then obtain t where t: "four_digit_time t" "pu = iso_string t" using assms by blast
  note f = iso_string_form[OF t(1)]
  have "last (head @ CHR '':'' # pu) = CHR ''Z''" using f(4,5) by (simp add: t(2))
  then show ?thesis using peel_iso_append[OF f(1,2), of head] by (simp add: peelInboxDigestTail_def t(2))
qed (simp add: peelInboxDigestTail_def)

text \<open>The flags that follow the base of a digest.\<close>

definition digest_flags :: "string \<Rightarrow> string \<Rightarrow> string list" where
  "digest_flags w sg = (if w \<noteq> [] then [''w='' @ w] else []) @ (if sg \<noteq> [] then [''s='' @ sg] else [])"

lemma flag_values:
  "flag_value ''w='' (digest_flags w sg) = w" "flag_value ''s='' (digest_flags w sg) = sg"
  by (simp_all add: flag_value_def digest_flags_def starts_with_def)

text \<open>C21. A client reads back exactly what a digest was made of: for times, ids, work stamps and surface
  generations without white space or ampersand, an id without a colon, and a preference stamp that is empty or
  an ISO time, parsing the formatted digest gives the same fields, so that different fields never share a digest.\<close>

theorem digest_round_trip:
  assumes num: "0 \<le> n" "0 \<le> p" and plain: "digest_text la" "digest_text li" "digest_text w" "digest_text sg"
    and li: "CHR '':'' \<notin> set li" and pu: "pu = [] \<or> (\<exists>t. four_digit_time t \<and> pu = iso_string t)"
  shows "parseInboxDigest (formatInboxDigest n (Some la) (Some li) (Some p) (Some pu) (Some w) (Some sg)) =
    Some \<lparr>dg_count = n, dg_latest_at = la, dg_latest_id = li, dg_pref_count = p, dg_pref_updated_at = pu,
      dg_work_updated_at = w, dg_surface_generation = sg\<rparr>"
proof -
  let ?left = "int_string n @ CHR '':'' # la @ CHR '':'' # li" let ?head = "?left @ CHR '':'' # int_string p"
  let ?base = "?head @ CHR '':'' # pu" let ?v = "formatInboxDigest n (Some la) (Some li) (Some p) (Some pu) (Some w) (Some sg)"
  have pu_text: "digest_text pu" using pu iso_string_form(3) by (auto simp: digest_text_def)
  have colon: "\<not> js_space (CHR '':'')" by (simp add: js_space_def)
  have base: "digest_text ?base" using plain(1,2) pu_text int_string_text[of n] int_string_text[of p] colon
    by (simp add: digest_text_def)
  have v: "?v = js_join (CHR ''&'') (?base # digest_flags w sg)"
    using plain(3,4) by (simp add: formatInboxDigest_def squash_trim_plain digest_text_def digest_flags_def Let_def)
  have flags: "\<forall>s \<in> set (?base # digest_flags w sg). digest_text s"
    using base plain(3,4) by (auto simp: digest_flags_def digest_text_def js_space_def split: if_splits)
  have join: "\<forall>s \<in> set ss. no_space s \<Longrightarrow> no_space (js_join (CHR ''&'') ss)" for ss
    by (induction "CHR ''&''" ss rule: js_join.induct) (simp_all add: js_space_def)
  have "no_space ?v" unfolding v by (rule join) (use flags in \<open>simp add: digest_text_def\<close>)
  then have st: "squash_trim ?v = ?v" by (rule squash_trim_plain)
  have split: "js_split (CHR ''&'') ?v = ?base # digest_flags w sg"
    unfolding v by (rule split_join) (use flags in \<open>auto simp: digest_text_def\<close>)
  then have ne: "?v \<noteq> []" by auto
  have nc: "CHR '':'' \<notin> set (int_string k)" for k by simp
  have cuts: "last_index (CHR '':'') ?head = Some (length ?left)" "first_index (CHR '':'') ?left = Some (length (int_string n))"
    "last_index (CHR '':'') (la @ CHR '':'' # li) = Some (length la)"
    by (rule last_index_split[OF nc], rule first_index_split[OF nc], rule last_index_split[OF li])
  have cut_at: "take (length x) (x @ y) = x" "drop (Suc (length x)) (x @ k # y) = y" for x y :: string and k by simp_all
  note take1 = cut_at(1)[of ?left "CHR '':'' # int_string p"] cut_at(1)[of "int_string n" "CHR '':'' # la @ CHR '':'' # li"]
    cut_at(1)[of la "CHR '':'' # li"]
  note drop1 = cut_at(2)[of ?left "CHR '':''" "int_string p"] cut_at(2)[of "int_string n" "CHR '':''" "la @ CHR '':'' # li"]
    cut_at(2)[of la "CHR '':''" li]
  have nn: "natural_number (int_string n) = Some n" "natural_number (int_string p) = Some p"
    using num by (simp_all only: natural_int_string)
  have "parseInboxDigestBase ?v = Some (n, la, li, p, pu, digest_flags w sg)"
    unfolding parseInboxDigestBase_def st split Let_def list.sel peel_tail[OF pu] prod.case cuts option.case take1 drop1 nn
    using ne by simp
  then show ?thesis by (simp add: parseInboxDigest_def flag_values)
qed

lemma digest_round_trip_witness:
  "parseInboxDigest (formatInboxDigest 2 (Some (iso_string 0)) (Some ''e1'') (Some 1) (Some (iso_string 0)) (Some ''w'') (Some ''s'')) =
    Some \<lparr>dg_count = 2, dg_latest_at = iso_string 0, dg_latest_id = ''e1'', dg_pref_count = 1, dg_pref_updated_at = iso_string 0,
      dg_work_updated_at = ''w'', dg_surface_generation = ''s''\<rparr>"
proof -
  have zero: "four_digit_time 0" by (simp add: four_digit_time_def)
  have plain: "digest_text ''e1''" "digest_text ''w''" "digest_text ''s''" by (simp_all add: digest_text_def js_space_def)
  have stamp: "iso_string 0 = [] \<or> (\<exists>t. four_digit_time t \<and> iso_string 0 = iso_string t)" using zero by blast
  show ?thesis
    by (rule digest_round_trip[OF _ _ iso_string_form(3)[OF zero] plain _ stamp]) simp_all
qed

end
