(* ===== verification/AuthorityStore.thy ===== *)
theory AuthorityStore
  imports WorkStore Inbox
begin

section \<open>The authority store\<close>

text \<open>
  \<open>packages/domain/src/memory-ingestion-stores.ts\<close>: the blobs, the events with the head of every source
  identity, the decisions, the conversation preferences and the outbound attempts of an organisation, over the
  work store that the class extends. An event object is shared by the list of events and by the heads, and
  \<open>repointContentHash\<close> changes it in place: events carry the reference of their object and a head is a
  reference. \<open>new Date()\<close> is the argument \<open>now\<close>.
\<close>

subsection \<open>Blobs\<close>

type_synonym blob_store = "(string, string \<times> string) js_map"

definition blob_put :: "string \<Rightarrow> string \<Rightarrow> string \<Rightarrow> blob_store \<Rightarrow> blob_store" where
  "blob_put h bytes mediaType s = (if map_of s h = None then js_set h (bytes, mediaType) s else s)"

record blob_object =
  bo_hash :: string
  bo_bytes :: string
  bo_media_type :: string

text \<open>The first object of each hash.\<close>

definition unique_blobs :: "blob_object list \<Rightarrow> blob_object list" where
  "unique_blobs items = js_values (fold (\<lambda>b m. if map_of m (bo_hash b) = None then js_set (bo_hash b) b m else m) items [])"

definition blob_putMany :: "blob_object list \<Rightarrow> blob_store \<Rightarrow> blob_store" where
  "blob_putMany items s = fold (\<lambda>b. blob_put (bo_hash b) (bo_bytes b) (bo_media_type b)) (unique_blobs items) s"

definition blob_get :: "string \<Rightarrow> blob_store \<Rightarrow> js_error + string" where
  "blob_get h s = (case map_of s h of None \<Rightarrow> Inl (ErrorMsg (''Blob not found: '' @ h)) | Some (bytes, _) \<Rightarrow> Inr bytes)"

text \<open>\<open>collectAvailableBlobs\<close>: what can be read, and nothing for the rest.\<close>

definition collectAvailableBlobs :: "(string \<Rightarrow> js_error + string) \<Rightarrow> string list \<Rightarrow> (string, string) js_map" where
  "collectAvailableBlobs get hashes =
     fold (\<lambda>h m. case get h of Inl _ \<Rightarrow> m | Inr bytes \<Rightarrow> js_set h bytes m)
       (js_unique (List.filter (\<lambda>h. h \<noteq> []) hashes)) []"

definition blob_getMany :: "string list \<Rightarrow> blob_store \<Rightarrow> (string, string) js_map" where
  "blob_getMany hashes s = collectAvailableBlobs (\<lambda>h. blob_get h s) hashes"

definition blob_delete :: "string \<Rightarrow> blob_store \<Rightarrow> blob_store" where
  "blob_delete h s = AList.delete h s"

definition blob_exists :: "string \<Rightarrow> blob_store \<Rightarrow> bool" where
  "blob_exists h s \<longleftrightarrow> map_of s h \<noteq> None"

subsection \<open>Requests and rows\<close>

definition authority_conflict :: js_error where
  "authority_conflict = ErrorMsg ''Source head changed during ingestion''"

record blob_record =
  bl_content_hash :: string
  bl_media_type :: string
  bl_byte_size :: int
  bl_created_at :: string

record blob_meta =
  bm_content_hash :: string
  bm_media_type :: string
  bm_byte_size :: int

record new_event =
  ne_id :: "string option"
  ne_org_id :: string
  ne_source :: string
  ne_external_id :: string
  ne_content_hash :: string
  ne_content_media_type :: string
  ne_content_byte_size :: int
  ne_extra_blobs :: "blob_meta list option"
  ne_thread_id :: "string option"
  ne_actor_id :: "string option"
  ne_required_scope_ids :: "string list option"
  ne_direction_tags :: "string list option"
  ne_weight_hints :: "weight_hints option"
  ne_attrs :: "(string \<times> json) list option"
  ne_occurred_at :: string
  ne_expected_head_id :: "string option"

record event_revision = new_event +
  er_parent_event_id :: string
  er_revision_id :: "string option"

text \<open>The service also passes the tags, the hints and the attributes of a record with a tombstone, and the
  store keeps them.\<close>

record tombstone_event =
  te_org_id :: string
  te_source :: string
  te_external_id :: string
  te_thread_id :: "string option"
  te_actor_id :: "string option"
  te_required_scope_ids :: "string list option"
  te_direction_tags :: "string list option"
  te_weight_hints :: "weight_hints option"
  te_attrs :: "(string \<times> json) list option"
  te_occurred_at :: string
  te_expected_head_id :: "string option"

record repoint_content =
  rp_old_content_hash :: string
  rp_new_content_hash :: string
  rp_content_media_type :: string
  rp_content_byte_size :: int
  rp_extra_blobs :: "blob_meta list option"

record ingest_commit =
  ic_appends :: "new_event list"
  ic_dispositions :: "arrangement_decision list"

datatype hidden_reason = HiddenHuman | HiddenPolicy

record conversation_pref =
  cv_org_id :: string
  cv_thread_id :: string
  cv_title :: "string option"
  cv_pinned :: bool
  cv_hidden :: bool
  cv_hidden_reason :: "hidden_reason option"
  cv_last_read_at :: "string option"
  cv_last_read_external_id :: "string option"
  cv_updated_at :: string

text \<open>A patch: a field that is \<^term>\<open>None\<close> is left alone, \<^term>\<open>Some None\<close> is \<open>null\<close>.\<close>

record pref_patch =
  pp_org_id :: string
  pp_thread_id :: string
  pp_title :: "string option option"
  pp_pinned :: "bool option"
  pp_hidden :: "bool option"
  pp_hidden_reason :: "hidden_reason option option"
  pp_last_read_at :: "string option option"
  pp_last_read_external_id :: "string option option"
  pp_updated_at :: string

datatype outbound_status = OutPending | OutAccepted | OutSent | OutFailed | OutRejected

record outbound_attempt =
  oa_org_id :: string
  oa_client_request_id :: string
  oa_thread_id :: string
  oa_event_id :: "string option"
  oa_status :: outbound_status
  oa_channel_message_ids :: "string list option"
  oa_recovery_hash :: "string option"
  oa_receipt :: "delivery_receipt option"
  oa_created_at :: string
  oa_updated_at :: string

record new_outbound =
  no_org_id :: string
  no_client_request_id :: string
  no_thread_id :: string
  no_recovery_hash :: "string option"
  no_now :: string

record outbound_put = new_outbound +
  op_event_id :: "string option"
  op_status :: outbound_status
  op_channel_message_ids :: "string list option"
  op_receipt :: "delivery_receipt option"

record alias_bind =
  ab_org_id :: string
  ab_event_id :: string
  ab_aliases :: "(string \<times> string) list"

record store_footprint =
  sf_events :: int
  sf_conversations :: int
  sf_work_items :: int
  sf_blobs :: int
  sf_recipes :: int
  sf_executors :: int

subsection \<open>The store\<close>

record authority_store =
  as_work :: work_store
  as_current :: "(source_identity, nat) js_map"
  as_events :: "(nat \<times> event_record) list"
  as_blobs :: "(string, blob_record) js_map"
  as_dispositions :: "(string, arrangement_decision) js_map"
  as_prefs :: "(string, conversation_pref) js_map"
  as_attempts :: "(string, outbound_attempt) js_map"
  as_nextId :: int
  as_nextRef :: nat

definition new_authority_store :: authority_store where
  "new_authority_store = \<lparr>as_work = new_work_store, as_current = [], as_events = [], as_blobs = [], as_dispositions = [],
     as_prefs = [], as_attempts = [], as_nextId = 1, as_nextRef = 0\<rparr>"

definition all_events :: "authority_store \<Rightarrow> event_record list" where
  "all_events s = List.map snd (as_events s)"

text \<open>The objects of \<open>currentBySource.values()\<close>.\<close>

definition current_events :: "authority_store \<Rightarrow> event_record list" where
  "current_events s = List.map_filter (map_of (as_events s)) (js_values (as_current s))"

definition findBlob :: "string \<Rightarrow> authority_store \<Rightarrow> blob_record option" where
  "findBlob h s = map_of (as_blobs s) h"

definition findBlobs :: "string list \<Rightarrow> authority_store \<Rightarrow> (string, blob_record) js_map" where
  "findBlobs hashes s =
     fold (\<lambda>h found. case findBlob h s of None \<Rightarrow> found | Some b \<Rightarrow> js_set h b found)
       (js_unique (List.filter (\<lambda>h. h \<noteq> []) hashes)) []"

definition head_ref :: "source_identity \<Rightarrow> authority_store \<Rightarrow> nat option" where
  "head_ref k s = map_of (as_current s) k"

definition findBySourceIdentity :: "source_identity \<Rightarrow> authority_store \<Rightarrow> event_record option" where
  "findBySourceIdentity k s = (case head_ref k s of None \<Rightarrow> None | Some r \<Rightarrow> map_of (as_events s) r)"

definition getEvent :: "string \<Rightarrow> string \<Rightarrow> authority_store \<Rightarrow> event_record option" where
  "getEvent orgId eventId s = List.find (\<lambda>e. ev_org_id e = orgId \<and> ev_id e = eventId) (all_events s)"

definition bindSourceIdentityAliases :: "alias_bind \<Rightarrow> (authority_store, unit) js_op" where
  "bindSourceIdentityAliases i s =
     (case List.find (\<lambda>(r, e). ev_org_id e = ab_org_id i \<and> ev_id e = ab_event_id i) (as_events s) of
        None \<Rightarrow> (Inl (ErrorMsg (''Unknown event for identity alias: '' @ ab_event_id i)), s)
      | Some (r, e) \<Rightarrow>
          (Inr (), s\<lparr>as_current := fold (\<lambda>(src, ext) m.
             let externalId = js_trim ext; key = \<lparr>sid_org_id = ab_org_id i, sid_source = src, sid_external_id = externalId\<rparr>
             in if js_trim src = [] \<or> externalId = [] then m
                else if map_of m key = None then js_set key r m else m) (ab_aliases i) (as_current s)\<rparr>))"

definition listEvents :: "string \<Rightarrow> 'q event_query_scheme \<Rightarrow> authority_store \<Rightarrow> event_record list" where
  "listEvents orgId q s =
     (let matched = List.filter (\<lambda>e. matchesEventQuery e orgId q) (all_events s);
          ordered = (if eq_recent q then rev matched else matched)
      in case eq_limit q of None \<Rightarrow> ordered
         | Some x \<Rightarrow> (case js_integer x of None \<Rightarrow> ordered | Some limit \<Rightarrow> if 0 < limit then take (nat limit) ordered else ordered))"

subsection \<open>Appending\<close>

definition rememberBlob :: "string \<Rightarrow> blob_meta \<Rightarrow> authority_store \<Rightarrow> authority_store" where
  "rememberBlob now b s =
     (if map_of (as_blobs s) (bm_content_hash b) \<noteq> None then s
      else s\<lparr>as_blobs := js_set (bm_content_hash b)
        \<lparr>bl_content_hash = bm_content_hash b, bl_media_type = bm_media_type b, bl_byte_size = bm_byte_size b,
         bl_created_at = now\<rparr> (as_blobs s)\<rparr>)"

text \<open>\<open>addEvent\<close>: the fields of the row, with the id and the time of ingestion filled in.\<close>

definition addEvent :: "string \<Rightarrow> string option \<Rightarrow> event_record \<Rightarrow> authority_store \<Rightarrow> event_record \<times> authority_store" where
  "addEvent now given row s =
     (let (i, s1) = (case given of Some i \<Rightarrow> (i, s)
            | None \<Rightarrow> (''event-'' @ int_string (as_nextId s), s\<lparr>as_nextId := as_nextId s + 1\<rparr>));
          e = row\<lparr>ev_id := i, ev_ingested_at := now\<rparr>; r = as_nextRef s1
      in (e, s1\<lparr>as_events := as_events s1 @ [(r, e)], as_current := js_set (event_identity e) r (as_current s1),
            as_nextRef := Suc r\<rparr>))"

definition assertExpectedHead :: "string option \<Rightarrow> event_record option \<Rightarrow> bool" where
  "assertExpectedHead expectedHeadId current \<longleftrightarrow> map_option ev_id current = expectedHeadId"

definition new_event_identity :: "'a new_event_scheme \<Rightarrow> source_identity" where
  "new_event_identity i = \<lparr>sid_org_id = ne_org_id i, sid_source = ne_source i, sid_external_id = ne_external_id i\<rparr>"

definition content_meta :: "'a new_event_scheme \<Rightarrow> blob_meta" where
  "content_meta i = \<lparr>bm_content_hash = ne_content_hash i, bm_media_type = ne_content_media_type i,
     bm_byte_size = ne_content_byte_size i\<rparr>"

definition content_row :: "'a new_event_scheme \<Rightarrow> ingest_operation \<Rightarrow> string option \<Rightarrow> event_record" where
  "content_row i operation parent =
     \<lparr>ev_id = [], ev_org_id = ne_org_id i, ev_source = ne_source i, ev_external_id = ne_external_id i,
      ev_operation = operation, ev_content_hash = Some (ne_content_hash i), ev_parent_event_id = parent,
      ev_thread_id = ne_thread_id i, ev_actor_id = ne_actor_id i, ev_required_scope_ids = ne_required_scope_ids i,
      ev_direction_tags = ne_direction_tags i, ev_weight_hints = ne_weight_hints i, ev_attrs = ne_attrs i,
      ev_occurred_at = ne_occurred_at i, ev_ingested_at = []\<rparr>"

definition addContentEvent ::
  "string \<Rightarrow> 'a new_event_scheme \<Rightarrow> ingest_operation \<Rightarrow> string option \<Rightarrow> (authority_store, event_record) js_op" where
  "addContentEvent now i operation parent s =
     (if \<not> assertExpectedHead (ne_expected_head_id i) (findBySourceIdentity (new_event_identity i) s)
      then (Inl authority_conflict, s)
      else let s1 = fold (rememberBlob now) (content_meta i # or_else (ne_extra_blobs i) []) s;
               (e, s2) = addEvent now (ne_id i) (content_row i operation parent) s1
           in (Inr e, s2))"

definition append_event :: "string \<Rightarrow> new_event \<Rightarrow> (authority_store, event_record) js_op" where
  "append_event now i s = addContentEvent now i OpCreate None s"

definition appendRevision :: "string \<Rightarrow> event_revision \<Rightarrow> (authority_store, event_record) js_op" where
  "appendRevision now i s = addContentEvent now i OpRevise (Some (er_parent_event_id i)) s"

definition tombstone_row :: "tombstone_event \<Rightarrow> event_record option \<Rightarrow> event_record" where
  "tombstone_row i current =
     \<lparr>ev_id = [], ev_org_id = te_org_id i, ev_source = te_source i, ev_external_id = te_external_id i,
      ev_operation = OpTombstone, ev_content_hash = Option.bind current ev_content_hash,
      ev_parent_event_id = map_option ev_id current, ev_thread_id = te_thread_id i, ev_actor_id = te_actor_id i,
      ev_required_scope_ids = te_required_scope_ids i, ev_direction_tags = te_direction_tags i,
      ev_weight_hints = te_weight_hints i, ev_attrs = te_attrs i, ev_occurred_at = te_occurred_at i, ev_ingested_at = []\<rparr>"

definition markTombstone :: "string \<Rightarrow> tombstone_event \<Rightarrow> (authority_store, event_record) js_op" where
  "markTombstone now i s =
     (let current = findBySourceIdentity \<lparr>sid_org_id = te_org_id i, sid_source = te_source i, sid_external_id = te_external_id i\<rparr> s
      in if \<not> assertExpectedHead (te_expected_head_id i) current then (Inl authority_conflict, s)
         else let (e, s1) = addEvent now None (tombstone_row i current) s in (Inr e, s1))"

definition putDisposition :: "arrangement_decision \<Rightarrow> authority_store \<Rightarrow> authority_store" where
  "putDisposition d s = s\<lparr>as_dispositions := js_set (ad_event_id d) d (as_dispositions s)\<rparr>"

definition getDisposition :: "string \<Rightarrow> authority_store \<Rightarrow> arrangement_decision option" where
  "getDisposition eventId s = map_of (as_dispositions s) eventId"

text \<open>\<open>commitIngest\<close>: a conflict in the middle leaves the earlier appends in the store.\<close>

fun append_all :: "string \<Rightarrow> new_event list \<Rightarrow> (authority_store, event_record list) js_op" where
  "append_all now [] s = (Inr [], s)"
| "append_all now (i # is) s =
     (case append_event now i s of
        (Inl err, s1) \<Rightarrow> (Inl err, s1)
      | (Inr e, s1) \<Rightarrow> (case append_all now is s1 of (Inl err, s2) \<Rightarrow> (Inl err, s2) | (Inr es, s2) \<Rightarrow> (Inr (e # es), s2)))"

definition commitIngest :: "string \<Rightarrow> ingest_commit \<Rightarrow> (authority_store, event_record list) js_op" where
  "commitIngest now request s =
     (case append_all now (ic_appends request) s of
        (Inl err, s1) \<Rightarrow> (Inl err, s1)
      | (Inr events, s1) \<Rightarrow> (Inr events, fold putDisposition (ic_dispositions request) s1))"

definition repointContentHash :: "string \<Rightarrow> repoint_content \<Rightarrow> authority_store \<Rightarrow> int \<times> authority_store" where
  "repointContentHash now i s =
     (let s1 = fold (rememberBlob now) (\<lparr>bm_content_hash = rp_new_content_hash i, bm_media_type = rp_content_media_type i,
            bm_byte_size = rp_content_byte_size i\<rparr> # or_else (rp_extra_blobs i) []) s;
          hit = (\<lambda>e. ev_content_hash e = Some (rp_old_content_hash i));
          updated = int (length (List.filter hit (all_events s1)));
          s2 = s1\<lparr>as_events := List.map (\<lambda>(r, e). (r, if hit e then e\<lparr>ev_content_hash := Some (rp_new_content_hash i)\<rparr> else e))
            (as_events s1)\<rparr>;
          stillUsed = list_ex hit (all_events s2)
      in (updated, if \<not> stillUsed \<and> rp_old_content_hash i \<noteq> rp_new_content_hash i
            then s2\<lparr>as_blobs := AList.delete (rp_old_content_hash i) (as_blobs s2)\<rparr> else s2))"

subsection \<open>Outbound attempts\<close>

definition getOutboundAttempt :: "string \<Rightarrow> string \<Rightarrow> authority_store \<Rightarrow> outbound_attempt option" where
  "getOutboundAttempt orgId req s = map_of (as_attempts s) (pref_key orgId req)"

definition outbound_held :: "outbound_attempt \<Rightarrow> string \<Rightarrow> bool" where
  "outbound_held p threadId \<longleftrightarrow> oa_status p \<noteq> OutRejected \<or> oa_thread_id p \<noteq> threadId
     \<or> oa_event_id p \<noteq> None \<or> oa_receipt p \<noteq> None \<or> oa_channel_message_ids p \<noteq> None"

definition claimOutboundAttempt :: "new_outbound \<Rightarrow> authority_store \<Rightarrow> bool \<times> authority_store" where
  "claimOutboundAttempt i s =
     (let key = pref_key (no_org_id i) (no_client_request_id i); previous = map_of (as_attempts s) key
      in if (case previous of None \<Rightarrow> False | Some p \<Rightarrow> outbound_held p (no_thread_id i)) then (False, s)
         else (True, s\<lparr>as_attempts := js_set key
           \<lparr>oa_org_id = no_org_id i, oa_client_request_id = no_client_request_id i, oa_thread_id = no_thread_id i,
            oa_event_id = None, oa_status = OutPending, oa_channel_message_ids = None, oa_recovery_hash = no_recovery_hash i,
            oa_receipt = None, oa_created_at = or_else (map_option oa_created_at previous) (no_now i),
            oa_updated_at = no_now i\<rparr> (as_attempts s)\<rparr>))"

definition putOutboundAttempt :: "outbound_put \<Rightarrow> authority_store \<Rightarrow> outbound_attempt \<times> authority_store" where
  "putOutboundAttempt i s =
     (let key = pref_key (no_org_id i) (no_client_request_id i); previous = map_of (as_attempts s) key;
          row = \<lparr>oa_org_id = no_org_id i, oa_client_request_id = no_client_request_id i, oa_thread_id = no_thread_id i,
            oa_event_id = op_event_id i, oa_status = op_status i, oa_channel_message_ids = op_channel_message_ids i,
            oa_recovery_hash = or_opt (no_recovery_hash i) (Option.bind previous oa_recovery_hash),
            oa_receipt = or_opt (op_receipt i) (Option.bind previous oa_receipt),
            oa_created_at = or_else (map_option oa_created_at previous) (no_now i), oa_updated_at = no_now i\<rparr>
      in (row, s\<lparr>as_attempts := js_set key row (as_attempts s)\<rparr>))"

subsection \<open>Preferences\<close>

definition listConversationPrefs :: "string \<Rightarrow> authority_store \<Rightarrow> conversation_pref list" where
  "listConversationPrefs orgId s = List.filter (\<lambda>p. cv_org_id p = orgId) (js_values (as_prefs s))"

definition getConversationPref :: "string \<Rightarrow> string \<Rightarrow> authority_store \<Rightarrow> conversation_pref option" where
  "getConversationPref orgId threadId s = map_of (as_prefs s) (pref_key orgId threadId)"

definition patched_pref :: "pref_patch \<Rightarrow> conversation_pref option \<Rightarrow> conversation_pref" where
  "patched_pref i current =
     (let hidden = or_else (pp_hidden i) (or_else (map_option cv_hidden current) False)
      in \<lparr>cv_org_id = pp_org_id i, cv_thread_id = pp_thread_id i,
          cv_title = or_else (pp_title i) (Option.bind current cv_title),
          cv_pinned = or_else (pp_pinned i) (or_else (map_option cv_pinned current) False),
          cv_hidden = hidden,
          cv_hidden_reason = (if \<not> hidden then None
            else case pp_hidden_reason i of Some r \<Rightarrow> r
               | None \<Rightarrow> or_opt (Option.bind current cv_hidden_reason) (if pp_hidden i = Some True then Some HiddenHuman else None)),
          cv_last_read_at = or_else (pp_last_read_at i) (Option.bind current cv_last_read_at),
          cv_last_read_external_id = or_else (pp_last_read_external_id i) (Option.bind current cv_last_read_external_id),
          cv_updated_at = pp_updated_at i\<rparr>)"

definition putConversationPref :: "pref_patch \<Rightarrow> authority_store \<Rightarrow> conversation_pref \<times> authority_store" where
  "putConversationPref i s =
     (let key = pref_key (pp_org_id i) (pp_thread_id i); row = patched_pref i (map_of (as_prefs s) key)
      in (row, s\<lparr>as_prefs := js_set key row (as_prefs s)\<rparr>))"

definition apply_pref :: "pref_patch \<Rightarrow> authority_store \<Rightarrow> authority_store" where
  "apply_pref i s = snd (putConversationPref i s)"

definition hiddenThreadIds :: "string \<Rightarrow> authority_store \<Rightarrow> string list" where
  "hiddenThreadIds orgId s =
     js_unique (List.map cv_thread_id (List.filter (\<lambda>p. cv_org_id p = orgId \<and> cv_hidden p) (js_values (as_prefs s))))"

subsection \<open>The inbox of the store\<close>

definition decided_item :: "authority_store \<Rightarrow> event_record \<Rightarrow> inbox_item option" where
  "decided_item s e = map_option (\<lambda>d. \<lparr>ii_decision = d, ii_event = e\<rparr>) (map_of (as_dispositions s) (ev_id e))"

definition currentWorkInbox :: "string \<Rightarrow> disposition \<Rightarrow> authority_store \<Rightarrow> inbox_item list" where
  "currentWorkInbox orgId wanted s =
     (let hidden = hiddenThreadIds orgId s
      in List.map_filter (\<lambda>e. case decided_item s e of None \<Rightarrow> None
           | Some i \<Rightarrow> if ev_org_id e \<noteq> orgId \<or> ad_disposition (ii_decision i) \<noteq> wanted then None
               else if eventThreadId e \<in> set hidden then None else Some i) (current_events s))"

definition decidedInbox :: "string \<Rightarrow> inbox_query \<Rightarrow> authority_store \<Rightarrow> inbox_item list" where
  "decidedInbox orgId q s =
     (let scoped = truthy (eq_source q) \<or> truthy (eq_target q) \<or> eq_thread_ids q \<noteq> None;
          allowed = (if scoped then None
            else if normalizeInboxListView (iq_list q) = ListHidden then Some (hiddenThreadIds orgId s)
            else Some (js_unique (List.map (\<lambda>i. eventThreadId (ii_event i)) (currentWorkInbox orgId CurrentWork s))))
      in if allowed = Some [] then []
         else List.map_filter (\<lambda>e.
             if \<not> matchesEventQuery e orgId q then None
             else if (case allowed of None \<Rightarrow> False | Some ts \<Rightarrow> eventThreadId e \<notin> set ts) then None
             else case decided_item s e of None \<Rightarrow> None
               | Some i \<Rightarrow> if (case iq_disposition q of None \<Rightarrow> False | Some d \<Rightarrow> ad_disposition (ii_decision i) \<noteq> d)
                   then None else Some i) (all_events s))"

definition compare_inbox :: "(string \<Rightarrow> string \<Rightarrow> int) \<Rightarrow> inbox_item \<Rightarrow> inbox_item \<Rightarrow> int" where
  "compare_inbox lc l r = cmp_then (lc (ev_occurred_at (ii_event l)) (ev_occurred_at (ii_event r)))
     (lc (ev_id (ii_event l)) (ev_id (ii_event r)))"

definition listInbox :: "(string \<Rightarrow> string \<Rightarrow> int) \<Rightarrow> string \<Rightarrow> inbox_query \<Rightarrow> authority_store \<Rightarrow> inbox_item list" where
  "listInbox lc orgId q s =
     (let useDecided = iq_siblings q \<or> iq_heads q \<or> iq_disposition q = Some DispositionPending
            \<or> normalizeInboxListView (iq_list q) = ListHidden;
          items = (if useDecided then decidedInbox orgId (headsScanQuery q) s
            else currentWorkInbox orgId (or_else (iq_disposition q) CurrentWork) s)
      in js_sort (compare_inbox lc) (selectInboxItems q items))"

definition hiddenInboxCount :: "string \<Rightarrow> authority_store \<Rightarrow> int" where
  "hiddenInboxCount orgId s =
     (let hidden = hiddenThreadIds orgId s
      in if hidden = [] then 0
         else int (length (js_unique (List.map eventThreadId (List.filter
           (\<lambda>e. ev_org_id e = orgId \<and> map_of (as_dispositions s) (ev_id e) \<noteq> None \<and> ev_operation e \<noteq> OpTombstone
              \<and> eventThreadId e \<in> set hidden) (all_events s))))))"

definition summarizeInbox :: "string \<Rightarrow> authority_store \<Rightarrow> inbox_summary" where
  "summarizeInbox orgId s =
     (summarizeInboxItems (currentWorkInbox orgId CurrentWork s) (List.map cv_updated_at (listConversationPrefs orgId s)))
       \<lparr>is_hidden_count := hiddenInboxCount orgId s\<rparr>"

subsection \<open>Footprint and clearing\<close>

definition storeFootprint :: "string \<Rightarrow> authority_store \<Rightarrow> store_footprint" where
  "storeFootprint orgId s =
     (let events = List.filter (\<lambda>e. ev_org_id e = orgId) (all_events s)
      in \<lparr>sf_events = int (length events),
          sf_conversations = int (length (js_unique (List.map eventThreadId events))),
          sf_work_items = int (workItemCount orgId (as_work s)),
          sf_blobs = int (length (js_unique (List.map_filter (\<lambda>e. Option.bind (ev_content_hash e) to_truthy) events))),
          sf_recipes = int (recipeCount orgId (as_work s)),
          sf_executors = int (executorCount orgId (as_work s))\<rparr>)"

definition clearOperationalData :: "string \<Rightarrow> authority_store \<Rightarrow> (store_footprint \<times> store_footprint) \<times> authority_store" where
  "clearOperationalData orgId s =
     (let before = storeFootprint orgId s;
          hashes = js_unique (List.map_filter (\<lambda>e. if ev_org_id e = orgId then Option.bind (ev_content_hash e) to_truthy else None)
            (all_events s));
          events = List.filter (\<lambda>(r, e). ev_org_id e \<noteq> orgId) (as_events s);
          s1 = s\<lparr>as_events := events,
            as_current := delete_where (\<lambda>_ r. case map_of (as_events s) r of None \<Rightarrow> False | Some e \<Rightarrow> ev_org_id e = orgId)
              (as_current s),
            as_dispositions := delete_where (\<lambda>_ d. ad_org_id d = orgId) (as_dispositions s),
            as_prefs := delete_where (\<lambda>_ p. cv_org_id p = orgId) (as_prefs s),
            as_work := snd (dropOperationalWork orgId (as_work s)),
            as_blobs := fold (\<lambda>h m. if list_ex (\<lambda>(r, e). ev_content_hash e = Some h) events then m else AList.delete h m)
              hashes (as_blobs s)\<rparr>
      in ((before, storeFootprint orgId s1), s1))"

text \<open>\<open>commitSyncPage\<close> of this store: the ingest and the preferences of a page, and the row of its attempt.\<close>

definition commit_page_ingest ::
  "string \<Rightarrow> ingest_commit option \<Rightarrow> pref_patch list \<Rightarrow> (authority_store, event_record list) js_op" where
  "commit_page_ingest now ingest prefs s =
     (case (case ingest of None \<Rightarrow> (Inr [], s) | Some i \<Rightarrow> commitIngest now i s) of
        (Inl err, s1) \<Rightarrow> (Inl err, s1)
      | (Inr events, s1) \<Rightarrow> (Inr events, fold apply_pref prefs s1))"

definition page_attempt :: "new_ingest_attempt \<Rightarrow> settle_attempt \<Rightarrow> ingest_attempt" where
  "page_attempt i st =
     \<lparr>ia_id = na_id i, ia_org_id = na_org_id i, ia_installation_id = na_installation_id i, ia_stream_key = na_stream_key i,
      ia_delivery_id = na_delivery_id i, ia_started_at = na_started_at i, ia_finished_at = Some (st_finished_at st),
      ia_status = (if st_retryable_failure_count st = 0 then AttemptSucceeded else AttemptFailed),
      ia_accepted_count = st_accepted_count st, ia_duplicate_count = st_duplicate_count st,
      ia_quarantined_count = st_quarantined_count st, ia_retryable_failure_count = st_retryable_failure_count st,
      ia_error_code = st_error_code st\<rparr>"

definition authority_commitSyncPage :: "string \<Rightarrow> new_ingest_attempt \<Rightarrow> ingest_commit option \<Rightarrow> settle_attempt \<Rightarrow> pref_patch list
    \<Rightarrow> (authority_store, ingest_attempt \<times> event_record list) js_op" where
  "authority_commitSyncPage now attempt ingest settle prefs s =
     (case commit_page_ingest now ingest prefs s of
        (Inl err, s1) \<Rightarrow> (Inl err, s1)
      | (Inr events, s1) \<Rightarrow> (Inr (page_attempt attempt settle, events), s1))"

end
