(* ===== verification/Content.thy ===== *)
theory Content
  imports Surface AuthorityStore
begin

section \<open>Content\<close>

text \<open>
  How the parts of a record become one blob and are read back: \<open>packages/domain/src/content-parts.ts\<close>,
  \<open>canonicalization.ts\<close>, \<open>content-resolution.ts\<close>, and the readers of stored content in
  \<open>message-contract.ts\<close>. Texts have code units below 256; their
  encoding as bytes is UTF-8. SHA-256 (in hexadecimal) is the parameter \<open>sha\<close>. An element of a stored
  envelope is a record of strings, as the code's type says; a field of another type reads as absent.
\<close>

subsection \<open>Bytes and texts\<close>

definition utf8_char :: "char \<Rightarrow> string" where
  "utf8_char c = (let n = of_char c :: nat in if n < 128 then [c] else [char_of (192 + n div 64), char_of (128 + n mod 64)])"

definition utf8_encode :: "string \<Rightarrow> string" where
  "utf8_encode s = List.concat (List.map utf8_char s)"

text \<open>Bytes that encode no such text are outside the model: they are left as they are.\<close>

fun utf8_decode :: "string \<Rightarrow> string" where
  "utf8_decode [] = []"
| "utf8_decode [c] = [c]"
| "utf8_decode (c # d # s) =
     (let n = of_char c :: nat; m = of_char d :: nat
      in if (n = 194 \<or> n = 195) \<and> 128 \<le> m \<and> m < 192 then char_of ((n - 192) * 64 + (m - 128)) # utf8_decode s
         else c # utf8_decode (d # s))"

fun normalize_newlines :: "string \<Rightarrow> string" where
  "normalize_newlines [] = []"
| "normalize_newlines (c # s) =
     (if of_char c = (13 :: nat)
      then char_of (10 :: nat) # normalize_newlines (if s \<noteq> [] \<and> of_char (hd s) = (10 :: nat) then tl s else s)
      else c # normalize_newlines s)"

definition ends_with :: "string \<Rightarrow> string \<Rightarrow> bool" where
  "ends_with p s \<longleftrightarrow> length p \<le> length s \<and> drop (length s - length p) s = p"

text \<open>Base 64, in either alphabet; characters of neither are skipped and padding ends it.\<close>

definition base64_value :: "char \<Rightarrow> nat option" where
  "base64_value c =
     (let n = of_char c :: nat
      in if 65 \<le> n \<and> n \<le> 90 then Some (n - 65) else if 97 \<le> n \<and> n \<le> 122 then Some (n - 71)
         else if 48 \<le> n \<and> n \<le> 57 then Some (n + 4) else if n = 43 \<or> n = 45 then Some 62
         else if n = 47 \<or> n = 95 then Some 63 else None)"

fun base64_bytes :: "nat list \<Rightarrow> string" where
  "base64_bytes (a # b # c # d # r) =
     char_of (a * 4 + b div 16) # char_of ((b mod 16) * 16 + c div 4) # char_of ((c mod 4) * 64 + d) # base64_bytes r"
| "base64_bytes [a, b, c] = [char_of (a * 4 + b div 16), char_of ((b mod 16) * 16 + c div 4)]"
| "base64_bytes [a, b] = [char_of (a * 4 + b div 16)]"
| "base64_bytes _ = []"

definition base64_decode :: "string \<Rightarrow> string" where
  "base64_decode s = base64_bytes (List.map_filter base64_value (takeWhile (\<lambda>c. c \<noteq> CHR ''='') s))"

subsection \<open>Stored parts\<close>

definition CONTENT_PARTS_MEDIA_TYPE :: string where
  "CONTENT_PARTS_MEDIA_TYPE = ''application/vnd.regenic.content-parts+json''"

record stored_part =
  sp_role :: "string option"
  sp_media_type :: "string option"
  sp_source_filename :: "string option"
  sp_text :: "string option"
  sp_content_hash :: "string option"
  sp_bytes_base64 :: "string option"
  sp_external_locator :: "string option"

definition sha_form :: "string \<Rightarrow> bool" where
  "sha_form s \<longleftrightarrow> length s = 64
     \<and> list_all (\<lambda>c. let n = of_char c :: nat in 48 \<le> n \<and> n \<le> 57 \<or> 97 \<le> n \<and> n \<le> 102) s"

definition isTextMediaType :: "string \<Rightarrow> bool" where
  "isTextMediaType m \<longleftrightarrow> starts_with ''text/'' m \<or> m = ''application/json'' \<or> m = SURFACE_MEDIA_TYPE"

definition text_extensions :: "string list" where
  "text_extensions = [''txt'', ''md'', ''markdown'', ''csv'', ''tsv'', ''log'', ''json'', ''xml'', ''yaml'', ''yml'', ''htm'',
     ''html'', ''rst'', ''ics'', ''js'', ''mjs'', ''cjs'', ''jsx'', ''ts'', ''mts'', ''cts'', ''tsx'', ''py'', ''rb'', ''go'',
     ''java'', ''c'', ''h'', ''cpp'', ''hpp'', ''rs'', ''sh'', ''bash'', ''zsh'', ''sql'', ''toml'', ''ini'', ''conf'',
     ''properties'', ''css'', ''scss'', ''less'', ''svg'']"

definition isTextFilename :: "string option \<Rightarrow> bool" where
  "isTextFilename filename \<longleftrightarrow>
     (case filename of None \<Rightarrow> False | Some f \<Rightarrow> list_ex (\<lambda>e. ends_with (CHR ''.'' # e) (to_lower f)) text_extensions)"

definition stored_part_of :: "json \<Rightarrow> stored_part" where
  "stored_part_of v =
     (let fs = (case v of JObj fs \<Rightarrow> fs | _ \<Rightarrow> []); get = (\<lambda>k. json_string_field k fs)
      in \<lparr>sp_role = get ''role'', sp_media_type = get ''media_type'', sp_source_filename = get ''source_filename'',
          sp_text = get ''text'', sp_content_hash = get ''content_hash'', sp_bytes_base64 = get ''bytes_base64'',
          sp_external_locator = get ''external_locator''\<rparr>)"

definition parseStoredContentParts :: "string \<Rightarrow> stored_part list option" where
  "parseStoredContentParts bytes =
     (case json_parse (utf8_decode bytes) of
        Some (JArr vs) \<Rightarrow> if vs = [] then None else Some (List.map stored_part_of vs)
      | _ \<Rightarrow> None)"

definition storedPartText :: "stored_part \<Rightarrow> string option" where
  "storedPartText p =
     (case sp_text p of Some t \<Rightarrow> Some t
      | None \<Rightarrow> if \<not> truthy (sp_bytes_base64 p) \<or> \<not> truthy (sp_media_type p)
            \<or> \<not> isTextMediaType (or_else (sp_media_type p) []) then None
          else Some (utf8_decode (base64_decode (or_else (sp_bytes_base64 p) []))))"

definition storedPartBytes :: "stored_part \<Rightarrow> string option" where
  "storedPartBytes p = (if truthy (sp_bytes_base64 p) then map_option base64_decode (sp_bytes_base64 p) else None)"

definition storedPartContentHash :: "stored_part \<Rightarrow> string option" where
  "storedPartContentHash p = (case sp_content_hash p of None \<Rightarrow> None | Some h \<Rightarrow> if sha_form h then Some h else None)"

definition envelopeHasEmbeddedBytes :: "stored_part list \<Rightarrow> bool" where
  "envelopeHasEmbeddedBytes parts = list_ex (\<lambda>p. sp_bytes_base64 p \<noteq> None) parts"

definition stored_attachment :: "stored_part \<Rightarrow> bool" where
  "stored_attachment p \<longleftrightarrow> sp_role p = Some ''attachment''"

definition attachmentHashesFromStoredParts :: "stored_part list \<Rightarrow> string list" where
  "attachmentHashesFromStoredParts parts =
     js_unique (List.map_filter (\<lambda>p. if stored_attachment p then storedPartContentHash p else None) parts)"

subsection \<open>What a part resolves to\<close>

definition jsonMediaType :: "string \<Rightarrow> bool" where
  "jsonMediaType m \<longleftrightarrow> m = ''application/json'' \<or> ends_with ''+json'' m \<or> starts_with ''text/'' m"

definition isLikelyJsonDocument :: "string \<Rightarrow> bool" where
  "isLikelyJsonDocument bytes =
     (let rest = skip_ws bytes
      in rest \<noteq> [] \<and> (hd rest = CHR 0x7B \<or> hd rest = CHR ''['') \<and> json_parse (utf8_decode bytes) \<noteq> None)"

definition isUsableAttachmentBytes :: "string \<Rightarrow> string \<Rightarrow> string option \<Rightarrow> bool" where
  "isUsableAttachmentBytes bytes mediaType filename =
     (if bytes = [] then False
      else if jsonMediaType mediaType \<or> isTextFilename filename then True
      else \<not> isLikelyJsonDocument bytes)"

record resolution =
  rz_hashes :: "string list"
  rz_unresolved :: nat

definition no_resolution :: resolution where
  "no_resolution = \<lparr>rz_hashes = [], rz_unresolved = 0\<rparr>"

text \<open>The loops over the attachments: the hash of each that resolves, and the number that do not.\<close>

definition resolve_all :: "('a \<Rightarrow> string option) \<Rightarrow> 'a list \<Rightarrow> resolution" where
  "resolve_all hash xs = \<lparr>rz_hashes = js_unique (List.map_filter hash xs), rz_unresolved = length (List.filter (\<lambda>x. hash x = None) xs)\<rparr>"

definition resolutionFromParts :: "(string \<Rightarrow> string) \<Rightarrow> content_part list \<Rightarrow> resolution" where
  "resolutionFromParts sha parts =
     resolve_all (\<lambda>p. case cp_bytes p of None \<Rightarrow> None
         | Some b \<Rightarrow> if isUsableAttachmentBytes b (cp_media_type p) (cp_source_filename p) then Some (sha b) else None)
       (List.filter (\<lambda>p. cp_role p = RoleAttachment) parts)"

definition resolutionFromStoredParts :: "stored_part list \<Rightarrow> (string, string) js_map option \<Rightarrow> resolution" where
  "resolutionFromStoredParts parts blobs =
     resolve_all (\<lambda>p. case storedPartContentHash p of None \<Rightarrow> None
         | Some h \<Rightarrow> (case blobs of None \<Rightarrow> Some h
             | Some bs \<Rightarrow> (case map_of bs h of None \<Rightarrow> None
                 | Some stored \<Rightarrow> if isUsableAttachmentBytes stored (or_else (sp_media_type p) []) (sp_source_filename p)
                     then Some h else None)))
       (List.filter stored_attachment parts)"

definition resolutionFromStored :: "(string \<Rightarrow> string) \<Rightarrow> string \<Rightarrow> string \<Rightarrow> (string, string) js_map option \<Rightarrow> resolution" where
  "resolutionFromStored sha bytes mediaType blobs =
     (if mediaType = CONTENT_PARTS_MEDIA_TYPE then
        (case parseStoredContentParts bytes of None \<Rightarrow> no_resolution | Some parts \<Rightarrow> resolutionFromStoredParts parts blobs)
      else if isTextMediaType mediaType then no_resolution
      else if \<not> isUsableAttachmentBytes bytes mediaType None then \<lparr>rz_hashes = [], rz_unresolved = 1\<rparr>
      else \<lparr>rz_hashes = [sha bytes], rz_unresolved = 0\<rparr>)"

definition incomingWorsensAttachments :: "resolution \<Rightarrow> resolution \<Rightarrow> bool" where
  "incomingWorsensAttachments existing incoming = list_ex (\<lambda>h. h \<notin> set (rz_hashes incoming)) (rz_hashes existing)"

definition incomingImprovesAttachments :: "resolution \<Rightarrow> resolution \<Rightarrow> bool" where
  "incomingImprovesAttachments existing incoming \<longleftrightarrow>
     List.filter (\<lambda>h. h \<notin> set (rz_hashes existing)) (rz_hashes incoming) \<noteq> []
     \<and> \<not> incomingWorsensAttachments existing incoming"

text \<open>The stored attachments that have bytes, by locator; a later part with the same locator wins.\<close>

definition stored_by_locator :: "stored_part list \<Rightarrow> (string, stored_part) js_map" where
  "stored_by_locator parts =
     fold (\<lambda>p m. case sp_external_locator p of
         Some l \<Rightarrow> if stored_attachment p \<and> storedPartContentHash p \<noteq> None then js_set l p m else m
       | None \<Rightarrow> m) parts []"

definition preserve_part :: "(string \<Rightarrow> string option) \<Rightarrow> (string, stored_part) js_map \<Rightarrow> content_part \<Rightarrow> content_part" where
  "preserve_part readBlob byLocator p =
     (if cp_role p \<noteq> RoleAttachment \<or> \<not> truthy (cp_external_locator p)
         \<or> (case cp_bytes p of None \<Rightarrow> False | Some b \<Rightarrow> isUsableAttachmentBytes b (cp_media_type p) (cp_source_filename p))
      then p
      else let prior = map_of byLocator (or_else (cp_external_locator p) []);
               bytes = Option.bind (Option.bind prior storedPartContentHash) readBlob;
               priorType = Option.bind prior sp_media_type; priorName = Option.bind prior sp_source_filename
           in case bytes of None \<Rightarrow> p
              | Some b \<Rightarrow>
                  if isUsableAttachmentBytes b (or_else priorType (cp_media_type p)) (or_opt priorName (cp_source_filename p))
                  then \<lparr>cp_role = RoleAttachment, cp_media_type = or_else priorType (cp_media_type p),
                        cp_source_filename = or_opt (cp_source_filename p) priorName, cp_bytes = Some b, cp_text = None,
                        cp_external_locator = cp_external_locator p\<rparr>
                  else p)"

definition preserveResolvedAttachments :: "content_part list \<Rightarrow> (string \<times> string) option \<Rightarrow> (string \<Rightarrow> string option) \<Rightarrow> content_part list" where
  "preserveResolvedAttachments incoming existing readBlob =
     (case existing of None \<Rightarrow> incoming
      | Some (bytes, mediaType) \<Rightarrow>
          if mediaType = [] then incoming
          else let parts = (if mediaType = CONTENT_PARTS_MEDIA_TYPE then or_else (parseStoredContentParts bytes) [] else []);
                   byLocator = stored_by_locator parts
               in if byLocator = [] then incoming else List.map (preserve_part readBlob byLocator) incoming)"

subsection \<open>Canonical content\<close>

record canonical =
  cc_bytes :: string
  cc_hash :: string
  cc_media_type :: string
  cc_blobs :: "blob_object list"

definition content_unavailable :: js_error where
  "content_unavailable = ErrorMsg ''Content must be resolved before ingestion''"

definition canonicalizePart :: "content_part \<Rightarrow> js_error + string" where
  "canonicalizePart p =
     (case cp_bytes p of Some b \<Rightarrow> Inr b
      | None \<Rightarrow> (case cp_text p of Some t \<Rightarrow> Inr (utf8_encode (normalize_newlines t)) | None \<Rightarrow> Inl content_unavailable))"

definition shouldInlinePart :: "content_part \<Rightarrow> bool" where
  "shouldInlinePart p \<longleftrightarrow> cp_role p \<noteq> RoleAttachment \<and> isTextMediaType (cp_media_type p)"

definition isEmptyAttachment :: "content_part \<Rightarrow> bool" where
  "isEmptyAttachment p \<longleftrightarrow> cp_role p = RoleAttachment \<and> cp_bytes p = Some []"

definition isPointerPart :: "content_part \<Rightarrow> bool" where
  "isPointerPart p \<longleftrightarrow> truthy (cp_external_locator p) \<or> isEmptyAttachment p"

definition needsAttachmentEnvelope :: "content_part \<Rightarrow> bool" where
  "needsAttachmentEnvelope p \<longleftrightarrow> cp_role p = RoleAttachment \<and> \<not> isTextMediaType (cp_media_type p)
     \<and> isTextFilename (cp_source_filename p)"

fun role_string :: "content_role \<Rightarrow> string" where
  "role_string RoleBody = ''body''"
| "role_string RoleAttachment = ''attachment''"
| "role_string RoleTranscript = ''transcript''"
| "role_string RoleMetadata = ''metadata''"

definition optional_field :: "string \<Rightarrow> string option \<Rightarrow> (string \<times> string) list" where
  "optional_field k v = (if truthy v then [(k, or_else v [])] else [])"

definition part_head :: "content_part \<Rightarrow> (string \<times> string) list" where
  "part_head p = [(''role'', role_string (cp_role p)), (''media_type'', cp_media_type p)]
     @ optional_field ''source_filename'' (cp_source_filename p) @ optional_field ''external_locator'' (cp_external_locator p)"

definition encodeEnvelopePart :: "(string \<Rightarrow> string) \<Rightarrow> content_part \<Rightarrow> js_error + (string \<times> string) list \<times> blob_object list" where
  "encodeEnvelopePart sha p =
     (if cp_role p = RoleAttachment
         \<and> (case cp_bytes p of None \<Rightarrow> True | Some b \<Rightarrow> \<not> isUsableAttachmentBytes b (cp_media_type p) (cp_source_filename p))
      then Inr (part_head p, [])
      else case canonicalizePart p of Inl e \<Rightarrow> Inl e
        | Inr bytes \<Rightarrow>
            if shouldInlinePart p then Inr (part_head p @ [(''text'', utf8_decode bytes)], [])
            else Inr (part_head p @ [(''content_hash'', sha bytes)],
                      [\<lparr>bo_hash = sha bytes, bo_bytes = bytes, bo_media_type = cp_media_type p\<rparr>]))"

definition canonicalizeContent :: "(string \<Rightarrow> string) \<Rightarrow> content_part list \<Rightarrow> js_error + canonical" where
  "canonicalizeContent sha parts =
     (if parts = [] then Inl content_unavailable
      else if length parts = 1 \<and> \<not> needsAttachmentEnvelope (hd parts) \<and> \<not> isPointerPart (hd parts)
      then case canonicalizePart (hd parts) of Inl e \<Rightarrow> Inl e
        | Inr bytes \<Rightarrow> Inr \<lparr>cc_bytes = bytes, cc_hash = sha bytes, cc_media_type = cp_media_type (hd parts), cc_blobs = []\<rparr>
      else case js_traverse (encodeEnvelopePart sha) parts of Inl e \<Rightarrow> Inl e
        | Inr encoded \<Rightarrow>
            let bytes = utf8_encode (json_envelope (List.map fst encoded))
            in Inr \<lparr>cc_bytes = bytes, cc_hash = sha bytes, cc_media_type = CONTENT_PARTS_MEDIA_TYPE,
                    cc_blobs = unique_blobs (List.concat (List.map snd encoded))\<rparr>)"

definition canonicalizeRecordContent :: "(string \<Rightarrow> string) \<Rightarrow> ingest_record \<Rightarrow> js_error + canonical" where
  "canonicalizeRecordContent sha r =
     (case ir_content r of None \<Rightarrow> Inl content_unavailable | Some parts \<Rightarrow> canonicalizeContent sha parts)"

definition blobsForCanonical :: "canonical \<Rightarrow> blob_object list" where
  "blobsForCanonical c = \<lparr>bo_hash = cc_hash c, bo_bytes = cc_bytes c, bo_media_type = cc_media_type c\<rparr> # cc_blobs c"

definition extraBlobsForCanonical :: "canonical \<Rightarrow> blob_meta list option" where
  "extraBlobsForCanonical c =
     (if cc_blobs c = [] then None
      else Some (List.map (\<lambda>b. \<lparr>bm_content_hash = bo_hash b, bm_media_type = bo_media_type b,
        bm_byte_size = int (length (bo_bytes b))\<rparr>) (cc_blobs c)))"

subsection \<open>What a message says\<close>

definition bodyTextFromStored :: "string \<Rightarrow> string \<Rightarrow> string option" where
  "bodyTextFromStored bytes mediaType =
     (if mediaType = CONTENT_PARTS_MEDIA_TYPE then
        (case parseStoredContentParts bytes of None \<Rightarrow> None
         | Some parts \<Rightarrow>
             let body = or_else (List.find (\<lambda>p. sp_role p = Some ''body'') parts) (hd parts)
             in if sp_role body = Some ''metadata'' then None else storedPartText body)
      else if starts_with ''text/'' mediaType \<or> mediaType = ''application/json'' then Some (utf8_decode bytes)
      else None)"

definition attachmentDigestsFromParts :: "(string \<Rightarrow> string) \<Rightarrow> content_part list \<Rightarrow> string list" where
  "attachmentDigestsFromParts sha parts =
     js_unique (List.filter (\<lambda>d. d \<noteq> []) (List.map_filter (\<lambda>p. if cp_role p = RoleAttachment then map_option sha (cp_bytes p) else None) parts))"

definition attachmentDigestsFromStored :: "(string \<Rightarrow> string) \<Rightarrow> string \<Rightarrow> string \<Rightarrow> string list" where
  "attachmentDigestsFromStored sha bytes mediaType =
     (if mediaType \<noteq> CONTENT_PARTS_MEDIA_TYPE then []
      else case parseStoredContentParts bytes of None \<Rightarrow> []
        | Some parts \<Rightarrow> js_unique (List.filter (\<lambda>d. d \<noteq> []) (List.map_filter (\<lambda>p. if \<not> stored_attachment p then None
            else or_opt (storedPartContentHash p) (map_option sha (storedPartBytes p))) parts)))"

definition attachmentsCoveredBy :: "string list \<Rightarrow> string list \<Rightarrow> bool" where
  "attachmentsCoveredBy incoming existing \<longleftrightarrow> incoming \<noteq> [] \<and> existing \<noteq> [] \<and> list_all (\<lambda>d. d \<in> set existing) incoming"

definition recordBodyText :: "ingest_record \<Rightarrow> string option" where
  "recordBodyText r =
     Option.bind (List.find (\<lambda>p. cp_role p = RoleBody \<and> cp_text p \<noteq> None) (or_else (ir_content r) [])) cp_text"


subsection \<open>Reading canonical content back\<close>

lemma utf8_high:
  assumes "128 \<le> (of_char c :: nat)"
  shows "utf8_decode (utf8_char c @ s) = c # utf8_decode s"
proof -
  let ?n = "of_char c :: nat"
  have n: "?n < 256" by simp
  have d: "?n div 64 = 2 \<or> ?n div 64 = 3" using assms n by linarith
  then have lead: "(of_char (char_of (192 + ?n div 64)) :: nat) = 192 + ?n div 64" by (simp add: of_char_mod_256) auto
  have tail: "(of_char (char_of (128 + ?n mod 64)) :: nat) = 128 + ?n mod 64"
    using mod_less_divisor[of 64 ?n] by simp
  have "?n div 64 * 64 + ?n mod 64 = ?n" by simp
  then show ?thesis using assms d lead tail mod_less_divisor[of 64 ?n] by (auto simp: utf8_char_def Let_def)
qed

lemma utf8_low: "(of_char c :: nat) < 128 \<Longrightarrow> utf8_decode (c # s) = c # utf8_decode s"
  by (cases s) (simp_all add: Let_def)

lemma utf8_round_trip [simp]: "utf8_decode (utf8_encode s) = s"
proof (induction s)
  case (Cons c s)
  have e: "utf8_encode (c # s) = utf8_char c @ utf8_encode s" by (simp add: utf8_encode_def)
  show ?case
  proof (cases "128 \<le> (of_char c :: nat)")
    case True
    then show ?thesis using Cons.IH utf8_high[OF True] by (simp add: e)
  next
    case False
    then have "utf8_char c = [c]" by (simp add: utf8_char_def Let_def)
    then show ?thesis using Cons.IH utf8_low[of c] False by (simp add: e)
  qed
qed (simp add: utf8_encode_def)

text \<open>The stored form of a part.\<close>

definition stored_form :: "(string \<times> string) list \<Rightarrow> stored_part" where
  "stored_form fs = stored_part_of (JObj (string_fields fs))"

lemma envelope_fields_distinct:
  "encodeEnvelopePart sha p = Inr (fs, bs) \<Longrightarrow> distinct (List.map fst fs)"
  by (auto simp: encodeEnvelopePart_def part_head_def optional_field_def split: if_splits sum.splits option.splits)

lemma traverse_all:
  "js_traverse f xs = Inr ys \<Longrightarrow> length ys = length xs \<and> (\<forall>i < length xs. f (xs ! i) = Inr (ys ! i))"
proof (induction xs arbitrary: ys)
  case (Cons x xs)
  then obtain y zs where y: "f x = Inr y" "js_traverse f xs = Inr zs" "ys = y # zs" by (auto split: sum.splits)
  have "length zs = length xs \<and> (\<forall>i < length xs. f (xs ! i) = Inr (zs ! i))" by (rule Cons.IH[OF y(2)])
  then show ?case using y(1,3) by (auto simp: nth_Cons split: nat.split)
qed simp

lemma envelope_canonical:
  assumes "canonicalizeContent sha parts = Inr c" and "1 < length parts"
  obtains encoded where "js_traverse (encodeEnvelopePart sha) parts = Inr encoded"
    and "cc_bytes c = utf8_encode (json_envelope (List.map fst encoded))" and "cc_media_type c = CONTENT_PARTS_MEDIA_TYPE"
    and "parseStoredContentParts (cc_bytes c) = Some (List.map (\<lambda>e. stored_form (fst e)) encoded)"
proof -
  from assms obtain encoded where e: "js_traverse (encodeEnvelopePart sha) parts = Inr encoded"
    and c: "cc_bytes c = utf8_encode (json_envelope (List.map fst encoded))" "cc_media_type c = CONTENT_PARTS_MEDIA_TYPE"
    by (auto simp: canonicalizeContent_def Let_def split: if_splits sum.splits)
  have len: "length encoded = length parts" using traverse_all[OF e] by blast
  have "\<forall>fs \<in> set (List.map fst encoded). distinct (List.map fst fs)"
  proof
    fix fs assume "fs \<in> set (List.map fst encoded)"
    then obtain i where i: "i < length encoded" "fs = fst (encoded ! i)" by (auto simp: in_set_conv_nth)
    then show "distinct (List.map fst fs)"
      using traverse_all[OF e] len envelope_fields_distinct[of sha "parts ! i" "fst (encoded ! i)" "snd (encoded ! i)"] by simp
  qed
  from json_parse_envelope[OF this] have "parseStoredContentParts (cc_bytes c) = Some (List.map (\<lambda>e. stored_form (fst e)) encoded)"
    using assms(2) len by (auto simp: parseStoredContentParts_def c(1) stored_form_def comp_def)
  with e c that show thesis by blast
qed


lemma string_field [simp]: "json_string_field k (string_fields fs) = map_of fs k"
proof -
  have "map_of (string_fields fs) k = map_option JStr (map_of fs k)"
    by (induction fs) (auto simp: string_fields_def)
  then show ?thesis by (simp add: json_string_field_def split: option.split)
qed

text \<open>What is kept of a part in an envelope.\<close>

definition unresolved_part :: "content_part \<Rightarrow> bool" where
  "unresolved_part p \<longleftrightarrow> cp_role p = RoleAttachment
     \<and> (case cp_bytes p of None \<Rightarrow> True | Some b \<Rightarrow> \<not> isUsableAttachmentBytes b (cp_media_type p) (cp_source_filename p))"

definition part_bytes :: "content_part \<Rightarrow> string" where
  "part_bytes p = (case canonicalizePart p of Inl _ \<Rightarrow> [] | Inr b \<Rightarrow> b)"

definition truthy_field :: "string option \<Rightarrow> string option" where
  "truthy_field v = (if truthy v then v else None)"

definition stored_view :: "(string \<Rightarrow> string) \<Rightarrow> content_part \<Rightarrow> stored_part" where
  "stored_view sha p =
     \<lparr>sp_role = Some (role_string (cp_role p)), sp_media_type = Some (cp_media_type p),
      sp_source_filename = truthy_field (cp_source_filename p),
      sp_text = (if unresolved_part p \<or> \<not> shouldInlinePart p then None else Some (utf8_decode (part_bytes p))),
      sp_content_hash = (if unresolved_part p \<or> shouldInlinePart p then None else Some (sha (part_bytes p))),
      sp_bytes_base64 = None, sp_external_locator = truthy_field (cp_external_locator p)\<rparr>"

lemma optional_lookup: "map_of (optional_field k v @ m) j = (if j = k \<and> truthy v then v else map_of m j)"
  by (cases v) (auto simp: optional_field_def)

lemma head_lookup: "map_of (part_head p @ m) j =
  (if j = ''role'' then Some (role_string (cp_role p)) else if j = ''media_type'' then Some (cp_media_type p)
   else if j = ''source_filename'' \<and> truthy (cp_source_filename p) then cp_source_filename p
   else if j = ''external_locator'' \<and> truthy (cp_external_locator p) then cp_external_locator p else map_of m j)"
  by (simp add: part_head_def optional_lookup del: map_of_append)

lemma stored_form_head: "stored_form (part_head p @ m) =
  \<lparr>sp_role = Some (role_string (cp_role p)), sp_media_type = Some (cp_media_type p),
   sp_source_filename = (if truthy (cp_source_filename p) then cp_source_filename p else map_of m ''source_filename''),
   sp_text = map_of m ''text'', sp_content_hash = map_of m ''content_hash'', sp_bytes_base64 = map_of m ''bytes_base64'',
   sp_external_locator = (if truthy (cp_external_locator p) then cp_external_locator p else map_of m ''external_locator'')\<rparr>"
  by (simp add: stored_form_def stored_part_of_def head_lookup Let_def del: map_of_append)

lemma stored_view_part:
  assumes "encodeEnvelopePart sha p = Inr e"
  shows "stored_form (fst e) = stored_view sha p"
proof (cases "unresolved_part p")
  case True
  then have "fst e = part_head p @ []" using assms by (auto simp: encodeEnvelopePart_def unresolved_part_def)
  then show ?thesis unfolding stored_view_def using True by (simp only: stored_form_head map_of.simps truthy_field_def simp_thms if_True)
next
  case False
  then obtain b where b: "canonicalizePart p = Inr b"
    and e: "fst e = part_head p @ (if shouldInlinePart p then [(''text'', utf8_decode b)] else [(''content_hash'', sha b)])"
    using assms by (auto simp: encodeEnvelopePart_def unresolved_part_def split: sum.splits if_splits)
  show ?thesis using False
    by (cases "shouldInlinePart p") (simp_all add: e stored_form_head stored_view_def truthy_field_def part_bytes_def b)
qed

lemma stored_views:
  assumes "js_traverse (encodeEnvelopePart sha) parts = Inr encoded"
  shows "List.map (\<lambda>e. stored_form (fst e)) encoded = List.map (stored_view sha) parts"
proof (rule nth_equalityI)
  note t = traverse_all[OF assms]
  show "length (List.map (\<lambda>e. stored_form (fst e)) encoded) = length (List.map (stored_view sha) parts)" using t by simp
  fix i assume "i < length (List.map (\<lambda>e. stored_form (fst e)) encoded)"
  then show "List.map (\<lambda>e. stored_form (fst e)) encoded ! i = List.map (stored_view sha) parts ! i"
    using t stored_view_part[of sha "parts ! i" "encoded ! i"] by simp
qed

lemma views_read:
  assumes "canonicalizeContent sha parts = Inr c" and "1 < length parts"
  shows "cc_media_type c = CONTENT_PARTS_MEDIA_TYPE" and "parseStoredContentParts (cc_bytes c) = Some (List.map (stored_view sha) parts)"
proof -
  obtain encoded where e: "js_traverse (encodeEnvelopePart sha) parts = Inr encoded"
    and c: "cc_media_type c = CONTENT_PARTS_MEDIA_TYPE"
    and p: "parseStoredContentParts (cc_bytes c) = Some (List.map (\<lambda>e. stored_form (fst e)) encoded)"
    by (rule envelope_canonical[OF assms])
  show "cc_media_type c = CONTENT_PARTS_MEDIA_TYPE" by (rule c)
  show "parseStoredContentParts (cc_bytes c) = Some (List.map (stored_view sha) parts)" using p stored_views[OF e] by simp
qed

text \<open>C8. The stored content of a message is read back as it was written: when a content of several parts has been
  made canonical, parsing the stored bytes gives each part again in order, with its role, type, name and
  locator, the text of a part that was inlined and the hash of one that was stored aside.\<close>

theorem canonical_content_reads_back:
  assumes "canonicalizeContent sha parts = Inr c" and "1 < length parts"
  shows "parseStoredContentParts (cc_bytes c) = Some (List.map (stored_view sha) parts)"
  by (rule views_read(2)[OF assms])

lemma resolve_all_map: "resolve_all f (List.map g xs) = resolve_all (\<lambda>x. f (g x)) xs"
  by (simp add: resolve_all_def List.map_filter_def filter_map comp_def)

lemma resolve_all_cong: "(\<And>x. x \<in> set xs \<Longrightarrow> f x = g x) \<Longrightarrow> resolve_all f xs = resolve_all g xs"
proof -
  assume eq: "\<And>x. x \<in> set xs \<Longrightarrow> f x = g x"
  then have "List.map_filter f xs = List.map_filter g xs" unfolding List.map_filter_def
    by (intro map_cong filter_cong) (simp_all add: eq cong: filter_cong)
  moreover have "List.filter (\<lambda>x. f x = None) xs = List.filter (\<lambda>x. g x = None) xs" using eq by (intro filter_cong) simp_all
  ultimately show ?thesis by (simp add: resolve_all_def)
qed

lemma attachment_view:
  assumes "\<forall>b. sha_form (sha b)"
  shows "stored_attachment (stored_view sha p) \<longleftrightarrow> cp_role p = RoleAttachment"
    and "cp_role p = RoleAttachment \<Longrightarrow> storedPartContentHash (stored_view sha p) =
      (case cp_bytes p of None \<Rightarrow> None | Some b \<Rightarrow> if isUsableAttachmentBytes b (cp_media_type p) (cp_source_filename p) then Some (sha b) else None)"
proof -
  show "stored_attachment (stored_view sha p) \<longleftrightarrow> cp_role p = RoleAttachment"
    by (cases "cp_role p") (simp_all add: stored_attachment_def stored_view_def)
  show "cp_role p = RoleAttachment \<Longrightarrow> storedPartContentHash (stored_view sha p) =
      (case cp_bytes p of None \<Rightarrow> None | Some b \<Rightarrow> if isUsableAttachmentBytes b (cp_media_type p) (cp_source_filename p) then Some (sha b) else None)"
    using assms by (auto simp: storedPartContentHash_def stored_view_def unresolved_part_def shouldInlinePart_def part_bytes_def
        canonicalizePart_def split: option.splits)
qed

text \<open>C28. Resolving the stored content and resolving the parts it was made of are the same: for a content of
  several parts and a hash function with the form of SHA-256, the attachments that resolve, their hashes and
  the number that do not are equal.\<close>

theorem canonical_resolution:
  assumes "canonicalizeContent sha parts = Inr c" and "1 < length parts" and "\<forall>b. sha_form (sha b)"
  shows "resolutionFromStored sha (cc_bytes c) (cc_media_type c) None = resolutionFromParts sha parts"
proof -
  have att: "List.filter stored_attachment (List.map (stored_view sha) parts) =
      List.map (stored_view sha) (List.filter (\<lambda>p. cp_role p = RoleAttachment) parts)"
    by (simp add: filter_map comp_def attachment_view(1)[OF assms(3)])
  have "resolutionFromStored sha (cc_bytes c) (cc_media_type c) None = resolutionFromStoredParts (List.map (stored_view sha) parts) None"
    by (simp add: resolutionFromStored_def views_read[OF assms(1,2)])
  also have "\<dots> = resolve_all (\<lambda>p. storedPartContentHash (stored_view sha p)) (List.filter (\<lambda>p. cp_role p = RoleAttachment) parts)"
    unfolding resolutionFromStoredParts_def att resolve_all_map by (rule resolve_all_cong) (simp split: option.split)
  also have "\<dots> = resolutionFromParts sha parts"
    unfolding resolutionFromParts_def by (rule resolve_all_cong) (simp add: attachment_view(2)[OF assms(3)])
  finally show ?thesis .
qed


text \<open>A message with a body and two attachments, one of which has not been fetched.\<close>

definition sample_parts :: "content_part list" where
  "sample_parts =
     [\<lparr>cp_role = RoleBody, cp_media_type = ''text/plain'', cp_source_filename = None, cp_bytes = None, cp_text = Some ''hi'', cp_external_locator = None\<rparr>,
      \<lparr>cp_role = RoleAttachment, cp_media_type = ''image/png'', cp_source_filename = Some ''a.png'', cp_bytes = Some ''png'', cp_text = None, cp_external_locator = Some ''l1''\<rparr>,
      \<lparr>cp_role = RoleAttachment, cp_media_type = ''image/png'', cp_source_filename = None, cp_bytes = None, cp_text = None, cp_external_locator = Some ''l2''\<rparr>]"

definition sample_sha :: "string \<Rightarrow> string" where
  "sample_sha b = List.replicate 64 (CHR ''0'')"

lemma sample_canonical: "canonicalizeContent sample_sha sample_parts = Inr (projr (canonicalizeContent sample_sha sample_parts))"
proof -
  have "(case canonicalizeContent sample_sha sample_parts of Inl _ \<Rightarrow> False | Inr _ \<Rightarrow> True)" by code_simp
  then show ?thesis by (simp split: sum.splits)
qed

lemma canonical_content_reads_back_witness:
  "parseStoredContentParts (cc_bytes (projr (canonicalizeContent sample_sha sample_parts))) = Some (List.map (stored_view sample_sha) sample_parts)"
  by (rule canonical_content_reads_back[OF sample_canonical]) (simp add: sample_parts_def)

lemma canonical_resolution_witness:
  "resolutionFromStored sample_sha (cc_bytes (projr (canonicalizeContent sample_sha sample_parts)))
     (cc_media_type (projr (canonicalizeContent sample_sha sample_parts))) None = resolutionFromParts sample_sha sample_parts"
  by (rule canonical_resolution[OF sample_canonical]) (simp_all add: sample_parts_def sample_sha_def sha_form_def list_all_iff)

end
