(* ===== verification/Arrangement.thy ===== *)
theory Arrangement
  imports Content
begin

section \<open>Arrangement\<close>

text \<open>
  Whether a message is current work: \<open>packages/domain/src/arrangement.ts\<close>, \<open>arrangement-service.ts\<close> and
  \<open>personal-dispatch-policy.ts\<close>. Texts have code units below 256, so the alternatives of the two patterns that
  are Chinese characters, full-width punctuation or emoji never match and are left out.
\<close>

subsection \<open>The dispatch policy\<close>

text \<open>The version of a valid policy is 1.\<close>

record dispatch_policy =
  dp_high_hint :: disposition
  dp_actionable :: disposition
  dp_short_text :: disposition
  dp_default :: disposition

definition DEFAULT_PERSONAL_DISPATCH_POLICY :: dispatch_policy where
  "DEFAULT_PERSONAL_DISPATCH_POLICY =
     \<lparr>dp_high_hint = CurrentWork, dp_actionable = CurrentWork, dp_short_text = DispositionPending, dp_default = CurrentWork\<rparr>"

definition PERSONAL_DISPATCH_POLICY_PREF_KEY :: string where
  "PERSONAL_DISPATCH_POLICY_PREF_KEY = ''personal_dispatch_policy_v1''"

definition disposition_of :: "string option \<Rightarrow> disposition option" where
  "disposition_of s =
     (if s = Some ''current_work'' then Some CurrentWork
      else if s = Some ''outside_current_work'' then Some OutsideCurrentWork
      else if s = Some ''pending'' then Some DispositionPending else None)"

definition validatePersonalDispatchPolicy :: "json \<Rightarrow> dispatch_policy option" where
  "validatePersonalDispatchPolicy v =
     (case v of
        JObj fs \<Rightarrow>
          if map_of fs ''version'' \<noteq> Some (JNum 1) then None
          else (case (disposition_of (json_string_field ''high_hint_disposition'' fs),
                      disposition_of (json_string_field ''actionable_disposition'' fs),
                      disposition_of (json_string_field ''short_text_disposition'' fs),
                      disposition_of (json_string_field ''default_disposition'' fs)) of
                  (Some h, Some a, Some s, Some d) \<Rightarrow>
                    Some \<lparr>dp_high_hint = h, dp_actionable = a, dp_short_text = s, dp_default = d\<rparr>
                | _ \<Rightarrow> None)
      | _ \<Rightarrow> None)"

definition policyFor :: "string \<Rightarrow> work_store \<Rightarrow> dispatch_policy" where
  "policyFor orgId s =
     (case getUiPref orgId PERSONAL_DISPATCH_POLICY_PREF_KEY s of
        None \<Rightarrow> DEFAULT_PERSONAL_DISPATCH_POLICY
      | Some v \<Rightarrow>
          if v = [] then DEFAULT_PERSONAL_DISPATCH_POLICY
          else or_else (Option.bind (json_parse v) validatePersonalDispatchPolicy) DEFAULT_PERSONAL_DISPATCH_POLICY)"

subsection \<open>Noise and requests\<close>

text \<open>\<open>/^(ok|okay|thanks|thx|ty|lol|lgtm|\+1|ha+)+[!.]*$/i\<close>: after each alternative, the text that remains.\<close>

definition noise_words :: "string list" where
  "noise_words = [''ok'', ''okay'', ''thanks'', ''thx'', ''ty'', ''lol'', ''lgtm'', ''+1'']"

definition noise_rests :: "string \<Rightarrow> string list" where
  "noise_rests s =
     List.map (\<lambda>w. drop (length w) s) (List.filter (\<lambda>w. starts_with w s) noise_words)
     @ (if starts_with ''ha'' s
        then List.map (\<lambda>k. drop (Suc (Suc k)) s) [0..<length (takeWhile (\<lambda>c. c = CHR ''a'') (drop 1 s))] else [])"

lemma noise_rests_shorter: "r \<in> set (noise_rests s) \<Longrightarrow> length r < length s"
proof -
  have nonempty: "starts_with w s \<Longrightarrow> w \<noteq> [] \<Longrightarrow> s \<noteq> []" for w by (auto simp: starts_with_def)
  have shorter: "s \<noteq> [] \<Longrightarrow> length (drop (Suc k) s) < length s" for k by simp
  have words: "\<forall>w \<in> set noise_words. \<exists>k. length w = Suc k" by (simp add: noise_words_def)
  assume r: "r \<in> set (noise_rests s)"
  show ?thesis
  proof (cases "r \<in> set (List.map (\<lambda>w. drop (length w) s) (List.filter (\<lambda>w. starts_with w s) noise_words))")
    case True
    then obtain w where w: "w \<in> set noise_words" "starts_with w s" "r = drop (length w) s" by auto
    then obtain k where "length w = Suc k" using words by blast
    then show ?thesis using shorter[of k] nonempty[OF w(2)] w(3) by fastforce
  next
    case False
    then have ha: "starts_with ''ha'' s" using r unfolding noise_rests_def by (auto split: if_splits)
    from False r obtain k where "r = drop (Suc (Suc k)) s" unfolding noise_rests_def by (auto split: if_splits)
    then show ?thesis using shorter[of "Suc k"] nonempty[OF ha] by simp
  qed
qed

function noise_match :: "string \<Rightarrow> bool" where
  "noise_match s = list_ex (\<lambda>r. list_all (\<lambda>c. c = CHR ''!'' \<or> c = CHR ''.'') r \<or> noise_match r) (noise_rests s)"
  by pat_completeness auto
termination
  by (relation "measure length") (auto dest: noise_rests_shorter)

declare noise_match.simps [simp del]

definition isNoise :: "string option \<Rightarrow> bool" where
  "isNoise t = (case t of None \<Rightarrow> False | Some s \<Rightarrow> s = [] \<or> noise_match (to_lower s))"

definition actionable_words :: "string list" where
  "actionable_words = [''?'', ''please'', ''can you'', ''could you'', ''need you'', ''deadline'', ''blocker'', ''urgent'']"

definition isActionable :: "string option \<Rightarrow> bool" where
  "isActionable t = (case t of None \<Rightarrow> False | Some s \<Rightarrow> list_ex (\<lambda>w. js_includes w (to_lower s)) actionable_words)"

definition isHighHint :: "weight_hints option \<Rightarrow> bool" where
  "isHighHint h \<longleftrightarrow> 7 / 10 \<le> or_else (Option.bind h wh_urgency) 0 \<or> 7 / 10 \<le> or_else (Option.bind h wh_importance) 0"

definition normalizeText :: "string option \<Rightarrow> string option" where
  "normalizeText t = map_option (\<lambda>s. js_trim (squash_spaces s)) t"

subsection \<open>The decision\<close>

record arrangement_input =
  ai_event_id :: string
  ai_org_id :: string
  ai_operation :: ingest_operation
  ai_type :: "string option"
  ai_kind :: "message_kind option"
  ai_text :: "string option"
  ai_weight_hints :: "weight_hints option"
  ai_policy :: "dispatch_policy option"

definition decision_of :: "arrangement_input \<Rightarrow> disposition \<Rightarrow> string \<Rightarrow> rat \<Rightarrow> string \<Rightarrow> arrangement_decision" where
  "decision_of i d reason score decidedAt =
     \<lparr>ad_event_id = ai_event_id i, ad_org_id = ai_org_id i, ad_disposition = d, ad_layer = L1Event,
      ad_reason_codes = [reason], ad_score = score, ad_decided_at = decidedAt\<rparr>"

definition policyDecision :: "arrangement_input \<Rightarrow> disposition \<Rightarrow> string \<Rightarrow> rat \<Rightarrow> string \<Rightarrow> arrangement_decision" where
  "policyDecision i d reason score decidedAt =
     (let p = DEFAULT_PERSONAL_DISPATCH_POLICY;
          default = (if reason = ''weight_hint'' then dp_high_hint p else if reason = ''actionable'' then dp_actionable p
            else if reason = ''needs_review'' then dp_short_text p else dp_default p)
      in decision_of i d (if d = default then reason else ''policy_'' @ reason) score decidedAt)"

definition arrangeMessage :: "string \<Rightarrow> arrangement_input \<Rightarrow> arrangement_decision" where
  "arrangeMessage now i =
     (let t = normalizeText (ai_text i); policy = or_else (ai_policy i) DEFAULT_PERSONAL_DISPATCH_POLICY
      in if ai_operation i = OpTombstone then decision_of i OutsideCurrentWork ''tombstoned'' 0 now
         else if isHighHint (ai_weight_hints i) then policyDecision i (dp_high_hint policy) ''weight_hint'' (9 / 10) now
         else if ai_type i = Some ''thread_status'' then decision_of i OutsideCurrentWork ''thread_status'' (1 / 5) now
         else if ai_type i = Some ''task'' then decision_of i CurrentWork ''task'' (22 / 25) now
         else if isNoise t then decision_of i OutsideCurrentWork ''noise'' 0 now
         else if ai_kind i = Some KindAssistant then decision_of i OutsideCurrentWork ''assistant_not_current_work'' (1 / 4) now
         else if isActionable t then policyDecision i (dp_actionable policy) ''actionable'' (17 / 20) now
         else if ai_type i = Some ''thread_reply'' then decision_of i OutsideCurrentWork ''thread_reply_noise'' (3 / 20) now
         else if (case t of None \<Rightarrow> False | Some s \<Rightarrow> length s < 8)
           then policyDecision i (dp_short_text policy) ''needs_review'' (2 / 5) now
         else policyDecision i (dp_default policy) ''default_personal_attention'' (3 / 5) now)"

definition arrangement_decide :: "string \<Rightarrow> event_record \<Rightarrow> ingest_record \<Rightarrow> dispatch_policy \<Rightarrow> arrangement_decision" where
  "arrangement_decide now e r policy =
     arrangeMessage now \<lparr>ai_event_id = ev_id e, ai_org_id = ev_org_id e, ai_operation = ev_operation e, ai_type = Some (ir_type r),
       ai_kind = map_option ms_kind (surfaceFromParts (or_else (ir_content r) [])), ai_text = recordBodyText r,
       ai_weight_hints = ir_weight_hints r, ai_policy = Some policy\<rparr>"

definition arrangement_remember ::
  "string \<Rightarrow> event_record \<Rightarrow> ingest_record \<Rightarrow> dispatch_policy \<Rightarrow> authority_store \<Rightarrow> arrangement_decision \<times> authority_store" where
  "arrangement_remember now e r policy s = (let d = arrangement_decide now e r policy in (d, putDisposition d s))"

text \<open>A decision is about its event, and neither a tombstone nor a status marker is current work.\<close>

lemma policy_reason: "ad_reason_codes (policyDecision i d r sc now) \<in> {[r], [''policy_'' @ r]}" "ad_disposition (policyDecision i d r sc now) = d"
  "ad_event_id (policyDecision i d r sc now) = ai_event_id i" "ad_org_id (policyDecision i d r sc now) = ai_org_id i"
  by (simp_all add: policyDecision_def decision_of_def Let_def)

lemma arrange_event: "ad_event_id (arrangeMessage now i) = ai_event_id i" "ad_org_id (arrangeMessage now i) = ai_org_id i"
  by (simp_all add: arrangeMessage_def policy_reason decision_of_def Let_def)

lemma arrange_not_current:
  assumes "ad_disposition (arrangeMessage now i) = CurrentWork"
  shows "ai_operation i \<noteq> OpTombstone" and "''thread_status'' \<notin> set (ad_reason_codes (arrangeMessage now i))"
proof -
  show "ai_operation i \<noteq> OpTombstone" using assms by (auto simp: arrangeMessage_def decision_of_def)
  have p: "''thread_status'' \<notin> set (ad_reason_codes (policyDecision i d r sc now))" if "r \<in> {''weight_hint'', ''actionable'', ''needs_review'', ''default_personal_attention''}" for d r sc
    using policy_reason(1)[of i d r sc now] that by auto
  show "''thread_status'' \<notin> set (ad_reason_codes (arrangeMessage now i))"
    using assms by (auto simp: arrangeMessage_def Let_def decision_of_def p split: if_splits)
qed

end
