(* ===== verification/AuthorityInvariant.thy ===== *)
theory AuthorityInvariant
  imports AuthorityStore
begin

section \<open>The well-formed authority store\<close>

text \<open>
  What every run of operations keeps: references name one object each, a source identity that has events has
  the newest of them as its head, and the blob of every event is in the store.
\<close>

subsection \<open>Operations\<close>

datatype authority_op =
  AoAppend new_event
| AoRevise event_revision
| AoTombstone tombstone_event
| AoCommit ingest_commit
| AoPage "ingest_commit option" "pref_patch list"
| AoAlias alias_bind
| AoRepoint repoint_content
| AoDecide arrangement_decision
| AoPref pref_patch
| AoClaim new_outbound
| AoPut outbound_put
| AoClear string
| AoWork "work_store \<Rightarrow> work_store"

fun authority_step :: "string \<times> authority_op \<Rightarrow> authority_store \<Rightarrow> authority_store" where
  "authority_step (now, AoAppend i) s = snd (append_event now i s)"
| "authority_step (now, AoRevise i) s = snd (appendRevision now i s)"
| "authority_step (now, AoTombstone i) s = snd (markTombstone now i s)"
| "authority_step (now, AoCommit i) s = snd (commitIngest now i s)"
| "authority_step (now, AoPage i ps) s = snd (commit_page_ingest now i ps s)"
| "authority_step (now, AoAlias i) s = snd (bindSourceIdentityAliases i s)"
| "authority_step (now, AoRepoint i) s = snd (repointContentHash now i s)"
| "authority_step (now, AoDecide d) s = putDisposition d s"
| "authority_step (now, AoPref i) s = snd (putConversationPref i s)"
| "authority_step (now, AoClaim i) s = snd (claimOutboundAttempt i s)"
| "authority_step (now, AoPut i) s = snd (putOutboundAttempt i s)"
| "authority_step (now, AoClear orgId) s = snd (clearOperationalData orgId s)"
| "authority_step (now, AoWork f) s = s\<lparr>as_work := f (as_work s)\<rparr>"

definition authority_run :: "(string \<times> authority_op) list \<Rightarrow> authority_store" where
  "authority_run ops = fold authority_step ops new_authority_store"

subsection \<open>The invariant\<close>

abbreviation own_events :: "source_identity \<Rightarrow> authority_store \<Rightarrow> (nat \<times> event_record) list" where
  "own_events k s \<equiv> List.filter (\<lambda>p. event_identity (snd p) = k) (as_events s)"

definition refs_ok :: "authority_store \<Rightarrow> bool" where
  "refs_ok s \<longleftrightarrow> distinct (List.map fst (as_events s)) \<and> (\<forall>p \<in> set (as_events s). fst p < as_nextRef s)
     \<and> distinct (js_keys (as_current s))"

definition heads_ok :: "authority_store \<Rightarrow> bool" where
  "heads_ok s \<longleftrightarrow> (\<forall>k r. head_ref k s = Some r \<longrightarrow> (\<exists>e. (r, e) \<in> set (as_events s) \<and> ev_org_id e = sid_org_id k))
     \<and> (\<forall>k. own_events k s \<noteq> [] \<longrightarrow> head_ref k s = Some (fst (last (own_events k s))))"

definition blobs_ok :: "authority_store \<Rightarrow> bool" where
  "blobs_ok s \<longleftrightarrow> (\<forall>e \<in> set (all_events s). \<forall>h. ev_content_hash e = Some h \<longrightarrow> findBlob h s \<noteq> None)"

definition authority_ok :: "authority_store \<Rightarrow> bool" where
  "authority_ok s \<longleftrightarrow> refs_ok s \<and> heads_ok s \<and> blobs_ok s"

named_theorems core_frame "operations that keep the events, the heads and the blobs"

text \<open>A change that keeps the events and the heads, and loses no blob.\<close>

definition core_grows :: "authority_store \<Rightarrow> authority_store \<Rightarrow> bool" where
  "core_grows s t \<longleftrightarrow> as_events t = as_events s \<and> as_current t = as_current s \<and> as_nextRef t = as_nextRef s
     \<and> (\<forall>h. findBlob h s \<noteq> None \<longrightarrow> findBlob h t \<noteq> None)"

lemma core_refl [simp]: "core_grows s s"
  by (simp add: core_grows_def)

lemma core_trans: "core_grows s t \<Longrightarrow> core_grows t u \<Longrightarrow> core_grows s u"
  by (simp add: core_grows_def)

lemma core_fold: "(\<And>x t. core_grows t (f x t)) \<Longrightarrow> core_grows s (fold f xs s)"
  by (induction xs arbitrary: s) (auto intro: core_trans)

lemma core_ok:
  assumes "core_grows s t" and "authority_ok s"
  shows "authority_ok t"
proof -
  have "as_events t = as_events s" "as_current t = as_current s" "as_nextRef t = as_nextRef s" using assms(1) by (simp_all add: core_grows_def)
  then have "refs_ok t = refs_ok s" "heads_ok t = heads_ok s" by (simp_all add: refs_ok_def heads_ok_def head_ref_def)
  moreover have "blobs_ok t" using assms by (simp add: authority_ok_def blobs_ok_def core_grows_def all_events_def)
  ultimately show ?thesis using assms(2) by (simp add: authority_ok_def)
qed

lemma core_remember [core_frame]: "core_grows s (rememberBlob now b s)"
  by (simp add: core_grows_def rememberBlob_def findBlob_def)

lemma core_put_disposition [core_frame]: "core_grows s (putDisposition d s)"
  by (simp add: core_grows_def putDisposition_def findBlob_def)

lemma core_put_pref [core_frame]: "core_grows s (snd (putConversationPref i s))"
  by (simp add: core_grows_def putConversationPref_def findBlob_def Let_def)

lemma core_claim [core_frame]: "core_grows s (snd (claimOutboundAttempt i s))"
  by (simp add: core_grows_def claimOutboundAttempt_def findBlob_def Let_def split: option.split)

lemma core_put_attempt [core_frame]: "core_grows s (snd (putOutboundAttempt i s))"
  by (simp add: core_grows_def putOutboundAttempt_def findBlob_def Let_def)

lemma core_work [core_frame]: "core_grows s (s\<lparr>as_work := w\<rparr>)"
  by (simp add: core_grows_def findBlob_def)

lemma remembered: "findBlob (bm_content_hash b) (rememberBlob now b s) \<noteq> None"
  by (simp add: rememberBlob_def findBlob_def)

lemma remembered_all: "b \<in> set bs \<Longrightarrow> findBlob (bm_content_hash b) (fold (rememberBlob now) bs s) \<noteq> None"
proof (induction bs arbitrary: s)
  case (Cons c bs)
  show ?case
  proof (cases "b = c")
    case True
    have "core_grows (rememberBlob now b s) (fold (rememberBlob now) bs (rememberBlob now b s))"
      by (rule core_fold) (rule core_remember)
    then show ?thesis using remembered[of b now s] True by (simp add: core_grows_def)
  qed (use Cons in simp)
qed simp

subsection \<open>Every operation keeps it\<close>

lemma org_identity: "sid_org_id (event_identity e) = ev_org_id e"
  by (simp add: event_identity_def)

lemma map_of_events: "refs_ok s \<Longrightarrow> map_of (as_events s) r = Some e \<longleftrightarrow> (r, e) \<in> set (as_events s)"
  by (simp add: refs_ok_def)

lemma add_event_ok:
  assumes ok: "authority_ok s" and blob: "\<And>h. ev_content_hash row = Some h \<Longrightarrow> findBlob h s \<noteq> None"
  shows "authority_ok (snd (addEvent now given row s))"
proof -
  obtain e n where t: "snd (addEvent now given row s) = s\<lparr>as_nextId := n, as_events := as_events s @ [(as_nextRef s, e)],
      as_current := js_set (event_identity e) (as_nextRef s) (as_current s), as_nextRef := Suc (as_nextRef s)\<rparr>"
    and e: "ev_content_hash e = ev_content_hash row"
  proof
    let ?i = "case given of Some i \<Rightarrow> i | None \<Rightarrow> ''event-'' @ int_string (as_nextId s)"
    show "snd (addEvent now given row s) = s\<lparr>as_nextId := (case given of Some _ \<Rightarrow> as_nextId s | None \<Rightarrow> as_nextId s + 1),
        as_events := as_events s @ [(as_nextRef s, row\<lparr>ev_id := ?i, ev_ingested_at := now\<rparr>)],
        as_current := js_set (event_identity (row\<lparr>ev_id := ?i, ev_ingested_at := now\<rparr>)) (as_nextRef s) (as_current s),
        as_nextRef := Suc (as_nextRef s)\<rparr>"
      by (cases given) (simp_all add: addEvent_def Let_def)
  qed simp
  have refs: "refs_ok s" and heads: "heads_ok s" and blobs: "blobs_ok s" using ok by (simp_all add: authority_ok_def)
  have "refs_ok (snd (addEvent now given row s))" using refs unfolding t by (auto simp: refs_ok_def)
  moreover have "heads_ok (snd (addEvent now given row s))"
    using heads unfolding t heads_ok_def head_ref_def by (auto simp: event_identity_def) metis
  moreover have "blobs_ok (snd (addEvent now given row s))"
    using blobs blob unfolding t by (auto simp: blobs_ok_def all_events_def findBlob_def e)
  ultimately show ?thesis by (simp add: authority_ok_def)
qed

lemma add_content_ok:
  assumes "authority_ok s"
  shows "authority_ok (snd (addContentEvent now i operation parent s))"
proof (cases "assertExpectedHead (ne_expected_head_id i) (findBySourceIdentity (new_event_identity i) s)")
  case True
  let ?t = "fold (rememberBlob now) (content_meta i # or_else (ne_extra_blobs i) []) s"
  have "core_grows s ?t" by (rule core_fold) (rule core_remember)
  then have ok: "authority_ok ?t" using assms by (rule core_ok)
  have "findBlob (ne_content_hash i) ?t \<noteq> None"
    using remembered_all[of "content_meta i" "content_meta i # or_else (ne_extra_blobs i) []" now s] by (simp add: content_meta_def)
  then have "authority_ok (snd (addEvent now (ne_id i) (content_row i operation parent) ?t))"
    by (intro add_event_ok[OF ok]) (simp add: content_row_def)
  moreover have "snd (addContentEvent now i operation parent s) = snd (addEvent now (ne_id i) (content_row i operation parent) ?t)"
    using True unfolding addContentEvent_def Let_def by (simp only: not_True_eq_False if_False split_def snd_conv)
  ultimately show ?thesis by simp
qed (use assms in \<open>simp add: addContentEvent_def\<close>)

lemma find_head:
  assumes "refs_ok s"
  shows "findBySourceIdentity k s = Some e \<Longrightarrow> e \<in> set (all_events s)"
  using map_of_events[OF assms] by (force simp: findBySourceIdentity_def all_events_def split: option.splits)

lemma tombstone_ok:
  assumes "authority_ok s"
  shows "authority_ok (snd (markTombstone now i s))"
proof -
  let ?k = "\<lparr>sid_org_id = te_org_id i, sid_source = te_source i, sid_external_id = te_external_id i\<rparr>"
  have "findBlob h s \<noteq> None" if "ev_content_hash (tombstone_row i (findBySourceIdentity ?k s)) = Some h" for h
    using that assms find_head[of s ?k] by (cases "findBySourceIdentity ?k s") (auto simp: tombstone_row_def authority_ok_def blobs_ok_def)
  then have "authority_ok (snd (addEvent now None (tombstone_row i (findBySourceIdentity ?k s)) s))"
    by (rule add_event_ok[OF assms])
  then show ?thesis using assms by (simp add: markTombstone_def Let_def split_def)
qed

lemma append_all_ok: "authority_ok s \<Longrightarrow> authority_ok (snd (append_all now xs s))"
proof (induction xs arbitrary: s)
  case (Cons i xs)
  obtain r t where r: "append_event now i s = (r, t)" by fastforce
  have "authority_ok t" using add_content_ok[OF Cons.prems, of now i OpCreate None] r by (simp add: append_event_def)
  then show ?case using Cons.IH[of t] r by (auto split: sum.splits prod.splits)
qed simp

lemma commit_ok:
  assumes "authority_ok s"
  shows "authority_ok (snd (commitIngest now c s))"
proof -
  obtain r t where r: "append_all now (ic_appends c) s = (r, t)" by fastforce
  have t: "authority_ok t" using append_all_ok[OF assms, of now "ic_appends c"] r by simp
  have "core_grows t (fold putDisposition (ic_dispositions c) t)" by (rule core_fold) (rule core_put_disposition)
  then show ?thesis using core_ok[OF _ t] t r by (simp add: commitIngest_def split: sum.split)
qed

lemma page_ok:
  assumes "authority_ok s"
  shows "authority_ok (snd (commit_page_ingest now c ps s))"
proof -
  obtain r t where r: "(case c of None \<Rightarrow> (Inr [], s) | Some i \<Rightarrow> commitIngest now i s) = (r, t)" by fastforce
  have t: "authority_ok t" using commit_ok[OF assms, of now] assms r by (auto split: option.splits) (metis snd_conv)
  have "core_grows t (fold apply_pref ps t)" by (rule core_fold) (simp add: apply_pref_def core_put_pref)
  then show ?thesis using core_ok[OF _ t] t by (simp add: commit_page_ingest_def r split: sum.split)
qed

text \<open>An alias of an event is new: it has no events of its own.\<close>

lemma alias_fold:
  fixes step :: "string \<times> string \<Rightarrow> (source_identity, nat) js_map \<Rightarrow> (source_identity, nat) js_map"
  assumes "distinct (js_keys m)" and "step = (\<lambda>(src, ext) m.
     let externalId = js_trim ext; key = \<lparr>sid_org_id = orgId, sid_source = src, sid_external_id = externalId\<rparr>
     in if js_trim src = [] \<or> externalId = [] then m else if map_of m key = None then js_set key r m else m)"
  shows "distinct (js_keys (fold step xs m))
    \<and> (\<forall>k v. map_of m k = Some v \<longrightarrow> map_of (fold step xs m) k = Some v)
    \<and> (\<forall>k v. map_of (fold step xs m) k = Some v \<longrightarrow> map_of m k = Some v \<or> v = r \<and> sid_org_id k = orgId)"
  using assms(1)
proof (induction xs arbitrary: m)
  case (Cons x xs)
  have "distinct (js_keys (step x m))" using Cons.prems by (simp add: assms(2) Let_def split_def)
  moreover have "\<forall>k v. map_of m k = Some v \<longrightarrow> map_of (step x m) k = Some v"
    by (simp add: assms(2) Let_def split_def del: map_of_eq_Some_iff)
  moreover have "\<forall>k v. map_of (step x m) k = Some v \<longrightarrow> map_of m k = Some v \<or> v = r \<and> sid_org_id k = orgId"
    by (auto simp: assms(2) Let_def split_def simp del: map_of_eq_Some_iff split: if_splits)
  ultimately show ?case using Cons.IH[of "step x m"] by (simp only: fold_simps) metis
qed simp

lemma alias_ok:
  assumes ok: "authority_ok s"
  shows "authority_ok (snd (bindSourceIdentityAliases i s))"
proof (cases "List.find (\<lambda>(r, e). ev_org_id e = ab_org_id i \<and> ev_id e = ab_event_id i) (as_events s)")
  case (Some p)
  obtain r e where p: "p = (r, e)" by fastforce
  have "p \<in> set (as_events s) \<and> (case p of (r, e) \<Rightarrow> ev_org_id e = ab_org_id i \<and> ev_id e = ab_event_id i)"
    using Some by (metis (no_types, lifting) find_Some_iff nth_mem)
  then have re: "(r, e) \<in> set (as_events s)" "ev_org_id e = ab_org_id i" by (simp_all add: p)
  obtain m where t: "snd (bindSourceIdentityAliases i s) = s\<lparr>as_current := m\<rparr>" and m: "distinct (js_keys m)"
    "\<And>k v. map_of (as_current s) k = Some v \<Longrightarrow> map_of m k = Some v"
    "\<And>k v. map_of m k = Some v \<Longrightarrow> map_of (as_current s) k = Some v \<or> v = r \<and> sid_org_id k = ab_org_id i"
    using alias_fold[of "as_current s" _ "ab_org_id i" r "ab_aliases i", OF _ refl] ok Some p
    by (simp add: bindSourceIdentityAliases_def authority_ok_def refs_ok_def del: map_of_eq_Some_iff)
  show ?thesis unfolding t authority_ok_def
  proof (intro conjI)
    show "refs_ok (s\<lparr>as_current := m\<rparr>)" using ok m(1) by (simp add: authority_ok_def refs_ok_def)
    have h1: "map_of (as_current s) k = Some v \<Longrightarrow> \<exists>e. (v, e) \<in> set (as_events s) \<and> ev_org_id e = sid_org_id k" for k v
      using ok unfolding authority_ok_def heads_ok_def head_ref_def by blast
    have h2: "own_events k s \<noteq> [] \<Longrightarrow> map_of (as_current s) k = Some (fst (last (own_events k s)))" for k
      using ok unfolding authority_ok_def heads_ok_def head_ref_def by blast
    show "heads_ok (s\<lparr>as_current := m\<rparr>)" unfolding heads_ok_def head_ref_def
    proof (intro conjI allI impI)
      fix k v assume "map_of (as_current (s\<lparr>as_current := m\<rparr>)) k = Some v"
      then have "map_of m k = Some v" by simp
      then show "\<exists>e. (v, e) \<in> set (as_events (s\<lparr>as_current := m\<rparr>)) \<and> ev_org_id e = sid_org_id k"
        using m(3)[of k v] h1[of k v] re by (auto simp del: map_of_eq_Some_iff)
    next
      fix k assume "own_events k (s\<lparr>as_current := m\<rparr>) \<noteq> []"
      then show "map_of (as_current (s\<lparr>as_current := m\<rparr>)) k = Some (fst (last (own_events k (s\<lparr>as_current := m\<rparr>))))"
        using m(2)[OF h2[of k]] by (simp del: map_of_eq_Some_iff)
    qed
    show "blobs_ok (s\<lparr>as_current := m\<rparr>)" using ok by (simp add: authority_ok_def blobs_ok_def all_events_def findBlob_def)
  qed
qed (use ok in \<open>simp add: bindSourceIdentityAliases_def\<close>)

text \<open>Repointing changes the hash of the objects in place: identities, references and heads stay.\<close>

definition repointed :: "repoint_content \<Rightarrow> event_record \<Rightarrow> event_record" where
  "repointed i e = (if ev_content_hash e = Some (rp_old_content_hash i)
     then e\<lparr>ev_content_hash := Some (rp_new_content_hash i)\<rparr> else e)"

lemma repointed_simps [simp]: "event_identity (repointed i e) = event_identity e" "ev_org_id (repointed i e) = ev_org_id e"
  "ev_id (repointed i e) = ev_id e"
  by (simp_all add: repointed_def event_identity_def)

lemma fst_last_map: "xs \<noteq> [] \<Longrightarrow> fst (last (List.map (\<lambda>(r, e). (r, f e)) xs)) = fst (last xs)"
  by (simp add: last_map split_def)

lemma repoint_ok:
  assumes ok: "authority_ok s"
  shows "authority_ok (snd (repointContentHash now i s))"
proof -
  let ?metas = "\<lparr>bm_content_hash = rp_new_content_hash i, bm_media_type = rp_content_media_type i,
      bm_byte_size = rp_content_byte_size i\<rparr> # or_else (rp_extra_blobs i) []"
  let ?t = "fold (rememberBlob now) ?metas s"
  let ?u = "?t\<lparr>as_events := List.map (\<lambda>(r, e). (r, repointed i e)) (as_events ?t)\<rparr>"
  have "core_grows s ?t" by (rule core_fold) (rule core_remember)
  then have t: "authority_ok ?t" using ok by (rule core_ok)
  have fresh: "findBlob (rp_new_content_hash i) ?t \<noteq> None" using remembered_all[of "hd ?metas" ?metas now s] by simp
  define u where "u = ?u"
  have events: "as_events u = List.map (\<lambda>(r, e). (r, repointed i e)) (as_events ?t)" and same: "as_current u = as_current ?t"
    "as_nextRef u = as_nextRef ?t" "as_blobs u = as_blobs ?t" by (simp_all add: u_def)
  have own: "own_events k u = List.map (\<lambda>(r, e). (r, repointed i e)) (own_events k ?t)" for k
    unfolding events filter_map by (simp add: comp_def split_def)
  have refs: "refs_ok u" using t unfolding authority_ok_def refs_ok_def events same by (auto simp: comp_def split_def)
  have heads: "heads_ok u" unfolding heads_ok_def head_ref_def same own
  proof (intro conjI allI impI)
    fix k r assume "map_of (as_current ?t) k = Some r"
    then obtain e where "(r, e) \<in> set (as_events ?t)" "ev_org_id e = sid_org_id k"
      using t unfolding authority_ok_def heads_ok_def head_ref_def by blast
    then show "\<exists>e. (r, e) \<in> set (as_events u) \<and> ev_org_id e = sid_org_id k" unfolding events by force
  next
    fix k assume "List.map (\<lambda>(r, e). (r, repointed i e)) (own_events k ?t) \<noteq> []"
    then have ne: "own_events k ?t \<noteq> []" by simp
    then have "map_of (as_current ?t) k = Some (fst (last (own_events k ?t)))"
      using t unfolding authority_ok_def heads_ok_def head_ref_def by blast
    then show "map_of (as_current ?t) k = Some (fst (last (List.map (\<lambda>(r, e). (r, repointed i e)) (own_events k ?t))))"
      unfolding fst_last_map[OF ne] .
  qed
  have covered: "findBlob h u \<noteq> None" if "e \<in> set (all_events u)" "ev_content_hash e = Some h" for e h
  proof -
    have "all_events u = List.map (repointed i) (all_events ?t)" unfolding all_events_def events by (simp add: comp_def split_def)
    then have "e \<in> repointed i ` set (all_events ?t)" using that(1) by (simp only: set_map)
    then obtain d where d: "e = repointed i d" "d \<in> set (all_events ?t)" by (rule imageE)
    then show ?thesis using t that(2) fresh same(3)
      by (auto simp: authority_ok_def blobs_ok_def findBlob_def repointed_def split: if_splits)
  qed
  define hit where "hit = list_ex (\<lambda>e. ev_content_hash e = Some (rp_old_content_hash i)) (all_events u)"
  have res: "snd (repointContentHash now i s) =
      (if \<not> hit \<and> rp_old_content_hash i \<noteq> rp_new_content_hash i
       then u\<lparr>as_blobs := AList.delete (rp_old_content_hash i) (as_blobs u)\<rparr> else u)"
    unfolding repointContentHash_def u_def hit_def Let_def repointed_def by (simp only: snd_conv)
  show ?thesis
  proof (cases "\<not> hit \<and> rp_old_content_hash i \<noteq> rp_new_content_hash i")
    case True
    let ?v = "u\<lparr>as_blobs := AList.delete (rp_old_content_hash i) (as_blobs u)\<rparr>"
    have "refs_ok ?v" "heads_ok ?v" using refs heads by (simp_all add: refs_ok_def heads_ok_def head_ref_def)
    moreover have "blobs_ok ?v"
      using covered True by (auto simp: blobs_ok_def all_events_def findBlob_def hit_def list_ex_iff)
    ultimately show ?thesis unfolding res authority_ok_def using True by simp
  next
    case False
    have "blobs_ok u" using covered by (auto simp: blobs_ok_def)
    then show ?thesis unfolding res authority_ok_def if_not_P[OF False] using refs heads by simp
  qed
qed

lemma keep_used_blobs:
  "(\<forall>h. used h \<longrightarrow> map_of m h \<noteq> None) \<Longrightarrow>
   used h \<Longrightarrow> map_of (fold (\<lambda>h m. if used h then m else AList.delete h m) hs m) h \<noteq> None"
proof (induction hs arbitrary: m)
  case (Cons x hs)
  have "\<forall>h. used h \<longrightarrow> map_of (if used x then m else AList.delete x m) h \<noteq> None" using Cons.prems(1) by auto
  then show ?case using Cons.IH Cons.prems(2) by simp
qed auto

lemma clear_ok:
  assumes ok: "authority_ok s"
  shows "authority_ok (snd (clearOperationalData orgId s))"
proof -
  define t where "t = snd (clearOperationalData orgId s)"
  have events: "as_events t = List.filter (\<lambda>p. ev_org_id (snd p) \<noteq> orgId) (as_events s)"
    by (simp add: t_def clearOperationalData_def Let_def split_def)
  have heads_t: "as_current t = delete_where (\<lambda>_ r. case map_of (as_events s) r of None \<Rightarrow> False | Some e \<Rightarrow> ev_org_id e = orgId)
      (as_current s)" by (simp add: t_def clearOperationalData_def Let_def)
  have ref: "as_nextRef t = as_nextRef s" by (simp add: t_def clearOperationalData_def Let_def)
  have refs: "refs_ok s" using ok by (simp add: authority_ok_def)
  then have d: "distinct (js_keys (as_current s))" by (simp add: refs_ok_def)
  have "refs_ok t" using refs unfolding refs_ok_def events heads_t ref by (auto simp: distinct_map_filter)
  moreover have "heads_ok t" unfolding heads_ok_def head_ref_def
  proof (intro conjI allI impI)
    fix k r assume "map_of (as_current t) k = Some r"
    then have r: "map_of (as_current s) k = Some r"
      "\<not> (case map_of (as_events s) r of None \<Rightarrow> False | Some e \<Rightarrow> ev_org_id e = orgId)"
      unfolding heads_t map_of_delete_where[OF d] by (auto simp del: map_of_eq_Some_iff split: option.splits if_splits)
    obtain e where e: "(r, e) \<in> set (as_events s)" "ev_org_id e = sid_org_id k"
      using ok r(1) unfolding authority_ok_def heads_ok_def head_ref_def by blast
    then have "map_of (as_events s) r = Some e" using map_of_events[OF refs] by simp
    then have "ev_org_id e \<noteq> orgId" using r(2) by simp
    then show "\<exists>e. (r, e) \<in> set (as_events t) \<and> ev_org_id e = sid_org_id k" using e unfolding events by auto
  next
    fix k assume "own_events k t \<noteq> []"
    moreover have own: "own_events k t = (if sid_org_id k = orgId then [] else own_events k s)"
      unfolding events filter_filter by (auto simp: event_identity_def filter_empty_conv intro!: filter_cong)
    ultimately have k: "sid_org_id k \<noteq> orgId" "own_events k s \<noteq> []" by (simp_all split: if_splits)
    let ?r = "fst (last (own_events k s))"
    have head: "map_of (as_current s) k = Some ?r" using ok k(2) unfolding authority_ok_def heads_ok_def head_ref_def by blast
    have mem: "last (own_events k s) \<in> set (own_events k s)" using k(2) by (rule last_in_set)
    then have "map_of (as_events s) ?r = Some (snd (last (own_events k s)))"
      using map_of_events[OF refs, of ?r "snd (last (own_events k s))"] by simp
    moreover have "event_identity (snd (last (own_events k s))) = k" using mem by (simp only: set_filter mem_Collect_eq)
    then have "ev_org_id (snd (last (own_events k s))) = sid_org_id k" using org_identity by metis
    ultimately show "map_of (as_current t) k = Some (fst (last (own_events k t)))"
      using head k(1) unfolding heads_t map_of_delete_where[OF d] own by (simp del: map_of_eq_Some_iff)
  qed
  moreover have "blobs_ok t"
  proof -
    have "findBlob h t \<noteq> None" if e: "e \<in> set (all_events t)" and h: "ev_content_hash e = Some h" for e h
    proof -
      let ?used = "\<lambda>h. list_ex (\<lambda>(r, e). ev_content_hash e = Some h) (as_events t)"
      have cover: "\<forall>h. ?used h \<longrightarrow> map_of (as_blobs s) h \<noteq> None"
        using ok unfolding authority_ok_def blobs_ok_def findBlob_def all_events_def events list_ex_iff by auto
      have "?used h" using e h by (auto simp: all_events_def list_ex_iff)
      with keep_used_blobs[of ?used, OF cover] show ?thesis
        by (simp add: t_def clearOperationalData_def Let_def findBlob_def)
    qed
    then show ?thesis by (auto simp: blobs_ok_def)
  qed
  ultimately show ?thesis unfolding t_def[symmetric] authority_ok_def by blast
qed

lemma new_authority_ok: "authority_ok new_authority_store"
  by (simp add: authority_ok_def refs_ok_def heads_ok_def blobs_ok_def head_ref_def all_events_def new_authority_store_def)

lemma step_ok: "authority_ok s \<Longrightarrow> authority_ok (authority_step p s)"
proof (cases "(p, s)" rule: authority_step.cases)
  case (6 now i t) then show "authority_ok s \<Longrightarrow> ?thesis" by (simp add: alias_ok)
next
  case (8 now d t) then show "authority_ok s \<Longrightarrow> ?thesis" using core_ok[OF core_put_disposition] by simp
next
  case (9 now i t) then show "authority_ok s \<Longrightarrow> ?thesis" using core_ok[OF core_put_pref] by simp
next
  case (10 now i t) then show "authority_ok s \<Longrightarrow> ?thesis" using core_ok[OF core_claim] by simp
next
  case (11 now i t) then show "authority_ok s \<Longrightarrow> ?thesis" using core_ok[OF core_put_attempt] by simp
next
  case (13 now f t) then show "authority_ok s \<Longrightarrow> ?thesis" using core_ok[OF core_work] by simp
qed (simp_all add: append_event_def appendRevision_def add_content_ok tombstone_ok commit_ok page_ok repoint_ok clear_ok)

lemma run_ok: "authority_ok (authority_run ops)"
proof -
  have "authority_ok s \<Longrightarrow> authority_ok (fold authority_step ops s)" for s
    by (induction ops arbitrary: s) (simp_all add: step_ok)
  then show ?thesis using new_authority_ok by (simp add: authority_run_def)
qed

end
