(* ===== verification/ListSurface.thy ===== *)
theory ListSurface
  imports AuthorityInvariant
begin

section \<open>The list surface\<close>

text \<open>
  \<open>packages/domain/src/list-surface.ts\<close>: which conversations are folded away from the inbox, by a person or by
  policy, and how an ingest folds and reopens them.
\<close>

subsection \<open>Reasons\<close>

definition normalizeHiddenReason :: "string option \<Rightarrow> hidden_reason option" where
  "normalizeHiddenReason value =
     (if value = Some ''human'' then Some HiddenHuman else if value = Some ''policy'' then Some HiddenPolicy else None)"

definition effectiveHiddenReason :: "bool \<Rightarrow> hidden_reason option \<Rightarrow> hidden_reason option" where
  "effectiveHiddenReason hidden reason =
     (if \<not> hidden then None else if reason = Some HiddenPolicy then Some HiddenPolicy else Some HiddenHuman)"

type_synonym fold_state = "bool \<times> hidden_reason option"

definition foldByHuman :: fold_state where
  "foldByHuman = (True, Some HiddenHuman)"

definition unfold_thread :: fold_state where
  "unfold_thread = (False, None)"

definition foldByPolicy :: "bool \<Rightarrow> hidden_reason option \<Rightarrow> fold_state option" where
  "foldByPolicy hidden reason =
     (if effectiveHiddenReason hidden reason = Some HiddenHuman then None
      else if hidden \<and> reason = Some HiddenPolicy then None
      else Some (True, Some HiddenPolicy))"

definition nextHiddenPref :: "bool \<Rightarrow> hidden_reason option \<Rightarrow> bool \<Rightarrow> bool \<Rightarrow> bool \<Rightarrow> fold_state option" where
  "nextHiddenPref hidden reason onDesk acceptedCurrentWork acceptedTombstone =
     (let r = effectiveHiddenReason hidden reason
      in if r = Some HiddenHuman then None
         else if acceptedCurrentWork \<and> hidden \<and> r = Some HiddenPolicy then Some unfold_thread
         else if \<not> hidden \<and> \<not> onDesk \<and> acceptedTombstone then Some (True, Some HiddenPolicy)
         else None)"

definition pref_hidden :: "conversation_pref option \<Rightarrow> bool" where
  "pref_hidden p = or_else (map_option cv_hidden p) False"

definition pref_reason :: "conversation_pref option \<Rightarrow> hidden_reason option" where
  "pref_reason p = Option.bind p cv_hidden_reason"

text \<open>A write is skipped when the row has that state already; a missing row has no state.\<close>

definition same_fold :: "conversation_pref option \<Rightarrow> fold_state \<Rightarrow> bool" where
  "same_fold p nxt \<longleftrightarrow> map_option cv_hidden p = Some (fst nxt)
     \<and> effectiveHiddenReason (pref_hidden p) (pref_reason p) = (if fst nxt then snd nxt else None)"

definition fold_patch :: "string \<Rightarrow> string \<Rightarrow> string \<Rightarrow> fold_state \<Rightarrow> pref_patch" where
  "fold_patch orgId threadId now nxt =
     \<lparr>pp_org_id = orgId, pp_thread_id = threadId, pp_title = None, pp_pinned = None, pp_hidden = Some (fst nxt),
      pp_hidden_reason = Some (if fst nxt then snd nxt else None), pp_last_read_at = None, pp_last_read_external_id = None,
      pp_updated_at = now\<rparr>"

definition writeHiddenPref :: "string \<Rightarrow> string \<Rightarrow> fold_state \<Rightarrow> string \<Rightarrow> authority_store \<Rightarrow> authority_store" where
  "writeHiddenPref orgId threadId nxt now s =
     (if same_fold (getConversationPref orgId threadId s) nxt then s
      else snd (putConversationPref (fold_patch orgId threadId now nxt) s))"

definition foldThreadByPolicy :: "string \<Rightarrow> string \<Rightarrow> string \<Rightarrow> authority_store \<Rightarrow> authority_store" where
  "foldThreadByPolicy orgId threadId now s =
     (let pref = getConversationPref orgId threadId s
      in case foldByPolicy (pref_hidden pref) (pref_reason pref) of
           None \<Rightarrow> s | Some nxt \<Rightarrow> writeHiddenPref orgId threadId nxt now s)"

subsection \<open>The patches of an ingest\<close>

definition fold_thread_id :: "event_record \<Rightarrow> string" where
  "fold_thread_id e = conversationId (ev_source e) (ev_external_id e) (ev_id e)"

definition accepted_tombstone :: "event_record list \<Rightarrow> bool" where
  "accepted_tombstone es = list_ex (\<lambda>e. ev_operation e = OpTombstone) es"

definition accepted_current_work :: "(string, arrangement_decision option) js_map \<Rightarrow> event_record list \<Rightarrow> bool" where
  "accepted_current_work dispositions es =
     list_ex (\<lambda>e. case map_of dispositions (ev_id e) of Some (Some d) \<Rightarrow> ad_disposition d = CurrentWork | _ \<Rightarrow> False) es"

definition thread_patch :: "string \<Rightarrow> string \<Rightarrow> (string, arrangement_decision option) js_map
    \<Rightarrow> (string, conversation_pref option) js_map \<Rightarrow> (string, bool) js_map \<Rightarrow> string \<times> event_record list \<Rightarrow> pref_patch option" where
  "thread_patch orgId now dispositions prefs onDesk bucket =
     (let (threadId, es) = bucket; pref = or_else (map_of prefs threadId) None
      in case nextHiddenPref (pref_hidden pref) (pref_reason pref) (map_of onDesk threadId = Some True)
             (accepted_current_work dispositions es) (accepted_tombstone es) of
           None \<Rightarrow> None
         | Some nxt \<Rightarrow> if same_fold pref nxt then None else Some (fold_patch orgId threadId now nxt))"

definition listSurfacePatches :: "string \<Rightarrow> string \<Rightarrow> event_record list \<Rightarrow> (string, arrangement_decision option) js_map
    \<Rightarrow> (string, conversation_pref option) js_map \<Rightarrow> (string, bool) js_map \<Rightarrow> pref_patch list" where
  "listSurfacePatches orgId now events dispositions prefs onDesk =
     List.map_filter (thread_patch orgId now dispositions prefs onDesk) (js_group fold_thread_id events)"

definition thread_query :: "string \<Rightarrow> inbox_query" where
  "thread_query threadId = no_query\<lparr>eq_thread_ids := Some [threadId]\<rparr>"

text \<open>The events of an ingest: those the caller knows, and the rest from the store.\<close>

definition ingested_events :: "string \<Rightarrow> string list \<Rightarrow> event_record list \<Rightarrow> authority_store \<Rightarrow> (string \<times> event_record) list" where
  "ingested_events orgId eventIds knownEvents s =
     (let known = js_map_of_list (List.map (\<lambda>e. (ev_id e, e)) knownEvents)
      in List.map_filter (\<lambda>i. map_option (Pair i) (or_opt (map_of known i) (getEvent orgId i s))) eventIds)"

definition ingested_dispositions ::
  "(string \<times> event_record) list \<Rightarrow> arrangement_decision list \<Rightarrow> authority_store \<Rightarrow> (string, arrangement_decision option) js_map" where
  "ingested_dispositions events knownDispositions s =
     (let known = js_map_of_list (List.map (\<lambda>d. (ad_event_id d, d)) knownDispositions)
      in fold (\<lambda>(i, e). js_set i (or_opt (map_of known i) (getDisposition i s))) events [])"

definition collectListSurfacePatches :: "(string \<Rightarrow> string \<Rightarrow> int) \<Rightarrow> string \<Rightarrow> string \<Rightarrow> string list \<Rightarrow> event_record list
    \<Rightarrow> arrangement_decision list \<Rightarrow> authority_store \<Rightarrow> pref_patch list" where
  "collectListSurfacePatches lc now orgId eventIds knownEvents knownDispositions s =
     (if eventIds = [] then []
      else let found = ingested_events orgId eventIds knownEvents s; events = List.map snd found;
             dispositions = ingested_dispositions found knownDispositions s;
             threads = js_keys (js_group fold_thread_id events);
             prefs = List.map (\<lambda>t. (t, getConversationPref orgId t s)) threads;
             needsOnDesk = list_ex (\<lambda>e. ev_operation e = OpTombstone) events;
             onDesk = List.map (\<lambda>t. (t, needsOnDesk \<and> listInbox lc orgId (thread_query t) s \<noteq> [])) threads
           in listSurfacePatches orgId now events dispositions prefs onDesk)"

definition applyListSurfaceAfterIngest ::
  "(string \<Rightarrow> string \<Rightarrow> int) \<Rightarrow> string \<Rightarrow> string \<Rightarrow> string list \<Rightarrow> authority_store \<Rightarrow> authority_store" where
  "applyListSurfaceAfterIngest lc now orgId eventIds s =
     fold apply_pref (collectListSurfacePatches lc now orgId eventIds [] [] s) s"

subsection \<open>One patch for a conversation\<close>

definition thread_events :: "string \<Rightarrow> event_record list \<Rightarrow> event_record list" where
  "thread_events t events = List.filter (\<lambda>e. fold_thread_id e = t) events"

lemma group_entry:
  assumes "p \<in> set (js_group key xs)"
  shows "snd p = List.filter (\<lambda>x. key x = fst p) xs" and "snd p \<noteq> []"
proof -
  have "map_of (js_group key xs) (fst p) = Some (snd p)" using assms distinct_js_group by (simp add: map_of_is_SomeI)
  then show "snd p = List.filter (\<lambda>x. key x = fst p) xs" and "snd p \<noteq> []" unfolding map_of_js_group by (auto split: if_splits)
qed

lemma pref_key_inj: "pref_key orgId a = pref_key orgId b \<longleftrightarrow> a = b"
  by (simp add: pref_key_def)

lemma patch_key: "thread_patch orgId now ds ps od b = Some p \<Longrightarrow> pp_org_id p = orgId \<and> pp_thread_id p = fst b"
  by (auto simp: thread_patch_def fold_patch_def Let_def split: prod.splits option.splits if_splits)

lemma get_apply_pref:
  "pp_org_id p = orgId \<Longrightarrow> getConversationPref orgId t (apply_pref p s) =
     (if t = pp_thread_id p then Some (patched_pref p (getConversationPref orgId t s)) else getConversationPref orgId t s)"
  by (simp add: apply_pref_def putConversationPref_def getConversationPref_def Let_def pref_key_inj)

text \<open>Patches of distinct conversations: each row is written once or not at all.\<close>

lemma apply_patches:
  assumes "distinct (List.map fst bs)" and "\<And>b p. b \<in> set bs \<Longrightarrow> f b = Some p \<Longrightarrow> pp_org_id p = orgId \<and> pp_thread_id p = fst b"
  shows "getConversationPref orgId t (fold apply_pref (List.map_filter f bs) s) =
    (case Option.bind (map_of bs t) (\<lambda>es. f (t, es)) of
       None \<Rightarrow> getConversationPref orgId t s
     | Some p \<Rightarrow> Some (patched_pref p (getConversationPref orgId t s)))"
  using assms
proof (induction bs arbitrary: s)
  case (Cons b bs)
  have IH: "getConversationPref orgId t (fold apply_pref (List.map_filter f bs) s) =
    (case Option.bind (map_of bs t) (\<lambda>es. f (t, es)) of
       None \<Rightarrow> getConversationPref orgId t s | Some p \<Rightarrow> Some (patched_pref p (getConversationPref orgId t s)))" for s
    by (rule Cons.IH) (use Cons.prems in auto)
  show ?case
  proof (cases "f b")
    case None
    moreover have "map_of bs (fst b) = None" using Cons.prems(1) by (simp add: map_of_eq_None_iff)
    ultimately show ?thesis using IH[of s]
      by (cases b) (simp add: List.map_filter_simps del: map_of_eq_None_iff)
  next
    case (Some p)
    have p: "pp_org_id p = orgId" "pp_thread_id p = fst b" using Cons.prems(2)[OF _ Some] by simp_all
    show ?thesis
    proof (cases "t = fst b")
      case True
      then have "map_of bs t = None" using Cons.prems(1) by (simp add: map_of_eq_None_iff)
      then show ?thesis using IH[of "apply_pref p s"] Some True p
        by (cases b) (simp add: List.map_filter_simps get_apply_pref del: map_of_eq_None_iff)
    next
      case False
      then have same: "getConversationPref orgId t (apply_pref p s) = getConversationPref orgId t s"
        using p by (simp add: get_apply_pref)
      show ?thesis using IH[of "apply_pref p s"] Some False unfolding same by (cases b) (simp add: List.map_filter_simps)
    qed
  qed
qed (simp add: List.map_filter_simps)


definition fold_of :: "conversation_pref option \<Rightarrow> hidden_reason option" where
  "fold_of p = effectiveHiddenReason (pref_hidden p) (pref_reason p)"

lemma fold_of_patched:
  "fold_of (Some (patched_pref (fold_patch orgId t now nxt) p)) = effectiveHiddenReason (fst nxt) (snd nxt)"
  by (cases nxt) (auto simp: fold_of_def pref_hidden_def pref_reason_def patched_pref_def fold_patch_def effectiveHiddenReason_def Let_def)

lemma next_fold:
  "(case nextHiddenPref (pref_hidden p) (pref_reason p) desk work tomb of
      None \<Rightarrow> fold_of p | Some nxt \<Rightarrow> effectiveHiddenReason (fst nxt) (snd nxt)) =
   (if fold_of p = Some HiddenHuman then Some HiddenHuman
    else if work \<and> fold_of p = Some HiddenPolicy then None
    else if fold_of p = None \<and> \<not> desk \<and> tomb then Some HiddenPolicy else fold_of p)"
  by (cases "pref_hidden p"; cases "pref_reason p = Some HiddenPolicy")
     (simp_all add: nextHiddenPref_def fold_of_def effectiveHiddenReason_def unfold_thread_def)

lemma same_fold_of: "same_fold p nxt \<Longrightarrow> snd nxt \<noteq> None \<or> \<not> fst nxt \<Longrightarrow> effectiveHiddenReason (fst nxt) (snd nxt) = fold_of p"
  by (cases nxt; cases "fst nxt") (auto simp: same_fold_def fold_of_def effectiveHiddenReason_def pref_hidden_def split: if_splits)

lemma next_reason: "nextHiddenPref h r d w t = Some nxt \<Longrightarrow> snd nxt \<noteq> None \<or> \<not> fst nxt"
  by (auto simp: nextHiddenPref_def unfold_thread_def Let_def split: if_splits)


subsection \<open>What an ingest does to a conversation\<close>

lemma found_events:
  "p \<in> set (ingested_events orgId ids [] s) \<longleftrightarrow> fst p \<in> set ids \<and> getEvent orgId (fst p) s = Some (snd p)"
  by (cases p) (auto simp: ingested_events_def js_map_of_list_def mem_map_filter)

lemma getEvent_id: "getEvent orgId i s = Some e \<Longrightarrow> ev_id e = i"
  by (auto simp: getEvent_def find_Some_iff)

lemma found_dispositions:
  "map_of (ingested_dispositions found [] s) i = (if i \<in> fst ` set found then Some (getDisposition i s) else None)"
proof -
  have "map_of (fold (\<lambda>(i, e). js_set i (getDisposition i s)) found m) i =
      (if i \<in> fst ` set found then Some (getDisposition i s) else map_of m i)" for m
    by (induction found arbitrary: m) (auto simp: split_def)
  then show ?thesis by (simp add: ingested_dispositions_def js_map_of_list_def)
qed

definition took_work :: "string \<Rightarrow> string list \<Rightarrow> string \<Rightarrow> authority_store \<Rightarrow> bool" where
  "took_work orgId ids t s \<longleftrightarrow> (\<exists>i \<in> set ids. \<exists>e d. getEvent orgId i s = Some e \<and> fold_thread_id e = t
     \<and> getDisposition i s = Some d \<and> ad_disposition d = CurrentWork)"

definition took_tombstone :: "string \<Rightarrow> string list \<Rightarrow> string \<Rightarrow> authority_store \<Rightarrow> bool" where
  "took_tombstone orgId ids t s \<longleftrightarrow>
     (\<exists>i \<in> set ids. \<exists>e. getEvent orgId i s = Some e \<and> fold_thread_id e = t \<and> ev_operation e = OpTombstone)"

lemma bucket_flags:
  fixes orgId :: string and ids :: "string list" and s :: authority_store and t :: string
  defines "found \<equiv> ingested_events orgId ids [] s"
  defines "es \<equiv> List.filter (\<lambda>e. fold_thread_id e = t) (List.map snd found)"
  shows "accepted_tombstone es \<longleftrightarrow> took_tombstone orgId ids t s"
    and "accepted_current_work (ingested_dispositions found [] s) es \<longleftrightarrow> took_work orgId ids t s"
proof -
  have mem: "e \<in> set es \<longleftrightarrow> (\<exists>i \<in> set ids. getEvent orgId i s = Some e) \<and> fold_thread_id e = t" for e
  proof -
    have "e \<in> snd ` set found \<longleftrightarrow> (\<exists>i \<in> set ids. getEvent orgId i s = Some e)"
      using found_events[of _ orgId ids s] unfolding found_def image_iff by (metis fst_conv snd_conv)
    then show ?thesis by (simp add: es_def)
  qed
  show "accepted_tombstone es \<longleftrightarrow> took_tombstone orgId ids t s"
    unfolding accepted_tombstone_def took_tombstone_def list_ex_iff Bex_def mem by blast
  have "(case map_of (ingested_dispositions found [] s) (ev_id e) of Some (Some d) \<Rightarrow> ad_disposition d = CurrentWork | _ \<Rightarrow> False)
      \<longleftrightarrow> (\<exists>d. getDisposition i s = Some d \<and> ad_disposition d = CurrentWork)"
    if "i \<in> set ids" "getEvent orgId i s = Some e" for i e
  proof -
    have "ev_id e = i" using that(2) by (rule getEvent_id)
    moreover have "i \<in> fst ` set found" using found_events[of "(i, e)" orgId ids s] that by (force simp: found_def)
    ultimately show ?thesis by (auto simp: found_dispositions split: option.split)
  qed
  then show "accepted_current_work (ingested_dispositions found [] s) es \<longleftrightarrow> took_work orgId ids t s"
    unfolding accepted_current_work_def took_work_def list_ex_iff Bex_def mem by blast
qed

lemma map_of_map_keys: "map_of (List.map (\<lambda>t. (t, f t)) ts) t = (if t \<in> set ts then Some (f t) else None)"
  by (induction ts) auto

text \<open>C5. An ingest folds and reopens conversations by the rule, conversation by conversation, however many it
  touches at once: a human fold stays whatever arrives; a policy fold opens exactly when one of the events is
  current work; an open conversation is folded by policy exactly when a tombstone arrives and nothing of it is
  left on the desk; every other conversation keeps its state.\<close>

theorem ingest_folds_and_reopens:
  "fold_of (getConversationPref orgId t (applyListSurfaceAfterIngest lc now orgId ids s)) =
    (let before = fold_of (getConversationPref orgId t s)
     in if before = Some HiddenHuman then Some HiddenHuman
        else if took_work orgId ids t s \<and> before = Some HiddenPolicy then None
        else if before = None \<and> listInbox lc orgId (thread_query t) s = [] \<and> took_tombstone orgId ids t s
          then Some HiddenPolicy
        else before)"
proof (cases "ids = []")
  case True
  then show ?thesis by (simp add: applyListSurfaceAfterIngest_def collectListSurfacePatches_def took_work_def took_tombstone_def Let_def)
next
  case False
  define found where "found = ingested_events orgId ids [] s"
  define events where "events = List.map snd found"
  define groups where "groups = js_group fold_thread_id events"
  define ds where "ds = ingested_dispositions found [] s"
  define prefs where "prefs = List.map (\<lambda>t. (t, getConversationPref orgId t s)) (js_keys groups)"
  define desk where "desk = List.map (\<lambda>t. (t, list_ex (\<lambda>e. ev_operation e = OpTombstone) events
      \<and> listInbox lc orgId (thread_query t) s \<noteq> [])) (js_keys groups)"
  let ?p = "getConversationPref orgId t s" let ?es = "List.filter (\<lambda>e. fold_thread_id e = t) events"
  let ?patch = "thread_patch orgId now ds prefs desk"
  note flags = bucket_flags[where orgId = orgId and ids = ids and s = s and t = t, folded found_def, folded events_def, folded ds_def]
  have "getConversationPref orgId t (applyListSurfaceAfterIngest lc now orgId ids s) =
    (case Option.bind (map_of groups t) (\<lambda>es. ?patch (t, es)) of None \<Rightarrow> ?p | Some p \<Rightarrow> Some (patched_pref p ?p))"
    unfolding applyListSurfaceAfterIngest_def collectListSurfacePatches_def listSurfacePatches_def Let_def if_not_P[OF False]
      found_def[symmetric] events_def[symmetric] groups_def[symmetric] ds_def[symmetric] prefs_def[symmetric] desk_def[symmetric]
    by (rule apply_patches) (use patch_key in \<open>auto simp: groups_def\<close>)
  also have "fold_of \<dots> = (if fold_of ?p = Some HiddenHuman then Some HiddenHuman
    else if took_work orgId ids t s \<and> fold_of ?p = Some HiddenPolicy then None
    else if fold_of ?p = None \<and> \<not> listInbox lc orgId (thread_query t) s \<noteq> [] \<and> took_tombstone orgId ids t s
      then Some HiddenPolicy else fold_of ?p)"
  proof (cases "?es = []")
    case True
    then have "map_of groups t = None" by (simp add: groups_def map_of_js_group)
    moreover have "\<not> took_work orgId ids t s" "\<not> took_tombstone orgId ids t s"
      using flags True by (simp_all add: accepted_tombstone_def accepted_current_work_def)
    ultimately show ?thesis by simp
  next
    case ne: False
    then have es: "map_of groups t = Some ?es" by (simp add: groups_def map_of_js_group)
    then have key: "t \<in> set (js_keys groups)" by (metis map_of_eq_None_iff option.distinct(1) set_map)
    let ?d = "map_of desk t = Some True"
    let ?n = "nextHiddenPref (pref_hidden ?p) (pref_reason ?p) ?d (took_work orgId ids t s) (took_tombstone orgId ids t s)"
    have pref: "or_else (map_of prefs t) None = ?p" unfolding prefs_def map_of_map_keys using key by simp
    have patch: "?patch (t, ?es) = (case ?n of None \<Rightarrow> None | Some nxt \<Rightarrow> if same_fold ?p nxt then None
        else Some (fold_patch orgId t now nxt))"
      unfolding thread_patch_def Let_def prod.case pref flags ..
    have "fold_of (case ?patch (t, ?es) of None \<Rightarrow> ?p | Some p \<Rightarrow> Some (patched_pref p ?p)) =
      (case ?n of None \<Rightarrow> fold_of ?p | Some nxt \<Rightarrow> effectiveHiddenReason (fst nxt) (snd nxt))"
    proof (cases ?n)
      case (Some nxt)
      then show ?thesis unfolding patch using same_fold_of[of ?p nxt] next_reason[OF Some] by (simp add: fold_of_patched)
    qed (simp add: patch)
    moreover have "?d \<longleftrightarrow> listInbox lc orgId (thread_query t) s \<noteq> []" if "took_tombstone orgId ids t s"
    proof -
      have "list_ex (\<lambda>e. ev_operation e = OpTombstone) events"
        using flags(1) that by (auto simp: accepted_tombstone_def list_ex_iff)
      then show ?thesis unfolding desk_def map_of_map_keys using key by simp
    qed
    ultimately show ?thesis unfolding es bind.simps next_fold by auto
  qed
  finally show ?thesis by (simp add: Let_def)
qed

end
