(* ===== verification/Ingestion.thy ===== *)
theory Ingestion
  imports Arrangement ListSurface
begin

section \<open>The ingestion service\<close>

text \<open>
  \<open>packages/domain/src/ingestion-service.ts\<close>: a batch of records becomes events of the authority store. A record
  is inspected against the head of its source identity and against the creates that the batch holds back, and
  is then refused, recognised or written; creates are written together.

  \<open>sha\<close> is SHA-256. \<open>uuid\<close> is \<open>randomUUID\<close>: the id of the create at an index of the batch, and of the
  quarantines after them. \<open>now\<close> is the clock. \<open>gap\<close> is what other writers do to the authority store
  between an inspection and the write that follows it. The schema of the batch (zod) is not modelled: the batch
  is a valid one.
\<close>

subsection \<open>Results\<close>

datatype ingest_status = Accepted | Duplicate | Quarantined | RetryableFailure

record ingest_result =
  rr_external_id :: string
  rr_status :: ingest_status
  rr_event_id :: "string option"
  rr_error_code :: "ingest_error_code option"

definition refused :: "ingest_record \<Rightarrow> ingest_status \<Rightarrow> ingest_error_code \<Rightarrow> ingest_result" where
  "refused r st code = \<lparr>rr_external_id = ir_external_id r, rr_status = st, rr_event_id = None, rr_error_code = Some code\<rparr>"

definition acceptedResult :: "ingest_record \<Rightarrow> string \<Rightarrow> ingest_result" where
  "acceptedResult r i = \<lparr>rr_external_id = ir_external_id r, rr_status = Accepted, rr_event_id = Some i, rr_error_code = None\<rparr>"

definition duplicateResult :: "ingest_record \<Rightarrow> event_record \<Rightarrow> ingest_result" where
  "duplicateResult r e = \<lparr>rr_external_id = ir_external_id r, rr_status = Duplicate, rr_event_id = Some (ev_id e), rr_error_code = None\<rparr>"

definition concurrentUpdate :: "ingest_record \<Rightarrow> ingest_result" where
  "concurrentUpdate r = refused r RetryableFailure ConcurrentSourceUpdate"

datatype inspected =
  InsResult ingest_result
| InsCreate source_identity ingest_record canonical
| InsRevise source_identity ingest_record canonical event_record
| InsTombstone source_identity ingest_record "event_record option"
| InsAfterTombstone source_identity ingest_record canonical event_record

record ingest_state =
  ix_blobs :: blob_store
  ix_store :: authority_store

definition record_identity :: "string \<Rightarrow> ingest_record \<Rightarrow> source_identity" where
  "record_identity orgId r = \<lparr>sid_org_id = orgId, sid_source = ir_source r, sid_external_id = ir_external_id r\<rparr>"

subsection \<open>The context of an event\<close>

definition event_attrs :: "ingest_record \<Rightarrow> (string \<times> json) list" where
  "event_attrs r =
     (let a = or_else (ir_attrs r) [];
          b = (if truthy (ir_thread_id r) then js_set ''native_thread_id'' (JStr (or_else (ir_thread_id r) [])) a else a)
      in if truthy (ir_parent_external_id r) then js_set ''parent_external_id'' (JStr (or_else (ir_parent_external_id r) [])) b else b)"

definition threadIdOf :: "string \<Rightarrow> string \<Rightarrow> string" where
  "threadIdOf source target = source @ '':'' @ target"

record event_context =
  ec_thread_id :: "string option"
  ec_actor_id :: "string option"
  ec_required_scope_ids :: "string list option"
  ec_direction_tags :: "string list option"
  ec_weight_hints :: "weight_hints option"
  ec_attrs :: "(string \<times> json) list option"

definition eventContextMetadata :: "ingest_record \<Rightarrow> event_context" where
  "eventContextMetadata r =
     \<lparr>ec_thread_id = Some (conversationId (ir_source r) (ir_external_id r) (ir_external_id r)),
      ec_actor_id = Some (ir_actor_id r), ec_required_scope_ids = Some [threadIdOf (ir_source r) (ir_scope_id r)],
      ec_direction_tags = map_option (\<lambda>ts. js_sort code_unit_compare (js_unique ts)) (ir_direction_tags r),
      ec_weight_hints = ir_weight_hints r, ec_attrs = (if event_attrs r = [] then None else Some (event_attrs r))\<rparr>"

definition previewCreate :: "string \<Rightarrow> source_identity \<Rightarrow> ingest_record \<Rightarrow> canonical \<Rightarrow> event_record" where
  "previewCreate eventId k r c =
     (let m = eventContextMetadata r
      in \<lparr>ev_id = eventId, ev_org_id = sid_org_id k, ev_source = sid_source k, ev_external_id = sid_external_id k,
          ev_operation = OpCreate, ev_content_hash = Some (cc_hash c), ev_parent_event_id = None, ev_thread_id = ec_thread_id m,
          ev_actor_id = ec_actor_id m, ev_required_scope_ids = ec_required_scope_ids m, ev_direction_tags = ec_direction_tags m,
          ev_weight_hints = ec_weight_hints m, ev_attrs = ec_attrs m, ev_occurred_at = ir_occurred_at r,
          ev_ingested_at = ir_occurred_at r\<rparr>)"

definition content_event :: "string option \<Rightarrow> source_identity \<Rightarrow> ingest_record \<Rightarrow> canonical \<Rightarrow> string option \<Rightarrow> new_event" where
  "content_event given k r c expected =
     (let m = eventContextMetadata r
      in \<lparr>ne_id = given, ne_org_id = sid_org_id k, ne_source = sid_source k, ne_external_id = sid_external_id k,
          ne_content_hash = cc_hash c, ne_content_media_type = cc_media_type c, ne_content_byte_size = int (length (cc_bytes c)),
          ne_extra_blobs = extraBlobsForCanonical c, ne_thread_id = ec_thread_id m, ne_actor_id = ec_actor_id m,
          ne_required_scope_ids = ec_required_scope_ids m, ne_direction_tags = ec_direction_tags m,
          ne_weight_hints = ec_weight_hints m, ne_attrs = ec_attrs m, ne_occurred_at = ir_occurred_at r,
          ne_expected_head_id = expected\<rparr>)"

definition tombstone_event_of :: "source_identity \<Rightarrow> ingest_record \<Rightarrow> string \<Rightarrow> string option \<Rightarrow> tombstone_event" where
  "tombstone_event_of k r occurredAt expected =
     (let m = eventContextMetadata r
      in \<lparr>te_org_id = sid_org_id k, te_source = sid_source k, te_external_id = sid_external_id k, te_thread_id = ec_thread_id m,
          te_actor_id = ec_actor_id m, te_required_scope_ids = ec_required_scope_ids m, te_direction_tags = ec_direction_tags m,
          te_weight_hints = ec_weight_hints m, te_attrs = ec_attrs m, te_occurred_at = occurredAt, te_expected_head_id = expected\<rparr>)"

subsection \<open>Reading what is stored\<close>

definition readEventBytes :: "event_record \<Rightarrow> ingest_state \<Rightarrow> (string \<times> string) option" where
  "readEventBytes e x =
     (if \<not> truthy (ev_content_hash e) then None
      else let h = or_else (ev_content_hash e) []
           in case findBlob h (ix_store x) of None \<Rightarrow> None
              | Some meta \<Rightarrow> (case blob_get h (ix_blobs x) of Inl _ \<Rightarrow> None | Inr bytes \<Rightarrow> Some (bytes, bl_media_type meta)))"

definition readEventText :: "event_record \<Rightarrow> ingest_state \<Rightarrow> string option" where
  "readEventText e x = Option.bind (readEventBytes e x) (\<lambda>(bytes, mediaType). bodyTextFromStored bytes mediaType)"

definition readEventAttachments :: "(string \<Rightarrow> string) \<Rightarrow> event_record \<Rightarrow> ingest_state \<Rightarrow> string list" where
  "readEventAttachments sha e x =
     (case readEventBytes e x of None \<Rightarrow> [] | Some (bytes, mediaType) \<Rightarrow> attachmentDigestsFromStored sha bytes mediaType)"

definition existingResolution :: "(string \<Rightarrow> string) \<Rightarrow> event_record \<Rightarrow> ingest_state \<Rightarrow> resolution" where
  "existingResolution sha e x =
     (case readEventBytes e x of None \<Rightarrow> no_resolution
      | Some (bytes, mediaType) \<Rightarrow>
          if mediaType \<noteq> CONTENT_PARTS_MEDIA_TYPE then resolutionFromStored sha bytes mediaType None
          else resolutionFromStored sha bytes mediaType
            (map_option (\<lambda>parts. collectAvailableBlobs (\<lambda>h. blob_get h (ix_blobs x)) (attachmentHashesFromStoredParts parts))
              (parseStoredContentParts bytes)))"

definition sameBodySurfaceCorrection :: "event_record \<Rightarrow> ingest_record \<Rightarrow> ingest_state \<Rightarrow> bool" where
  "sameBodySurfaceCorrection current incoming x =
     (let incomingText = normalizeUtterance (recordBodyText incoming)
      in if incomingText = [] then False else incomingText = normalizeUtterance (readEventText current x))"

definition mergeRecordContent :: "ingest_record \<Rightarrow> event_record option \<Rightarrow> ingest_state \<Rightarrow> ingest_record" where
  "mergeRecordContent r current x =
     (case (current, ir_content r) of
        (Some e, Some content) \<Rightarrow>
          r\<lparr>ir_content := Some (preserveResolvedAttachments content (readEventBytes e x)
              (\<lambda>h. case blob_get h (ix_blobs x) of Inl _ \<Rightarrow> None | Inr b \<Rightarrow> Some b))\<rparr>
      | _ \<Rightarrow> r)"

subsection \<open>Echoes\<close>

text \<open>A message that was sent from here comes back in the history of its channel.\<close>

record echo_needle =
  en_conversation :: string
  en_text :: string
  en_attachments :: "string list"

definition echoNeedle :: "(string \<Rightarrow> string) \<Rightarrow> ingest_record \<Rightarrow> echo_needle option" where
  "echoNeedle sha r =
     (if isLocalOutboundId (ir_external_id r) then None
      else if map_option ms_kind (surfaceFromParts (or_else (ir_content r) [])) \<noteq> Some KindUser then None
      else let t = normalizeUtterance (recordBodyText r); attachments = attachmentDigestsFromParts sha (or_else (ir_content r) [])
           in if t = [] \<and> attachments = [] then None
              else if t = [] \<and> (case ir_direction_tags r of None \<Rightarrow> False | Some tags \<Rightarrow> ''outbound'' \<notin> set tags) then None
              else Some \<lparr>en_conversation = conversationId (ir_source r) (ir_external_id r) (ir_external_id r),
                en_text = t, en_attachments = attachments\<rparr>)"

definition echoAttachmentsAgree :: "string list \<Rightarrow> string list \<Rightarrow> bool" where
  "echoAttachmentsAgree incoming existing = (if incoming = [] then True else attachmentsCoveredBy incoming existing)"

text \<open>The first candidate that agrees: by text and attachments, or the newest by attachments alone.\<close>

definition echo_agrees :: "echo_needle \<Rightarrow> string \<Rightarrow> string list \<Rightarrow> bool" where
  "echo_agrees needle existingText existingAttachments =
     (if en_text needle \<noteq> []
      then existingText = en_text needle
           \<and> echoAttachmentsAgree (en_attachments needle) existingAttachments
      else attachmentsCoveredBy (en_attachments needle) existingAttachments)"

definition echo_order :: "echo_needle \<Rightarrow> 'a list \<Rightarrow> 'a list" where
  "echo_order needle candidates = (if en_text needle \<noteq> [] then candidates else rev candidates)"

definition echo_candidate :: "ingest_record \<Rightarrow> echo_needle \<Rightarrow> event_record \<Rightarrow> bool" where
  "echo_candidate r needle e \<longleftrightarrow> ev_source e = ir_source r \<and> isLocalOutboundId (ev_external_id e)
     \<and> conversationId (ev_source e) (ev_external_id e) (ev_id e) = en_conversation needle"

definition findEchoedOutbound :: "(string \<Rightarrow> string) \<Rightarrow> string \<Rightarrow> ingest_record \<Rightarrow> ingest_state \<Rightarrow> event_record option" where
  "findEchoedOutbound sha orgId r x =
     (case echoNeedle sha r of None \<Rightarrow> None
      | Some needle \<Rightarrow>
          List.find (\<lambda>e. echo_agrees needle (normalizeUtterance (readEventText e x)) (readEventAttachments sha e x))
            (echo_order needle (List.filter (echo_candidate r needle) (listEvents orgId no_query (ix_store x)))))"

text \<open>The creates that the batch holds back: the last of each identity, and all of them in order.\<close>

type_synonym overlay = "(event_record \<times> ingest_record) list"

definition overlay_current :: "source_identity \<Rightarrow> overlay \<Rightarrow> event_record option" where
  "overlay_current k pending = map_option fst (List.find (\<lambda>(e, r). event_identity e = k) (rev pending))"

definition overlay_findEcho :: "(string \<Rightarrow> string) \<Rightarrow> ingest_record \<Rightarrow> overlay \<Rightarrow> event_record option" where
  "overlay_findEcho sha r pending =
     (case echoNeedle sha r of None \<Rightarrow> None
      | Some needle \<Rightarrow>
          map_option fst (List.find (\<lambda>(e, q). echo_agrees needle (normalizeUtterance (recordBodyText q))
              (attachmentDigestsFromParts sha (or_else (ir_content q) [])))
            (echo_order needle (List.filter (\<lambda>(e, q). ir_source q = ir_source r \<and> isLocalOutboundId (ir_external_id q)
              \<and> conversationId (ev_source e) (ev_external_id e) (ev_id e) = en_conversation needle) pending))))"


subsection \<open>Inspecting a record\<close>

definition replayed ::
  "string \<Rightarrow> ingest_record \<Rightarrow> event_record \<Rightarrow> dispatch_policy \<Rightarrow> ingest_state \<Rightarrow> ingest_result \<times> ingest_state" where
  "replayed now r e policy x =
     (duplicateResult r e,
      if getDisposition (ev_id e) (ix_store x) = None
      then x\<lparr>ix_store := snd (arrangement_remember now e r policy (ix_store x))\<rparr> else x)"

definition replayedInspected :: "string \<Rightarrow> ingest_record \<Rightarrow> event_record \<Rightarrow> event_record option \<Rightarrow> dispatch_policy
    \<Rightarrow> ingest_state \<Rightarrow> inspected \<times> ingest_state" where
  "replayedInspected now r e overlayCurrent policy x =
     (if overlayCurrent \<noteq> None then (InsResult (duplicateResult r e), x)
      else map_prod InsResult id (replayed now r e policy x))"

text \<open>A create or a revise over a head with other content.\<close>

definition inspect_over :: "(string \<Rightarrow> string) \<Rightarrow> string \<Rightarrow> source_identity \<Rightarrow> ingest_record \<Rightarrow> ingest_record \<Rightarrow> canonical
    \<Rightarrow> event_record \<Rightarrow> event_record option \<Rightarrow> dispatch_policy \<Rightarrow> ingest_state \<Rightarrow> inspected \<times> ingest_state" where
  "inspect_over sha now k r merged c current overlayCurrent policy x =
     (let existing = existingResolution sha current x;
          incoming = resolutionFromStored sha (cc_bytes c) (cc_media_type c) None;
          replay = replayedInspected now r current overlayCurrent policy x
      in if incomingWorsensAttachments existing incoming then replay
         else if ir_operation r = OpRevise then (InsRevise k merged c current, x)
         else if ev_operation current \<noteq> OpTombstone \<or> ev_parent_event_id current \<noteq> None then
           if incomingImprovesAttachments existing incoming then (InsRevise k merged c current, x)
           else if 0 < rz_unresolved existing \<or> 0 < rz_unresolved incoming then replay
           else if sameBodySurfaceCorrection current merged x
             then (InsRevise k (merged\<lparr>ir_operation := OpRevise,
                     ir_revision_id := Some (or_else (ir_revision_id merged) ''surface-correction'')\<rparr>) c current, x)
           else (InsResult (refused r Quarantined SourceIdentityConflict), x)
         else (InsAfterTombstone k merged c current, x))"

definition inspectRecord :: "(string \<Rightarrow> string) \<Rightarrow> string \<Rightarrow> string \<Rightarrow> ingest_record \<Rightarrow> overlay option \<Rightarrow> dispatch_policy
    \<Rightarrow> ingest_state \<Rightarrow> inspected \<times> ingest_state" where
  "inspectRecord sha now orgId r overlay policy x =
     (let k = record_identity orgId r;
          overlayCurrent = Option.bind overlay (overlay_current k);
          current = or_opt overlayCurrent (findBySourceIdentity k (ix_store x));
          replay = (\<lambda>e. replayedInspected now r e overlayCurrent policy x);
          alias = (case current of None \<Rightarrow> False | Some e \<Rightarrow> ev_external_id e \<noteq> ir_external_id r)
      in if ir_operation r \<noteq> OpTombstone \<and> alias then replay (the current)
         else if ir_operation r = OpTombstone then
           (case current of
              Some e \<Rightarrow> if ev_operation e = OpTombstone then replay e else (InsTombstone k r current, x)
            | None \<Rightarrow> (InsTombstone k r current, x))
         else
           let merged = mergeRecordContent r current x
           in case canonicalizeRecordContent sha merged of
                Inl _ \<Rightarrow> (InsResult (refused r Quarantined ContentUnavailable), x)
              | Inr c \<Rightarrow>
                  if (case current of None \<Rightarrow> False | Some e \<Rightarrow> ev_content_hash e = Some (cc_hash c)) then replay (the current)
                  else case Option.bind overlay (overlay_findEcho sha r) of
                    Some e \<Rightarrow> (InsResult (duplicateResult r e), x)
                  | None \<Rightarrow>
                      (case findEchoedOutbound sha orgId r x of
                         Some e \<Rightarrow> map_prod InsResult id (replayed now r e policy x)
                       | None \<Rightarrow>
                           (case current of
                              Some e \<Rightarrow> inspect_over sha now k r merged c e overlayCurrent policy x
                            | None \<Rightarrow> if ir_operation r = OpRevise then (InsResult (refused r Quarantined SourceIdentityConflict), x)
                                else (InsCreate k merged c, x))))"

subsection \<open>Writing one record\<close>

definition with_store :: "authority_store \<Rightarrow> ingest_state \<Rightarrow> ingest_state" where
  "with_store s x = x\<lparr>ix_store := s\<rparr>"

definition put_blobs :: "blob_object list \<Rightarrow> ingest_state \<Rightarrow> ingest_state" where
  "put_blobs bs x = x\<lparr>ix_blobs := blob_putMany bs (ix_blobs x)\<rparr>"

definition acceptedWrite :: "string \<Rightarrow> ingest_record \<Rightarrow> event_record \<Rightarrow> dispatch_policy \<Rightarrow> ingest_state \<Rightarrow> ingest_result \<times> ingest_state" where
  "acceptedWrite now r e policy x =
     (acceptedResult r (ev_id e), with_store (snd (arrangement_remember now e r policy (ix_store x))) x)"

text \<open>A write of the authority store that is accepted, or refused because the head has moved.\<close>

definition write_or_retry :: "string \<Rightarrow> ingest_record \<Rightarrow> dispatch_policy \<Rightarrow> (js_error + event_record) \<times> authority_store
    \<Rightarrow> ingest_state \<Rightarrow> ingest_result \<times> ingest_state" where
  "write_or_retry now r policy written x =
     (case written of
        (Inl _, s) \<Rightarrow> (concurrentUpdate r, with_store s x)
      | (Inr e, s) \<Rightarrow> acceptedWrite now r e policy (with_store s x))"

definition ingestTombstone :: "string \<Rightarrow> (authority_store \<Rightarrow> authority_store) \<Rightarrow> source_identity \<Rightarrow> ingest_record \<Rightarrow> event_record option
    \<Rightarrow> dispatch_policy \<Rightarrow> ingest_state \<Rightarrow> ingest_result \<times> ingest_state" where
  "ingestTombstone now gap k r current policy x =
     (if map_option ev_operation current = Some OpTombstone then replayed now r (the current) policy x
      else write_or_retry now r policy
        (markTombstone now (tombstone_event_of k r (ir_occurred_at r) (map_option ev_id current)) (gap (ix_store x))) x)"

text \<open>A create over the tombstone of an event that was never seen: the content goes below the tombstone.\<close>

definition append_below :: "string \<Rightarrow> (authority_store \<Rightarrow> authority_store) \<Rightarrow> source_identity \<Rightarrow> ingest_record \<Rightarrow> canonical \<Rightarrow> event_record
    \<Rightarrow> (authority_store, event_record) js_op" where
  "append_below now gap k r c current s =
     (case append_event now (content_event None k r c (Some (ev_id current))) s of
        (Inl err, s1) \<Rightarrow> (Inl err, s1)
      | (Inr e, s1) \<Rightarrow> markTombstone now (tombstone_event_of k r (ev_occurred_at current) (Some (ev_id e))) (gap s1))"

definition revision_of :: "new_event \<Rightarrow> string \<Rightarrow> string option \<Rightarrow> event_revision" where
  "revision_of i parent revision = new_event.extend i (event_revision.fields parent revision)"

fun persistInspected :: "string \<Rightarrow> (authority_store \<Rightarrow> authority_store) \<Rightarrow> inspected \<Rightarrow> dispatch_policy
    \<Rightarrow> ingest_state \<Rightarrow> ingest_result \<times> ingest_state" where
  "persistInspected now gap (InsResult res) policy x = (res, x)"
| "persistInspected now gap (InsTombstone k r current) policy x = ingestTombstone now gap k r current policy x"
| "persistInspected now gap (InsRevise k r c current) policy x =
     (let y = put_blobs (blobsForCanonical c) x
      in write_or_retry now r policy
           (appendRevision now (revision_of (content_event None k r c (Some (ev_id current))) (ev_id current) (ir_revision_id r))
             (gap (ix_store y))) y)"
| "persistInspected now gap (InsCreate k r c) policy x =
     (let y = put_blobs (blobsForCanonical c) x
      in write_or_retry now r policy (append_event now (content_event None k r c None) (gap (ix_store y))) y)"
| "persistInspected now gap (InsAfterTombstone k r c current) policy x =
     (let y = put_blobs (blobsForCanonical c) x
      in write_or_retry now r policy (append_below now gap k r c current (gap (ix_store y))) y)"

definition ingestRecord :: "(string \<Rightarrow> string) \<Rightarrow> string \<Rightarrow> (authority_store \<Rightarrow> authority_store) \<Rightarrow> string \<Rightarrow> dispatch_policy
    \<Rightarrow> ingest_record \<Rightarrow> ingest_state \<Rightarrow> ingest_result \<times> ingest_state" where
  "ingestRecord sha now gap orgId policy r x =
     (case inspectRecord sha now orgId r None policy x of (i, y) \<Rightarrow> persistInspected now gap i policy y)"


subsection \<open>A batch\<close>

record planned_create =
  pl_index :: nat
  pl_eventId :: string
  pl_identity :: source_identity
  pl_record :: ingest_record
  pl_canonical :: canonical

record ingest_run =
  ru_state :: ingest_state
  ru_records :: "ingest_result option list"
  ru_overlay :: overlay
  ru_pending :: "planned_create list"
  ru_buffered :: "planned_create list"
  ru_ingest :: ingest_commit
  ru_mixed :: bool

definition planned_preview :: "planned_create \<Rightarrow> event_record" where
  "planned_preview p = previewCreate (pl_eventId p) (pl_identity p) (pl_record p) (pl_canonical p)"

definition planned_append :: "planned_create \<Rightarrow> new_event" where
  "planned_append p = content_event (Some (pl_eventId p)) (pl_identity p) (pl_record p) (pl_canonical p) None"

definition planned_decision :: "string \<Rightarrow> dispatch_policy \<Rightarrow> planned_create \<Rightarrow> arrangement_decision" where
  "planned_decision now policy p = arrangement_decide now (planned_preview p) (pl_record p) policy"

definition planned_blobs :: "planned_create list \<Rightarrow> blob_object list" where
  "planned_blobs creates = unique_blobs (List.concat (List.map (\<lambda>p. blobsForCanonical (pl_canonical p)) creates))"

text \<open>Ingest the records of creates one by one, after a conflict on their common commit.\<close>

definition reingest :: "(string \<Rightarrow> string) \<Rightarrow> string \<Rightarrow> (authority_store \<Rightarrow> authority_store) \<Rightarrow> dispatch_policy \<Rightarrow> planned_create list
    \<Rightarrow> ingest_result option list \<times> ingest_state \<Rightarrow> ingest_result option list \<times> ingest_state" where
  "reingest sha now gap policy creates rx = fold (\<lambda>p (rs, x).
     case ingestRecord sha now gap (sid_org_id (pl_identity p)) policy (pl_record p) x of
       (res, y) \<Rightarrow> (rs[pl_index p := Some res], y)) creates rx"

definition accept_planned :: "planned_create list \<Rightarrow> string list \<Rightarrow> ingest_result option list \<Rightarrow> ingest_result option list" where
  "accept_planned creates ids rs =
     fold (\<lambda>(p, i) rs. rs[pl_index p := Some (acceptedResult (pl_record p) i)]) (List.zip creates ids) rs"

definition commitCreates :: "(string \<Rightarrow> string) \<Rightarrow> string \<Rightarrow> (authority_store \<Rightarrow> authority_store) \<Rightarrow> dispatch_policy \<Rightarrow> planned_create list
    \<Rightarrow> ingest_result option list \<times> ingest_state \<Rightarrow> ingest_result option list \<times> ingest_state" where
  "commitCreates sha now gap policy creates rx =
     (let (rs, x) = rx; y = put_blobs (planned_blobs creates) x
      in case commitIngest now \<lparr>ic_appends = List.map planned_append creates,
             ic_dispositions = List.map (planned_decision now policy) creates\<rparr> (gap (ix_store y)) of
           (Inl _, s) \<Rightarrow> reingest sha now gap policy creates (rs, with_store s y)
         | (Inr events, s) \<Rightarrow> (accept_planned creates (List.map ev_id events) rs, with_store s y))"

definition bufferCreates :: "string \<Rightarrow> dispatch_policy \<Rightarrow> planned_create list \<Rightarrow> ingest_run \<Rightarrow> ingest_run" where
  "bufferCreates now policy creates u =
     u\<lparr>ru_state := put_blobs (planned_blobs creates) (ru_state u),
       ru_ingest := \<lparr>ic_appends = ic_appends (ru_ingest u) @ List.map planned_append creates,
         ic_dispositions = ic_dispositions (ru_ingest u) @ List.map (planned_decision now policy) creates\<rparr>,
       ru_buffered := ru_buffered u @ creates,
       ru_records := accept_planned creates (List.map pl_eventId creates) (ru_records u)\<rparr>"

definition flushCreates :: "(string \<Rightarrow> string) \<Rightarrow> string \<Rightarrow> (authority_store \<Rightarrow> authority_store) \<Rightarrow> bool \<Rightarrow> dispatch_policy
    \<Rightarrow> ingest_run \<Rightarrow> ingest_run" where
  "flushCreates sha now gap atomic policy u =
     (let planned = ru_pending u; v = u\<lparr>ru_pending := []\<rparr>
      in if planned = [] then u
         else if atomic \<and> \<not> ru_mixed u then bufferCreates now policy planned v
         else case commitCreates sha now gap policy planned (ru_records v, ru_state v) of
                (rs, x) \<Rightarrow> v\<lparr>ru_records := rs, ru_state := x\<rparr>)"

definition ingest_step :: "(string \<Rightarrow> string) \<Rightarrow> (nat \<Rightarrow> string) \<Rightarrow> string \<Rightarrow> (authority_store \<Rightarrow> authority_store) \<Rightarrow> bool \<Rightarrow> string
    \<Rightarrow> dispatch_policy \<Rightarrow> nat \<times> ingest_record \<Rightarrow> ingest_run \<Rightarrow> ingest_run" where
  "ingest_step sha uuid now gap atomic orgId policy ir u =
     (let (index, r) = ir
      in case inspectRecord sha now orgId r (Some (ru_overlay u)) policy (ru_state u) of
           (InsResult res, x) \<Rightarrow> u\<lparr>ru_records := (ru_records u)[index := Some res], ru_state := x\<rparr>
         | (InsCreate k merged c, x) \<Rightarrow>
             u\<lparr>ru_state := x,
               ru_overlay := ru_overlay u @ [(previewCreate (uuid index) k merged c, merged)],
               ru_pending := ru_pending u @ [\<lparr>pl_index = index, pl_eventId = uuid index, pl_identity = k, pl_record = merged,
                 pl_canonical = c\<rparr>]\<rparr>
         | (_, x) \<Rightarrow>
             (let v = flushCreates sha now gap atomic policy (u\<lparr>ru_state := x, ru_mixed := True\<rparr>)
              in case ingestRecord sha now gap orgId policy r (ru_state v) of
                   (res, y) \<Rightarrow> v\<lparr>ru_records := (ru_records v)[index := Some res], ru_state := y\<rparr>))"

definition result_count :: "ingest_status \<Rightarrow> ingest_result list \<Rightarrow> int" where
  "result_count st rs = int (length (List.filter (\<lambda>r. rr_status r = st) rs))"

definition ingestAttemptQuarantines :: "ingest_result list \<Rightarrow> string \<Rightarrow> (nat \<Rightarrow> string) \<Rightarrow> new_quarantine list" where
  "ingestAttemptQuarantines rs now ids =
     List.map (\<lambda>(i, r). \<lparr>nq_id = ids i, nq_record_external_id = rr_external_id r,
         nq_reason_code = or_else (rr_error_code r) InvalidRecord, nq_safe_metadata = [], nq_created_at = now\<rparr>)
       (List.enumerate 0 (List.filter (\<lambda>r. rr_status r = Quarantined) rs))"

definition error_code_name :: "ingest_error_code \<Rightarrow> string" where
  "error_code_name e = (case e of InvalidEnvelope \<Rightarrow> ''invalid_envelope'' | InvalidRecord \<Rightarrow> ''invalid_record''
     | ConnectorMismatch \<Rightarrow> ''connector_mismatch'' | AuthorityBoundaryMismatch \<Rightarrow> ''authority_boundary_mismatch''
     | PrincipalUnresolved \<Rightarrow> ''principal_unresolved'' | ScopeUnresolved \<Rightarrow> ''scope_unresolved''
     | ContentUnavailable \<Rightarrow> ''content_unavailable'' | SourceIdentityConflict \<Rightarrow> ''source_identity_conflict''
     | ConcurrentSourceUpdate \<Rightarrow> ''concurrent_source_update'' | InternalError \<Rightarrow> ''internal_error''
     | UnsupportedRecordType \<Rightarrow> ''unsupported_record_type'')"

text \<open>The settlement of a page, with the summary of the records filled in.\<close>

definition settled_page :: "new_ingest_attempt \<Rightarrow> settle_attempt \<Rightarrow> ingest_result list \<Rightarrow> (nat \<Rightarrow> string) \<Rightarrow> settle_attempt" where
  "settled_page attempt st rs ids =
     st\<lparr>st_attempt_id := na_id attempt, st_accepted_count := result_count Accepted rs,
        st_duplicate_count := result_count Duplicate rs, st_quarantined_count := result_count Quarantined rs,
        st_retryable_failure_count := result_count RetryableFailure rs,
        st_error_code := Option.bind (List.find (\<lambda>r. rr_status r = RetryableFailure) rs)
          (\<lambda>r. map_option error_code_name (rr_error_code r)),
        st_quarantines := ingestAttemptQuarantines rs (st_finished_at st) ids\<rparr>"

definition commitPreparedPage :: "(string \<Rightarrow> string) \<Rightarrow> (nat \<Rightarrow> string) \<Rightarrow> string \<Rightarrow> (authority_store \<Rightarrow> authority_store) \<Rightarrow> dispatch_policy
    \<Rightarrow> new_ingest_attempt \<times> settle_attempt \<Rightarrow> pref_patch list \<Rightarrow> ingest_run \<Rightarrow> bool \<times> ingest_run" where
  "commitPreparedPage sha uuid now gap policy page prefs u =
     (let (attempt, st) = page; rs = List.map_filter id (ru_records u);
          pending = ru_ingest u;
          ingest = (if ic_appends pending = [] \<and> ic_dispositions pending = [] then None else Some pending)
      in case authority_commitSyncPage now attempt ingest (settled_page attempt st rs (\<lambda>i. uuid (length (ru_records u) + i))) prefs
             (gap (ix_store (ru_state u))) of
           (Inr _, s) \<Rightarrow> (True, u\<lparr>ru_state := with_store s (ru_state u)\<rparr>)
         | (Inl _, s) \<Rightarrow>
             (case reingest sha now gap policy (ru_buffered u) (ru_records u, with_store s (ru_state u)) of
                (rs', x) \<Rightarrow> (False, u\<lparr>ru_records := rs', ru_state := x\<rparr>)))"

definition begin_batch :: "nat \<Rightarrow> ingest_state \<Rightarrow> ingest_run" where
  "begin_batch n x = \<lparr>ru_state = x, ru_records = List.replicate n None, ru_overlay = [], ru_pending = [], ru_buffered = [],
     ru_ingest = \<lparr>ic_appends = [], ic_dispositions = []\<rparr>, ru_mixed = False\<rparr>"

definition run_event_ids :: "ingest_run \<Rightarrow> string list" where
  "run_event_ids u = List.map_filter (\<lambda>r. Option.bind (Option.bind r rr_event_id) to_truthy) (ru_records u)"

text \<open>\<open>ingest\<close>: the results of the records, whether the page of the connector was committed with them, and the
  stores.\<close>

definition ingest :: "(string \<Rightarrow> string) \<Rightarrow> (nat \<Rightarrow> string) \<Rightarrow> (string \<Rightarrow> string \<Rightarrow> int) \<Rightarrow> string \<Rightarrow> (authority_store \<Rightarrow> authority_store)
    \<Rightarrow> string \<Rightarrow> ingest_record list \<Rightarrow> (new_ingest_attempt \<times> settle_attempt) option \<Rightarrow> ingest_state
    \<Rightarrow> ingest_result option list \<times> bool \<times> ingest_state" where
  "ingest sha uuid lc now gap orgId records page x =
     (let atomic = page \<noteq> None; policy = policyFor orgId (as_work (ix_store x));
          u = fold (ingest_step sha uuid now gap atomic orgId policy) (List.enumerate 0 records) (begin_batch (length records) x);
          v = flushCreates sha now gap atomic policy u;
          eventIds = run_event_ids v;
          (pageCommitted, w) = (case page of
              Some p \<Rightarrow>
                if ru_mixed v then (False, v)
                else commitPreparedPage sha uuid now gap policy p
                  (collectListSurfacePatches lc (st_finished_at (snd p)) orgId eventIds (List.map planned_preview (ru_buffered v))
                     (ic_dispositions (ru_ingest v)) (ix_store (ru_state v))) v
            | None \<Rightarrow> (False, v));
          s = ix_store (ru_state w)
      in (ru_records w, pageCommitted,
          with_store (if pageCommitted then s else applyListSurfaceAfterIngest lc now orgId eventIds s) (ru_state w)))"

end
