(* ===== verification/AuthorityLaws.thy ===== *)
theory AuthorityLaws
  imports AuthorityInvariant
begin

section \<open>What the authority store promises\<close>

text \<open>
  The head of an identity is its newest event, a writer that read an older head is refused, an outbound request
  is claimed again only after a rejection, and clearing an organisation removes that organisation.
\<close>

text \<open>A store for the examples: one message, which is current work.\<close>

definition sample_new :: "string \<Rightarrow> string option \<Rightarrow> new_event" where
  "sample_new i head = \<lparr>ne_id = Some i, ne_org_id = ''o'', ne_source = ''mail'', ne_external_id = ''a:1'', ne_content_hash = ''h'',
     ne_content_media_type = ''text/plain'', ne_content_byte_size = 1, ne_extra_blobs = None, ne_thread_id = None, ne_actor_id = None,
     ne_required_scope_ids = None, ne_direction_tags = None, ne_weight_hints = None, ne_attrs = None, ne_occurred_at = ''t'',
     ne_expected_head_id = head\<rparr>"

definition sample_authority_ops :: "(string \<times> authority_op) list" where
  "sample_authority_ops = [(''t1'', AoAppend (sample_new ''e1'' None)),
     (''t1'', AoDecide \<lparr>ad_event_id = ''e1'', ad_org_id = ''o'', ad_disposition = CurrentWork, ad_layer = L1Event,
        ad_reason_codes = [''task''], ad_score = 1, ad_decided_at = ''t1''\<rparr>)]"

subsection \<open>Heads\<close>

text \<open>C25. Every run of operations leaves a well-formed store: references name one object each, a head is an event
  of its organisation and the newest event of an identity that has events, and the blob of every event is
  recorded.\<close>

theorem authority_well_formed: "authority_ok (authority_run ops)"
  by (rule run_ok)

lemma head_of_own:
  assumes ok: "authority_ok s" and ne: "own_events k s \<noteq> []"
  shows "findBySourceIdentity k s = Some (snd (last (own_events k s)))"
proof -
  have "head_ref k s = Some (fst (last (own_events k s)))" using ok ne unfolding authority_ok_def heads_ok_def by blast
  moreover have "last (own_events k s) \<in> set (as_events s)" using last_in_set[OF ne] by (simp only: set_filter mem_Collect_eq)
  then have "map_of (as_events s) (fst (last (own_events k s))) = Some (snd (last (own_events k s)))"
    using ok map_of_events by (simp only: authority_ok_def prod.collapse)
  ultimately show ?thesis by (simp only: findBySourceIdentity_def option.case)
qed

text \<open>C24. The head of a source identity is a function of the log: after any run of operations, the head of an
  identity that has events is the last event of that identity, whatever aliases were bound.\<close>

theorem head_is_newest:
  assumes "List.filter (\<lambda>e. event_identity e = k) (all_events (authority_run ops)) \<noteq> []"
  shows "findBySourceIdentity k (authority_run ops) =
    Some (last (List.filter (\<lambda>e. event_identity e = k) (all_events (authority_run ops))))"
proof -
  let ?s = "authority_run ops"
  have own: "List.filter (\<lambda>e. event_identity e = k) (all_events ?s) = List.map snd (own_events k ?s)"
    by (simp only: all_events_def filter_map comp_def)
  then have ne: "own_events k ?s \<noteq> []" using assms by auto
  show ?thesis using head_of_own[OF run_ok ne] unfolding own last_map[OF ne] .
qed

lemma head_is_newest_witness:
  "findBySourceIdentity \<lparr>sid_org_id = ''o'', sid_source = ''mail'', sid_external_id = ''a:1''\<rparr> (authority_run sample_authority_ops)
    = Some (last (List.filter (\<lambda>e. event_identity e = \<lparr>sid_org_id = ''o'', sid_source = ''mail'', sid_external_id = ''a:1''\<rparr>)
        (all_events (authority_run sample_authority_ops))))"
  by (rule head_is_newest) code_simp

lemma head_after_add:
  assumes ok: "refs_ok s" and add: "addEvent now given row s = (e, t)"
  shows "findBySourceIdentity (event_identity e) t = Some e" and "event_identity e = event_identity row"
proof -
  have fresh: "map_of (as_events s) (as_nextRef s) = None"
    using ok by (force simp: refs_ok_def map_of_eq_None_iff)
  show "findBySourceIdentity (event_identity e) t = Some e" and "event_identity e = event_identity row"
    using add fresh by (cases given; auto simp: addEvent_def Let_def findBySourceIdentity_def head_ref_def map_add_def event_identity_def)+
qed

lemma content_row_identity: "event_identity (content_row i operation parent) = new_event_identity i"
  by (simp add: event_identity_def content_row_def new_event_identity_def)

lemma head_after_content:
  assumes ok: "authority_ok s" and add: "addContentEvent now i operation parent s = (Inr e, t)"
  shows "findBySourceIdentity (new_event_identity i) t = Some e"
proof -
  have head: "assertExpectedHead (ne_expected_head_id i) (findBySourceIdentity (new_event_identity i) s)"
    using add by (simp add: addContentEvent_def split: if_splits)
  define u where "u = fold (rememberBlob now) (content_meta i # or_else (ne_extra_blobs i) []) s"
  have "core_grows s u" unfolding u_def by (rule core_fold) (rule core_remember)
  then have u: "refs_ok u" using core_ok ok by (simp add: authority_ok_def)
  obtain e' t' where a: "addEvent now (ne_id i) (content_row i operation parent) u = (e', t')" by fastforce
  have "(Inr e, t) = (Inr e', t')"
    using add head a unfolding addContentEvent_def Let_def u_def[symmetric] by simp
  then show ?thesis using head_after_add[OF u a] by (simp add: content_row_identity)
qed

text \<open>C3. No update is lost: after a writer has appended an event over the head that it read, another writer
  that read the same head is refused with a conflict and leaves the store as it is.\<close>

theorem no_lost_update:
  assumes "addContentEvent now i operation parent (authority_run ops) = (Inr e, t)"
    and "new_event_identity j = new_event_identity i" and "ne_expected_head_id j = ne_expected_head_id i"
    and "Some (ev_id e) \<noteq> ne_expected_head_id i"
  shows "addContentEvent now' j operation' parent' t = (Inl authority_conflict, t)"
  using head_after_content[OF run_ok assms(1)] assms(2-4) by (simp add: addContentEvent_def assertExpectedHead_def)

lemma no_lost_update_witness:
  "addContentEvent ''t3'' (sample_new ''e3'' (Some ''e1'')) OpRevise (Some ''e1'')
      (snd (addContentEvent ''t2'' (sample_new ''e2'' (Some ''e1'')) OpRevise (Some ''e1'') (authority_run sample_authority_ops)))
    = (Inl authority_conflict,
       snd (addContentEvent ''t2'' (sample_new ''e2'' (Some ''e1'')) OpRevise (Some ''e1'') (authority_run sample_authority_ops)))"
proof -
  let ?r = "addContentEvent ''t2'' (sample_new ''e2'' (Some ''e1'')) OpRevise (Some ''e1'') (authority_run sample_authority_ops)"
  have "fst ?r = Inr (projr (fst ?r)) \<and> ev_id (projr (fst ?r)) = ''e2''" by code_simp
  then have r: "?r = (Inr (projr (fst ?r)), snd ?r)" "ev_id (projr (fst ?r)) = ''e2''" by (metis prod.collapse)+
  have ids: "Some (ev_id (projr (fst ?r))) \<noteq> ne_expected_head_id (sample_new ''e2'' (Some ''e1''))"
    unfolding r(2) by (simp add: sample_new_def)
  show ?thesis by (rule no_lost_update[OF r(1) _ _ ids]) (simp_all add: sample_new_def new_event_identity_def)
qed

subsection \<open>Outbound requests\<close>

fun claims_won :: "string \<Rightarrow> (string \<times> authority_op) list \<Rightarrow> authority_store \<Rightarrow> nat" where
  "claims_won key [] s = 0"
| "claims_won key ((now, op) # ops) s =
     (case op of AoClaim i \<Rightarrow> if pref_key (no_org_id i) (no_client_request_id i) = key \<and> fst (claimOutboundAttempt i s) then 1 else 0
      | _ \<Rightarrow> 0) + claims_won key ops (authority_step (now, op) s)"

fun rejections :: "string \<Rightarrow> (string \<times> authority_op) list \<Rightarrow> nat" where
  "rejections key [] = 0"
| "rejections key ((now, op) # ops) =
     (case op of AoPut i \<Rightarrow> if pref_key (no_org_id i) (no_client_request_id i) = key \<and> op_status i = OutRejected then 1 else 0
      | _ \<Rightarrow> 0) + rejections key ops"

definition on_the_wire :: "string \<Rightarrow> authority_store \<Rightarrow> nat" where
  "on_the_wire key s = (case map_of (as_attempts s) key of None \<Rightarrow> 0 | Some a \<Rightarrow> if oa_status a = OutRejected then 0 else 1)"

named_theorems attempts_frame "operations that keep the outbound attempts"

lemma remember_one_attempts [attempts_frame]: "as_attempts (rememberBlob now b s) = as_attempts s"
  by (simp add: rememberBlob_def)

lemma remember_attempts [attempts_frame]: "as_attempts (fold (rememberBlob now) bs s) = as_attempts s"
  by (induction bs arbitrary: s) (simp_all add: rememberBlob_def)

lemma add_attempts [attempts_frame]: "as_attempts (snd (addEvent now given row s)) = as_attempts s"
  by (cases given) (simp_all add: addEvent_def Let_def)

lemma content_attempts [attempts_frame]: "as_attempts (snd (addContentEvent now i operation parent s)) = as_attempts s"
  unfolding addContentEvent_def Let_def
  by (simp add: split_def attempts_frame)

lemma tombstone_attempts [attempts_frame]: "as_attempts (snd (markTombstone now i s)) = as_attempts s"
  by (simp add: markTombstone_def Let_def split_def attempts_frame)

lemma append_all_attempts [attempts_frame]: "as_attempts (snd (append_all now xs s)) = as_attempts s"
proof (induction xs arbitrary: s)
  case (Cons i xs)
  obtain r t where r: "append_event now i s = (r, t)" by fastforce
  have "as_attempts t = as_attempts s" using content_attempts[of now i OpCreate None s] r by (simp add: append_event_def)
  then show ?case using Cons.IH[of t] r by (auto split: sum.splits prod.splits)
qed simp

lemma decide_attempts [attempts_frame]: "as_attempts (fold putDisposition ds s) = as_attempts s"
  by (induction ds arbitrary: s) (simp_all add: putDisposition_def)

lemma prefs_attempts [attempts_frame]: "as_attempts (fold apply_pref ps s) = as_attempts s"
  by (induction ps arbitrary: s) (simp_all add: apply_pref_def putConversationPref_def Let_def)

lemma commit_attempts [attempts_frame]: "as_attempts (snd (commitIngest now c s)) = as_attempts s"
proof -
  obtain r t where r: "append_all now (ic_appends c) s = (r, t)" by fastforce
  then show ?thesis using append_all_attempts[of now "ic_appends c" s] by (cases r) (simp_all add: commitIngest_def attempts_frame)
qed

lemma page_attempts [attempts_frame]: "as_attempts (snd (commit_page_ingest now c ps s)) = as_attempts s"
proof -
  obtain r t where r: "(case c of None \<Rightarrow> (Inr [], s) | Some i \<Rightarrow> commitIngest now i s) = (r, t)" by fastforce
  then have "as_attempts t = as_attempts s" using commit_attempts[of now _ s] by (cases c) (auto, metis snd_conv)
  then show ?thesis by (cases r) (simp_all add: commit_page_ingest_def r attempts_frame)
qed

lemma alias_attempts [attempts_frame]: "as_attempts (snd (bindSourceIdentityAliases i s)) = as_attempts s"
  by (simp add: bindSourceIdentityAliases_def split: option.split prod.split)

lemma repoint_attempts [attempts_frame]: "as_attempts (snd (repointContentHash now i s)) = as_attempts s"
  by (simp add: repointContentHash_def Let_def attempts_frame)

lemma clear_attempts [attempts_frame]: "as_attempts (snd (clearOperationalData orgId s)) = as_attempts s"
  by (simp add: clearOperationalData_def Let_def)

lemma claim_wire:
  "(if pref_key (no_org_id i) (no_client_request_id i) = key \<and> fst (claimOutboundAttempt i s) then 1 else 0) + on_the_wire key s
     \<le> on_the_wire key (snd (claimOutboundAttempt i s))"
  by (auto simp: claimOutboundAttempt_def on_the_wire_def outbound_held_def Let_def split: option.splits)

lemma put_wire:
  "on_the_wire key s \<le> on_the_wire key (snd (putOutboundAttempt i s))
     + (if pref_key (no_org_id i) (no_client_request_id i) = key \<and> op_status i = OutRejected then 1 else 0)"
  by (auto simp: putOutboundAttempt_def on_the_wire_def Let_def split: option.splits)

lemma wire_same: "as_attempts t = as_attempts s \<Longrightarrow> on_the_wire key t = on_the_wire key s"
  by (simp add: on_the_wire_def)

fun is_claim :: "authority_op \<Rightarrow> bool" where
  "is_claim (AoClaim i) = True"
| "is_claim _ = False"

fun is_put :: "authority_op \<Rightarrow> bool" where
  "is_put (AoPut i) = True"
| "is_put _ = False"

lemma step_attempts: "\<not> is_claim op \<Longrightarrow> \<not> is_put op \<Longrightarrow> as_attempts (authority_step (now, op) s) = as_attempts s"
  using decide_attempts[of "[_]" s] prefs_attempts[of "[_]" s]
  by (cases op) (simp_all add: apply_pref_def attempts_frame append_event_def appendRevision_def)

lemma claims_bound: "claims_won key ops s + on_the_wire key s \<le> rejections key ops + 1"
proof (induction ops arbitrary: s)
  case Nil
  show ?case by (simp add: on_the_wire_def split: option.split)
next
  case (Cons p ops)
  obtain now op where p: "p = (now, op)" by fastforce
  note IH = Cons.IH[of "authority_step (now, op) s"]
  show ?case
  proof (cases "is_claim op \<or> is_put op")
    case True
    then show ?thesis
    proof (cases op)
      case (AoClaim i)
      then show ?thesis using IH claim_wire[of i key s] by (simp add: p)
    next
      case (AoPut i)
      then show ?thesis using IH put_wire[of key s i] by (simp add: p)
    qed simp_all
  next
    case False
    then have "claims_won key (p # ops) s = claims_won key ops (authority_step (now, op) s)"
      "rejections key (p # ops) = rejections key ops" by (auto simp: p split: authority_op.splits)
    moreover have "on_the_wire key (authority_step (now, op) s) = on_the_wire key s"
      using False by (intro wire_same step_attempts) simp_all
    ultimately show ?thesis using IH by simp
  qed
qed

text \<open>C6. An outbound request is claimed at most once more than it has been rejected: over any run of
  operations, the claims of a client request id that succeed exceed the attempts that were reported rejected
  by at most one. A request whose outcome is unknown is never claimed again.\<close>

theorem claimed_once_per_rejection: "claims_won key ops new_authority_store \<le> rejections key ops + 1"
  using claims_bound[of key ops new_authority_store] by simp


subsection \<open>Clearing\<close>

lemma clear_one_org:
  fixes orgId :: string and ops :: "(string \<times> authority_op) list"
  defines "s \<equiv> authority_run ops" and "t \<equiv> snd (clearOperationalData orgId (authority_run ops))"
  shows "all_events t = List.filter (\<lambda>e. ev_org_id e \<noteq> orgId) (all_events s)
    \<and> (\<forall>k. findBySourceIdentity k t = (if sid_org_id k = orgId then None else findBySourceIdentity k s))
    \<and> (\<forall>org. listConversationPrefs org t = (if org = orgId then [] else listConversationPrefs org s))
    \<and> (\<forall>e \<in> set (all_events t). \<forall>h. ev_content_hash e = Some h \<longrightarrow> findBlob h t \<noteq> None)"
proof (intro conjI allI)
  have ok: "authority_ok s" unfolding s_def by (rule run_ok)
  then have refs: "refs_ok s" and d: "distinct (js_keys (as_current s))" by (simp_all add: authority_ok_def refs_ok_def)
  have events: "as_events t = List.filter (\<lambda>p. ev_org_id (snd p) \<noteq> orgId) (as_events s)"
    by (simp add: t_def s_def clearOperationalData_def Let_def split_def)
  show "all_events t = List.filter (\<lambda>e. ev_org_id e \<noteq> orgId) (all_events s)"
    by (simp add: all_events_def events filter_map comp_def)
  have heads: "as_current t = delete_where (\<lambda>_ r. case map_of (as_events s) r of None \<Rightarrow> False | Some e \<Rightarrow> ev_org_id e = orgId)
      (as_current s)" by (simp add: t_def s_def clearOperationalData_def Let_def)
  have refs_t: "refs_ok t" using clear_ok[OF ok] by (simp add: authority_ok_def t_def s_def)
  show "findBySourceIdentity k t = (if sid_org_id k = orgId then None else findBySourceIdentity k s)" for k
  proof (cases "map_of (as_current s) k")
    case None
    then show ?thesis unfolding findBySourceIdentity_def head_ref_def heads map_of_delete_where[OF d]
      by (simp del: map_of_eq_None_iff)
  next
    case (Some r)
    then obtain e where e: "(r, e) \<in> set (as_events s)" "ev_org_id e = sid_org_id k"
      using ok unfolding authority_ok_def heads_ok_def head_ref_def by blast
    have s: "map_of (as_events s) r = Some e" using map_of_events[OF refs] e(1) by simp
    have t: "map_of (as_events t) r = Some e" if "ev_org_id e \<noteq> orgId"
      using map_of_events[OF refs_t] e(1) that by (simp add: events)
    show ?thesis using Some e(2) s t unfolding findBySourceIdentity_def head_ref_def heads map_of_delete_where[OF d]
      by (simp del: map_of_eq_Some_iff)
  qed
  have prefs: "as_prefs t = delete_where (\<lambda>_ p. cv_org_id p = orgId) (as_prefs s)"
    by (simp add: t_def s_def clearOperationalData_def Let_def)
  show "listConversationPrefs org t = (if org = orgId then [] else listConversationPrefs org s)" for org
    unfolding listConversationPrefs_def prefs filter_delete_values by (auto simp: filter_empty_conv intro: filter_cong)
  show "\<forall>e \<in> set (all_events t). \<forall>h. ev_content_hash e = Some h \<longrightarrow> findBlob h t \<noteq> None"
    using clear_ok[OF ok] by (simp add: authority_ok_def blobs_ok_def t_def s_def)
qed

text \<open>The rows of a map that belong to other organisations, under the keys and in the order they had.\<close>

definition without_org :: "string \<Rightarrow> ('v \<Rightarrow> string) \<Rightarrow> (string, 'v) js_map \<Rightarrow> (string, 'v) js_map" where
  "without_org orgId org m = List.filter (\<lambda>(key, v). org v \<noteq> orgId) m"

lemma delete_org: "delete_where (\<lambda>_ v. org v = orgId) m = without_org orgId org m"
  by (simp add: delete_where_def without_org_def)

lemma dropped_blobs:
  "map_of (fold (\<lambda>h m. if used h then m else AList.delete h m) hs m) h =
     (if h \<in> set hs \<and> \<not> used h then None else map_of m h)"
  by (induction hs arbitrary: m) (auto simp: AList.delete_conv')

lemma clear_rest:
  fixes s :: authority_store and orgId :: string
  defines "t \<equiv> snd (clearOperationalData orgId s)"
  shows "as_dispositions t = without_org orgId ad_org_id (as_dispositions s)"
    and "ws_items (as_work t) = without_org orgId wi_org_id (ws_items (as_work s))"
    and "ws_runs (as_work t) = without_org orgId wn_org_id (ws_runs (as_work s))"
    and "ws_deliveries (as_work t) = without_org orgId wd_org_id (ws_deliveries (as_work s))"
    and "ws_recipes (as_work t) = ws_recipes (as_work s)" "ws_uiPrefs (as_work t) = ws_uiPrefs (as_work s)"
      "ws_searchAnswers (as_work t) = ws_searchAnswers (as_work s)" "ws_executors (as_work t) = ws_executors (as_work s)"
    and "\<forall>h. findBlob h t = (if h \<noteq> [] \<and> (\<exists>e \<in> set (all_events s). ev_org_id e = orgId \<and> ev_content_hash e = Some h)
        \<and> \<not> (\<exists>e \<in> set (all_events s). ev_org_id e \<noteq> orgId \<and> ev_content_hash e = Some h)
        then None else findBlob h s)"
proof -
  have "x \<in> set (List.map_filter f xs) \<longleftrightarrow> (\<exists>e \<in> set xs. f e = Some x)" 
    for x :: string and f and xs :: "event_record list"
    by (force simp: map_filter_def)
  then have hashes: "h \<in> set (js_unique (List.map_filter (\<lambda>e. if ev_org_id e = orgId then Option.bind (ev_content_hash e) to_truthy
        else None) (all_events s)))
      \<longleftrightarrow> h \<noteq> [] \<and> (\<exists>e \<in> set (all_events s). ev_org_id e = orgId \<and> ev_content_hash e = Some h)" for h
    by (auto simp: Option.bind_eq_Some_conv split: if_splits)
  have used: "list_ex (\<lambda>(r, e). ev_content_hash e = Some h) (List.filter (\<lambda>(r, e). ev_org_id e \<noteq> orgId) (as_events s))
      \<longleftrightarrow> (\<exists>e \<in> set (all_events s). ev_org_id e \<noteq> orgId \<and> ev_content_hash e = Some h)"
    for h by (force simp: list_ex_iff all_events_def)
  have "as_blobs t = fold (\<lambda>h m. if list_ex (\<lambda>(r, e). ev_content_hash e = Some h)
        (List.filter (\<lambda>(r, e). ev_org_id e \<noteq> orgId) (as_events s)) then m else AList.delete h m)
      (js_unique (List.map_filter (\<lambda>e. if ev_org_id e = orgId then Option.bind (ev_content_hash e) to_truthy else None)
        (all_events s))) (as_blobs s)"
    by (simp add: t_def clearOperationalData_def Let_def)
  then show "\<forall>h. findBlob h t = (if h \<noteq> [] \<and> (\<exists>e \<in> set (all_events s). ev_org_id e = orgId \<and> ev_content_hash e = Some h)
      \<and> \<not> (\<exists>e \<in> set (all_events s). ev_org_id e \<noteq> orgId \<and> ev_content_hash e = Some h)
      then None else findBlob h s)"
    by (simp only: findBlob_def dropped_blobs hashes used conj_assoc simp_thms)
qed (simp_all add: t_def clearOperationalData_def dropOperationalWork_def Let_def delete_org)

text \<open>C26. Clearing an organisation removes its operational data and touches nobody else's. The log is the log
  without that organisation; heads and preferences of other organisations are what they were, and its own are gone;
  the decisions, work items, runs and deliveries that stay are exactly the rows of other organisations; recipes,
  interface preferences, search answers, executors and outbound attempts stay as they were; and a blob goes
  exactly when an event of the organisation used it and no event that stays does.\<close>

theorem clear_removes_one_org:
  "let s = authority_run ops; t = snd (clearOperationalData orgId s); v = as_work s; w = as_work t
   in all_events t = List.filter (\<lambda>e. ev_org_id e \<noteq> orgId) (all_events s)
    \<and> (\<forall>k. findBySourceIdentity k t = (if sid_org_id k = orgId then None else findBySourceIdentity k s))
    \<and> (\<forall>org. listConversationPrefs org t = (if org = orgId then [] else listConversationPrefs org s))
    \<and> (\<forall>e \<in> set (all_events t). \<forall>h. ev_content_hash e = Some h \<longrightarrow> findBlob h t \<noteq> None)
    \<and> as_dispositions t = without_org orgId ad_org_id (as_dispositions s)
    \<and> ws_items w = without_org orgId wi_org_id (ws_items v)
    \<and> ws_runs w = without_org orgId wn_org_id (ws_runs v)
    \<and> ws_deliveries w = without_org orgId wd_org_id (ws_deliveries v)
    \<and> ws_recipes w = ws_recipes v \<and> ws_uiPrefs w = ws_uiPrefs v
    \<and> ws_searchAnswers w = ws_searchAnswers v \<and> ws_executors w = ws_executors v
    \<and> as_attempts t = as_attempts s
    \<and> (\<forall>h. findBlob h t = (if h \<noteq> [] \<and> (\<exists>e \<in> set (all_events s). ev_org_id e = orgId \<and> ev_content_hash e = Some h)
          \<and> \<not> (\<exists>e \<in> set (all_events s). ev_org_id e \<noteq> orgId \<and> ev_content_hash e = Some h)
        then None else findBlob h s))"
  using clear_one_org[of orgId ops] clear_rest[of orgId "authority_run ops"]
    clear_attempts[of orgId "authority_run ops"] unfolding Let_def
  by - (elim conjE, intro conjI; assumption)

text \<open>A store with a decision of another organisation: it is all that is left of the decisions.\<close>

definition two_org_ops :: "(string \<times> authority_op) list" where
  "two_org_ops = sample_authority_ops @
     [(''t2'', AoDecide \<lparr>ad_event_id = ''e9'', ad_org_id = ''p'', ad_disposition = CurrentWork, ad_layer = L1Event,
        ad_reason_codes = [''task''], ad_score = 1, ad_decided_at = ''t2''\<rparr>)]"

lemma clear_removes_one_org_witness:
  "let t = snd (clearOperationalData ''o'' (authority_run two_org_ops))
   in all_events t = [] \<and> js_keys (as_dispositions t) = [''e9''] \<and> findBlob ''h'' t = None"
proof -
  let ?s = "authority_run two_org_ops"
  have "all_events ?s \<noteq> [] \<and> (\<forall>e \<in> set (all_events ?s). ev_org_id e = ''o'' \<and> ev_content_hash e = Some ''h'')"
    by code_simp
  moreover have "js_keys (without_org ''o'' ad_org_id (as_dispositions ?s)) = [''e9'']" by code_simp
  ultimately show ?thesis using clear_removes_one_org[of two_org_ops "''o''"]
    by (simp add: Let_def filter_empty_conv)
qed

subsection \<open>The badge\<close>

definition heads_query :: inbox_query where
  "heads_query = no_query\<lparr>iq_heads := True\<rparr>"

text \<open>What the arrangement of a message decides: a tombstone or a status marker is never current work.\<close>

definition arranged :: "authority_store \<Rightarrow> bool" where
  "arranged s \<longleftrightarrow> (\<forall>e \<in> set (all_events s). \<forall>d. getDisposition (ev_id e) s = Some d \<and> ad_disposition d = CurrentWork
     \<longrightarrow> ev_operation e \<noteq> OpTombstone \<and> ''thread_status'' \<notin> set (ad_reason_codes d))"


lemma heads_query_simps: "headsScanQuery heads_query = heads_query" "\<not> hasEventFilter heads_query" "iq_heads heads_query"
  "\<not> iq_tasks heads_query" "iq_list heads_query = None" "iq_disposition heads_query = None"
  "eq_thread_ids heads_query = None" "eq_source heads_query = None" "eq_target heads_query = None"
  "takeRecentInboxItems event heads_query items = items" "matchesEventQuery e orgId heads_query \<longleftrightarrow> ev_org_id e = orgId"
  by (auto simp: heads_query_def no_query_def headsScanQuery_def hasEventFilter_def takeRecentInboxItems_def
        normalizeInboxLimit_def matchesEventQuery_def)

lemma decided_Some: "decided_item s e = Some i \<longleftrightarrow> ii_event i = e \<and> getDisposition (ev_id e) s = Some (ii_decision i)"
  by (cases i) (auto simp: decided_item_def getDisposition_def)

text \<open>A \<open>flatMap\<close> over the events that have a decision, with a test.\<close>

lemma decided_filter:
  "(case decided_item s e of None \<Rightarrow> None | Some j \<Rightarrow> if P j then None else Some j) = Some i
     \<longleftrightarrow> ii_event i = e \<and> getDisposition (ev_id e) s = Some (ii_decision i) \<and> \<not> P i"
proof -
  have "(case decided_item s e of None \<Rightarrow> None | Some j \<Rightarrow> if P j then None else Some j) = Some i
      \<longleftrightarrow> decided_item s e = Some i \<and> \<not> P i" by (auto split: option.split)
  then show ?thesis unfolding decided_Some by blast
qed

lemma if_None_Some: "(if P then None else x) = Some y \<longleftrightarrow> \<not> P \<and> x = Some y"
  by simp

lemma if_if_None: "(if P then None else if Q then None else x) = (if P \<or> Q then None else x)"
  by simp

lemma mem_current_work:
  "i \<in> set (currentWorkInbox orgId wanted s) \<longleftrightarrow> ii_event i \<in> set (current_events s) \<and> ev_org_id (ii_event i) = orgId
     \<and> getDisposition (ev_id (ii_event i)) s = Some (ii_decision i) \<and> ad_disposition (ii_decision i) = wanted
     \<and> eventThreadId (ii_event i) \<notin> set (hiddenThreadIds orgId s)"
  unfolding currentWorkInbox_def Let_def if_if_None mem_map_filter decided_filter by blast

lemma mem_decided:
  "i \<in> set (decidedInbox orgId heads_query s) \<longleftrightarrow> ii_event i \<in> set (all_events s) \<and> ev_org_id (ii_event i) = orgId
     \<and> getDisposition (ev_id (ii_event i)) s = Some (ii_decision i)
     \<and> eventThreadId (ii_event i) \<in> (\<lambda>j. eventThreadId (ii_event j)) ` set (currentWorkInbox orgId CurrentWork s)"
proof (cases "currentWorkInbox orgId CurrentWork s = []")
  case True
  then show ?thesis by (simp add: decidedInbox_def heads_query_simps normalizeInboxListView_def js_unique_def)
next
  case False
  let ?ts = "js_unique (List.map (\<lambda>j. eventThreadId (ii_event j)) (currentWorkInbox orgId CurrentWork s))"
  have ne: "?ts \<noteq> []" using False by (metis set_js_unique set_empty map_is_Nil_conv)
  have "decidedInbox orgId heads_query s = List.map_filter (\<lambda>e. if ev_org_id e \<noteq> orgId \<or> eventThreadId e \<notin> set ?ts then None
      else case decided_item s e of None \<Rightarrow> None | Some j \<Rightarrow> if False then None else Some j) (all_events s)"
    unfolding decidedInbox_def Let_def heads_query_simps normalizeInboxListView_def if_if_None
    using ne by (simp only: truthy.simps simp_thms if_False option.case option.inject list_view.distinct option.distinct)
  then have "i \<in> set (decidedInbox orgId heads_query s) \<longleftrightarrow> (\<exists>e \<in> set (all_events s).
      (ev_org_id e = orgId \<and> eventThreadId e \<in> set ?ts) \<and> ii_event i = e \<and> getDisposition (ev_id e) s = Some (ii_decision i))"
    by (simp only: mem_map_filter if_None_Some decided_filter de_Morgan_disj not_not simp_thms)
  then show ?thesis unfolding set_js_unique set_map by blast
qed

lemma current_all: "refs_ok s \<Longrightarrow> e \<in> set (current_events s) \<Longrightarrow> e \<in> set (all_events s)"
  using map_of_events by (force simp: current_events_def mem_map_filter all_events_def)

lemma list_threads:
  fixes orgId :: string
  assumes ok: "refs_ok s" and arr: "arranged s"
  defines "work \<equiv> set (currentWorkInbox orgId CurrentWork s)" and "t \<equiv> \<lambda>i. eventThreadId (ii_event i)"
  shows "length (listInbox lc orgId heads_query s) = card (t ` work)" and "\<forall>i \<in> work. shows_face ii_event isThreadStatusItem i"
proof -
  let ?d = "decidedInbox orgId heads_query s"
  let ?open = "List.filter (\<lambda>i. ad_disposition (ii_decision i) = CurrentWork) ?d"
  let ?in = "List.filter (\<lambda>i. t i \<in> set (List.map t ?open)) ?d"
  show face: "\<forall>i \<in> work. shows_face ii_event isThreadStatusItem i"
  proof
    fix i assume "i \<in> work"
    then have "ii_event i \<in> set (all_events s)" "getDisposition (ev_id (ii_event i)) s = Some (ii_decision i)"
      "ad_disposition (ii_decision i) = CurrentWork" using current_all[OF ok] by (simp_all add: work_def mem_current_work)
    then show "shows_face ii_event isThreadStatusItem i" using arr unfolding arranged_def shows_face_def isThreadStatusItem_def by blast
  qed
  have sub: "work \<subseteq> set ?open"
    using current_all[OF ok] by (auto simp: work_def mem_current_work mem_decided)
  have "t ` {i \<in> set ?in. shows_face ii_event isThreadStatusItem i} = t ` work"
  proof
    show "t ` {i \<in> set ?in. shows_face ii_event isThreadStatusItem i} \<subseteq> t ` work"
      by (auto simp: mem_decided work_def t_def)
    show "t ` work \<subseteq> t ` {i \<in> set ?in. shows_face ii_event isThreadStatusItem i}" using sub face by auto
  qed
  moreover have "length (listInbox lc orgId heads_query s) = length (headsByThread ii_event isThreadStatusItem ?in)"
    by (simp add: listInbox_def selectInboxItems_def heads_query_simps normalizeInboxListView_def t_def Let_def)
  ultimately show "length (listInbox lc orgId heads_query s) = card (t ` work)" by (simp add: head_count t_def)
qed

text \<open>C22. The badge and the list agree: while decisions are what the arrangement makes them, the number that
  \<open>summarizeInbox\<close> reports is the number of rows of the shown list of heads, though one reads the heads of the
  source identities and the other the whole log.\<close>

theorem badge_counts_list:
  assumes "arranged (authority_run ops)"
  shows "is_count (summarizeInbox orgId (authority_run ops)) = int (length (listInbox lc orgId heads_query (authority_run ops)))"
proof -
  let ?s = "authority_run ops"
  have refs: "refs_ok ?s" using run_ok by (simp add: authority_ok_def)
  have "{i \<in> set (currentWorkInbox orgId CurrentWork ?s). shows_face ii_event isThreadStatusItem i}
      = set (currentWorkInbox orgId CurrentWork ?s)" using list_threads(2)[OF refs assms, of orgId] by auto
  then show ?thesis using list_threads(1)[OF refs assms, of lc orgId] by (simp add: summarizeInbox_def summary_count)
qed


lemma badge_counts_list_witness:
  "is_count (summarizeInbox ''o'' (authority_run sample_authority_ops)) =
     int (length (listInbox code_unit_compare ''o'' heads_query (authority_run sample_authority_ops)))"
proof (rule badge_counts_list)
  have "List.map ev_id (all_events (authority_run sample_authority_ops)) = [''e1''] \<and> List.map ev_operation (all_events (authority_run sample_authority_ops)) = [OpCreate]"
    by code_simp
  moreover have "map_option ad_reason_codes (getDisposition ''e1'' (authority_run sample_authority_ops)) = Some [''task'']" by code_simp
  ultimately show "arranged (authority_run sample_authority_ops)" by (auto simp: arranged_def)
qed

end
