(* ===== verification/IngestionLaws.thy ===== *)
theory IngestionLaws
  imports Ingestion AuthorityLaws
begin

section \<open>What ingestion promises\<close>

text \<open>
  A record that was accepted and is delivered again is recognised; a batch only adds to the log; every record of
  a batch is answered in its place.
\<close>

subsection \<open>Delivered again\<close>

text \<open>A record whose attachments have their bytes: nothing is filled in from what is stored.\<close>

definition content_resolved :: "ingest_record \<Rightarrow> bool" where
  "content_resolved r \<longleftrightarrow> (\<forall>p \<in> set (or_else (ir_content r) []). cp_role p \<noteq> RoleAttachment \<or> \<not> truthy (cp_external_locator p)
     \<or> (case cp_bytes p of None \<Rightarrow> False | Some b \<Rightarrow> isUsableAttachmentBytes b (cp_media_type p) (cp_source_filename p)))"

lemma merge_resolved: "content_resolved r \<Longrightarrow> mergeRecordContent r current x = r"
proof -
  assume r: "content_resolved r"
  have "preserveResolvedAttachments content ex rb = content" if c: "ir_content r = Some content" for content ex rb
  proof -
    have "preserve_part rb m p = p" if "p \<in> set content" for m p
      using r that c by (auto simp: content_resolved_def preserve_part_def)
    then have "List.map (preserve_part rb m) content = content" for m by (simp add: map_idI)
    then show ?thesis by (auto simp: preserveResolvedAttachments_def Let_def split: option.split prod.split)
  qed
  then show ?thesis by (auto simp: mergeRecordContent_def split: option.split)
qed

lemma head_put_disposition [simp]: "findBySourceIdentity k (putDisposition d s) = findBySourceIdentity k s"
  by (simp add: findBySourceIdentity_def head_ref_def putDisposition_def cong: option.case_cong)

lemma decide_event: "ad_event_id (arrangement_decide now e r policy) = ev_id e"
  by (simp add: arrangement_decide_def arrange_event)

text \<open>After an accepted write the event is the head and has a decision.\<close>

definition settled_head :: "source_identity \<Rightarrow> event_record \<Rightarrow> ingest_state \<Rightarrow> bool" where
  "settled_head k e x \<longleftrightarrow> findBySourceIdentity k (ix_store x) = Some e \<and> getDisposition (ev_id e) (ix_store x) \<noteq> None"

lemma accepted_settles:
  assumes "findBySourceIdentity k (ix_store x) = Some e"
  shows "settled_head k e (snd (acceptedWrite now r e policy x))"
proof -
  have "getDisposition (ev_id e) (putDisposition (arrangement_decide now e r policy) (ix_store x)) \<noteq> None"
    by (simp add: getDisposition_def putDisposition_def decide_event)
  then show ?thesis using assms by (simp add: settled_head_def acceptedWrite_def arrangement_remember_def with_store_def Let_def)
qed

lemma write_settles:
  assumes w: "write_or_retry now r policy written x = (res, y)" "rr_status res = Accepted"
    and head: "\<And>e s. written = (Inr e, s) \<Longrightarrow> findBySourceIdentity k s = Some e"
  obtains e s where "written = (Inr e, s)" "res = acceptedResult r (ev_id e)" "settled_head k e y"
proof -
  obtain v s where v: "written = (v, s)" by fastforce
  show thesis
  proof (cases v)
    case (Inl err)
    then show thesis using w by (auto simp: v write_or_retry_def concurrentUpdate_def refused_def)
  next
    case (Inr e)
    have h: "findBySourceIdentity k (ix_store (with_store s x)) = Some e" using head[of e s] v Inr by (simp add: with_store_def)
    have "res = acceptedResult r (ev_id e)" "y = snd (acceptedWrite now r e policy (with_store s x))"
      using w(1) by (auto simp: v Inr write_or_retry_def acceptedWrite_def)
    then show thesis using that[of e s] v Inr accepted_settles[OF h] by simp
  qed
qed

lemma content_head:
  assumes ok: "authority_ok s" and add: "addContentEvent now i operation parent s = (Inr e, t)"
  shows "findBySourceIdentity (new_event_identity i) t = Some e" and "ev_content_hash e = Some (ne_content_hash i)"
    and "ev_external_id e = ne_external_id i" and "ev_operation e = operation" and "authority_ok t"
proof -
  show "findBySourceIdentity (new_event_identity i) t = Some e" by (rule head_after_content[OF ok add])
  show "authority_ok t" using add_content_ok[OF ok, of now i operation parent] add by simp
  have head: "assertExpectedHead (ne_expected_head_id i) (findBySourceIdentity (new_event_identity i) s)"
    using add by (simp add: addContentEvent_def split: if_splits)
  define u where "u = fold (rememberBlob now) (content_meta i # or_else (ne_extra_blobs i) []) s"
  have "(Inr e, t) = (let (e, s2) = addEvent now (ne_id i) (content_row i operation parent) u in (Inr e :: js_error + event_record, s2))"
    using add head unfolding addContentEvent_def Let_def u_def[symmetric] by simp
  then show "ev_content_hash e = Some (ne_content_hash i)" "ev_external_id e = ne_external_id i" "ev_operation e = operation"
    by (cases "ne_id i"; simp add: addEvent_def content_row_def Let_def)+
qed

lemma tombstone_head:
  assumes ok: "authority_ok s" and add: "markTombstone now i s = (Inr e, t)"
  shows "findBySourceIdentity \<lparr>sid_org_id = te_org_id i, sid_source = te_source i, sid_external_id = te_external_id i\<rparr> t = Some e"
    and "ev_operation e = OpTombstone" and "ev_external_id e = te_external_id i"
    and "ev_content_hash e = Option.bind (findBySourceIdentity \<lparr>sid_org_id = te_org_id i, sid_source = te_source i,
      sid_external_id = te_external_id i\<rparr> s) ev_content_hash"
proof -
  let ?k = "\<lparr>sid_org_id = te_org_id i, sid_source = te_source i, sid_external_id = te_external_id i\<rparr>"
  let ?row = "tombstone_row i (findBySourceIdentity ?k s)"
  have a: "addEvent now None ?row s = (e, t)"
    using add by (simp add: markTombstone_def Let_def split: if_splits prod.splits)
  have refs: "refs_ok s" using ok by (simp add: authority_ok_def)
  have k: "event_identity ?row = ?k" by (simp add: event_identity_def tombstone_row_def)
  show "findBySourceIdentity ?k t = Some e" using head_after_add[OF refs a] k by simp
  show "ev_operation e = OpTombstone" "ev_external_id e = te_external_id i"
    "ev_content_hash e = Option.bind (findBySourceIdentity ?k s) ev_content_hash"
    using a by (auto simp: addEvent_def tombstone_row_def Let_def)
qed


lemma replay_status: "replayedInspected now r e oc policy x = (i, y) \<Longrightarrow> \<exists>res. i = InsResult res \<and> rr_status res = Duplicate"
  by (auto simp: replayedInspected_def replayed_def duplicateResult_def split: if_splits)

text \<open>What an inspection hands on: the record itself, its identity and its canonical content.\<close>

fun faithful_plan :: "(string \<Rightarrow> string) \<Rightarrow> string \<Rightarrow> ingest_record \<Rightarrow> inspected \<Rightarrow> bool" where
  "faithful_plan sha orgId r (InsResult res) \<longleftrightarrow> rr_status res \<noteq> Accepted"
| "faithful_plan sha orgId r (InsCreate k m c) \<longleftrightarrow> k = record_identity orgId r \<and> m = r
     \<and> ir_operation r \<noteq> OpTombstone \<and> canonicalizeRecordContent sha r = Inr c"
| "faithful_plan sha orgId r (InsRevise k m c e) \<longleftrightarrow> k = record_identity orgId r \<and> ir_external_id m = ir_external_id r
     \<and> ir_operation r \<noteq> OpTombstone \<and> canonicalizeRecordContent sha r = Inr c"
| "faithful_plan sha orgId r (InsTombstone k m e) \<longleftrightarrow> k = record_identity orgId r \<and> m = r \<and> ir_operation r = OpTombstone
     \<and> map_option ev_operation e \<noteq> Some OpTombstone"
| "faithful_plan sha orgId r (InsAfterTombstone k m c e) \<longleftrightarrow> k = record_identity orgId r \<and> m = r
     \<and> ir_operation r \<noteq> OpTombstone \<and> canonicalizeRecordContent sha r = Inr c"

lemma replay_plan: "replayedInspected now r e oc policy x = (i, y) \<Longrightarrow> faithful_plan sha orgId r i"
  using replay_status by fastforce

lemma over_plan:
  assumes "inspect_over sha now (record_identity orgId r) r r c e oc policy x = (i, y)"
    and "ir_operation r \<noteq> OpTombstone" and "canonicalizeRecordContent sha r = Inr c"
  shows "faithful_plan sha orgId r i"
proof -
  from assms(1) have "replayedInspected now r e oc policy x = (i, y)
    \<or> (\<exists>m. i = InsRevise (record_identity orgId r) m c e \<and> ir_external_id m = ir_external_id r)
    \<or> i = InsAfterTombstone (record_identity orgId r) r c e \<or> i = InsResult (refused r Quarantined SourceIdentityConflict)"
    unfolding inspect_over_def Let_def by (auto split: if_splits)
  then show ?thesis using assms(2,3) replay_plan by (auto simp: refused_def)
qed

lemma inspect_plan:
  assumes r: "content_resolved r" and i: "inspectRecord sha now orgId r overlay policy x = (i, y)"
  shows "faithful_plan sha orgId r i"
proof -
  define k where "k = record_identity orgId r"
  define oc where "oc = Option.bind overlay (overlay_current k)"
  define current where "current = or_opt oc (findBySourceIdentity k (ix_store x))"
  note i' = i[unfolded inspectRecord_def Let_def k_def[symmetric] oc_def[symmetric] current_def[symmetric] merge_resolved[OF r]]
  show ?thesis
  proof (cases "ir_operation r = OpTombstone")
    case True
    then show ?thesis using i' replay_plan by (auto simp: k_def split: option.splits if_splits)
  next
    case op: False
    show ?thesis
    proof (cases "case current of None \<Rightarrow> False | Some e \<Rightarrow> ev_external_id e \<noteq> ir_external_id r")
      case True
      then have "replayedInspected now r (the current) oc policy x = (i, y)" using i' op by simp
      then show ?thesis by (rule replay_plan)
    next
      case al: False
      show ?thesis
      proof (cases "canonicalizeRecordContent sha r")
        case (Inl e)
        then have "i = InsResult (refused r Quarantined ContentUnavailable)" using i' op al by simp
        then show ?thesis by (simp add: refused_def)
      next
        case (Inr c)
        let ?same = "case current of None \<Rightarrow> False | Some e \<Rightarrow> ev_content_hash e = Some (cc_hash c)"
        have test: "\<not> (ir_operation r \<noteq> OpTombstone \<and> (case current of None \<Rightarrow> False | Some e \<Rightarrow> ev_external_id e \<noteq> ir_external_id r))"
          using al by simp
        note j = i'[unfolded Inr sum.case if_not_P[OF op] if_not_P[OF test]]
        show ?thesis
        proof (cases ?same)
          case True
          then have "replayedInspected now r (the current) oc policy x = (i, y)" using j by simp
          then show ?thesis by (rule replay_plan)
        next
          case False
          note j' = j[unfolded if_not_P[OF False]]
          have "inspect_over sha now k r r c e oc policy x = (i, y) \<Longrightarrow> faithful_plan sha orgId r i" for e
            unfolding k_def by (rule over_plan[OF _ op Inr])
          then show ?thesis using j' Inr op
            by (auto simp: k_def refused_def duplicateResult_def replayed_def split: option.splits if_splits)
        qed
      qed
    qed
  qed
qed


text \<open>An inspection writes at most a missing decision.\<close>

definition decided_only :: "ingest_state \<Rightarrow> ingest_state \<Rightarrow> bool" where
  "decided_only x y \<longleftrightarrow> y = x \<or> (\<exists>d. y = with_store (putDisposition d (ix_store x)) x)"

lemma replayed_decides: "decided_only x (snd (replayed now r e policy x))"
  by (auto simp: replayed_def decided_only_def with_store_def arrangement_remember_def Let_def)

lemma replayed_inspected_decides: "decided_only x (snd (replayedInspected now r e oc policy x))"
  using replayed_decides by (simp add: replayedInspected_def) (simp add: decided_only_def)

lemma decided_refl [simp]: "decided_only x x"
  by (simp add: decided_only_def)

lemma over_decides: "decided_only x (snd (inspect_over sha now k r m c e oc policy x))"
  by (simp add: inspect_over_def replayed_inspected_decides Let_def)

lemma inspect_decides: "decided_only x (snd (inspectRecord sha now orgId r overlay policy x))"
  by (simp add: inspectRecord_def replayed_inspected_decides replayed_decides over_decides Let_def
      split: option.split sum.split)

lemma decided_core: "decided_only x y \<Longrightarrow> core_grows (ix_store x) (ix_store y)"
  by (auto simp: decided_only_def with_store_def core_put_disposition)

lemma inspect_core: "inspectRecord sha now orgId r overlay policy x = (i, y) \<Longrightarrow> core_grows (ix_store x) (ix_store y)"
  using decided_core[OF inspect_decides] by (metis snd_conv)

text \<open>A record whose outcome is the head of its identity is recognised, and nothing changes.\<close>

definition recognises :: "(string \<Rightarrow> string) \<Rightarrow> ingest_record \<Rightarrow> event_record \<Rightarrow> bool" where
  "recognises sha r e \<longleftrightarrow> ev_external_id e = ir_external_id r
     \<and> (if ir_operation r = OpTombstone then ev_operation e = OpTombstone
        else \<exists>c. canonicalizeRecordContent sha r = Inr c \<and> ev_content_hash e = Some (cc_hash c))"

lemma ingest_again:
  assumes "content_resolved r" and "settled_head (record_identity orgId r) e y" and "recognises sha r e"
  shows "ingestRecord sha now gap orgId policy r y = (duplicateResult r e, y)"
proof -
  have head: "findBySourceIdentity (record_identity orgId r) (ix_store y) = Some e"
    and dec: "getDisposition (ev_id e) (ix_store y) \<noteq> None" using assms(2) by (simp_all add: settled_head_def)
  have replay: "replayedInspected now r e None policy y = (InsResult (duplicateResult r e), y)"
    unfolding replayedInspected_def replayed_def if_not_P[OF dec] by simp
  have "inspectRecord sha now orgId r None policy y = (InsResult (duplicateResult r e), y)"
    using assms(3) unfolding inspectRecord_def Let_def merge_resolved[OF assms(1)] recognises_def
    by (auto simp: head replay split: if_splits)
  then show ?thesis by (simp add: ingestRecord_def)
qed

definition alone :: "authority_store \<Rightarrow> authority_store" where
  "alone s = s"

lemma alone_id [simp]: "alone s = s"
  by (simp add: alone_def)

lemma put_blobs_store [simp]: "ix_store (put_blobs bs x) = ix_store x"
  by (simp add: put_blobs_def)

lemma content_event_simps: "new_event_identity (content_event g k r c h) = k" "ne_content_hash (content_event g k r c h) = cc_hash c"
  "ne_external_id (content_event g k r c h) = sid_external_id k"
  "new_event_identity (revision_of (content_event g k r c h) p v) = k" "ne_content_hash (revision_of (content_event g k r c h) p v) = cc_hash c"
  "ne_external_id (revision_of (content_event g k r c h) p v) = sid_external_id k"
  by (simp_all add: content_event_def new_event_identity_def revision_of_def new_event.extend_def event_revision.fields_def Let_def)

lemma tombstone_event_external: "te_external_id (tombstone_event_of k r t h) = sid_external_id k"
  by (simp add: tombstone_event_of_def Let_def)

lemma tombstone_event_identity:
  "\<lparr>sid_org_id = te_org_id (tombstone_event_of k r t h), sid_source = te_source (tombstone_event_of k r t h),
    sid_external_id = te_external_id (tombstone_event_of k r t h)\<rparr> = k"
  by (simp add: tombstone_event_of_def Let_def)

lemma persist_settles:
  assumes ok: "authority_ok (ix_store x)" and r: "content_resolved r" and plan: "faithful_plan sha orgId r i"
    and p: "persistInspected now alone i policy x = (res, y)" "rr_status res = Accepted"
  shows "\<exists>e. res = acceptedResult r (ev_id e) \<and> settled_head (record_identity orgId r) e y \<and> recognises sha r e"
proof (cases i)
  case (InsResult res')
  then show ?thesis using plan p by simp
next
  case (InsTombstone k m cur)
  have m: "k = record_identity orgId r" "m = r" "ir_operation r = OpTombstone" "map_option ev_operation cur \<noteq> Some OpTombstone"
    using plan InsTombstone by simp_all
  let ?t = "tombstone_event_of k r (ir_occurred_at r) (map_option ev_id cur)"
  have w: "write_or_retry now r policy (markTombstone now ?t (ix_store x)) x = (res, y)"
    using p(1)[unfolded InsTombstone persistInspected.simps m(2) ingestTombstone_def if_not_P[OF m(4)] alone_id] .
  have head: "findBySourceIdentity k s = Some e" if "markTombstone now ?t (ix_store x) = (Inr e, s)" for e s
    using tombstone_head(1)[OF ok that] unfolding tombstone_event_identity .
  obtain e s where e: "markTombstone now ?t (ix_store x) = (Inr e, s)" "res = acceptedResult r (ev_id e)" "settled_head k e y"
    by (rule write_settles[OF w p(2) head])
  have "recognises sha r e"
    using tombstone_head(2,3)[OF ok e(1)] m by (simp add: recognises_def tombstone_event_external record_identity_def)
  then show ?thesis using e m by blast
next
  case (InsCreate k m c)
  have m: "k = record_identity orgId r" "m = r" "ir_operation r \<noteq> OpTombstone" "canonicalizeRecordContent sha r = Inr c"
    using plan InsCreate by simp_all
  let ?n = "content_event None k r c None"
  have w: "write_or_retry now r policy (append_event now ?n (ix_store x)) (put_blobs (blobsForCanonical c) x) = (res, y)"
    using p m InsCreate by (simp add: Let_def)
  have head: "findBySourceIdentity k s = Some e" if "append_event now ?n (ix_store x) = (Inr e, s)" for e s
    using content_head(1)[OF ok that[unfolded append_event_def]] unfolding content_event_simps .
  obtain e s where e: "append_event now ?n (ix_store x) = (Inr e, s)" "res = acceptedResult r (ev_id e)" "settled_head k e y"
    by (rule write_settles[OF w p(2) head])
  have "recognises sha r e" using content_head(2,3)[OF ok e(1)[unfolded append_event_def]] m
    by (simp add: recognises_def content_event_simps record_identity_def)
  then show ?thesis using e m by blast
next
  case (InsRevise k m c cur)
  have m: "k = record_identity orgId r" "ir_external_id m = ir_external_id r" "ir_operation r \<noteq> OpTombstone"
    "canonicalizeRecordContent sha r = Inr c" using plan InsRevise by simp_all
  let ?n = "revision_of (content_event None k m c (Some (ev_id cur))) (ev_id cur) (ir_revision_id m)"
  have w: "write_or_retry now m policy (appendRevision now ?n (ix_store x)) (put_blobs (blobsForCanonical c) x) = (res, y)"
    using p InsRevise by (simp add: Let_def)
  have head: "findBySourceIdentity k s = Some e" if "appendRevision now ?n (ix_store x) = (Inr e, s)" for e s
    using content_head(1)[OF ok that[unfolded appendRevision_def]] unfolding content_event_simps .
  obtain e s where e: "appendRevision now ?n (ix_store x) = (Inr e, s)" "res = acceptedResult m (ev_id e)" "settled_head k e y"
    by (rule write_settles[OF w p(2) head])
  have "recognises sha r e" using content_head(2,3)[OF ok e(1)[unfolded appendRevision_def]] m
    by (simp add: recognises_def content_event_simps record_identity_def)
  moreover have "acceptedResult m i = acceptedResult r i" for i by (simp add: acceptedResult_def m)
  ultimately show ?thesis using e m by auto
next
  case (InsAfterTombstone k m c cur)
  have m: "k = record_identity orgId r" "m = r" "ir_operation r \<noteq> OpTombstone" "canonicalizeRecordContent sha r = Inr c"
    using plan InsAfterTombstone by simp_all
  have w: "write_or_retry now r policy (append_below now alone k r c cur (ix_store x)) (put_blobs (blobsForCanonical c) x) = (res, y)"
    using p m InsAfterTombstone by (simp add: Let_def)
  have below: "findBySourceIdentity k s = Some e \<and> ev_external_id e = sid_external_id k \<and> ev_content_hash e = Some (cc_hash c)"
    if b: "append_below now alone k r c cur (ix_store x) = (Inr e, s)" for e s
  proof -
    obtain d t where d: "append_event now (content_event None k r c (Some (ev_id cur))) (ix_store x) = (Inr d, t)"
      and e: "markTombstone now (tombstone_event_of k r (ev_occurred_at cur) (Some (ev_id d))) t = (Inr e, s)"
      using b by (auto simp: append_below_def split: prod.splits sum.splits)
    note hd = content_head[OF ok d[unfolded append_event_def], unfolded content_event_simps]
    note he = tombstone_head[OF hd(5) e, unfolded tombstone_event_identity]
    show ?thesis using hd(1,2) he by (simp add: tombstone_event_external)
  qed
  obtain e s where e: "append_below now alone k r c cur (ix_store x) = (Inr e, s)" "res = acceptedResult r (ev_id e)" "settled_head k e y"
    by (rule write_settles[OF w p(2)]) (use below in blast)
  have "recognises sha r e" using below[OF e(1)] m by (simp add: recognises_def record_identity_def)
  then show ?thesis using e m by blast
qed

text \<open>C4. Delivering a record again is safe: after a record with its attachments at hand has been accepted, as a
  create, a revision, a tombstone or a create below a tombstone, the same record is a duplicate of the event
  that it became, and neither the blobs nor the authority store change.\<close>

theorem redelivery_is_duplicate:
  assumes "authority_ok (ix_store x)" and "content_resolved r"
    and "ingestRecord sha now alone orgId policy r x = (res, y)" and "rr_status res = Accepted"
  shows "ingestRecord sha now' gap orgId policy' r y
    = (\<lparr>rr_external_id = ir_external_id r, rr_status = Duplicate, rr_event_id = rr_event_id res, rr_error_code = None\<rparr>, y)"
proof -
  obtain i z where i: "inspectRecord sha now orgId r None policy x = (i, z)" by fastforce
  have plan: "faithful_plan sha orgId r i" by (rule inspect_plan[OF assms(2) i])
  have p: "persistInspected now alone i policy z = (res, y)" using assms(3) i by (simp add: ingestRecord_def)
  have z: "authority_ok (ix_store z)" by (rule core_ok[OF inspect_core[OF i] assms(1)])
  obtain e where e: "res = acceptedResult r (ev_id e)" "settled_head (record_identity orgId r) e y" "recognises sha r e"
    using persist_settles[OF z assms(2) plan p assms(4)] by blast
  show ?thesis using ingest_again[OF assms(2) e(2,3)] e(1) by (simp add: duplicateResult_def acceptedResult_def)
qed


definition sample_record :: ingest_record where
  "sample_record = \<lparr>ir_operation = OpCreate, ir_source = ''mail'', ir_external_id = ''a:1'', ir_revision_id = None,
     ir_occurred_at = ''t0'', ir_actor_id = ''u'', ir_actor_name = None, ir_scope_id = ''s'', ir_scope_name = None, ir_type = ''message'', ir_thread_id = None,
     ir_parent_external_id = None,
     ir_content = Some [\<lparr>cp_role = RoleBody, cp_media_type = ''text/plain'', cp_source_filename = None, cp_bytes = None,
       cp_text = Some ''hi'', cp_external_locator = None\<rparr>],
     ir_direction_tags = None, ir_weight_hints = None, ir_attrs = None\<rparr>"

definition new_ingest_state :: ingest_state where
  "new_ingest_state = \<lparr>ix_blobs = [], ix_store = new_authority_store\<rparr>"

definition sample_first :: "ingest_result \<times> ingest_state" where
  "sample_first = ingestRecord sample_sha ''t1'' alone ''o'' DEFAULT_PERSONAL_DISPATCH_POLICY sample_record new_ingest_state"

lemma redelivery_is_duplicate_witness:
  "ingestRecord sample_sha ''t2'' alone ''o'' DEFAULT_PERSONAL_DISPATCH_POLICY sample_record (snd sample_first)
    = (\<lparr>rr_external_id = ''a:1'', rr_status = Duplicate, rr_event_id = Some ''event-1'', rr_error_code = None\<rparr>, snd sample_first)"
proof -
  have r: "rr_status (fst sample_first) = Accepted \<and> rr_event_id (fst sample_first) = Some ''event-1''" by code_simp
  have first: "ingestRecord sample_sha ''t1'' alone ''o'' DEFAULT_PERSONAL_DISPATCH_POLICY sample_record new_ingest_state
      = (fst sample_first, snd sample_first)" by (simp add: sample_first_def)
  have ok: "authority_ok (ix_store new_ingest_state)" by (simp add: new_ingest_state_def new_authority_ok)
  have plain: "content_resolved sample_record" by (simp add: content_resolved_def sample_record_def)
  have ext: "ir_external_id sample_record = ''a:1''" by (simp add: sample_record_def)
  show ?thesis using redelivery_is_duplicate[OF ok plain first conjunct1[OF r]] r ext by simp
qed

subsection \<open>The log only grows\<close>

definition log_extends :: "authority_store \<Rightarrow> authority_store \<Rightarrow> bool" where
  "log_extends s t \<longleftrightarrow> (\<exists>es. all_events t = all_events s @ es)"

named_theorems log_intros "operations that only add to the log"

lemma log_refl [simp]: "log_extends s s"
  by (simp add: log_extends_def)

lemma log_trans [trans]: "log_extends s t \<Longrightarrow> log_extends t u \<Longrightarrow> log_extends s u"
  by (auto simp: log_extends_def)

lemma log_core: "core_grows s t \<Longrightarrow> log_extends s t"
  by (simp add: log_extends_def core_grows_def all_events_def)

lemma log_fold: "(\<And>a t. log_extends t (f a t)) \<Longrightarrow> log_extends s (fold f xs s)"
  by (induction xs arbitrary: s) (auto intro: log_trans)

lemma log_add_event [log_intros]: "log_extends s (snd (addEvent now given row s))"
  by (cases given) (simp_all add: log_extends_def addEvent_def all_events_def Let_def)

lemma log_add_content [log_intros]: "log_extends s (snd (addContentEvent now i operation parent s))"
proof (cases "assertExpectedHead (ne_expected_head_id i) (findBySourceIdentity (new_event_identity i) s)")
  case True
  let ?t = "fold (rememberBlob now) (content_meta i # or_else (ne_extra_blobs i) []) s"
  have "log_extends s ?t" by (rule log_core[OF core_fold]) (rule core_remember)
  then have "log_extends s (snd (addEvent now (ne_id i) (content_row i operation parent) ?t))" by (rule log_trans) (rule log_add_event)
  moreover have "snd (addContentEvent now i operation parent s) = snd (addEvent now (ne_id i) (content_row i operation parent) ?t)"
    using True unfolding addContentEvent_def Let_def by (simp only: not_True_eq_False if_False split_def snd_conv)
  ultimately show ?thesis by simp
qed (simp add: addContentEvent_def)

lemma log_append [log_intros]: "log_extends s (snd (append_event now i s))" "log_extends s (snd (appendRevision now j s))"
  by (simp_all add: append_event_def appendRevision_def log_add_content)

lemma log_tombstone [log_intros]: "log_extends s (snd (markTombstone now i s))"
  by (simp add: markTombstone_def Let_def split_def log_add_event)

lemma log_append_all: "log_extends s (snd (append_all now xs s))"
proof (induction xs arbitrary: s)
  case (Cons i xs)
  obtain r t where r: "append_event now i s = (r, t)" by fastforce
  have "log_extends s t" using log_append(1)[of s now i] r by simp
  then show ?case using Cons.IH[of t] r by (auto split: sum.splits prod.splits intro: log_trans)
qed simp

lemma log_commit [log_intros]: "log_extends s (snd (commitIngest now c s))"
proof -
  obtain r t where r: "append_all now (ic_appends c) s = (r, t)" by fastforce
  have "log_extends s t" using log_append_all[of s now "ic_appends c"] r by simp
  moreover have "log_extends t (fold putDisposition ds t)" for ds by (rule log_core[OF core_fold]) (rule core_put_disposition)
  ultimately show ?thesis using r by (auto simp: commitIngest_def split: sum.split intro: log_trans)
qed

lemma log_prefs [log_intros]: "log_extends s (fold apply_pref ps s)"
  by (rule log_core[OF core_fold]) (simp add: apply_pref_def core_put_pref)

lemma log_page [log_intros]: "log_extends s (snd (authority_commitSyncPage now a c st ps s))"
proof -
  obtain r t where r: "(case c of None \<Rightarrow> (Inr [], s) | Some i \<Rightarrow> commitIngest now i s) = (r, t)" by fastforce
  have "log_extends s t" using log_commit[of s now] r by (cases c) (auto, metis snd_conv)
  then show ?thesis using log_prefs[of t ps]
    by (cases r) (auto simp: authority_commitSyncPage_def commit_page_ingest_def r intro: log_trans)
qed

abbreviation grows :: "ingest_state \<Rightarrow> ingest_state \<Rightarrow> bool" where
  "grows x y \<equiv> log_extends (ix_store x) (ix_store y)"

lemma with_store_store [simp]: "ix_store (with_store s x) = s"
  by (simp add: with_store_def)

lemma grows_accepted: "grows x (snd (acceptedWrite now r e policy x))"
  by (simp add: acceptedWrite_def arrangement_remember_def Let_def log_core core_put_disposition)

lemma grows_write: "log_extends (ix_store x) (snd w) \<Longrightarrow> grows x (snd (write_or_retry now r policy w x))"
  using grows_accepted[of "with_store (snd w) x" now r _ policy]
  by (auto simp: write_or_retry_def split: prod.split sum.split intro: log_trans)

lemma grows_replayed: "grows x (snd (replayed now r e policy x))"
  by (rule log_core[OF decided_core[OF replayed_decides]])

lemma log_below:
  assumes "\<And>s. log_extends s (gap s)" shows "log_extends s (snd (append_below now gap k r c e s))"
proof -
  obtain v t where v: "append_event now (content_event None k r c (Some (ev_id e))) s = (v, t)" by fastforce
  have t: "log_extends s t" using log_append(1)[of s now] v by (metis snd_conv)
  show ?thesis
  proof (cases v)
    case (Inr d)
    have "log_extends t (snd (markTombstone now m (gap t)))" for m by (rule log_trans[OF assms log_tombstone])
    then show ?thesis using t Inr v by (auto simp: append_below_def intro: log_trans)
  qed (simp add: append_below_def v t)
qed

lemma grows_persist:
  assumes gap: "\<And>s. log_extends s (gap s)" shows "grows x (snd (persistInspected now gap i policy x))"
proof (cases i)
  case (InsTombstone k r e)
  have "log_extends (ix_store x) (snd (markTombstone now m (gap (ix_store x))))" for m by (rule log_trans[OF gap log_tombstone])
  then show ?thesis unfolding InsTombstone persistInspected.simps ingestTombstone_def by (simp add: grows_write grows_replayed)
next
  case (InsRevise k r c e)
  let ?y = "put_blobs (blobsForCanonical c) x"
  have "log_extends (ix_store ?y) (snd (appendRevision now j (gap (ix_store ?y))))" for j by (rule log_trans[OF gap log_append(2)])
  from grows_write[OF this] show ?thesis by (simp add: InsRevise Let_def)
next
  case (InsCreate k r c)
  let ?y = "put_blobs (blobsForCanonical c) x"
  have "log_extends (ix_store ?y) (snd (append_event now j (gap (ix_store ?y))))" for j by (rule log_trans[OF gap log_append(1)])
  from grows_write[OF this] show ?thesis by (simp add: InsCreate Let_def)
next
  case (InsAfterTombstone k r c e)
  let ?y = "put_blobs (blobsForCanonical c) x"
  have "log_extends (ix_store ?y) (snd (append_below now gap k r c e (gap (ix_store ?y))))" by (rule log_trans[OF gap log_below[OF gap]])
  from grows_write[OF this] show ?thesis by (simp add: InsAfterTombstone Let_def)
qed simp

lemma grows_record:
  assumes gap: "\<And>s. log_extends s (gap s)" shows "grows x (snd (ingestRecord sha now gap orgId policy r x))"
proof -
  obtain i y where i: "inspectRecord sha now orgId r None policy x = (i, y)" by fastforce
  have "grows x y" by (rule log_core[OF inspect_core[OF i]])
  then show ?thesis using grows_persist[OF gap, of y now i policy] by (auto simp: ingestRecord_def i intro: log_trans)
qed


lemma grows_reingest:
  assumes gap: "\<And>s. log_extends s (gap s)" shows "grows (snd rx) (snd (reingest sha now gap policy creates rx))"
proof (induction creates arbitrary: rx)
  case (Cons p ps)
  obtain rs x where rx: "rx = (rs, x)" by fastforce
  obtain res y where r: "ingestRecord sha now gap (sid_org_id (pl_identity p)) policy (pl_record p) x = (res, y)" by fastforce
  have "grows x y" using grows_record[OF gap] r by (metis snd_conv)
  then show ?case using Cons.IH[of "(rs[pl_index p := Some res], y)"] by (auto simp: reingest_def rx r intro: log_trans)
qed (simp add: reingest_def)

lemma grows_commit:
  assumes gap: "\<And>s. log_extends s (gap s)" shows "grows (snd rx) (snd (commitCreates sha now gap policy creates rx))"
proof -
  obtain rs x where rx: "rx = (rs, x)" by fastforce
  let ?y = "put_blobs (planned_blobs creates) x"
  let ?c = "\<lparr>ic_appends = List.map planned_append creates, ic_dispositions = List.map (planned_decision now policy) creates\<rparr>"
  obtain v t where v: "commitIngest now ?c (gap (ix_store x)) = (v, t)" by fastforce
  have t: "log_extends (ix_store x) t" using log_trans[OF gap[of "ix_store x"] log_commit[of "gap (ix_store x)" now ?c]] v by simp
  show ?thesis
  proof (cases v)
    case (Inl err)
    have "grows (with_store t ?y) (snd (reingest sha now gap policy creates (rs, with_store t ?y)))"
      using grows_reingest[OF gap, of "(rs, with_store t ?y)"] by simp
    then show ?thesis using t by (auto simp: commitCreates_def rx v Inl Let_def intro: log_trans)
  qed (use t in \<open>simp add: commitCreates_def rx v Let_def\<close>)
qed

lemma grows_flush:
  assumes gap: "\<And>s. log_extends s (gap s)" shows "grows (ru_state u) (ru_state (flushCreates sha now gap atomic policy u))"
  using grows_commit[OF gap, of "(ru_records u, ru_state u)" sha now policy "ru_pending u"]
  by (auto simp: flushCreates_def bufferCreates_def Let_def split: prod.split)

lemma grows_step:
  assumes gap: "\<And>s. log_extends s (gap s)"
  shows "grows (ru_state u) (ru_state (ingest_step sha uuid now gap atomic orgId policy ir u))"
proof -
  obtain index r where ir: "ir = (index, r)" by fastforce
  obtain i x where i: "inspectRecord sha now orgId r (Some (ru_overlay u)) policy (ru_state u) = (i, x)" by fastforce
  have x: "grows (ru_state u) x" by (rule log_core[OF inspect_core[OF i]])
  have mixed: "grows x (snd (ingestRecord sha now gap orgId policy r (ru_state (flushCreates sha now gap atomic policy (u\<lparr>ru_state := x, ru_mixed := True\<rparr>)))))"
    using log_trans[OF grows_flush[OF gap, of "u\<lparr>ru_state := x, ru_mixed := True\<rparr>" sha now atomic policy] grows_record[OF gap]] by simp
  show ?thesis using log_trans[OF x mixed] x
    by (cases i) (simp_all add: ingest_step_def ir i Let_def split_def)
qed

lemma grows_page:
  assumes gap: "\<And>s. log_extends s (gap s)"
  shows "grows (ru_state u) (ru_state (snd (commitPreparedPage sha uuid now gap policy page prefs u)))"
proof -
  obtain attempt st where page: "page = (attempt, st)" by fastforce
  let ?c = "if ic_appends (ru_ingest u) = [] \<and> ic_dispositions (ru_ingest u) = [] then None else Some (ru_ingest u)"
  let ?st = "settled_page attempt st (List.map_filter id (ru_records u)) (\<lambda>i. uuid (length (ru_records u) + i))"
  obtain v t where v: "authority_commitSyncPage now attempt ?c ?st prefs (gap (ix_store (ru_state u))) = (v, t)" by fastforce
  have t: "log_extends (ix_store (ru_state u)) t"
    using log_trans[OF gap log_page[of "gap (ix_store (ru_state u))" now attempt ?c ?st prefs]] v by simp
  show ?thesis
  proof (cases v)
    case (Inl err)
    let ?x = "with_store t (ru_state u)"
    have "grows ?x (snd (reingest sha now gap policy (ru_buffered u) (ru_records u, ?x)))"
      using grows_reingest[OF gap, of "(ru_records u, ?x)"] by simp
    then show ?thesis using t v Inl by (simp add: commitPreparedPage_def page Let_def split_def) (auto intro: log_trans)
  qed (use t v in \<open>simp add: commitPreparedPage_def page Let_def\<close>)
qed

lemma grows_fold_step:
  assumes gap: "\<And>s. log_extends s (gap s)"
  shows "grows (ru_state u) (ru_state (fold (ingest_step sha uuid now gap atomic orgId policy) irs u))"
proof (induction irs arbitrary: u)
  case (Cons ir irs)
  show ?case using log_trans[OF grows_step[OF gap] Cons.IH[of "ingest_step sha uuid now gap atomic orgId policy ir u"]] by simp
qed simp

text \<open>C20. Ingestion never rewrites history: whatever the batch holds, whether its page is committed with it or
  not, and however other writers that only append come in between, the log after an ingest is the log before
  it with events added at the end.\<close>

theorem ingest_only_appends:
  assumes gap: "\<And>s. log_extends s (gap s)"
  shows "log_extends (ix_store x) (ix_store (snd (snd (ingest sha uuid lc now gap orgId records page x))))"
proof -
  define policy where "policy = policyFor orgId (as_work (ix_store x))"
  define u where "u = fold (ingest_step sha uuid now gap (page \<noteq> None) orgId policy) (List.enumerate 0 records) (begin_batch (length records) x)"
  define v where "v = flushCreates sha now gap (page \<noteq> None) policy u"
  have "grows (ru_state (begin_batch (length records) x)) (ru_state u)" unfolding u_def by (rule grows_fold_step[OF gap])
  moreover have "grows (ru_state u) (ru_state v)" unfolding v_def by (rule grows_flush[OF gap])
  ultimately have v: "grows x (ru_state v)" using log_trans by (simp add: begin_batch_def)
  have surface: "log_extends s (applyListSurfaceAfterIngest lc now orgId ids s)" for s ids
    by (simp add: applyListSurfaceAfterIngest_def log_prefs)
  show ?thesis
  proof (cases page)
    case None
    then show ?thesis using log_trans[OF v surface] by (simp add: ingest_def Let_def u_def v_def policy_def)
  next
    case (Some p)
    show ?thesis
    proof (cases "ru_mixed v")
      case True
      then show ?thesis using log_trans[OF v surface] Some by (simp add: ingest_def Let_def u_def v_def policy_def)
    next
      case False
      define prefs where "prefs = collectListSurfacePatches lc (st_finished_at (snd p)) orgId (run_event_ids v)
        (List.map planned_preview (ru_buffered v)) (ic_dispositions (ru_ingest v)) (ix_store (ru_state v))"
      obtain yes w where w: "commitPreparedPage sha uuid now gap policy p prefs v = (yes, w)" by fastforce
      have "grows x (ru_state w)" using log_trans[OF v grows_page[OF gap, of v sha uuid now policy p prefs]] w by simp
      moreover have "ix_store (snd (snd (ingest sha uuid lc now gap orgId records page x))) =
          (if yes then ix_store (ru_state w) else applyListSurfaceAfterIngest lc now orgId (run_event_ids v) (ix_store (ru_state w)))"
        using Some False w unfolding ingest_def Let_def policy_def[symmetric] u_def[symmetric] v_def[symmetric]
        by (simp add: prefs_def[symmetric])
      ultimately show ?thesis using surface log_trans by (cases yes) auto
    qed
  qed
qed


lemma ingest_only_appends_witness:
  "log_extends new_authority_store
     (ix_store (snd (snd (ingest sample_sha (\<lambda>i. int_string (int i)) code_unit_compare ''t1'' alone ''o'' [sample_record] None new_ingest_state))))"
proof -
  have "log_extends s (alone s)" for s by simp
  from ingest_only_appends[of alone, OF this, of new_ingest_state] show ?thesis by (simp add: new_ingest_state_def)
qed

subsection \<open>Every record is answered\<close>

text \<open>The answer at an index names the record of the batch at that index; \<open>E\<close> gives the ids of the records.\<close>

definition answered :: "(nat \<Rightarrow> string) \<Rightarrow> ingest_result option list \<Rightarrow> nat \<Rightarrow> bool" where
  "answered E rs i \<longleftrightarrow> (\<exists>res. rs ! i = Some res \<and> rr_external_id res = E i)"

definition answers :: "(nat \<Rightarrow> string) \<Rightarrow> nat set \<Rightarrow> ingest_result option list \<Rightarrow> ingest_result option list \<Rightarrow> bool" where
  "answers E is rs rs' \<longleftrightarrow> length rs' = length rs \<and> (\<forall>i < length rs. answered E rs i \<or> i \<in> is \<longrightarrow> answered E rs' i)"

lemma answers_refl: "answers E {} rs rs"
  by (simp add: answers_def)

lemma answers_trans: "answers E A rs rs' \<Longrightarrow> answers E B rs' rs'' \<Longrightarrow> answers E (A \<union> B) rs rs''"
  by (auto simp: answers_def)

lemma answers_update: "rr_external_id res = E i \<Longrightarrow> answers E {i} rs (rs[i := Some res])"
proof -
  assume "rr_external_id res = E i"
  then have "answered E (rs[i := Some res]) j" if "j < length rs" "answered E rs j \<or> j = i" for j
    using that by (cases "j = i") (simp_all add: answered_def)
  then show ?thesis by (auto simp: answers_def)
qed

lemma external_inspected:
  "(case i of InsResult res \<Rightarrow> rr_external_id res = ir_external_id r | InsCreate k m c \<Rightarrow> ir_external_id m = ir_external_id r
     | InsRevise k m c e \<Rightarrow> ir_external_id m = ir_external_id r | InsTombstone k m e \<Rightarrow> ir_external_id m = ir_external_id r
     | InsAfterTombstone k m c e \<Rightarrow> ir_external_id m = ir_external_id r) \<Longrightarrow>
   rr_external_id (fst (persistInspected now gap i policy x)) = ir_external_id r"
  by (cases i) (auto simp: ingestTombstone_def replayed_def duplicateResult_def write_or_retry_def acceptedWrite_def acceptedResult_def
      concurrentUpdate_def refused_def Let_def split: prod.splits sum.splits)

lemma merge_external [simp]: "ir_external_id (mergeRecordContent r e x) = ir_external_id r"
  by (simp add: mergeRecordContent_def split: option.split)

lemma replay_external: "fst (replayedInspected now r e oc policy x) = InsResult (duplicateResult r e)"
  by (simp add: replayedInspected_def replayed_def)

lemma inspect_external:
  "case fst (inspectRecord sha now orgId r overlay policy x) of InsResult res \<Rightarrow> rr_external_id res = ir_external_id r
     | InsCreate k m c \<Rightarrow> ir_external_id m = ir_external_id r | InsRevise k m c e \<Rightarrow> ir_external_id m = ir_external_id r
     | InsTombstone k m e \<Rightarrow> ir_external_id m = ir_external_id r | InsAfterTombstone k m c e \<Rightarrow> ir_external_id m = ir_external_id r"
  by (simp add: inspectRecord_def inspect_over_def replay_external duplicateResult_def refused_def replayed_def Let_def
      split: option.split sum.split)

lemma record_external: "rr_external_id (fst (ingestRecord sha now gap orgId policy r x)) = ir_external_id r"
  using external_inspected[OF inspect_external[where sha = sha and now = now and orgId = orgId and r = r and overlay = None and policy = policy and x = x]]
  by (simp add: ingestRecord_def split: prod.split) (metis fst_conv)

definition planned_for :: "(nat \<Rightarrow> string) \<Rightarrow> planned_create list \<Rightarrow> bool" where
  "planned_for E ps \<longleftrightarrow> (\<forall>p \<in> set ps. ir_external_id (pl_record p) = E (pl_index p))"

lemma reingest_answers:
  "planned_for E creates \<Longrightarrow> answers E (pl_index ` set creates) rs (fst (reingest sha now gap policy creates (rs, x)))"
proof (induction creates arbitrary: rs x)
  case (Cons p ps)
  obtain res y where r: "ingestRecord sha now gap (sid_org_id (pl_identity p)) policy (pl_record p) x = (res, y)" by fastforce
  have "rr_external_id res = E (pl_index p)"
    using record_external[of sha now gap "sid_org_id (pl_identity p)" policy "pl_record p" x] r Cons.prems by (simp add: planned_for_def)
  from answers_trans[OF answers_update[where E = E and i = "pl_index p" and rs = rs, OF this] Cons.IH[of "rs[pl_index p := Some res]" y]] show ?case
    using Cons.prems r by (simp add: reingest_def planned_for_def)
qed (simp add: reingest_def answers_refl)

lemma accept_answers:
  "planned_for E creates \<Longrightarrow> length ids = length creates \<Longrightarrow>
   answers E (pl_index ` set creates) rs (accept_planned creates ids rs)"
proof (induction creates arbitrary: ids rs)
  case (Cons p ps)
  then obtain i js where ids: "ids = i # js" by (cases ids) auto
  have "rr_external_id (acceptedResult (pl_record p) i) = E (pl_index p)" using Cons.prems(1) by (simp add: acceptedResult_def planned_for_def)
  from answers_trans[OF answers_update[where E = E and i = "pl_index p" and rs = rs, OF this] Cons.IH[of js "rs[pl_index p := Some (acceptedResult (pl_record p) i)]"]] show ?case
    using Cons.prems ids by (simp add: accept_planned_def planned_for_def)
qed (simp add: accept_planned_def answers_refl)

lemma append_all_length: "append_all now xs s = (Inr es, t) \<Longrightarrow> length es = length xs"
  by (induction xs arbitrary: s es t) (auto split: sum.splits prod.splits)

lemma commit_answers:
  assumes "planned_for E creates"
  shows "answers E (pl_index ` set creates) rs (fst (commitCreates sha now gap policy creates (rs, x)))"
proof -
  let ?c = "\<lparr>ic_appends = List.map planned_append creates, ic_dispositions = List.map (planned_decision now policy) creates\<rparr>"
  obtain v t where v: "commitIngest now ?c (gap (ix_store x)) = (v, t)" by fastforce
  show ?thesis
  proof (cases v)
    case (Inl err)
    then show ?thesis using reingest_answers[OF assms] v by (simp add: commitCreates_def Let_def)
  next
    case (Inr es)
    then have "length es = length creates" using v append_all_length[of now "List.map planned_append creates"]
      by (auto simp: commitIngest_def split: prod.splits sum.splits)
    then show ?thesis using accept_answers[OF assms] v Inr by (simp add: commitCreates_def Let_def)
  qed
qed

text \<open>The state of the loop: every record so far is answered or held back.\<close>

definition loop_ok :: "(nat \<Rightarrow> string) \<Rightarrow> nat \<Rightarrow> nat \<Rightarrow> ingest_run \<Rightarrow> bool" where
  "loop_ok E N n u \<longleftrightarrow> length (ru_records u) = N \<and> planned_for E (ru_pending u) \<and> planned_for E (ru_buffered u)
     \<and> (\<forall>i < n. i < N \<longrightarrow> answered E (ru_records u) i \<or> i \<in> pl_index ` set (ru_pending u))"

lemma flush_ok:
  assumes "loop_ok E N n u"
  shows "loop_ok E N n (flushCreates sha now gap atomic policy u) \<and> ru_pending (flushCreates sha now gap atomic policy u) = []"
proof (cases "ru_pending u = []")
  case True
  then show ?thesis using assms by (simp add: flushCreates_def)
next
  case ne: False
  have pf: "planned_for E (ru_pending u)" "planned_for E (ru_buffered u)" using assms by (simp_all add: loop_ok_def)
  have step: "loop_ok E N n (v\<lparr>ru_records := rs\<rparr>)"
    if "answers E (pl_index ` set (ru_pending u)) (ru_records u) rs" "ru_pending v = []" "planned_for E (ru_buffered v)" for v rs
    using that assms by (auto simp: loop_ok_def answers_def planned_for_def)
  show ?thesis
  proof (cases "atomic \<and> \<not> ru_mixed u")
    case True
    have "answers E (pl_index ` set (ru_pending u)) (ru_records u) (accept_planned (ru_pending u) (List.map pl_eventId (ru_pending u)) (ru_records u))"
      by (rule accept_answers[OF pf(1)]) simp
    moreover have "planned_for E (ru_buffered u @ ru_pending u)" using pf by (auto simp: planned_for_def)
    ultimately show ?thesis using assms True ne by (auto simp: flushCreates_def bufferCreates_def loop_ok_def answers_def planned_for_def Let_def)
  next
    case False
    have "answers E (pl_index ` set (ru_pending u)) (ru_records u) (fst (commitCreates sha now gap policy (ru_pending u) (ru_records u, ru_state u)))"
      by (rule commit_answers[OF pf(1)])
    then show ?thesis using assms ne False by (auto simp: flushCreates_def loop_ok_def answers_def planned_for_def Let_def split: prod.split)
  qed
qed


lemma loop_answer:
  assumes "loop_ok E N n u" and "rr_external_id res = E n"
  shows "loop_ok E N (Suc n) (u\<lparr>ru_records := (ru_records u)[n := Some res], ru_state := x\<rparr>)"
proof -
  have "answers E {n} (ru_records u) ((ru_records u)[n := Some res])" by (rule answers_update) (rule assms(2))
  then show ?thesis using assms(1) by (auto simp: loop_ok_def answers_def less_Suc_eq)
qed

lemma ingest_step_ok:
  assumes ok: "loop_ok E N n u" and r: "E n = ir_external_id r"
  shows "loop_ok E N (Suc n) (ingest_step sha uuid now gap atomic orgId policy (n, r) u)"
proof -
  obtain i x where i: "inspectRecord sha now orgId r (Some (ru_overlay u)) policy (ru_state u) = (i, x)" by fastforce
  note ext = inspect_external[where sha = sha and now = now and orgId = orgId and r = r and overlay = "Some (ru_overlay u)" and policy = policy and x = "ru_state u", unfolded i fst_conv]
  have mixed: "loop_ok E N (Suc n) (v\<lparr>ru_records := (ru_records v)[n := Some (fst w)], ru_state := snd w\<rparr>)"
    if "v = flushCreates sha now gap atomic policy (u\<lparr>ru_state := x, ru_mixed := True\<rparr>)" "w = ingestRecord sha now gap orgId policy r y" for v w y
  proof (rule loop_answer)
    have "loop_ok E N n (u\<lparr>ru_state := x, ru_mixed := True\<rparr>)" using ok by (simp add: loop_ok_def)
    then show "loop_ok E N n v" unfolding that(1) using flush_ok by blast
    show "rr_external_id (fst w) = E n" unfolding that(2) r by (rule record_external)
  qed
  show ?thesis
  proof (cases i)
    case (InsResult res)
    then show ?thesis using loop_answer[OF ok, of res x] ext by (simp add: ingest_step_def i r)
  next
    case (InsCreate k m c)
    then show ?thesis using ok ext r by (auto simp: ingest_step_def i loop_ok_def planned_for_def less_Suc_eq)
  qed (use mixed[OF refl refl] in \<open>simp_all add: ingest_step_def i Let_def split_def\<close>)
qed

lemma loop_all:
  assumes "loop_ok E N n u" and "\<And>k. k < length rs \<Longrightarrow> E (n + k) = ir_external_id (rs ! k)"
  shows "loop_ok E N (n + length rs) (fold (ingest_step sha uuid now gap atomic orgId policy) (List.enumerate n rs) u)"
  using assms
proof (induction rs arbitrary: n u)
  case (Cons r rs)
  have "E n = ir_external_id r" using Cons.prems(2)[of 0] by simp
  then have a: "loop_ok E N (Suc n) (ingest_step sha uuid now gap atomic orgId policy (n, r) u)" by (rule ingest_step_ok[OF Cons.prems(1)])
  have b: "E (Suc n + k) = ir_external_id (rs ! k)" if "k < length rs" for k using Cons.prems(2)[of "Suc k"] that by simp
  show ?case using Cons.IH[of "Suc n", OF a b] by simp
qed simp

lemma page_answers:
  assumes "planned_for E (ru_buffered u)"
  shows "\<exists>is. answers E is (ru_records u) (ru_records (snd (commitPreparedPage sha uuid now gap policy page prefs u)))"
proof -
  obtain attempt st where page: "page = (attempt, st)" by fastforce
  let ?c = "if ic_appends (ru_ingest u) = [] \<and> ic_dispositions (ru_ingest u) = [] then None else Some (ru_ingest u)"
  let ?st = "settled_page attempt st (List.map_filter id (ru_records u)) (\<lambda>i. uuid (length (ru_records u) + i))"
  obtain v t where v: "authority_commitSyncPage now attempt ?c ?st prefs (gap (ix_store (ru_state u))) = (v, t)" by fastforce
  show ?thesis
  proof (cases v)
    case (Inl err)
    have "answers E (pl_index ` set (ru_buffered u)) (ru_records u)
        (fst (reingest sha now gap policy (ru_buffered u) (ru_records u, with_store t (ru_state u))))"
      by (rule reingest_answers[OF assms])
    then show ?thesis using v Inl by (intro exI) (simp add: commitPreparedPage_def page Let_def split_def)
  next
    case (Inr r)
    then show ?thesis using v answers_refl[of E "ru_records u"] by (intro exI) (simp add: commitPreparedPage_def page Let_def)
  qed
qed

lemma loop_done:
  assumes "loop_ok E N N u" and "ru_pending u = []"
  shows "answers E {..<N} (List.replicate N None) (ru_records u)"
  using assms by (simp add: loop_ok_def answers_def)

lemma ingest_answers:
  assumes E: "\<And>k. k < length records \<Longrightarrow> E k = ir_external_id (records ! k)"
  shows "answers E {..<length records} (List.replicate (length records) None) (fst (ingest sha uuid lc now gap orgId records page x))"
proof -
  define policy where "policy = policyFor orgId (as_work (ix_store x))"
  define u where "u = fold (ingest_step sha uuid now gap (page \<noteq> None) orgId policy) (List.enumerate 0 records) (begin_batch (length records) x)"
  define v where "v = flushCreates sha now gap (page \<noteq> None) policy u"
  let ?N = "length records"
  have "loop_ok E ?N 0 (begin_batch ?N x)" by (simp add: loop_ok_def begin_batch_def planned_for_def)
  from loop_all[OF this, of records] E have "loop_ok E ?N ?N u" unfolding u_def by simp
  then have v: "loop_ok E ?N ?N v" "ru_pending v = []" unfolding v_def using flush_ok by blast+
  note ok = loop_done[OF v]
  show ?thesis
  proof (cases "page = None \<or> ru_mixed v")
    case True
    then have "fst (ingest sha uuid lc now gap orgId records page x) = ru_records v"
      unfolding ingest_def Let_def policy_def[symmetric] u_def[symmetric] v_def[symmetric] by (cases page) auto
    then show ?thesis using ok by simp
  next
    case False
    then obtain p where p: "page = Some p" and m: "\<not> ru_mixed v" by auto
    define prefs where "prefs = collectListSurfacePatches lc (st_finished_at (snd p)) orgId (run_event_ids v)
        (List.map planned_preview (ru_buffered v)) (ic_dispositions (ru_ingest v)) (ix_store (ru_state v))"
    have "planned_for E (ru_buffered v)" using v(1) by (simp add: loop_ok_def)
    from page_answers[OF this, of sha uuid now gap policy p prefs] obtain "is" where
      a: "answers E is (ru_records v) (ru_records (snd (commitPreparedPage sha uuid now gap policy p prefs v)))" by blast
    have "fst (ingest sha uuid lc now gap orgId records page x) = ru_records (snd (commitPreparedPage sha uuid now gap policy p prefs v))"
      using p m unfolding ingest_def Let_def policy_def[symmetric] u_def[symmetric] v_def[symmetric]
      by (simp add: prefs_def[symmetric] split_def)
    then show ?thesis using answers_trans[OF ok a] by (simp add: answers_def)
  qed
qed

text \<open>C7. Every record of a batch is answered in its place: whatever mixture of creates, revisions, duplicates,
  deletions and refusals the batch holds, with its page or without it, and whichever commits conflict on the way,
  the list of results is as long as the list of records and the result at each index is present and names the
  record of that index.\<close>

theorem batch_is_answered:
  "length (fst (ingest sha uuid lc now gap orgId records page x)) = length records
   \<and> (\<forall>i < length records. \<exists>res. fst (ingest sha uuid lc now gap orgId records page x) ! i = Some res
        \<and> rr_external_id res = ir_external_id (records ! i))"
  using ingest_answers[where E = "\<lambda>i. ir_external_id (records ! i)" and sha = sha and uuid = uuid and lc = lc and now = now and gap = gap
      and orgId = orgId and records = records and page = page and x = x]
  by (simp add: answers_def answered_def)

lemma batch_is_answered_witness:
  "\<exists>res. fst (ingest sample_sha (\<lambda>i. int_string (int i)) code_unit_compare ''t1'' alone ''o'' [sample_record, sample_record] None new_ingest_state) ! 1
     = Some res \<and> rr_external_id res = ''a:1''"
proof -
  let ?rs = "[sample_record, sample_record]"
  let ?a = "fst (ingest sample_sha (\<lambda>i. int_string (int i)) code_unit_compare ''t1'' alone ''o'' ?rs None new_ingest_state)"
  have "\<forall>i < length ?rs. \<exists>res. ?a ! i = Some res \<and> rr_external_id res = ir_external_id (?rs ! i)"
    by (rule batch_is_answered[THEN conjunct2])
  moreover have "1 < length ?rs" by simp
  ultimately have "\<exists>res. ?a ! 1 = Some res \<and> rr_external_id res = ir_external_id (?rs ! 1)" by blast
  then show ?thesis by (simp add: sample_record_def)
qed

end
