(* ===== verification/Spec2Isabelle.thy ===== *)
theory Spec2Isabelle
  imports RuntimeSync SlotPool WorkDelivery RecipeMatch RecipeTrigger IngestionLaws
begin

text \<open>
  A model of the core of Regenic, the TypeScript domain package \<open>packages/domain/src/\<close> with the parts of
  \<open>packages/connector-contract/src/\<close> and \<open>apps/api/src/\<close> that it speaks with.

  WHAT THE PROGRAM DOES. Connectors poll outside streams (chats, mailboxes, tickets). The synchronisation
  control plane decides which stream is polled next, on which lane, and records how far each stream has been
  read. Each page of records goes through ingestion into an append-only log of events, where every message is
  arranged as current work or not and conversations are folded in and out of the inbox. Recipes turn messages
  and clocks into work items, whose runs are started under a cap and whose results are delivered back to the
  channel.

  SYNCHRONISATION.
    SyncContracts, SyncCursor: the data of \<open>sync-contracts.ts\<close> and \<open>sync-work.ts\<close>; the cursor a poll commits and
      history policy (\<open>sync-cursor-commit.ts\<close>, \<open>sync-history.ts\<close>).
    SyncPhase: the phase machine of a stream (\<open>sync-phase.ts\<close>, \<open>sync-outcome.ts\<close>, \<open>sync-lifecycle.ts\<close>,
      \<open>sync-gate.ts\<close>) and the accounting of a poll.
    SyncCatalog: the directory of streams (\<open>sync-catalog.ts\<close>). SyncIdle, SyncCapacity: heat, pacing, tick capacity,
      the claim limit and mode presets. SyncWorkPlanner: which durable rows a phase write or a refresh owes.
    SyncScheduler, SyncStore, SyncEngine: the live ring and tick plans (\<open>sync-scheduler.ts\<close>, \<open>sync-ring.ts\<close>), the
      interface of a state store, and the engine over it (\<open>sync-engine.ts\<close>).
    SlotPool: reserved concurrency slots and their waiters (\<open>sync-budget.ts\<close>).
    RuntimeStore, RuntimeWork, RuntimeLeases, RuntimeQueue, RuntimeClaims, RuntimeRuns, RuntimeSync: the in-memory
      connector runtime store (\<open>memory-connector-runtime-store.ts\<close>): installations, leased cursors, attempts, work
      rows and runs as one record; \<open>runtime_step\<close> is one operation of the store.

  WORK.
    WorkTypes, WorkStore, WorkClaims: recipes, items, runs, deliveries and the in-memory work store
      (\<open>work.ts\<close>, \<open>memory-work-store.ts\<close>); \<open>work_step\<close> is one operation.
    WorkDelivery: the states of a delivery, the flush of one and of the due ones in batches (\<open>work-delivery.ts\<close>,
      \<open>personal-work-flush.ts\<close>).
    RecipeMatch, RecipeTrigger: which recipe takes a message, when a timed one runs (\<open>recipe-match.ts\<close>,
      \<open>recipe-trigger.ts\<close>). JsNumber, JsDate, PullClock, PullZone: numbers and dates as the language has them, and
      the search for the next wall clock time (\<open>pull-clock.ts\<close>).

  INGESTION.
    IngestTypes: records, events, conversation ids. Json: \<open>JSON.parse\<close> and \<open>JSON.stringify\<close>. Surface: the metadata
      part of a message (\<open>message.ts\<close>, \<open>message-contract.ts\<close>). Content: canonical content and attachments
      (\<open>content-parts.ts\<close>, \<open>canonicalization.ts\<close>, \<open>content-resolution.ts\<close>).
    Inbox: queries, heads, paging, digests (\<open>inbox-query.ts\<close>). AuthorityStore: the blob store and the authority store
      (\<open>memory-ingestion-stores.ts\<close>), one record \<open>authority_store\<close> whose log holds each event object under a reference,
      because the map of heads shares the objects of the log; \<open>authority_step\<close> is one operation.
    AuthorityInvariant, AuthorityLaws: what every run of operations keeps. ListSurface: folding (\<open>list-surface.ts\<close>).
    Arrangement: the disposition of a message (\<open>arrangement.ts\<close>, \<open>arrangement-service.ts\<close>,
      \<open>personal-dispatch-policy.ts\<close>). Ingestion, IngestionLaws: \<open>ingestion-service.ts\<close>, one record and a batch.

  HOW THE CODE IS MODELLED. Interfaces are records, unions are datatypes, a \<open>Map\<close> is an association list in
  insertion order, \<open>undefined\<close> is \<open>None\<close>, an exception is the left side of a sum and leaves the state that the code
  leaves. Asynchronous calls run one after the other; where others may interleave, the model quantifies over
  runs of operations, or has a parameter (\<open>gap\<close>) for what other writers do before a commit. Numbers are exact
  integers or rationals. Prelude has the language's strings, sorting and maps.

  WHAT IS PROVED. Synchronisation: leases and claims exclude others, rows are unique, finished runs stay finished,
  a phase falls back exactly when a page takes the seed of its stream back, a phase write enqueues and cancels
  exactly what it owes, a census is exact, the ring serves every due stream while nothing else changes, and the
  engine over either store is the phase machine (the locale \<open>sync_state_store\<close> is interpreted by both). Work: the
  cap of a recipe holds, an item has one active run, automatic flushes of the stored row do not send a delivery
  again while its send may run and a failing one ends, the best recipe takes a message, a timed recipe always
  moves on. Ingestion: the log only grows, no update is lost, heads are
  the newest events, clearing one organisation leaves the others as they were, a record delivered again is a
  duplicate, every record of a batch is answered, content, surfaces and digests are read back as written, folding
  follows its rule for every conversation, and the badge and the list agree.

  FUEL AND BOUNDS. The JSON parser runs on fuel twice the length of the text and two, and more fuel changes
  nothing (\<open>json_fuel_enough\<close>). Texts have code units below 256; letter case is folded on Latin-1. The clock search
  looks at 22 days, as the code does.

  PARAMETERS. SHA-256 (\<open>sha\<close>), random ids (\<open>uuid\<close>), the clock (\<open>now\<close>), \<open>localeCompare\<close> (\<open>lc\<close>), the time zone data of the
  host, and the channel call of a delivery. A property that needs one of them to behave says so in a premise
  that its witness discharges on a concrete function.

  WHAT MODELLING SHOWED. A paused run whose last row settles is queued again by resume and never completes. A page
  commit that is refused leaves its attempt running in memory. After a page conflict \<open>ingest\<close> folds and reopens
  conversations by the ids of events that were never written. The merged tick drops the media item of a stream
  with a text item. The in-memory \<open>commitIngest\<close> is not atomic.

  NOT MODELLED. The SQL stores, blob storage, zod schemas and the connectors run code that is not in the domain
  package (databases, files, services). The executors and the channel driver drive processes. The context engine,
  the standards and digests products and the user interface are separate from this core. Metrics, quotas, progress
  projections and labels are read-only.
\<close>

end
